(* ===== verification/Prelude.thy ===== *)
theory Prelude
  imports Complex_Main "HOL-Library.AList" "HOL-Library.Sublist"
begin

text \<open>
  Shared vocabulary of the development.

  \<^item> Python values: text is a list of code points (\<open>pystr\<close>), a \<open>float\<close> with its
    special values is \<open>pyfloat\<close>, an \<open>int\<close> is \<open>int\<close> (or \<open>nat\<close> where the code
    only ever holds lengths, counts and indices), identifiers and messages are \<open>string\<close>.
  \<^item> Exceptions are values of \<open>exn\<close>.  A query that may raise has type \<open>exn + 'a\<close>; an
    operation that changes the object it is called on takes the old state and returns the
    pair of its outcome and the state it leaves behind, so the mutations made before a
    \<open>raise\<close> stay visible.
  \<^item> Dictionaries are association lists in insertion order, with the library's
    \<open>AList.update\<close> (assignment: in place, or at the end for a new key) and
    \<open>AList.delete\<close> (\<open>pop\<close>).
  \<^item> Generic facts on dictionaries, ceiling division, list rotation and flattening, and the
    locale \<open>invariant_system\<close> that carries an invariant along a run.
\<close>

named_theorems op_defs \<open>definitions of operations, unfolded together\<close>

section \<open>Python values\<close>

type_synonym pystr = "int list"

type_synonym ('k, 'v) dict = "('k \<times> 'v) list"

text \<open>An argument where the code may get a value that is not a string: anything else is known by its
  type name and its truth value.\<close>

datatype pyobj = PyStr pystr | PyOther string bool

fun truthy :: "pyobj \<Rightarrow> bool" where
  "truthy (PyStr s) = (s \<noteq> [])"
| "truthy (PyOther ty b) = b"

fun is_pystr :: "pyobj \<Rightarrow> bool" where
  "is_pystr (PyStr s) = True"
| "is_pystr (PyOther ty b) = False"

datatype pyfloat = Fin real | PosInf | NegInf | NaN

fun flt_neg :: "pyfloat \<Rightarrow> bool" where
  "flt_neg (Fin r) = (r < 0)"
| "flt_neg PosInf = False"
| "flt_neg NegInf = True"
| "flt_neg NaN = False"

text \<open>\<open>xs[a:b]\<close> for \<open>0 \<le> a \<le> b\<close>.\<close>

definition slice :: "'a list \<Rightarrow> nat \<Rightarrow> nat \<Rightarrow> 'a list" where
  "slice xs a b = take (b - a) (drop a xs)"

definition startswith :: "'a list \<Rightarrow> 'a list \<Rightarrow> bool" where
  "startswith s p \<longleftrightarrow> take (length p) s = p"

definition endswith :: "'a list \<Rightarrow> 'a list \<Rightarrow> bool" where
  "endswith s p \<longleftrightarrow> length p \<le> length s \<and> drop (length s - length p) s = p"

fun show_nat :: "nat \<Rightarrow> string" where
  "show_nat n =
     (if n < 10 then [char_of (48 + n)] else show_nat (n div 10) @ [char_of (48 + n mod 10)])"

declare show_nat.simps [simp del]

definition show_int :: "int \<Rightarrow> string" where
  "show_int i = (if i < 0 then ''-'' @ show_nat (nat (- i)) else show_nat (nat i))"

text \<open>A word in single quotes, as messages and \<open>repr\<close> show it.\<close>

definition quoted :: "string \<Rightarrow> string" where
  "quoted s = [CHR 0x27] @ s @ [CHR 0x27]"

section \<open>Exceptions\<close>

datatype exn =
    MemoryError string
  | RuntimeError string
  | ValueError string
  | TypeError string
  | FileNotFoundError string
  | KeyError string
  | AttributeError string
  | OverflowError string
  | IndexError
  | ZeroDivisionError

text \<open>\<open>zip(xs, ys, strict=True)\<close>.\<close>

definition zip_strict :: "'a list \<Rightarrow> 'b list \<Rightarrow> exn + ('a \<times> 'b) list" where
  "zip_strict xs ys =
     (if length ys < length xs then Inl (ValueError ''zip() argument 2 is shorter than argument 1'')
      else if length xs < length ys
        then Inl (ValueError ''zip() argument 2 is longer than argument 1'')
      else Inr (zip xs ys))"

text \<open>\<open>str(error)\<close>; the argument of a \<open>KeyError\<close> is shown by its \<open>repr\<close>.\<close>

fun str_exn :: "exn \<Rightarrow> string" where
  "str_exn (MemoryError m) = m"
| "str_exn (RuntimeError m) = m"
| "str_exn (ValueError m) = m"
| "str_exn (TypeError m) = m"
| "str_exn (FileNotFoundError m) = m"
| "str_exn (KeyError k) = quoted k"
| "str_exn (AttributeError m) = m"
| "str_exn (OverflowError m) = m"
| "str_exn IndexError = ''list index out of range''"
| "str_exn ZeroDivisionError = ''integer division or modulo by zero''"

text \<open>\<open>any(text.endswith(stop) for stop in stops)\<close>; other values are neither strings nor tuples of
  strings.\<close>

fun any_endswith :: "pystr \<Rightarrow> pyobj list \<Rightarrow> exn + bool" where
  "any_endswith t [] = Inr False"
| "any_endswith t (PyStr stop # stops) = (if endswith t stop then Inr True else any_endswith t stops)"
| "any_endswith t (PyOther ty b # stops) =
     Inl (TypeError (''endswith first arg must be str or a tuple of str, not '' @ ty))"

lemma any_endswith_strings:
  "list_all is_pystr stops \<Longrightarrow>
     any_endswith t stops = Inr (list_ex (\<lambda>stop. case stop of PyStr s \<Rightarrow> endswith t s | _ \<Rightarrow> False) stops)"
  by (induction t stops rule: any_endswith.induct) auto

text \<open>\<open>xs[i]\<close> with Python's reading of negative indices.\<close>

definition py_get :: "'a list \<Rightarrow> int \<Rightarrow> exn + 'a" where
  "py_get xs i =
     (if i \<ge> int (length xs) \<or> i < - int (length xs) then Inl IndexError
      else if i \<ge> 0 then Inr (xs ! nat i)
      else Inr (xs ! (length xs - nat (- i))))"

lemma py_get_nonneg: "0 \<le> i \<Longrightarrow> i < int (length xs) \<Longrightarrow> py_get xs i = Inr (xs ! nat i)"
  by (simp add: py_get_def)

section \<open>Dictionaries\<close>

abbreviation dict_keys :: "('k, 'v) dict \<Rightarrow> 'k list" where
  "dict_keys d \<equiv> map fst d"

abbreviation dict_vals :: "('k, 'v) dict \<Rightarrow> 'v list" where
  "dict_vals d \<equiv> map snd d"

text \<open>\<open>d.setdefault(k, []).append(x)\<close>\<close>

definition dict_append :: "'k \<Rightarrow> 'v \<Rightarrow> ('k, 'v list) dict \<Rightarrow> ('k, 'v list) dict" where
  "dict_append k x d =
     AList.update k ((case map_of d k of None \<Rightarrow> [] | Some xs \<Rightarrow> xs) @ [x]) d"

lemma map_of_None_iff: "map_of d k = None \<longleftrightarrow> k \<notin> set (dict_keys d)"
  by (induction d) auto

lemma map_of_Some_in_keys: "map_of d k = Some v \<Longrightarrow> k \<in> set (dict_keys d)"
  by (induction d) (auto split: if_splits)

lemma keys_update: "dict_keys (AList.update k v d) =
    (if k \<in> set (dict_keys d) then dict_keys d else dict_keys d @ [k])"
  by (induction d) auto

lemma update_fresh: "k \<notin> set (dict_keys d) \<Longrightarrow> AList.update k v d = d @ [(k, v)]"
  by (induction d) auto

lemma keys_delete: "dict_keys (AList.delete k d) = filter (\<lambda>x. x \<noteq> k) (dict_keys d)"
  by (induction d) (auto simp: AList.delete_eq)

lemma delete_absent: "k \<notin> set (dict_keys d) \<Longrightarrow> AList.delete k d = d"
  by (induction d) (auto simp: AList.delete_eq)

lemma delete_append: "AList.delete k (d @ e) = AList.delete k d @ AList.delete k e"
  by (simp add: AList.delete_eq)

lemma distinct_keys_update:
  "distinct (dict_keys d) \<Longrightarrow> distinct (dict_keys (AList.update k v d))"
  by (simp add: keys_update)

lemma distinct_keys_delete:
  "distinct (dict_keys d) \<Longrightarrow> distinct (dict_keys (AList.delete k d))"
  by (simp add: keys_delete)

text \<open>A dictionary with distinct keys splits at the entry a lookup finds.\<close>

lemma dict_split:
  assumes "map_of d k = Some v"
  obtains d1 d2 where "d = d1 @ (k, v) # d2" and "k \<notin> set (dict_keys d1)"
proof -
  from assms have "\<exists>d1 d2. d = d1 @ (k, v) # d2 \<and> k \<notin> set (dict_keys d1)"
  proof (induction d)
    case Nil
    then show ?case by simp
  next
    case (Cons p d)
    show ?case
    proof (cases "fst p = k")
      case True
      with Cons.prems have "p = (k, v)" by (cases p) auto
      then have "p # d = [] @ (k, v) # d" by simp
      then show ?thesis by (metis list.set(1) empty_iff list.map(1))
    next
      case False
      with Cons.prems have "map_of d k = Some v" by (cases p) auto
      then obtain d1 d2 where "d = d1 @ (k, v) # d2" "k \<notin> set (dict_keys d1)"
        using Cons.IH by blast
      with False have "p # d = (p # d1) @ (k, v) # d2" "k \<notin> set (dict_keys (p # d1))"
        by auto
      then show ?thesis by blast
    qed
  qed
  then show ?thesis using that by blast
qed

lemma update_split:
  "k \<notin> set (dict_keys d1) \<Longrightarrow>
     AList.update k w (d1 @ (k, v) # d2) = d1 @ (k, w) # d2"
  by (induction d1) auto

lemma delete_split:
  "k \<notin> set (dict_keys d1) \<Longrightarrow> k \<notin> set (dict_keys d2) \<Longrightarrow>
     AList.delete k (d1 @ (k, v) # d2) = d1 @ d2"
  by (simp add: delete_append delete_absent)

section \<open>Ceiling division\<close>

text \<open>\<open>(a + b - 1) // b\<close>, the number of blocks of size \<open>b\<close> that cover \<open>a\<close> tokens.\<close>

definition ceil_div :: "nat \<Rightarrow> nat \<Rightarrow> nat" where
  "ceil_div a b = (a + b - 1) div b"

lemma ceil_div_le_iff: "0 < b \<Longrightarrow> ceil_div a b \<le> k \<longleftrightarrow> a \<le> k * b"
proof -
  assume b: "0 < b"
  have "ceil_div a b \<le> k \<longleftrightarrow> ceil_div a b < Suc k" by auto
  also have "\<dots> \<longleftrightarrow> a + b - 1 < Suc k * b"
    using b by (simp add: ceil_div_def div_less_iff_less_mult)
  also have "\<dots> \<longleftrightarrow> a \<le> k * b" using b by auto
  finally show ?thesis .
qed

lemma ceil_div_covers: "0 < b \<Longrightarrow> a \<le> ceil_div a b * b"
  using ceil_div_le_iff by blast

lemma ceil_div_mono: "0 < b \<Longrightarrow> a \<le> a' \<Longrightarrow> ceil_div a b \<le> ceil_div a' b"
  by (simp add: ceil_div_def div_le_mono)

lemma div_less_ceil_div: "0 < b \<Longrightarrow> p < a \<Longrightarrow> p div b < ceil_div a b"
proof -
  assume b: "0 < b" and p: "p < a"
  from p ceil_div_covers [OF b] have "p < ceil_div a b * b" by (rule less_le_trans)
  then show ?thesis using b by (simp add: div_less_iff_less_mult)
qed

section \<open>Lists\<close>

lemma startswith_append [simp]: "startswith (p @ s) p"
  by (simp add: startswith_def)

lemma startswith_drop: "startswith s p \<Longrightarrow> p @ drop (length p) s = s"
  by (metis append_take_drop_id startswith_def)

lemma endswith_iff: "endswith s p \<longleftrightarrow> (\<exists>t. s = t @ p)"
proof
  assume "endswith s p"
  then have "s = take (length s - length p) s @ p"
    by (metis append_take_drop_id endswith_def)
  then show "\<exists>t. s = t @ p" ..
next
  assume "\<exists>t. s = t @ p"
  then show "endswith s p" by (auto simp: endswith_def)
qed

lemma sum_list_le_length:
  "(\<And>x. x \<in> set xs \<Longrightarrow> f x \<le> b) \<Longrightarrow> sum_list (map f xs) \<le> length xs * (b::nat)"
  by (induction xs) (auto intro: add_mono)

lemma subseq_distinct: "subseq xs ys \<Longrightarrow> distinct ys \<Longrightarrow> distinct xs"
  by (induction rule: list_emb.induct) (auto dest: list_emb_set)

lemma set_update_distinct:
  "distinct (dict_keys d) \<Longrightarrow>
     (k, v) \<in> set (AList.update r x d) \<Longrightarrow> (k = r \<and> v = x) \<or> (k \<noteq> r \<and> (k, v) \<in> set d)"
  by (induction d) (force split: if_splits)+

lemma map_remove1_distinct:
  "distinct (map f xs) \<Longrightarrow> x \<in> set xs \<Longrightarrow> map f (remove1 x xs) = remove1 (f x) (map f xs)"
  by (induction xs) (auto, metis imageI)

lemma distinct_count_list: "distinct xs \<Longrightarrow> count_list xs x = (if x \<in> set xs then 1 else 0)"
  by (induction xs) auto

lemma count_list_remove1:
  "count_list (remove1 x xs) y = count_list xs y - (if x = y then 1 else 0)"
  by (induction xs) (auto simp: count_list_0_iff)

lemma distinct_concat_map:
  assumes "distinct (map g xs)" and "\<And>x. x \<in> set xs \<Longrightarrow> distinct (f x)"
    and "\<And>x y. x \<in> set xs \<Longrightarrow> y \<in> set xs \<Longrightarrow> g x \<noteq> g y \<Longrightarrow> set (f x) \<inter> set (f y) = {}"
  shows "distinct (concat (map f xs))"
  using assms
proof (induction xs)
  case Nil
  then show ?case by simp
next
  case (Cons x xs)
  have "set (f x) \<inter> set (f y) = {}" if "y \<in> set xs" for y
    using Cons.prems(1,3) that by (auto intro!: Cons.prems(3))
  moreover have "distinct (concat (map f xs))" using Cons.prems by (intro Cons.IH) auto
  ultimately show ?case using Cons.prems(2) by auto
qed

section \<open>Invariants of runs\<close>

text \<open>
  A component as a labelled step function that may raise: its invariant, once shown for the
  initial state and for each handler, holds after every sequence of calls.
\<close>

locale invariant_system =
  fixes step :: "'e \<Rightarrow> 's \<Rightarrow> 's"
    and ok :: "'e \<Rightarrow> 's \<Rightarrow> bool"
    and inv :: "'s \<Rightarrow> bool"
  assumes step_inv: "inv s \<Longrightarrow> ok e s \<Longrightarrow> inv (step e s)"
begin

fun admissible :: "'e list \<Rightarrow> 's \<Rightarrow> bool" where
  "admissible [] s = True"
| "admissible (e # es) s = (ok e s \<and> admissible es (step e s))"

lemma fold_inv: "inv s \<Longrightarrow> admissible es s \<Longrightarrow> inv (fold step es s)"
  by (induction es arbitrary: s) (auto intro: step_inv)

lemma admissible_append:
  "admissible (es @ es') s \<longleftrightarrow> admissible es s \<and> admissible es' (fold step es s)"
  by (induction es arbitrary: s) auto

end

end
