(* ===== verification/Protocol.thy ===== *)
theory Protocol
  imports Prelude
begin

text \<open>
  The messages and configuration objects of the engine: \<open>minivllm/config.py\<close> and
  \<open>minivllm/protocol.py\<close>.  Every dataclass is a record with the source's fields (prefixed
  by the class, since record fields share one name space), every enumeration a datatype.
  The validating constructors (\<open>__post_init__\<close>) are functions that return the object or
  the exception; the lemmas at the end say exactly which objects they let through.
\<close>

section \<open>Configuration (config.py)\<close>

record sampling_params =
  sp_max_tokens :: int
  sp_temperature :: pyfloat
  sp_stop :: "pyobj list"

definition default_sampling_params :: sampling_params where
  "default_sampling_params = \<lparr>sp_max_tokens = 16, sp_temperature = Fin 0, sp_stop = []\<rparr>"

definition sampling_params_post_init :: "sampling_params \<Rightarrow> exn + sampling_params" where
  "sampling_params_post_init p =
     (if sp_max_tokens p \<le> 0 then Inl (ValueError ''max_tokens must be positive'')
      else if flt_neg (sp_temperature p)
        then Inl (ValueError ''temperature must be non-negative'')
      else if list_ex (\<lambda>item. \<not> truthy item) (sp_stop p)
        then Inl (ValueError ''stop strings must not be empty'')
      else Inr p)"

record engine_config =
  data_parallel_size :: int
  data_parallel_rank :: int
  max_num_seqs :: int
  max_num_batched_tokens :: int
  max_model_len :: int
  block_size :: int
  num_gpu_blocks :: int
  worker_backend :: string
  model_path :: "string option"
  tokenizer_path :: "string option"
  device :: string
  dtype :: string
  attention_backend :: string
  cudagraph_mode :: string
  cudagraph_capture_sizes :: "int list"
  process_start_method :: string
  scheduler_idle_timeout_s :: pyfloat

definition default_engine_config :: engine_config where
  "default_engine_config = \<lparr>
     data_parallel_size = 1, data_parallel_rank = 0, max_num_seqs = 32,
     max_num_batched_tokens = 256, max_model_len = 2048, block_size = 16,
     num_gpu_blocks = 256, worker_backend = ''reference'', model_path = None,
     tokenizer_path = None, device = ''auto'', dtype = ''auto'',
     attention_backend = ''auto'', cudagraph_mode = ''none'',
     cudagraph_capture_sizes = [1, 2, 4, 8, 16, 32], process_start_method = ''spawn'',
     scheduler_idle_timeout_s = Fin (1 / 100)\<rparr>"

text \<open>The dictionary \<open>positive\<close>, in the order the validation loop walks it.\<close>

definition config_positive :: "engine_config \<Rightarrow> (string \<times> int) list" where
  "config_positive c =
     [(''data_parallel_size'', data_parallel_size c),
      (''max_num_seqs'', max_num_seqs c),
      (''max_num_batched_tokens'', max_num_batched_tokens c),
      (''max_model_len'', max_model_len c),
      (''block_size'', block_size c),
      (''num_gpu_blocks'', num_gpu_blocks c)]"

definition engine_config_post_init :: "engine_config \<Rightarrow> exn + engine_config" where
  "engine_config_post_init c =
     (case find (\<lambda>(name, value). value \<le> 0) (config_positive c) of
        Some (name, value) \<Rightarrow> Inl (ValueError (name @ '' must be positive''))
      | None \<Rightarrow>
          if worker_backend c \<notin> set [''reference'', ''cuda'']
            then Inl (ValueError (''worker_backend must be '' @ quoted ''reference'' @ '' or '' @ quoted ''cuda''))
          else if device c \<noteq> ''auto'' \<and> device c \<noteq> ''cpu'' \<and> \<not> startswith (device c) ''cuda''
            then Inl (ValueError (''device must be '' @ quoted ''auto'' @ '', '' @ quoted ''cpu''
                              @ '', or a CUDA device''))
          else if dtype c \<notin> set [''auto'', ''float32'', ''float16'', ''bfloat16'']
            then Inl (ValueError ''unsupported model dtype'')
          else if attention_backend c \<notin> set [''auto'', ''torch'', ''custom'']
            then Inl (ValueError ''unsupported attention backend'')
          else if cudagraph_mode c \<notin> set [''none'', ''full_decode_only'']
            then Inl (ValueError (''cudagraph_mode must be '' @ quoted ''none'' @ '' or ''
                              @ quoted ''full_decode_only''))
          else if cudagraph_capture_sizes c = []
              \<or> list_ex (\<lambda>size. size \<le> 0) (cudagraph_capture_sizes c)
              \<or> sort (remdups (cudagraph_capture_sizes c)) \<noteq> cudagraph_capture_sizes c
            then Inl (ValueError ''cudagraph_capture_sizes must be sorted unique positives'')
          else if data_parallel_rank c < 0
            then Inl (ValueError ''data_parallel_rank must be non-negative'')
          else if process_start_method c \<notin> set [''spawn'', ''fork'', ''forkserver'']
            then Inl (ValueError ''unsupported multiprocessing start method'')
          else Inr c)"

section \<open>Messages (protocol.py)\<close>

datatype command_type = ADD | ABORT_CMD | SHUTDOWN

datatype finish_reason = STOP | LENGTH | ABORT | ERROR

record engine_request =
  er_request_id :: string
  er_prompt :: pystr
  er_prompt_token_ids :: "int list"
  er_sampling_params :: sampling_params

record engine_command =
  ec_type :: command_type
  ec_request :: "engine_request option"
  ec_request_id :: "string option"

record batch_metrics =
  bm_batch_id :: int
  bm_rank :: int
  bm_num_requests :: nat
  bm_num_scheduled_tokens :: nat
  bm_num_prefill_tokens :: int
  bm_num_decode_tokens :: int
  bm_execute_time_s :: real
  bm_execution_mode :: string

record request_metrics =
  rm_time_to_first_token_s :: "real option"
  rm_inter_token_latency_s :: "real option"
  rm_end_to_end_latency_s :: "real option"
  rm_num_output_tokens :: nat

record request_output =
  ro_request_id :: string
  ro_token_ids :: "int list"
  ro_text :: pystr
  ro_finished :: bool
  ro_finish_reason :: "finish_reason option"
  ro_error :: "string option"
  ro_metrics :: "batch_metrics option"
  ro_request_metrics :: "request_metrics option"

record worker_item =
  wi_request_id :: string
  wi_token_ids :: "int list"
  wi_start_pos :: int
  wi_slot_mapping :: "int list"
  wi_block_table :: "int list"
  wi_seq_len :: int
  wi_generated_count :: int
  wi_should_sample :: bool
  wi_temperature :: pyfloat

record worker_batch =
  wb_batch_id :: int
  wb_items :: "worker_item list"

record engine_metrics_snapshot =
  total_batches :: nat
  total_scheduled_tokens :: nat
  total_prefill_tokens :: int
  total_decode_tokens :: int
  total_worker_execute_time_s :: real

definition average_tokens_per_batch :: "engine_metrics_snapshot \<Rightarrow> real" where
  "average_tokens_per_batch m =
     (if total_batches m = 0 then 0
      else real (total_scheduled_tokens m) / real (total_batches m))"

record worker_result =
  wr_batch_id :: int
  wr_rank :: int
  wr_sampled_token_ids :: "(string, int) dict"
  wr_error :: "string option"
  wr_metrics :: "batch_metrics option"

record worker_command =
  wc_batch :: "worker_batch option"
  wc_shutdown :: bool

text \<open>What travels on an output queue: \<open>RequestOutput | BatchMetrics\<close>.\<close>

datatype out_event = EvOutput request_output | EvMetrics batch_metrics

section \<open>What the validating constructors accept\<close>

definition capture_sizes_ok :: "int list \<Rightarrow> bool" where
  "capture_sizes_ok xs \<longleftrightarrow> xs \<noteq> [] \<and> (\<forall>x\<in>set xs. 0 < x) \<and> sorted_wrt (<) xs"

text \<open>The numeric facts the engine relies on, which every validated configuration has.\<close>

definition valid_config :: "engine_config \<Rightarrow> bool" where
  "valid_config c \<longleftrightarrow>
     0 < data_parallel_size c \<and> 0 < max_num_seqs c \<and> 0 < max_num_batched_tokens c \<and>
     0 < max_model_len c \<and> 0 < block_size c \<and> 0 < num_gpu_blocks c \<and>
     0 \<le> data_parallel_rank c \<and> capture_sizes_ok (cudagraph_capture_sizes c)"

lemma sort_remdups_fixpoint:
  "sort (remdups xs) = xs \<longleftrightarrow> sorted_wrt (<) (xs :: 'a::linorder list)"
proof
  assume eq: "sort (remdups xs) = xs"
  have "sorted (sort (remdups xs))" "distinct (sort (remdups xs))" by simp_all
  with eq show "sorted_wrt (<) xs" by (simp add: strict_sorted_iff)
next
  assume "sorted_wrt (<) xs"
  then have "sorted xs" "distinct xs" by (simp_all add: strict_sorted_iff)
  then show "sort (remdups xs) = xs" by (simp add: distinct_remdups_id sorted_sort_id)
qed

text \<open>The option fields hold one of the names the engine knows.\<close>

definition valid_options :: "engine_config \<Rightarrow> bool" where
  "valid_options c \<longleftrightarrow>
     worker_backend c \<in> {''reference'', ''cuda''} \<and>
     (device c = ''auto'' \<or> device c = ''cpu'' \<or> startswith (device c) ''cuda'') \<and>
     dtype c \<in> {''auto'', ''float32'', ''float16'', ''bfloat16''} \<and>
     attention_backend c \<in> {''auto'', ''torch'', ''custom''} \<and>
     cudagraph_mode c \<in> {''none'', ''full_decode_only''} \<and>
     process_start_method c \<in> {''spawn'', ''fork'', ''forkserver''}"

lemma config_positive_ok:
  "find (\<lambda>(name, value). value \<le> 0) (config_positive c) = None \<longleftrightarrow>
     0 < data_parallel_size c \<and> 0 < max_num_seqs c \<and> 0 < max_num_batched_tokens c \<and>
     0 < max_model_len c \<and> 0 < block_size c \<and> 0 < num_gpu_blocks c"
  by (auto simp: config_positive_def)

lemma capture_check_iff:
  "xs = [] \<or> list_ex (\<lambda>size. size \<le> 0) xs \<or> sort (remdups xs) \<noteq> xs \<longleftrightarrow>
     \<not> capture_sizes_ok xs"
  unfolding sort_remdups_fixpoint capture_sizes_ok_def by (fastforce simp: list_ex_iff not_le)

text \<open>
  C28. Validation of the engine configuration is exact: it returns the configuration
  unchanged when every size is positive, the data-parallel rank is not negative, the
  CUDA-graph capture sizes are a non-empty strictly increasing list of positive sizes and
  every option names something the engine knows; in every other case it raises
  \<open>ValueError\<close>.
\<close>

theorem engine_config_validation_exact:
  "case engine_config_post_init c of
     Inr c' \<Rightarrow> c' = c \<and> valid_config c \<and> valid_options c
   | Inl e \<Rightarrow> \<not> (valid_config c \<and> valid_options c) \<and> (\<exists>m. e = ValueError m)"
proof (cases "find (\<lambda>(name, value). value \<le> 0) (config_positive c)")
  case None
  note pos = config_positive_ok [of c, THEN iffD1, OF None]
  show ?thesis
    unfolding engine_config_post_init_def capture_check_iff None
    by (simp only: option.case pos valid_config_def valid_options_def list.set sum.case
        simp_thms if_splits not_le) (simp split: if_split)
next
  case (Some p)
  then have "\<not> valid_config c" using config_positive_ok [of c] by (auto simp: valid_config_def)
  with Some show ?thesis by (cases p) (simp add: engine_config_post_init_def)
qed

text \<open>
  What a \<open>SamplingParams\<close> object is known to satisfy: a positive token limit, no negative
  temperature and no empty stop string (a \<open>NaN\<close> temperature is let through, since it
  does not compare below zero, and so is a stop value that is not a string).
\<close>

definition valid_sampling :: "sampling_params \<Rightarrow> bool" where
  "valid_sampling p \<longleftrightarrow>
     0 < sp_max_tokens p \<and> \<not> flt_neg (sp_temperature p) \<and> list_all truthy (sp_stop p)"

lemma sampling_params_validation:
  "sampling_params_post_init p = Inr p' \<longleftrightarrow> p' = p \<and> valid_sampling p"
  by (auto simp: sampling_params_post_init_def valid_sampling_def list_ex_iff list_all_iff)

lemma nan_temperature_accepted:
  "sampling_params_post_init (default_sampling_params\<lparr>sp_temperature := NaN\<rparr>) =
     Inr (default_sampling_params\<lparr>sp_temperature := NaN\<rparr>)"
  by (simp add: sampling_params_post_init_def default_sampling_params_def)

lemma default_config_valid: "valid_config default_engine_config"
  by (simp add: valid_config_def default_engine_config_def capture_sizes_ok_def)

end
