(* ===== verification/Cache.thy ===== *)
theory Cache
  imports Protocol
begin

text \<open>
  \<open>minivllm/cache.py\<close>: the physical block pool and the per-request block tables of one
  rank.  Block ids, counts and token positions are \<open>nat\<close>: the code only ever passes
  lengths, \<open>max(0, ...)\<close> results and ids handed out by the pool.

  The contract of the pool towards its client, the cache manager, is the locale
  \<open>block_allocator\<close>; the contract of the manager towards the scheduler is the locale
  \<open>paged_cache\<close>.  Both are interpreted on the definitions of this theory.  \<open>Cache_Owner\<close>
  continues with sequences of calls and the refinement of a map from blocks to owners.
\<close>

section \<open>BlockPool\<close>

record block_pool =
  bp_num_blocks :: nat
  bp_free :: "nat list"
  bp_used :: "nat set"

definition block_pool_init :: "nat \<Rightarrow> block_pool" where
  "block_pool_init num_blocks =
     \<lparr>bp_num_blocks = num_blocks, bp_free = rev [0..<num_blocks], bp_used = {}\<rparr>"

definition num_free_blocks :: "block_pool \<Rightarrow> nat" where
  "num_free_blocks p = length (bp_free p)"

text \<open>\<open>[self._free.pop() for _ in range(count)]\<close>: blocks leave from the end of the list.\<close>

fun pop_blocks :: "nat \<Rightarrow> nat list \<Rightarrow> nat list \<times> nat list" where
  "pop_blocks 0 fs = ([], fs)"
| "pop_blocks (Suc n) fs = (let (bs, fs') = pop_blocks n (butlast fs) in (last fs # bs, fs'))"

definition pool_allocate :: "block_pool \<Rightarrow> nat \<Rightarrow> (exn + nat list) \<times> block_pool" where
  "pool_allocate p count =
     (if count > length (bp_free p)
      then (Inl (MemoryError ''paged KV cache has no free physical blocks''), p)
      else let (blocks, fs) = pop_blocks count (bp_free p)
           in (Inr blocks, p\<lparr>bp_free := fs, bp_used := bp_used p \<union> set blocks\<rparr>))"

fun pool_free :: "block_pool \<Rightarrow> nat list \<Rightarrow> (exn + unit) \<times> block_pool" where
  "pool_free p [] = (Inr (), p)"
| "pool_free p (block # blocks) =
     (if block \<notin> bp_used p
      then (Inl (RuntimeError (''physical block '' @ show_nat block @ '' is not allocated'')), p)
      else pool_free (p\<lparr>bp_used := bp_used p - {block}, bp_free := bp_free p @ [block]\<rparr>) blocks)"

section \<open>KVCacheManager\<close>

record block_table =
  physical_blocks :: "nat list"

record kv_manager =
  kv_block_size :: nat
  kv_pool :: block_pool
  kv_tables :: "(string, block_table) dict"

definition kv_init :: "nat \<Rightarrow> nat \<Rightarrow> kv_manager" where
  "kv_init num_blocks bsize =
     \<lparr>kv_block_size = bsize, kv_pool = block_pool_init num_blocks, kv_tables = []\<rparr>"

definition kv_create :: "kv_manager \<Rightarrow> string \<Rightarrow> (exn + unit) \<times> kv_manager" where
  "kv_create m r =
     (if r \<in> set (dict_keys (kv_tables m))
      then (Inl (RuntimeError (''request '' @ r @ '' already has a block table'')), m)
      else (Inr (), m\<lparr>kv_tables := AList.update r \<lparr>physical_blocks = []\<rparr> (kv_tables m)\<rparr>))"

definition kv_blocks_needed :: "kv_manager \<Rightarrow> string \<Rightarrow> nat \<Rightarrow> exn + nat" where
  "kv_blocks_needed m r target_tokens =
     (case map_of (kv_tables m) r of
        None \<Rightarrow> Inl (KeyError r)
      | Some tbl \<Rightarrow>
          if kv_block_size m = 0 then Inl ZeroDivisionError
          else Inr (ceil_div target_tokens (kv_block_size m) - length (physical_blocks tbl)))"

definition kv_can_reserve :: "kv_manager \<Rightarrow> string \<Rightarrow> nat \<Rightarrow> exn + bool" where
  "kv_can_reserve m r target_tokens =
     (case kv_blocks_needed m r target_tokens of
        Inl e \<Rightarrow> Inl e
      | Inr n \<Rightarrow> Inr (n \<le> num_free_blocks (kv_pool m)))"

definition kv_reserve :: "kv_manager \<Rightarrow> string \<Rightarrow> nat \<Rightarrow> (exn + unit) \<times> kv_manager" where
  "kv_reserve m r target_tokens =
     (case kv_blocks_needed m r target_tokens of
        Inl e \<Rightarrow> (Inl e, m)
      | Inr count \<Rightarrow>
          (case map_of (kv_tables m) r of
             None \<Rightarrow> (Inl (KeyError r), m)
           | Some tbl \<Rightarrow>
               (case pool_allocate (kv_pool m) count of
                  (Inl e, p') \<Rightarrow> (Inl e, m\<lparr>kv_pool := p'\<rparr>)
                | (Inr blocks, p') \<Rightarrow>
                    (Inr (), m\<lparr>kv_pool := p',
                               kv_tables := AList.update r
                                 (tbl\<lparr>physical_blocks := physical_blocks tbl @ blocks\<rparr>)
                                 (kv_tables m)\<rparr>))))"

fun slots_loop :: "nat list \<Rightarrow> nat \<Rightarrow> nat list \<Rightarrow> exn + nat list" where
  "slots_loop tbl bsize [] = Inr []"
| "slots_loop tbl bsize (position # positions) =
     (if bsize = 0 then Inl ZeroDivisionError
      else let logical_block = position div bsize; off = position mod bsize
           in if logical_block < length tbl
              then (case slots_loop tbl bsize positions of
                      Inl e \<Rightarrow> Inl e
                    | Inr ss \<Rightarrow> Inr ((tbl ! logical_block * bsize + off) # ss))
              else Inl IndexError)"

definition kv_slots :: "kv_manager \<Rightarrow> string \<Rightarrow> nat \<Rightarrow> nat \<Rightarrow> exn + nat list" where
  "kv_slots m r start count =
     (case map_of (kv_tables m) r of
        None \<Rightarrow> Inl (KeyError r)
      | Some tbl \<Rightarrow> slots_loop (physical_blocks tbl) (kv_block_size m) [start..<start + count])"

definition kv_block_table :: "kv_manager \<Rightarrow> string \<Rightarrow> exn + nat list" where
  "kv_block_table m r =
     (case map_of (kv_tables m) r of
        None \<Rightarrow> Inl (KeyError r)
      | Some tbl \<Rightarrow> Inr (physical_blocks tbl))"

definition kv_release :: "kv_manager \<Rightarrow> string \<Rightarrow> (exn + unit) \<times> kv_manager" where
  "kv_release m r =
     (case map_of (kv_tables m) r of
        None \<Rightarrow> (Inr (), m)
      | Some tbl \<Rightarrow>
          (case pool_free (kv_pool m) (physical_blocks tbl) of
             (res, p') \<Rightarrow> (res, m\<lparr>kv_tables := AList.delete r (kv_tables m), kv_pool := p'\<rparr>)))"

section \<open>The pool as an allocator\<close>

text \<open>
  What the manager needs from a pool: a granted allocation hands out that many distinct
  blocks from the available ones, a refused one changes nothing, and returning taken blocks
  succeeds and makes them available again.
\<close>

locale block_allocator =
  fixes alloc :: "'p \<Rightarrow> nat \<Rightarrow> (exn + nat list) \<times> 'p"
    and give_back :: "'p \<Rightarrow> nat list \<Rightarrow> (exn + unit) \<times> 'p"
    and avail :: "'p \<Rightarrow> nat set"
    and taken :: "'p \<Rightarrow> nat set"
    and invar :: "'p \<Rightarrow> bool"
  assumes finite_avail: "invar p \<Longrightarrow> finite (avail p)"
    and disjoint: "invar p \<Longrightarrow> avail p \<inter> taken p = {}"
    and alloc_refused: "invar p \<Longrightarrow> card (avail p) < n \<Longrightarrow> \<exists>e. alloc p n = (Inl e, p)"
    and alloc_granted: "invar p \<Longrightarrow> n \<le> card (avail p) \<Longrightarrow>
      \<exists>bs p'. alloc p n = (Inr bs, p') \<and> length bs = n \<and> distinct bs \<and> set bs \<subseteq> avail p \<and>
        avail p' = avail p - set bs \<and> taken p' = taken p \<union> set bs \<and> invar p'"
    and give_back_taken: "invar p \<Longrightarrow> distinct bs \<Longrightarrow> set bs \<subseteq> taken p \<Longrightarrow>
      \<exists>p'. give_back p bs = (Inr (), p') \<and> avail p' = avail p \<union> set bs \<and>
        taken p' = taken p - set bs \<and> invar p'"
begin

lemma alloc_cases:
  assumes "invar p"
  obtains (refused) e where "alloc p n = (Inl e, p)" "card (avail p) < n"
  | (granted) bs p' where "alloc p n = (Inr bs, p')" "length bs = n" "distinct bs"
      "set bs \<subseteq> avail p" "set bs \<inter> taken p = {}" "avail p' = avail p - set bs"
      "taken p' = taken p \<union> set bs" "invar p'" "card (avail p') = card (avail p) - n"
proof (cases "n \<le> card (avail p)")
  case True
  from alloc_granted [OF assms True] obtain bs p' where
    g: "alloc p n = (Inr bs, p')" "length bs = n" "distinct bs" "set bs \<subseteq> avail p"
      "avail p' = avail p - set bs" "taken p' = taken p \<union> set bs" "invar p'" by blast
  have "set bs \<inter> taken p = {}" using g(4) disjoint [OF assms] by blast
  moreover have "card (avail p') = card (avail p) - n"
    using g finite_avail [OF assms] by (simp add: card_Diff_subset distinct_card)
  ultimately show ?thesis using g granted by simp
next
  case False
  then show ?thesis using alloc_refused [OF assms, of n] refused by auto
qed

text \<open>Allocating and giving the same blocks back restores the pool's contents.\<close>

lemma alloc_give_back:
  assumes "invar p" and "alloc p n = (Inr bs, p')"
  shows "\<exists>p''. give_back p' bs = (Inr (), p'') \<and> avail p'' = avail p \<and> taken p'' = taken p \<and>
           invar p''"
  using assms(1)
proof (cases rule: alloc_cases [where n = n])
  case (granted bs' q)
  then have eqs: "bs' = bs" "q = p'" using assms(2) by auto
  have "set bs \<subseteq> taken p'" using granted eqs by auto
  from give_back_taken [OF _ _ this] granted eqs obtain p'' where
    "give_back p' bs = (Inr (), p'')" "avail p'' = avail p' \<union> set bs"
    "taken p'' = taken p' - set bs" "invar p''" by blast
  moreover have "avail p' \<union> set bs = avail p" "taken p' - set bs = taken p"
    using granted eqs by auto
  ultimately show ?thesis by metis
qed (use assms(2) in auto)

end

definition pool_inv :: "block_pool \<Rightarrow> bool" where
  "pool_inv p \<longleftrightarrow> distinct (bp_free p) \<and> set (bp_free p) \<inter> bp_used p = {} \<and>
     set (bp_free p) \<union> bp_used p = {0..<bp_num_blocks p}"

lemma pop_blocks_eq:
  "n \<le> length fs \<Longrightarrow>
     pop_blocks n fs = (rev (drop (length fs - n) fs), take (length fs - n) fs)"
proof (induction n arbitrary: fs)
  case 0
  then show ?case by simp
next
  case (Suc n)
  then obtain gs x where fs: "fs = gs @ [x]"
    by (metis append_butlast_last_id le_zero_eq list.size(3) nat.distinct(1))
  with Suc.prems have "n \<le> length gs" by simp
  from Suc.IH [OF this] fs show ?case by simp
qed

lemma num_free_card: "pool_inv p \<Longrightarrow> num_free_blocks p = card (set (bp_free p))"
  by (simp add: num_free_blocks_def pool_inv_def distinct_card)

lemma pool_init_inv: "pool_inv (block_pool_init n)"
  by (auto simp: pool_inv_def block_pool_init_def)

lemma pool_allocate_granted:
  assumes "pool_inv p" and "n \<le> card (set (bp_free p))"
  shows "\<exists>bs p'. pool_allocate p n = (Inr bs, p') \<and> length bs = n \<and> distinct bs \<and>
           set bs \<subseteq> set (bp_free p) \<and> set (bp_free p') = set (bp_free p) - set bs \<and>
           bp_used p' = bp_used p \<union> set bs \<and> pool_inv p'"
proof -
  have d: "distinct (bp_free p)" using assms(1) by (simp add: pool_inv_def)
  with assms(2) have n: "n \<le> length (bp_free p)" by (simp add: distinct_card)
  obtain xs ys where fs: "bp_free p = xs @ ys" and len: "length ys = n"
    using n by (metis append_take_drop_id diff_diff_cancel length_drop)
  let ?p' = "p\<lparr>bp_free := xs, bp_used := bp_used p \<union> set ys\<rparr>"
  have "pool_allocate p n = (Inr (rev ys), ?p')"
    using fs len by (simp add: pool_allocate_def pop_blocks_eq)
  moreover have "pool_inv ?p'"
    using assms(1) fs by (auto simp: pool_inv_def)
  moreover have "set xs = set (bp_free p) - set ys" using d fs by auto
  ultimately show ?thesis
    using fs len d by (intro exI [of _ "rev ys"] exI [of _ ?p']) auto
qed

lemma pool_free_taken:
  assumes "pool_inv p" and "distinct bs" and "set bs \<subseteq> bp_used p"
  shows "\<exists>p'. pool_free p bs = (Inr (), p') \<and> set (bp_free p') = set (bp_free p) \<union> set bs \<and>
           bp_used p' = bp_used p - set bs \<and> pool_inv p' \<and> bp_num_blocks p' = bp_num_blocks p"
  using assms
proof (induction bs arbitrary: p)
  case Nil
  then show ?case by simp
next
  case (Cons b bs)
  let ?q = "p\<lparr>bp_used := bp_used p - {b}, bp_free := bp_free p @ [b]\<rparr>"
  have "pool_inv ?q" using Cons.prems by (auto simp: pool_inv_def)
  moreover have "set bs \<subseteq> bp_used ?q" using Cons.prems by auto
  ultimately show ?case using Cons.IH [of ?q] Cons.prems by auto
qed

interpretation pool: block_allocator pool_allocate pool_free "\<lambda>p. set (bp_free p)" bp_used pool_inv
proof unfold_locales
  fix p n
  assume "pool_inv p" and "card (set (bp_free p)) < n"
  then show "\<exists>e. pool_allocate p n = (Inl e, p)"
    by (simp add: pool_allocate_def pool_inv_def distinct_card)
next
  fix p bs
  assume "pool_inv p" "distinct bs" "set bs \<subseteq> bp_used p"
  then show "\<exists>p'. pool_free p bs = (Inr (), p') \<and> set (bp_free p') = set (bp_free p) \<union> set bs \<and>
      bp_used p' = bp_used p - set bs \<and> pool_inv p'"
    using pool_free_taken by blast
qed (auto simp: pool_inv_def intro: pool_allocate_granted [unfolded pool_inv_def])

section \<open>Slots\<close>

text \<open>The physical slot of a logical token position under a block table.\<close>

definition slot_of :: "nat \<Rightarrow> nat list \<Rightarrow> nat \<Rightarrow> nat" where
  "slot_of bsize tbl position = tbl ! (position div bsize) * bsize + position mod bsize"

lemma slot_of_div: "0 < b \<Longrightarrow> slot_of b tbl p div b = tbl ! (p div b)"
  by (simp add: slot_of_def)

lemma slot_of_mod: "slot_of b tbl p mod b = p mod b"
  by (simp add: slot_of_def)

lemma slots_loop_eq:
  assumes "0 < b" and "\<forall>p\<in>set ps. p < length tbl * b"
  shows "slots_loop tbl b ps = Inr (map (slot_of b tbl) ps)"
  using assms by (induction ps) (auto simp: slot_of_def Let_def div_less_iff_less_mult)

lemma slot_of_inj:
  assumes "0 < b" and "distinct tbl"
  shows "inj_on (slot_of b tbl) {0..<length tbl * b}"
proof (rule inj_onI)
  fix p q
  assume p: "p \<in> {0..<length tbl * b}" and q: "q \<in> {0..<length tbl * b}"
    and eq: "slot_of b tbl p = slot_of b tbl q"
  have "p div b < length tbl" "q div b < length tbl"
    using p q assms(1) by (simp_all add: div_less_iff_less_mult)
  moreover have "tbl ! (p div b) = tbl ! (q div b)"
    using arg_cong [OF eq, of "\<lambda>x. x div b"] assms(1) by (simp add: slot_of_div)
  ultimately have "p div b = q div b" using assms(2) by (simp add: nth_eq_iff_index_eq)
  moreover have "p mod b = q mod b"
    using arg_cong [OF eq, of "\<lambda>x. x mod b"] by (simp add: slot_of_mod)
  ultimately show "p = q" by (metis div_mult_mod_eq)
qed

lemma slot_of_block:
  "0 < b \<Longrightarrow> p < length tbl * b \<Longrightarrow> slot_of b tbl p div b \<in> set tbl"
  by (simp add: slot_of_div div_less_iff_less_mult)

section \<open>The manager as a paged cache\<close>

text \<open>
  What the scheduler needs from the cache manager.  \<open>tbl m r\<close> is the block table of request
  \<open>r\<close>, \<open>nfree m\<close> the number of free blocks, \<open>bsz m\<close> and \<open>cap m\<close> the block size and
  the number of blocks, which no operation changes.
\<close>

locale paged_cache =
  fixes create :: "'m \<Rightarrow> string \<Rightarrow> (exn + unit) \<times> 'm"
    and can_reserve :: "'m \<Rightarrow> string \<Rightarrow> nat \<Rightarrow> exn + bool"
    and reserve :: "'m \<Rightarrow> string \<Rightarrow> nat \<Rightarrow> (exn + unit) \<times> 'm"
    and slots :: "'m \<Rightarrow> string \<Rightarrow> nat \<Rightarrow> nat \<Rightarrow> exn + nat list"
    and get_table :: "'m \<Rightarrow> string \<Rightarrow> exn + nat list"
    and release :: "'m \<Rightarrow> string \<Rightarrow> (exn + unit) \<times> 'm"
    and tbl :: "'m \<Rightarrow> string \<Rightarrow> nat list option"
    and nfree :: "'m \<Rightarrow> nat"
    and bsz :: "'m \<Rightarrow> nat"
    and cap :: "'m \<Rightarrow> nat"
    and invar :: "'m \<Rightarrow> bool"
  assumes bsz_pos: "invar m \<Longrightarrow> 0 < bsz m"
    and finite_dom: "invar m \<Longrightarrow> finite (dom (tbl m))"
    and conservation: "invar m \<Longrightarrow>
      nfree m + (\<Sum>r\<in>dom (tbl m). length (the (tbl m r))) = cap m"
    and tbl_distinct: "invar m \<Longrightarrow> tbl m r = Some bl \<Longrightarrow> distinct bl"
    and tbl_bound: "invar m \<Longrightarrow> tbl m r = Some bl \<Longrightarrow> b \<in> set bl \<Longrightarrow> b < cap m"
    and tbl_disjoint: "invar m \<Longrightarrow> tbl m r = Some bl \<Longrightarrow> tbl m r' = Some bl' \<Longrightarrow> r \<noteq> r' \<Longrightarrow>
      set bl \<inter> set bl' = {}"
    and create_fresh: "invar m \<Longrightarrow> tbl m r = None \<Longrightarrow>
      \<exists>m'. create m r = (Inr (), m') \<and> invar m' \<and> tbl m' = (tbl m)(r \<mapsto> []) \<and>
           nfree m' = nfree m \<and> bsz m' = bsz m \<and> cap m' = cap m"
    and can_reserve_iff: "invar m \<Longrightarrow> tbl m r = Some bl \<Longrightarrow>
      can_reserve m r t = Inr (ceil_div t (bsz m) - length bl \<le> nfree m)"
    and reserve_granted: "invar m \<Longrightarrow> tbl m r = Some bl \<Longrightarrow>
      ceil_div t (bsz m) - length bl \<le> nfree m \<Longrightarrow>
      \<exists>m' new. reserve m r t = (Inr (), m') \<and> invar m' \<and> tbl m' = (tbl m)(r \<mapsto> bl @ new) \<and>
           length new = ceil_div t (bsz m) - length bl \<and> nfree m' = nfree m - length new \<and>
           bsz m' = bsz m \<and> cap m' = cap m"
    and slots_in_range: "invar m \<Longrightarrow> tbl m r = Some bl \<Longrightarrow> start + count \<le> length bl * bsz m \<Longrightarrow>
      slots m r start count = Inr (map (slot_of (bsz m) bl) [start..<start + count])"
    and get_table_Some: "tbl m r = Some bl \<Longrightarrow> get_table m r = Inr bl"
    and release_held: "invar m \<Longrightarrow> tbl m r = Some bl \<Longrightarrow>
      \<exists>m'. release m r = (Inr (), m') \<and> invar m' \<and> tbl m' = (tbl m)(r := None) \<and>
           nfree m' = nfree m + length bl \<and> bsz m' = bsz m \<and> cap m' = cap m"
begin

text \<open>No request holds more blocks than there are.\<close>

lemma tbl_length_cap: "invar m \<Longrightarrow> tbl m r = Some bl \<Longrightarrow> nfree m + length bl \<le> cap m"
proof -
  assume m: "invar m" and bl: "tbl m r = Some bl"
  have "length (the (tbl m r)) \<le> (\<Sum>r\<in>dom (tbl m). length (the (tbl m r)))"
    using bl by (intro member_le_sum finite_dom [OF m]) auto
  with bl conservation [OF m] show ?thesis by simp
qed

text \<open>A guarded reservation covers every position below the target.\<close>

lemma reserve_covers:
  assumes m: "invar m" and bl: "tbl m r = Some bl" and can: "can_reserve m r t = Inr True"
  obtains m' new where "reserve m r t = (Inr (), m')" and "invar m'"
    and "tbl m' = (tbl m)(r \<mapsto> bl @ new)" and "t \<le> length (bl @ new) * bsz m'"
    and "length new = ceil_div t (bsz m) - length bl"
    and "nfree m' = nfree m - length new" and "bsz m' = bsz m" and "cap m' = cap m"
    and "get_table m' r = Inr (bl @ new)"
proof -
  from can can_reserve_iff [OF m bl] have le: "ceil_div t (bsz m) - length bl \<le> nfree m" by simp
  from reserve_granted [OF m bl le] obtain m' new where
    g: "reserve m r t = (Inr (), m')" "invar m'" "tbl m' = (tbl m)(r \<mapsto> bl @ new)"
      "length new = ceil_div t (bsz m) - length bl" "nfree m' = nfree m - length new"
      "bsz m' = bsz m" "cap m' = cap m" by blast
  have "ceil_div t (bsz m) \<le> length (bl @ new)" using g(4) by simp
  then have "t \<le> length (bl @ new) * bsz m'"
    using g(6) ceil_div_le_iff [OF bsz_pos [OF m]] by simp
  moreover have "get_table m' r = Inr (bl @ new)" using g(3) by (simp add: get_table_Some)
  ultimately show ?thesis using g that by simp
qed

text \<open>The slots of one request are distinct and inside the cache, those of two disjoint.\<close>

lemma slots_distinct:
  assumes "invar m" "tbl m r = Some bl" "n \<le> length bl * bsz m"
  shows "distinct (map (slot_of (bsz m) bl) [k..<n])"
proof -
  have "set [k..<n] \<subseteq> {0..<length bl * bsz m}" using assms(3) by auto
  then show ?thesis
    using inj_on_subset [OF slot_of_inj [OF bsz_pos [OF assms(1)] tbl_distinct [OF assms(1,2)]]]
    by (simp add: distinct_map)
qed

lemma slot_bound:
  assumes "invar m" "tbl m r = Some bl" "p < length bl * bsz m"
  shows "slot_of (bsz m) bl p < cap m * bsz m"
proof -
  have "slot_of (bsz m) bl p div bsz m < cap m"
    using slot_of_block [OF bsz_pos [OF assms(1)] assms(3)] tbl_bound [OF assms(1,2)] by blast
  then show ?thesis using bsz_pos [OF assms(1)] by (simp add: div_less_iff_less_mult)
qed

lemma slots_disjoint:
  assumes "invar m" "tbl m r = Some bl" "tbl m r' = Some bl'" "r \<noteq> r'"
    and "p < length bl * bsz m" "q < length bl' * bsz m"
  shows "slot_of (bsz m) bl p \<noteq> slot_of (bsz m) bl' q"
proof
  assume eq: "slot_of (bsz m) bl p = slot_of (bsz m) bl' q"
  have "slot_of (bsz m) bl p div bsz m \<in> set bl \<inter> set bl'"
    using slot_of_block [OF bsz_pos [OF assms(1)] assms(5)]
      slot_of_block [OF bsz_pos [OF assms(1)] assms(6)] eq by simp
  with tbl_disjoint [OF assms(1-4)] show False by simp
qed

text \<open>Probing a new request and giving up again leaves every table and the free count as is.\<close>

lemma probe_release:
  assumes "invar m" "tbl m r = None" "create m r = (Inr (), m1)"
  shows "\<exists>m2. release m1 r = (Inr (), m2) \<and> invar m2 \<and> tbl m2 = tbl m \<and> nfree m2 = nfree m \<and>
           bsz m2 = bsz m \<and> cap m2 = cap m"
proof -
  from create_fresh [OF assms(1,2)] assms(3) have
    m1: "invar m1" "tbl m1 = (tbl m)(r \<mapsto> [])" "nfree m1 = nfree m" "bsz m1 = bsz m" "cap m1 = cap m"
    by auto
  then have "tbl m1 r = Some []" by simp
  from release_held [OF m1(1) this] obtain m2 where
    m2: "release m1 r = (Inr (), m2)" "invar m2" "tbl m2 = (tbl m1)(r := None)"
      "nfree m2 = nfree m1 + length ([] :: nat list)" "bsz m2 = bsz m1" "cap m2 = cap m1" by blast
  moreover have "tbl m2 = tbl m" using m1(2) m2(3) assms(2) by auto
  ultimately show ?thesis using m1 by auto
qed

end

section \<open>The manager's invariant\<close>

definition kv_held :: "kv_manager \<Rightarrow> nat list" where
  "kv_held m = concat (map (physical_blocks \<circ> snd) (kv_tables m))"

definition kv_inv :: "kv_manager \<Rightarrow> bool" where
  "kv_inv m \<longleftrightarrow> 0 < kv_block_size m \<and> pool_inv (kv_pool m) \<and>
     distinct (dict_keys (kv_tables m)) \<and> distinct (kv_held m) \<and>
     set (kv_held m) = bp_used (kv_pool m)"

definition kv_tbl :: "kv_manager \<Rightarrow> string \<Rightarrow> nat list option" where
  "kv_tbl m r = map_option physical_blocks (map_of (kv_tables m) r)"

abbreviation kv_cap :: "kv_manager \<Rightarrow> nat" where
  "kv_cap m \<equiv> bp_num_blocks (kv_pool m)"

abbreviation kv_nfree :: "kv_manager \<Rightarrow> nat" where
  "kv_nfree m \<equiv> num_free_blocks (kv_pool m)"

lemma kv_init_inv: "0 < b \<Longrightarrow> kv_inv (kv_init n b)"
  by (simp add: kv_inv_def kv_init_def kv_held_def pool_init_inv) (simp add: block_pool_init_def)

lemma sum_over_dict:
  "distinct (dict_keys d) \<Longrightarrow>
     (\<Sum>k\<in>dom (map_of d). f (the (map_of d k))) = sum_list (map (f \<circ> snd) d)"
proof -
  assume d: "distinct (dict_keys d)"
  have "(\<Sum>k\<in>dom (map_of d). f (the (map_of d k))) =
      sum_list (map (\<lambda>k. f (the (map_of d k))) (dict_keys d))"
    unfolding dom_map_of_conv_image_fst set_map [symmetric]
    by (rule sum.distinct_set_conv_list [OF d])
  also have "map (\<lambda>k. f (the (map_of d k))) (dict_keys d) = map (f \<circ> snd) d"
    using map_of_is_SomeI [OF d] by auto
  finally show ?thesis .
qed

lemma dom_kv_tbl: "dom (kv_tbl m) = set (dict_keys (kv_tables m))"
  by (simp add: kv_tbl_def [abs_def] dom_map_option dom_map_of_conv_image_fst)

lemma kv_tblE:
  assumes "kv_tbl m r = Some bl"
  obtains t d1 d2 where "map_of (kv_tables m) r = Some t" "physical_blocks t = bl"
    "kv_tables m = d1 @ (r, t) # d2" "r \<notin> set (dict_keys d1)"
    "kv_held m = concat (map (physical_blocks \<circ> snd) d1) @ bl @
       concat (map (physical_blocks \<circ> snd) d2)"
proof -
  from assms obtain t where t: "map_of (kv_tables m) r = Some t" "physical_blocks t = bl"
    by (auto simp: kv_tbl_def)
  from dict_split [OF t(1)] obtain d1 d2 where
    "kv_tables m = d1 @ (r, t) # d2" "r \<notin> set (dict_keys d1)" .
  with t that show ?thesis by (simp add: kv_held_def)
qed

lemma kv_tbl_in_held: "kv_tbl m r = Some bl \<Longrightarrow> set bl \<subseteq> set (kv_held m)"
  by (erule kv_tblE) auto

lemma kv_conservation:
  assumes "kv_inv m"
  shows "kv_nfree m + (\<Sum>r\<in>dom (kv_tbl m). length (the (kv_tbl m r))) = kv_cap m"
proof -
  let ?p = "kv_pool m"
  have d: "distinct (dict_keys (kv_tables m))" and p: "pool_inv ?p"
    using assms by (simp_all add: kv_inv_def)
  have "(\<Sum>r\<in>dom (kv_tbl m). length (the (kv_tbl m r))) =
      (\<Sum>r\<in>dom (map_of (kv_tables m)). length (physical_blocks (the (map_of (kv_tables m) r))))"
    by (intro sum.cong) (auto simp: kv_tbl_def dom_def)
  also have "\<dots> = length (kv_held m)"
    using sum_over_dict [OF d, of "length \<circ> physical_blocks"]
    by (simp add: kv_held_def length_concat comp_def)
  also have "\<dots> = card (bp_used ?p)"
    using assms by (metis distinct_card kv_inv_def)
  finally have held: "(\<Sum>r\<in>dom (kv_tbl m). length (the (kv_tbl m r))) = card (bp_used ?p)" .
  have "finite (bp_used ?p)" using assms by (metis List.finite_set kv_inv_def)
  then have "card (set (bp_free ?p) \<union> bp_used ?p) = card (set (bp_free ?p)) + card (bp_used ?p)"
    using p by (intro card_Un_disjoint) (simp_all add: pool_inv_def)
  then show ?thesis
    using p held by (simp add: pool_inv_def num_free_blocks_def distinct_card)
qed

lemma kv_tbl_distinct: "kv_inv m \<Longrightarrow> kv_tbl m r = Some bl \<Longrightarrow> distinct bl"
  by (erule kv_tblE) (auto simp: kv_inv_def)

lemma kv_tbl_bound: "kv_inv m \<Longrightarrow> kv_tbl m r = Some bl \<Longrightarrow> b \<in> set bl \<Longrightarrow> b < kv_cap m"
  using kv_tbl_in_held [of m r bl] by (fastforce simp: kv_inv_def pool_inv_def)

lemma kv_tbl_disjoint:
  assumes "kv_inv m" "kv_tbl m r = Some bl" "kv_tbl m r' = Some bl'" "r \<noteq> r'"
  shows "set bl \<inter> set bl' = {}"
  using assms(2)
proof (cases rule: kv_tblE)
  case (1 t d1 d2)
  from assms(3) obtain t' where "map_of (kv_tables m) r' = Some t'" "physical_blocks t' = bl'"
    by (auto simp: kv_tbl_def)
  then have "(r', t') \<in> set d1 \<union> set d2" using 1(3) assms(4) by (auto dest: map_of_SomeD)
  then have "set bl' \<subseteq> set (concat (map (physical_blocks \<circ> snd) d1)) \<union>
      set (concat (map (physical_blocks \<circ> snd) d2))"
    using \<open>physical_blocks t' = bl'\<close> by force
  moreover have "set bl \<inter> (set (concat (map (physical_blocks \<circ> snd) d1)) \<union>
      set (concat (map (physical_blocks \<circ> snd) d2))) = {}"
    using assms(1) 1(5) by (auto simp: kv_inv_def)
  ultimately show ?thesis by blast
qed

lemma kv_create_fresh:
  assumes "kv_inv m" "kv_tbl m r = None"
  shows "\<exists>m'. kv_create m r = (Inr (), m') \<and> kv_inv m' \<and> kv_tbl m' = (kv_tbl m)(r \<mapsto> []) \<and>
     kv_nfree m' = kv_nfree m \<and> kv_block_size m' = kv_block_size m \<and> kv_cap m' = kv_cap m"
proof -
  have r: "r \<notin> set (dict_keys (kv_tables m))"
    using assms(2) by (simp add: kv_tbl_def map_of_eq_None_iff)
  let ?m' = "m\<lparr>kv_tables := kv_tables m @ [(r, \<lparr>physical_blocks = []\<rparr>)]\<rparr>"
  have "kv_create m r = (Inr (), ?m')" using r by (simp add: kv_create_def update_fresh)
  moreover have "kv_inv ?m'" using assms(1) r by (auto simp: kv_inv_def kv_held_def)
  moreover have "kv_tbl ?m' = (kv_tbl m)(r \<mapsto> [])"
    using update_conv' [of r "\<lparr>physical_blocks = []\<rparr>" "kv_tables m"] r
    by (auto simp: kv_tbl_def update_fresh fun_eq_iff)
  ultimately show ?thesis by simp
qed

lemma kv_can_reserve_iff:
  assumes "kv_inv m" "kv_tbl m r = Some bl"
  shows "kv_can_reserve m r t = Inr (ceil_div t (kv_block_size m) - length bl \<le> kv_nfree m)"
  using assms by (auto simp: kv_can_reserve_def kv_blocks_needed_def kv_tbl_def kv_inv_def)

lemma pool_allocate_num_blocks:
  "pool_allocate p n = (res, p') \<Longrightarrow> bp_num_blocks p' = bp_num_blocks p"
  by (auto simp: pool_allocate_def split: if_splits prod.splits)

lemma kv_reserve_granted:
  assumes inv: "kv_inv m" and bl: "kv_tbl m r = Some bl"
    and le: "ceil_div t (kv_block_size m) - length bl \<le> kv_nfree m"
  shows "\<exists>m' new. kv_reserve m r t = (Inr (), m') \<and> kv_inv m' \<and>
     kv_tbl m' = (kv_tbl m)(r \<mapsto> bl @ new) \<and>
     length new = ceil_div t (kv_block_size m) - length bl \<and> kv_nfree m' = kv_nfree m - length new \<and>
     kv_block_size m' = kv_block_size m \<and> kv_cap m' = kv_cap m"
  using bl
proof (cases rule: kv_tblE)
  case (1 tb d1 d2)
  let ?n = "ceil_div t (kv_block_size m) - length bl"
  have pinv: "pool_inv (kv_pool m)" and d: "distinct (bp_free (kv_pool m))"
    using inv by (simp_all add: kv_inv_def pool_inv_def)
  from pinv show ?thesis
  proof (cases rule: pool.alloc_cases [where n = ?n])
    case (refused e)
    then show ?thesis using le d by (simp add: num_free_blocks_def distinct_card)
  next
    case (granted new p')
    let ?tb = "tb\<lparr>physical_blocks := bl @ new\<rparr>"
    let ?m' = "m\<lparr>kv_pool := p', kv_tables := d1 @ (r, ?tb) # d2\<rparr>"
    have "kv_blocks_needed m r t = Inr ?n"
      using inv 1(1,2) by (simp add: kv_blocks_needed_def kv_inv_def)
    then have "kv_reserve m r t = (Inr (), ?m')"
      using 1 granted(1) by (simp add: kv_reserve_def update_split)
    moreover have "kv_inv ?m'"
    proof -
      let ?h1 = "concat (map (physical_blocks \<circ> snd) d1)"
      let ?h2 = "concat (map (physical_blocks \<circ> snd) d2)"
      have held: "kv_held ?m' = ?h1 @ (bl @ new) @ ?h2" by (simp add: kv_held_def)
      have "set new \<inter> set (kv_held m) = {}" and "distinct (kv_held m)"
        using granted(5) inv by (simp_all add: kv_inv_def)
      then have "distinct (kv_held ?m')"
        unfolding held 1(5) using granted(3)
        by (simp only: distinct_append set_append) blast
      moreover have "set (kv_held ?m') = bp_used p'"
        using granted(7) inv 1(5) held by (simp only: kv_inv_def set_append) blast
      ultimately show ?thesis using inv granted(8) 1(3) by (simp add: kv_inv_def)
    qed
    moreover have "kv_tbl ?m' = (kv_tbl m)(r \<mapsto> bl @ new)"
      using update_conv' [of r ?tb "kv_tables m"] update_split [OF 1(4)] 1(3)
      by (auto simp: kv_tbl_def fun_eq_iff)
    moreover have "kv_nfree ?m' = kv_nfree m - length new"
      using granted(2,8,9) pinv by (simp add: num_free_card)
    ultimately show ?thesis using granted pool_allocate_num_blocks [OF granted(1)] by auto
  qed
qed

lemma kv_release_held:
  assumes inv: "kv_inv m" and bl: "kv_tbl m r = Some bl"
  shows "\<exists>m'. kv_release m r = (Inr (), m') \<and> kv_inv m' \<and> kv_tbl m' = (kv_tbl m)(r := None) \<and>
     kv_nfree m' = kv_nfree m + length bl \<and> kv_block_size m' = kv_block_size m \<and>
     kv_cap m' = kv_cap m"
  using bl
proof (cases rule: kv_tblE)
  case (1 tb d1 d2)
  have dk: "distinct (dict_keys (kv_tables m))" and dh: "distinct (kv_held m)"
    and pinv: "pool_inv (kv_pool m)" using inv by (simp_all add: kv_inv_def)
  have used: "set bl \<subseteq> bp_used (kv_pool m)"
    using inv kv_tbl_in_held [OF bl] by (simp add: kv_inv_def)
  from pool_free_taken [OF pinv kv_tbl_distinct [OF inv bl] used] obtain p' where
    p': "pool_free (kv_pool m) bl = (Inr (), p')" "set (bp_free p') = set (bp_free (kv_pool m)) \<union> set bl"
      "bp_used p' = bp_used (kv_pool m) - set bl" "pool_inv p'" "bp_num_blocks p' = kv_cap m" by blast
  let ?m' = "m\<lparr>kv_tables := d1 @ d2, kv_pool := p'\<rparr>"
  have del: "AList.delete r (kv_tables m) = d1 @ d2"
    unfolding 1(3) using dk 1(3,4) by (intro delete_split) auto
  have "kv_release m r = (Inr (), ?m')"
    using 1(1,2) p'(1) by (simp add: kv_release_def del)
  moreover have "kv_inv ?m'"
    using inv 1(3,5) dh p' by (auto simp: kv_inv_def kv_held_def)
  moreover have "kv_tbl ?m' = (kv_tbl m)(r := None)"
    using delete_conv' [of r "kv_tables m"] del by (auto simp: kv_tbl_def fun_eq_iff)
  moreover have "kv_nfree ?m' = kv_nfree m + length bl"
  proof -
    have "set (bp_free (kv_pool m)) \<inter> set bl = {}" using pinv used by (auto simp: pool_inv_def)
    then have "card (set (bp_free p')) = card (set (bp_free (kv_pool m))) + card (set bl)"
      using p'(2) by (simp add: card_Un_disjoint)
    then show ?thesis
      using p'(4) pinv kv_tbl_distinct [OF inv bl]
      by (simp add: pool_inv_def num_free_blocks_def distinct_card)
  qed
  ultimately show ?thesis using p'(5) by auto
qed

interpretation kv: paged_cache kv_create kv_can_reserve kv_reserve kv_slots kv_block_table
    kv_release kv_tbl kv_nfree kv_block_size kv_cap kv_inv
proof unfold_locales
  fix m r bl start count
  assume "kv_inv m" "kv_tbl m r = Some bl" "start + count \<le> length bl * kv_block_size m"
  then show "kv_slots m r start count = Inr (map (slot_of (kv_block_size m) bl) [start..<start + count])"
    by (auto simp: kv_slots_def kv_tbl_def kv_inv_def intro!: slots_loop_eq)
next
  fix m r bl
  assume "kv_tbl m r = Some bl"
  then show "kv_block_table m r = Inr bl" by (auto simp: kv_block_table_def kv_tbl_def)
next
  fix m
  assume "kv_inv m"
  then show "0 < kv_block_size m" and "finite (dom (kv_tbl m))"
    by (simp_all add: kv_inv_def dom_kv_tbl)
qed (fact kv_conservation kv_tbl_distinct kv_tbl_bound kv_tbl_disjoint kv_create_fresh
     kv_can_reserve_iff kv_reserve_granted kv_release_held)+

end
