(* ===== verification/Cache_Owner.thy ===== *)
theory Cache_Owner
  imports Cache
begin

text \<open>
  The cache manager under arbitrary sequences of calls (\<open>minivllm/cache.py\<close>), refused calls
  included, and its refinement of an abstract map from physical blocks to their owners.
\<close>

section \<open>Any sequence of calls\<close>

text \<open>The calls that change the manager, as data.\<close>

datatype kv_op = Create string | Reserve string nat | Release string

fun kv_apply :: "kv_op \<Rightarrow> kv_manager \<Rightarrow> kv_manager" where
  "kv_apply (Create r) m = snd (kv_create m r)"
| "kv_apply (Reserve r t) m = snd (kv_reserve m r t)"
| "kv_apply (Release r) m = snd (kv_release m r)"

lemma kv_create_cases:
  assumes "kv_inv m"
  obtains (dup) e bl where "kv_create m r = (Inl e, m)" "kv_tbl m r = Some bl"
  | (new) m' where "kv_create m r = (Inr (), m')" "kv_inv m'" "kv_tbl m r = None"
      "kv_tbl m' = (kv_tbl m)(r \<mapsto> [])" "kv_nfree m' = kv_nfree m" "kv_cap m' = kv_cap m"
proof (cases "kv_tbl m r")
  case None
  then show ?thesis using kv.create_fresh [OF assms None] new by blast
next
  case (Some bl)
  then have "r \<in> set (dict_keys (kv_tables m))"
    by (auto simp: kv_tbl_def dest: map_of_Some_in_keys)
  then show ?thesis using dup Some by (simp add: kv_create_def)
qed

lemma kv_reserve_cases:
  assumes "kv_inv m"
  obtains (absent) "kv_reserve m r t = (Inl (KeyError r), m)" "kv_tbl m r = None"
  | (refused) bl where "kv_reserve m r t =
        (Inl (MemoryError ''paged KV cache has no free physical blocks''), m)"
      "kv_tbl m r = Some bl" "kv_nfree m < ceil_div t (kv_block_size m) - length bl"
  | (granted) bl new m' where "kv_reserve m r t = (Inr (), m')" "kv_inv m'"
      "kv_tbl m r = Some bl" "kv_tbl m' = (kv_tbl m)(r \<mapsto> bl @ new)" "kv_cap m' = kv_cap m"
proof (cases "kv_tbl m r")
  case None
  then show ?thesis using absent by (simp add: kv_reserve_def kv_blocks_needed_def kv_tbl_def)
next
  case (Some bl)
  show ?thesis
  proof (cases "ceil_div t (kv_block_size m) - length bl \<le> kv_nfree m")
    case True
    then show ?thesis using kv.reserve_granted [OF assms Some True] Some granted by blast
  next
    case False
    from Some obtain z where "map_of (kv_tables m) r = Some z" "physical_blocks z = bl"
      by (auto simp: kv_tbl_def)
    with False assms have "kv_reserve m r t =
        (Inl (MemoryError ''paged KV cache has no free physical blocks''), m)"
      by (simp add: kv_reserve_def kv_blocks_needed_def kv_inv_def pool_allocate_def
          num_free_blocks_def)
    then show ?thesis using refused [OF _ Some] False by simp
  qed
qed

lemma kv_release_cases:
  assumes "kv_inv m"
  obtains (absent) "kv_release m r = (Inr (), m)" "kv_tbl m r = None"
  | (held) bl m' where "kv_release m r = (Inr (), m')" "kv_inv m'" "kv_tbl m r = Some bl"
      "kv_tbl m' = (kv_tbl m)(r := None)" "kv_nfree m' = kv_nfree m + length bl" "kv_cap m' = kv_cap m"
proof (cases "kv_tbl m r")
  case None
  then show ?thesis using absent by (simp add: kv_release_def kv_tbl_def)
next
  case (Some bl)
  from kv.release_held [OF assms Some] Some held show ?thesis by blast
qed

lemma kv_apply_inv: "kv_inv m \<Longrightarrow> kv_inv (kv_apply op m) \<and> kv_cap (kv_apply op m) = kv_cap m"
proof (cases op)
  case (Create r)
  assume "kv_inv m"
  then show ?thesis by (cases rule: kv_create_cases [where r = r]) (use \<open>kv_inv m\<close> in \<open>simp_all add: Create\<close>)
next
  case (Reserve r t)
  assume "kv_inv m"
  then show ?thesis by (cases rule: kv_reserve_cases [where r = r and t = t]) (use \<open>kv_inv m\<close> in \<open>simp_all add: Reserve\<close>)
next
  case (Release r)
  assume "kv_inv m"
  then show ?thesis by (cases rule: kv_release_cases [where r = r]) (use \<open>kv_inv m\<close> in \<open>simp_all add: Release\<close>)
qed

interpretation kv_calls: invariant_system kv_apply "\<lambda>_ _. True"
    "\<lambda>m. kv_inv m \<and> kv_cap m = n" for n
  by unfold_locales (simp add: kv_apply_inv)

lemma kv_calls_admissible: "kv_calls.admissible ops m"
  by (induction ops arbitrary: m) simp_all

text \<open>
  C16. Starting from an empty cache of \<open>n\<close> blocks, whatever sequence of \<open>create\<close>,
  \<open>reserve\<close> and \<open>release\<close> calls is made, refused calls included: no block ever belongs to two
  requests or twice to one, every block handed out exists, and the free blocks together with
  the blocks in the tables are always exactly \<open>n\<close>, so none is ever lost.
\<close>

theorem cache_blocks_conserved:
  assumes "0 < bsize"
  shows "let m = fold kv_apply ops (kv_init n bsize) in
    kv_nfree m + (\<Sum>r\<in>dom (kv_tbl m). length (the (kv_tbl m r))) = n \<and>
    (\<forall>r bl. kv_tbl m r = Some bl \<longrightarrow> distinct bl \<and> set bl \<subseteq> {..<n} \<and>
       (\<forall>r' bl'. r \<noteq> r' \<longrightarrow> kv_tbl m r' = Some bl' \<longrightarrow> set bl \<inter> set bl' = {}))"
proof -
  let ?m = "fold kv_apply ops (kv_init n bsize)"
  have "kv_inv (kv_init n bsize) \<and> kv_cap (kv_init n bsize) = n"
    using kv_init_inv [OF assms] by (simp add: kv_init_def block_pool_init_def)
  from kv_calls.fold_inv [OF this kv_calls_admissible]
  have m: "kv_inv ?m" "kv_cap ?m = n" by simp_all
  have "distinct bl \<and> set bl \<subseteq> {..<n} \<and>
      (\<forall>r' bl'. r \<noteq> r' \<longrightarrow> kv_tbl ?m r' = Some bl' \<longrightarrow> set bl \<inter> set bl' = {})"
    if "kv_tbl ?m r = Some bl" for r bl
    using kv.tbl_distinct [OF m(1) that] kv.tbl_bound [OF m(1) that] kv.tbl_disjoint [OF m(1) that]
      m(2) by auto
  then show ?thesis unfolding Let_def using kv.conservation [OF m(1)] m(2) by simp
qed

theorem cache_blocks_conserved_witness:
  "kv_nfree (fold kv_apply [Create ''a'', Reserve ''a'' 3] (kv_init 4 2)) +
     (\<Sum>r\<in>dom (kv_tbl (fold kv_apply [Create ''a'', Reserve ''a'' 3] (kv_init 4 2))).
        length (the (kv_tbl (fold kv_apply [Create ''a'', Reserve ''a'' 3] (kv_init 4 2)) r))) = 4"
  using cache_blocks_conserved [of 2 "[Create ''a'', Reserve ''a'' 3]" 4] unfolding Let_def by simp

section \<open>The cache as an ownership map\<close>

text \<open>
  The abstract view: every block has at most one owner.  A reservation may hand blocks
  without an owner to the request, a release takes all blocks of the request away from it,
  nothing else changes an owner.
\<close>

definition kv_owner :: "kv_manager \<Rightarrow> nat \<Rightarrow> string option" where
  "kv_owner m b = map_option fst (find (\<lambda>(r, t). b \<in> set (physical_blocks t)) (kv_tables m))"

inductive own_step :: "nat \<Rightarrow> kv_op \<Rightarrow> (nat \<rightharpoonup> string) \<Rightarrow> (nat \<rightharpoonup> string) \<Rightarrow> bool" for n where
  own_create: "own_step n (Create r) own own"
| own_grant: "new \<subseteq> {..<n} - dom own \<Longrightarrow>
    own_step n (Reserve r t) own (\<lambda>b. if b \<in> new then Some r else own b)"
| own_release: "own_step n (Release r) own (\<lambda>b. if own b = Some r then None else own b)"

inductive_simps own_step_simps [simp]:
  "own_step n (Create r) own own'"
  "own_step n (Reserve r t) own own'"
  "own_step n (Release r) own own'"

lemma find_SomeD: "find P xs = Some x \<Longrightarrow> x \<in> set xs \<and> P x"
  by (induction xs) (auto split: if_splits)

lemma kv_owner_iff:
  assumes "kv_inv m"
  shows "kv_owner m b = Some r \<longleftrightarrow> (\<exists>bl. kv_tbl m r = Some bl \<and> b \<in> set bl)"
proof
  assume "kv_owner m b = Some r"
  then obtain t where "(r, t) \<in> set (kv_tables m)" "b \<in> set (physical_blocks t)"
    by (auto simp: kv_owner_def dest: find_SomeD)
  with assms show "\<exists>bl. kv_tbl m r = Some bl \<and> b \<in> set bl"
    by (auto simp: kv_tbl_def kv_inv_def map_of_is_SomeI)
next
  assume "\<exists>bl. kv_tbl m r = Some bl \<and> b \<in> set bl"
  then obtain bl where bl: "kv_tbl m r = Some bl" "b \<in> set bl" by blast
  then obtain t where t: "(r, t) \<in> set (kv_tables m)" "physical_blocks t = bl"
    by (auto simp: kv_tbl_def dest: map_of_SomeD)
  show "kv_owner m b = Some r"
  proof (cases "find (\<lambda>(r, t). b \<in> set (physical_blocks t)) (kv_tables m)")
    case None
    then show ?thesis using t bl(2) by (auto simp: find_None_iff)
  next
    case (Some p)
    then obtain r' t' where p: "p = (r', t')" "(r', t') \<in> set (kv_tables m)"
      "b \<in> set (physical_blocks t')" by (cases p) (auto dest: find_SomeD)
    then have "kv_tbl m r' = Some (physical_blocks t')"
      using assms by (auto simp: kv_tbl_def kv_inv_def map_of_is_SomeI)
    then have "r' = r" using kv.tbl_disjoint [OF assms, of r' _ r] bl p(3) by blast
    then show ?thesis using Some p by (simp add: kv_owner_def)
  qed
qed

lemma kv_owner_bound: "kv_inv m \<Longrightarrow> kv_owner m b = Some r \<Longrightarrow> b < kv_cap m"
  using kv_owner_iff kv.tbl_bound by blast

lemma kv_owner_eqI:
  assumes "kv_inv m"
    and "\<And>b r. own b = Some r \<longleftrightarrow> (\<exists>bl. kv_tbl m r = Some bl \<and> b \<in> set bl)"
  shows "kv_owner m = own"
proof
  fix b
  have "kv_owner m b = Some r \<longleftrightarrow> own b = Some r" for r
    using kv_owner_iff [OF assms(1)] assms(2) by simp
  then show "kv_owner m b = own b" by (metis not_None_eq)
qed

text \<open>The blocks a granted reservation adds had no owner and now belong to the request.\<close>

lemma kv_owner_reserve:
  assumes inv: "kv_inv m" and inv': "kv_inv m'" and bl: "kv_tbl m r = Some bl"
    and tbl: "kv_tbl m' = (kv_tbl m)(r \<mapsto> bl @ nw)" and cap: "kv_cap m' = kv_cap m"
  shows "set nw \<subseteq> {..<kv_cap m} - dom (kv_owner m)"
    and "kv_owner m' = (\<lambda>b. if b \<in> set nw then Some r else kv_owner m b)"
proof -
  show free: "set nw \<subseteq> {..<kv_cap m} - dom (kv_owner m)"
  proof
    fix b
    assume b: "b \<in> set nw"
    then have "distinct (bl @ nw)" "b < kv_cap m'"
      using kv.tbl_distinct [OF inv', of r] kv.tbl_bound [OF inv', of r] tbl
      by auto
    moreover have "kv_owner m b = None"
    proof (rule ccontr)
      assume "kv_owner m b \<noteq> None"
      then obtain r' bl' where "kv_tbl m r' = Some bl'" "b \<in> set bl'"
        using kv_owner_iff [OF inv] by blast
      with calculation(1) b bl tbl kv.tbl_disjoint [OF inv', of r "bl @ nw" r' bl']
      show False by (cases "r' = r") auto
    qed
    ultimately show "b \<in> {..<kv_cap m} - dom (kv_owner m)" using cap by auto
  qed
  show "kv_owner m' = (\<lambda>b. if b \<in> set nw then Some r else kv_owner m b)"
  proof (rule kv_owner_eqI [OF inv'])
    fix b s
    have "kv_owner m b = None" if "b \<in> set nw" using that free by blast
    then show "(if b \<in> set nw then Some r else kv_owner m b) = Some s \<longleftrightarrow>
        (\<exists>bl. kv_tbl m' s = Some bl \<and> b \<in> set bl)"
      using kv_owner_iff [OF inv, of b s] bl tbl by auto
  qed
qed

text \<open>
  C15. The cache manager refines the ownership map: every call, granted or refused, is a step
  of the abstract map from blocks to owners, so a reservation only ever takes blocks nobody
  owns and a release strips a request of all its blocks and touches no other.
\<close>

theorem cache_refines_ownership:
  assumes inv: "kv_inv m"
  shows "own_step (kv_cap m) op (kv_owner m) (kv_owner (kv_apply op m)) \<and> kv_inv (kv_apply op m)"
proof (rule conjI)
  show "own_step (kv_cap m) op (kv_owner m) (kv_owner (kv_apply op m))"
  proof (cases op)
    case (Create r)
    from inv show ?thesis
    proof (cases rule: kv_create_cases [where r = r])
      case (new m')
      then have "kv_owner m' = kv_owner m"
        by (intro kv_owner_eqI) (auto simp: kv_owner_iff [OF inv])
      with new Create show ?thesis by simp
    qed (simp add: Create)
  next
    case (Reserve r t)
    from inv show ?thesis
    proof (cases rule: kv_reserve_cases [where r = r and t = t])
      case (granted bl nw m')
      from kv_owner_reserve [OF inv granted(2-5)] show ?thesis using granted(1) Reserve by auto
    qed (auto simp: Reserve intro: exI [of _ "{}"])
  next
    case (Release r)
    from inv show ?thesis
    proof (cases rule: kv_release_cases [where r = r])
      case absent
      then have "kv_owner m = (\<lambda>b. if kv_owner m b = Some r then None else kv_owner m b)"
        using kv_owner_iff [OF inv] by fastforce
      with absent Release show ?thesis by simp
    next
      case (held bl m')
      then have "kv_owner m' = (\<lambda>b. if kv_owner m b = Some r then None else kv_owner m b)"
        using kv.tbl_disjoint [OF inv held(3)]
        by (intro kv_owner_eqI) (auto simp: kv_owner_iff [OF inv])
      with held Release show ?thesis by simp
    qed
  qed
qed (use kv_apply_inv [OF inv] in simp)

theorem cache_refines_ownership_witness:
  "own_step 4 (Reserve ''a'' 3) (kv_owner (kv_apply (Create ''a'') (kv_init 4 2)))
     (kv_owner (kv_apply (Reserve ''a'' 3) (kv_apply (Create ''a'') (kv_init 4 2))))"
proof -
  have "kv_inv (kv_apply (Create ''a'') (kv_init 4 2))"
    "kv_cap (kv_apply (Create ''a'') (kv_init 4 2)) = 4"
    using kv_apply_inv [OF kv_init_inv [of 2 4], of "Create ''a''"]
    by (simp_all add: kv_init_def block_pool_init_def)
  with cache_refines_ownership [of "kv_apply (Create ''a'') (kv_init 4 2)" "Reserve ''a'' 3"]
  show ?thesis by simp
qed

end
