(* ===== verification/Tokenizer.thy ===== *)
theory Tokenizer
  imports Protocol
begin

text \<open>
  \<open>minivllm/tokenizer.py\<close>.  The \<open>Tokenizer\<close> protocol is a record of the three control
  token ids and the two methods, each of which may raise.  \<open>CharacterTokenizer\<close> is defined
  here in full; \<open>HuggingFaceTokenizer\<close> is an adapter around the \<open>transformers\<close> package,
  which is a parameter (\<open>hf_env\<close>: whether it can be imported, whether the path exists, and
  what \<open>AutoTokenizer.from_pretrained\<close> returns).

  The locale \<open>incremental_decoder\<close> is the contract the engine's streaming relies on:
  decoding distributes over concatenation of token lists.  The character tokenizer
  satisfies it.
\<close>

section \<open>The protocol\<close>

record tokenizer =
  pad_token_id :: int
  eos_token_id :: int
  bos_token_id :: int
  tok_encode :: "pyobj \<Rightarrow> exn + int list"
  tok_decode :: "int list \<Rightarrow> exn + pystr"

section \<open>CharacterTokenizer\<close>

definition char_offset :: int where
  "char_offset = 3"

text \<open>\<open>chr(i)\<close>; \<open>ord\<close> is the identity on code points.\<close>

definition py_chr :: "int \<Rightarrow> exn + int" where
  "py_chr i = (if 0 \<le> i \<and> i < 0x110000 then Inr i
               else Inl (ValueError ''chr() arg not in range(0x110000)''))"

fun char_encode :: "pyobj \<Rightarrow> exn + int list" where
  "char_encode (PyStr t) = Inr (map (\<lambda>char. char + char_offset) t)"
| "char_encode (PyOther ty b) = Inl (TypeError ''prompt must be a string'')"

fun char_decode :: "int list \<Rightarrow> exn + pystr" where
  "char_decode [] = Inr []"
| "char_decode (token_id # token_ids) =
     (if token_id \<ge> char_offset
      then (case py_chr (token_id - char_offset) of
              Inl e \<Rightarrow> Inl e
            | Inr c \<Rightarrow> (case char_decode token_ids of Inl e \<Rightarrow> Inl e | Inr cs \<Rightarrow> Inr (c # cs)))
      else char_decode token_ids)"

definition character_tokenizer :: tokenizer where
  "character_tokenizer = \<lparr>pad_token_id = 0, eos_token_id = 1, bos_token_id = 2,
     tok_encode = char_encode, tok_decode = char_decode\<rparr>"

section \<open>HuggingFaceTokenizer\<close>

record hf_backend =
  hf_eos :: "int option"
  hf_bos :: "int option"
  hf_pad :: "int option"
  hf_encode :: "pystr \<Rightarrow> exn + int list"
  hf_decode :: "int list \<Rightarrow> exn + pystr"

record hf_env =
  hf_importable :: bool
  hf_path_exists :: "string \<Rightarrow> bool"
  hf_from_pretrained :: "string \<Rightarrow> exn + hf_backend"

fun hf_tok_encode :: "hf_backend \<Rightarrow> pyobj \<Rightarrow> exn + int list" where
  "hf_tok_encode h (PyStr t) = hf_encode h t"
| "hf_tok_encode h (PyOther ty b) = Inl (TypeError ''prompt must be a string'')"

definition hugging_face_tokenizer :: "hf_env \<Rightarrow> string \<Rightarrow> exn + tokenizer" where
  "hugging_face_tokenizer env path =
     (if \<not> hf_importable env then
        Inl (RuntimeError (''model tokenization requires the optional '' @ quoted ''model''
                           @ '' dependencies''))
      else if \<not> hf_path_exists env path then
        Inl (FileNotFoundError (''tokenizer path does not exist: '' @ path))
      else (case hf_from_pretrained env path of
              Inl e \<Rightarrow> Inl e
            | Inr h \<Rightarrow>
                (case hf_eos h of
                   None \<Rightarrow> Inl (ValueError ''tokenizer must define eos_token_id'')
                 | Some eos \<Rightarrow> Inr \<lparr>
                     pad_token_id = (case hf_pad h of None \<Rightarrow> eos | Some pad \<Rightarrow> pad),
                     eos_token_id = eos,
                     bos_token_id = (case hf_bos h of None \<Rightarrow> eos | Some bos \<Rightarrow> bos),
                     tok_encode = hf_tok_encode h,
                     tok_decode = hf_decode h\<rparr>)))"

text \<open>\<open>tokenizer_path or model_path\<close>: an empty string counts as absent on the left.\<close>

definition create_tokenizer ::
    "hf_env \<Rightarrow> string option \<Rightarrow> string option \<Rightarrow> exn + tokenizer" where
  "create_tokenizer env model_path' tokenizer_path' =
     (let path = (if tokenizer_path' = None \<or> tokenizer_path' = Some [] then model_path'
                  else tokenizer_path')
      in case path of None \<Rightarrow> Inr character_tokenizer
         | Some p \<Rightarrow> hugging_face_tokenizer env p)"

section \<open>The contract of incremental decoding\<close>

locale incremental_decoder =
  fixes decode :: "int list \<Rightarrow> exn + pystr"
  assumes decode_Nil: "decode [] = Inr []"
    and decode_append: "decode (xs @ ys) =
      (case decode xs of Inl e \<Rightarrow> Inl e
       | Inr s \<Rightarrow> (case decode ys of Inl e \<Rightarrow> Inl e | Inr t \<Rightarrow> Inr (s @ t)))"
begin

lemma decode_snoc:
  assumes "decode (xs @ [t]) = Inr s'"
  obtains s d where "decode xs = Inr s" and "decode [t] = Inr d" and "s' = s @ d"
  using assms by (auto simp: decode_append split: sum.splits)

text \<open>The text already streamed is a prefix of the text after one more token.\<close>

lemma decode_grows:
  assumes "decode xs = Inr s" and "decode (xs @ [t]) = Inr s'"
  shows "startswith s' s" and "decode [t] = Inr (drop (length s) s')"
  using assms by (auto simp: decode_append split: sum.splits)

text \<open>The text of a sequence is the concatenation of its tokens' texts.\<close>

lemma decode_concat:
  assumes "decode ts = Inr s"
  shows "\<exists>ds. list_all2 (\<lambda>t d. decode [t] = Inr d) ts ds \<and> s = concat ds"
  using assms
proof (induction ts arbitrary: s)
  case Nil
  then show ?case by (auto simp: decode_Nil)
next
  case (Cons t ts)
  have "decode ([t] @ ts) = Inr s" using Cons.prems by simp
  then obtain d s' where d: "decode [t] = Inr d" and s': "decode ts = Inr s'" and s: "s = d @ s'"
    by (subst (asm) decode_append) (auto split: sum.splits)
  from Cons.IH [OF s'] obtain ds where
    "list_all2 (\<lambda>t d. decode [t] = Inr d) ts ds" and "s' = concat ds" by blast
  with d s have "list_all2 (\<lambda>t d. decode [t] = Inr d) (t # ts) (d # ds) \<and> s = concat (d # ds)"
    by simp
  then show ?case by blast
qed

end

lemma char_decode_append:
  "char_decode (xs @ ys) =
     (case char_decode xs of Inl e \<Rightarrow> Inl e
      | Inr s \<Rightarrow> (case char_decode ys of Inl e \<Rightarrow> Inl e | Inr t \<Rightarrow> Inr (s @ t)))"
  by (induction xs) (auto split: sum.splits)

interpretation ct: incremental_decoder char_decode
  by unfold_locales (simp_all add: char_decode_append)

section \<open>Round trips\<close>

text \<open>Text Python can hold: every code point is in range.\<close>

definition valid_text :: "pystr \<Rightarrow> bool" where
  "valid_text t \<longleftrightarrow> list_all (\<lambda>c. 0 \<le> c \<and> c < 0x110000) t"

lemma char_decode_encoded:
  "valid_text t \<Longrightarrow> char_decode (map (\<lambda>char. char + char_offset) t) = Inr t"
  by (induction t) (auto simp: valid_text_def char_offset_def py_chr_def)

text \<open>
  C27. The character tokenizer is lossless: every valid text is encoded without error, no
  token of the encoding is a control token (so in particular none is the end-of-sequence
  token), and decoding gives the text back.
\<close>

theorem character_tokenizer_roundtrip:
  assumes "valid_text t"
  shows "\<exists>ids. tok_encode character_tokenizer (PyStr t) = Inr ids \<and>
           length ids = length t \<and>
           list_all (\<lambda>i. i \<noteq> pad_token_id character_tokenizer \<and>
                         i \<noteq> eos_token_id character_tokenizer \<and>
                         i \<noteq> bos_token_id character_tokenizer) ids \<and>
           tok_decode character_tokenizer ids = Inr t"
  using assms char_decode_encoded [OF assms]
  by (auto simp: character_tokenizer_def list_all_iff valid_text_def char_offset_def)

theorem character_tokenizer_roundtrip_witness:
  "\<exists>ids. tok_encode character_tokenizer (PyStr [104, 105]) = Inr ids \<and>
           tok_decode character_tokenizer ids = Inr [104, 105]"
proof -
  have "valid_text [104, 105]" by (simp add: valid_text_def)
  from character_tokenizer_roundtrip [OF this] show ?thesis by blast
qed

text \<open>Decoding fails only on a token beyond the last code point, and never on control tokens.\<close>

lemma char_decode_total:
  "list_all (\<lambda>t. t < 0x110000 + char_offset) ts \<Longrightarrow> \<exists>s. char_decode ts = Inr s"
  by (induction ts) (auto simp: py_chr_def char_offset_def)

lemma char_decode_valid: "char_decode ts = Inr s \<Longrightarrow> valid_text s"
  by (induction ts arbitrary: s)
    (auto simp: valid_text_def py_chr_def split: if_splits sum.splits)

end
