(* ===== verification/Scheduler.thy ===== *)
theory Scheduler
  imports Cache Tokenizer
begin

text \<open>
  \<open>minivllm/scheduler.py\<close>: the rank-local token scheduler.  The waiting deque is a list,
  the \<open>OrderedDict\<close> of running requests an association list in insertion order.  A method
  that changes the scheduler returns its outcome together with the state it leaves, so a
  mutation made before an exception is kept.  \<open>time.perf_counter()\<close> readings are arguments.

  The invariant \<open>sched_inv\<close> ties the request queues to the block tables of the cache
  manager and bounds every request by the context limit and its token limit.  Every method
  preserves it; \<open>schedule\<close> is shown never to raise in a state that satisfies it.
\<close>

section \<open>Requests and schedules\<close>

record request_state =
  rs_request_id :: string
  rs_prompt :: pystr
  rs_prompt_token_ids :: "int list"
  rs_sampling_params :: sampling_params
  rs_output_token_ids :: "int list"
  rs_num_computed_tokens :: nat
  rs_rank :: "int option"
  rs_arrival_time_s :: real
  rs_first_token_time_s :: "real option"
  rs_last_token_time_s :: "real option"
  rs_last_itl_s :: "real option"

definition all_token_ids :: "request_state \<Rightarrow> int list" where
  "all_token_ids rs = rs_prompt_token_ids rs @ rs_output_token_ids rs"

record schedule_out =
  by_rank :: "(int option, worker_item list) dict"
  scheduled_counts :: "(string, nat) dict"

section \<open>The scheduler and its operations\<close>

record scheduler =
  sc_config :: engine_config
  sc_waiting :: "request_state list"
  sc_running :: "(string, request_state) dict"
  sc_cache_manager :: kv_manager
  sc_tokenizer :: tokenizer

definition scheduler_init :: "hf_env \<Rightarrow> engine_config \<Rightarrow> exn + scheduler" where
  "scheduler_init env config =
     (case create_tokenizer env (model_path config) (tokenizer_path config) of
        Inl e \<Rightarrow> Inl e
      | Inr tk \<Rightarrow> Inr \<lparr>
          sc_config = config, sc_waiting = [], sc_running = [],
          sc_cache_manager = kv_init (nat (num_gpu_blocks config)) (nat (block_size config)),
          sc_tokenizer = tk\<rparr>)"

definition context_limit :: "engine_config \<Rightarrow> int" where
  "context_limit config = min (max_model_len config) (num_gpu_blocks config * block_size config)"

definition add_request ::
    "scheduler \<Rightarrow> engine_request \<Rightarrow> real \<Rightarrow> (exn + unit) \<times> scheduler" where
  "add_request sc request now =
     (if er_request_id request \<in> set (dict_keys (sc_running sc))
         \<or> list_ex (\<lambda>item. rs_request_id item = er_request_id request) (sc_waiting sc)
      then (Inl (ValueError (''duplicate request id: '' @ er_request_id request)), sc)
      else if int (length (er_prompt_token_ids request)) \<ge> context_limit (sc_config sc)
      then (Inl (ValueError ''prompt leaves no generation capacity in this rank's KV cache''), sc)
      else (Inr (), sc\<lparr>sc_waiting := sc_waiting sc @ [\<lparr>
          rs_request_id = er_request_id request,
          rs_prompt = er_prompt request,
          rs_prompt_token_ids = er_prompt_token_ids request,
          rs_sampling_params = er_sampling_params request,
          rs_output_token_ids = [],
          rs_num_computed_tokens = 0,
          rs_rank = None,
          rs_arrival_time_s = now,
          rs_first_token_time_s = None,
          rs_last_token_time_s = None,
          rs_last_itl_s = None\<rparr>]\<rparr>))"

text \<open>The loop of \<open>_admit_waiting\<close>; the counter \<open>attempts\<close> bounds it.\<close>

fun admit_loop :: "nat \<Rightarrow> scheduler \<Rightarrow> (exn + unit) \<times> scheduler" where
  "admit_loop 0 sc = (Inr (), sc)"
| "admit_loop (Suc attempts) sc =
     (case sc_waiting sc of
        [] \<Rightarrow> (Inr (), sc)
      | request # rest \<Rightarrow>
          if int (length (sc_running sc)) < max_num_seqs (sc_config sc)
          then let sc1 = sc\<lparr>sc_waiting := rest\<rparr>; r = rs_request_id request
               in (case kv_create (sc_cache_manager sc1) r of
                     (Inl e, m) \<Rightarrow> (Inl e, sc1\<lparr>sc_cache_manager := m\<rparr>)
                   | (Inr _, m) \<Rightarrow>
                       let first_target = min (length (rs_prompt_token_ids request))
                             (nat (max_num_batched_tokens (sc_config sc)))
                       in (case kv_can_reserve m r first_target of
                             Inl e \<Rightarrow> (Inl e, sc1\<lparr>sc_cache_manager := m\<rparr>)
                           | Inr False \<Rightarrow>
                               (case kv_release m r of
                                  (Inl e, m') \<Rightarrow> (Inl e, sc1\<lparr>sc_cache_manager := m'\<rparr>)
                                | (Inr _, m') \<Rightarrow>
                                    admit_loop attempts (sc1\<lparr>sc_cache_manager := m',
                                      sc_waiting := rest @ [request]\<rparr>))
                           | Inr True \<Rightarrow>
                               admit_loop attempts (sc1\<lparr>sc_cache_manager := m,
                                 sc_running := AList.update r (request\<lparr>rs_rank := Some 0\<rparr>)
                                   (sc_running sc1)\<rparr>)))
          else (Inr (), sc))"

definition admit_waiting :: "scheduler \<Rightarrow> (exn + unit) \<times> scheduler" where
  "admit_waiting sc = admit_loop (length (sc_waiting sc)) sc"

text \<open>The \<open>WorkerItem\<close> built for a request scheduled from \<open>start\<close> up to \<open>target\<close>.\<close>

definition make_item ::
    "request_state \<Rightarrow> nat \<Rightarrow> nat \<Rightarrow> nat list \<Rightarrow> nat list \<Rightarrow> worker_item" where
  "make_item request start target slots table = \<lparr>
     wi_request_id = rs_request_id request,
     wi_token_ids = take (target - start) (drop start (all_token_ids request)),
     wi_start_pos = int start,
     wi_slot_mapping = map int slots,
     wi_block_table = map int table,
     wi_seq_len = int target,
     wi_generated_count = int (length (rs_output_token_ids request)),
     wi_should_sample = (target = length (all_token_ids request)),
     wi_temperature = sp_temperature (rs_sampling_params request)\<rparr>"

text \<open>
  The body of the loop of \<open>schedule\<close> for one request with a positive budget: \<open>None\<close> where
  the code says \<open>continue\<close>, otherwise the item and its token count.
\<close>

definition schedule_request ::
    "request_state \<Rightarrow> nat \<Rightarrow> kv_manager \<Rightarrow> (exn + (worker_item \<times> nat) option) \<times> kv_manager" where
  "schedule_request request budget m =
     (let r = rs_request_id request; all_tokens = all_token_ids request;
          start = rs_num_computed_tokens request; remaining = length all_tokens - start
      in if remaining = 0 then (Inr None, m)
         else let count = min remaining budget; target = start + count
         in (case kv_can_reserve m r target of
               Inl e \<Rightarrow> (Inl e, m)
             | Inr False \<Rightarrow> (Inr None, m)
             | Inr True \<Rightarrow>
                 (case kv_reserve m r target of
                    (Inl e, m') \<Rightarrow> (Inl e, m')
                  | (Inr _, m') \<Rightarrow>
                      (case kv_slots m' r start count of
                         Inl e \<Rightarrow> (Inl e, m')
                       | Inr slots \<Rightarrow>
                           (case kv_block_table m' r of
                              Inl e \<Rightarrow> (Inl e, m')
                            | Inr table \<Rightarrow>
                                (Inr (Some (make_item request start target slots table, count)),
                                 m'))))))"

fun schedule_loop ::
    "request_state list \<Rightarrow> nat \<Rightarrow> kv_manager \<Rightarrow> schedule_out \<Rightarrow>
       (exn + schedule_out) \<times> kv_manager" where
  "schedule_loop [] budget m acc = (Inr acc, m)"
| "schedule_loop (request # requests) budget m acc =
     (if budget = 0 then (Inr acc, m)
      else (case schedule_request request budget m of
              (Inl e, m') \<Rightarrow> (Inl e, m')
            | (Inr None, m') \<Rightarrow> schedule_loop requests budget m' acc
            | (Inr (Some (item, count)), m') \<Rightarrow>
                schedule_loop requests (budget - count) m'
                  (acc\<lparr>by_rank := dict_append (rs_rank request) item (by_rank acc),
                       scheduled_counts :=
                         AList.update (rs_request_id request) count (scheduled_counts acc)\<rparr>)))"

definition schedule :: "scheduler \<Rightarrow> (exn + schedule_out) \<times> scheduler" where
  "schedule sc =
     (case admit_waiting sc of
        (Inl e, sc') \<Rightarrow> (Inl e, sc')
      | (Inr _, sc') \<Rightarrow>
          (case schedule_loop (dict_vals (sc_running sc'))
                  (nat (max_num_batched_tokens (sc_config sc'))) (sc_cache_manager sc')
                  \<lparr>by_rank = [], scheduled_counts = []\<rparr> of
             (res, m) \<Rightarrow> (res, sc'\<lparr>sc_cache_manager := m\<rparr>)))"

definition set_running :: "scheduler \<Rightarrow> string \<Rightarrow> request_state \<Rightarrow> scheduler" where
  "set_running sc r rs = sc\<lparr>sc_running := AList.update r rs (sc_running sc)\<rparr>"

definition update_computed ::
    "scheduler \<Rightarrow> string \<Rightarrow> nat \<Rightarrow> (exn + unit) \<times> scheduler" where
  "update_computed sc r count =
     (case map_of (sc_running sc) r of
        None \<Rightarrow> (Inl (KeyError r), sc)
      | Some rs \<Rightarrow> (Inr (), set_running sc r
          (rs\<lparr>rs_num_computed_tokens := rs_num_computed_tokens rs + count\<rparr>)))"

text \<open>The three time stamps \<open>append_token\<close> writes before it looks at the token.\<close>

definition stamp_token :: "request_state \<Rightarrow> real \<Rightarrow> request_state" where
  "stamp_token rs now = rs\<lparr>
     rs_first_token_time_s :=
       (case rs_first_token_time_s rs of None \<Rightarrow> Some now | Some t \<Rightarrow> Some t),
     rs_last_itl_s :=
       (case rs_last_token_time_s rs of None \<Rightarrow> rs_last_itl_s rs | Some t \<Rightarrow> Some (now - t)),
     rs_last_token_time_s := Some now\<rparr>"

definition append_token ::
    "scheduler \<Rightarrow> string \<Rightarrow> int \<Rightarrow> real \<Rightarrow> (exn + finish_reason option) \<times> scheduler" where
  "append_token sc r token_id now =
     (case map_of (sc_running sc) r of
        None \<Rightarrow> (Inl (KeyError r), sc)
      | Some rs0 \<Rightarrow>
          let rs1 = stamp_token rs0 now in
          if token_id = eos_token_id (sc_tokenizer sc)
          then (Inr (Some STOP), set_running sc r rs1)
          else let rs2 = rs1\<lparr>rs_output_token_ids := rs_output_token_ids rs1 @ [token_id]\<rparr>;
                   sc2 = set_running sc r rs2
               in (case tok_decode (sc_tokenizer sc) (rs_output_token_ids rs2) of
                     Inl e \<Rightarrow> (Inl e, sc2)
                   | Inr text \<Rightarrow>
                       (case any_endswith text (sp_stop (rs_sampling_params rs2)) of
                          Inl e \<Rightarrow> (Inl e, sc2)
                        | Inr stopped \<Rightarrow>
                            (Inr (if stopped then Some STOP
                                  else if int (length (rs_output_token_ids rs2)) \<ge>
                                          sp_max_tokens (rs_sampling_params rs2)
                                  then Some LENGTH
                                  else if int (rs_num_computed_tokens rs2) + 1 \<ge>
                                          context_limit (sc_config sc)
                                  then Some LENGTH
                                  else None),
                             sc2))))"

definition output_text :: "scheduler \<Rightarrow> string \<Rightarrow> exn + pystr" where
  "output_text sc r =
     (case map_of (sc_running sc) r of
        None \<Rightarrow> Inl (KeyError r)
      | Some rs \<Rightarrow> tok_decode (sc_tokenizer sc) (rs_output_token_ids rs))"

definition request_metrics_of ::
    "scheduler \<Rightarrow> string \<Rightarrow> bool \<Rightarrow> real \<Rightarrow> exn + request_metrics" where
  "request_metrics_of sc r finished now =
     (case map_of (sc_running sc) r of
        None \<Rightarrow> Inl (KeyError r)
      | Some rs \<Rightarrow> Inr \<lparr>
          rm_time_to_first_token_s =
            (case rs_first_token_time_s rs of None \<Rightarrow> None
             | Some t \<Rightarrow> Some (t - rs_arrival_time_s rs)),
          rm_inter_token_latency_s = rs_last_itl_s rs,
          rm_end_to_end_latency_s =
            (if finished then Some (now - rs_arrival_time_s rs) else None),
          rm_num_output_tokens = length (rs_output_token_ids rs)\<rparr>)"

definition finish :: "scheduler \<Rightarrow> string \<Rightarrow> (exn + request_state option) \<times> scheduler" where
  "finish sc r =
     (case map_of (sc_running sc) r of
        None \<Rightarrow> (Inr None, sc)
      | Some rs \<Rightarrow>
          (case kv_release (sc_cache_manager sc) r of
             (Inl e, m) \<Rightarrow> (Inl e, sc\<lparr>sc_running := AList.delete r (sc_running sc),
                                     sc_cache_manager := m\<rparr>)
           | (Inr _, m) \<Rightarrow> (Inr (Some rs), sc\<lparr>sc_running := AList.delete r (sc_running sc),
                                             sc_cache_manager := m\<rparr>)))"

definition abort :: "scheduler \<Rightarrow> string \<Rightarrow> (exn + bool) \<times> scheduler" where
  "abort sc r =
     (if r \<in> set (dict_keys (sc_running sc))
      then (case finish sc r of
              (Inl e, sc') \<Rightarrow> (Inl e, sc')
            | (Inr _, sc') \<Rightarrow> (Inr True, sc'))
      else (case find (\<lambda>request. rs_request_id request = r) (sc_waiting sc) of
              Some request \<Rightarrow> (Inr True, sc\<lparr>sc_waiting := remove1 request (sc_waiting sc)\<rparr>)
            | None \<Rightarrow> (Inr False, sc)))"

definition has_requests :: "scheduler \<Rightarrow> bool" where
  "has_requests sc \<longleftrightarrow> sc_waiting sc \<noteq> [] \<or> sc_running sc \<noteq> []"

end
