(* ===== verification/Scheduler_Inv.thy ===== *)
theory Scheduler_Inv
  imports Scheduler "HOL-Library.Multiset"
begin

text \<open>
  The scheduler's invariant and what it gives: admission and \<open>schedule\<close> never raise, the items
  of a round fit the requests, the block tables and the token budget, no two items share a
  slot, and \<open>update_computed\<close>, \<open>append_token\<close>, \<open>finish\<close> and \<open>abort\<close> keep it.  All
  reasoning about blocks goes through the contract \<open>kv\<close> of the cache manager.
\<close>

section \<open>The invariant\<close>

text \<open>Facts about one running request under a cache manager.\<close>

definition req_ok :: "engine_config \<Rightarrow> kv_manager \<Rightarrow> request_state \<Rightarrow> bool" where
  "req_ok config m rs \<longleftrightarrow>
     rs_rank rs = Some 0 \<and>
     rs_num_computed_tokens rs \<le> length (all_token_ids rs) \<and>
     (\<exists>bl. kv_tbl m (rs_request_id rs) = Some bl \<and>
           rs_num_computed_tokens rs \<le> length bl * kv_block_size m) \<and>
     int (length (all_token_ids rs)) < context_limit config \<and>
     int (length (rs_output_token_ids rs)) < sp_max_tokens (rs_sampling_params rs) \<and>
     (rs_output_token_ids rs \<noteq> [] \<longrightarrow>
        length (all_token_ids rs) \<le> rs_num_computed_tokens rs + 1)"

definition wait_ok :: "engine_config \<Rightarrow> request_state \<Rightarrow> bool" where
  "wait_ok config rs \<longleftrightarrow>
     rs_output_token_ids rs = [] \<and> rs_num_computed_tokens rs = 0 \<and>
     int (length (all_token_ids rs)) < context_limit config \<and>
     0 < sp_max_tokens (rs_sampling_params rs)"

text \<open>
  The structure every method keeps, whatever the requests hold: the cache manager is
  consistent and configured as the engine is, exactly the running requests have block
  tables, and no id occurs twice among the running and waiting requests.
\<close>

definition base_inv :: "scheduler \<Rightarrow> bool" where
  "base_inv sc \<longleftrightarrow>
     valid_config (sc_config sc) \<and>
     kv_inv (sc_cache_manager sc) \<and>
     kv_block_size (sc_cache_manager sc) = nat (block_size (sc_config sc)) \<and>
     kv_cap (sc_cache_manager sc) = nat (num_gpu_blocks (sc_config sc)) \<and>
     dom (kv_tbl (sc_cache_manager sc)) = set (dict_keys (sc_running sc)) \<and>
     distinct (dict_keys (sc_running sc) @ map rs_request_id (sc_waiting sc)) \<and>
     (\<forall>(r, rs) \<in> set (sc_running sc). rs_request_id rs = r) \<and>
     int (length (sc_running sc)) \<le> max_num_seqs (sc_config sc)"

text \<open>The invariant, where the requests in \<open>X\<close> may be in the middle of an update.\<close>

definition sched_inv_but :: "string set \<Rightarrow> scheduler \<Rightarrow> bool" where
  "sched_inv_but X sc \<longleftrightarrow> base_inv sc \<and>
     (\<forall>(r, rs) \<in> set (sc_running sc). r \<notin> X \<longrightarrow> req_ok (sc_config sc) (sc_cache_manager sc) rs) \<and>
     (\<forall>rs \<in> set (sc_waiting sc). wait_ok (sc_config sc) rs)"

abbreviation sched_inv :: "scheduler \<Rightarrow> bool" where
  "sched_inv \<equiv> sched_inv_but {}"

lemma sched_inv_butD:
  assumes "sched_inv_but X sc"
  shows "valid_config (sc_config sc)" "kv_inv (sc_cache_manager sc)"
    "kv_block_size (sc_cache_manager sc) = nat (block_size (sc_config sc))"
    "kv_cap (sc_cache_manager sc) = nat (num_gpu_blocks (sc_config sc))"
    "dom (kv_tbl (sc_cache_manager sc)) = set (dict_keys (sc_running sc))"
    "distinct (dict_keys (sc_running sc))"
    "distinct (map rs_request_id (sc_waiting sc))"
    "set (dict_keys (sc_running sc)) \<inter> rs_request_id ` set (sc_waiting sc) = {}"
    "int (length (sc_running sc)) \<le> max_num_seqs (sc_config sc)"
    "\<And>rs. rs \<in> set (sc_waiting sc) \<Longrightarrow> wait_ok (sc_config sc) rs"
    "\<And>r rs. map_of (sc_running sc) r = Some rs \<Longrightarrow> rs_request_id rs = r"
    "\<And>r rs. map_of (sc_running sc) r = Some rs \<Longrightarrow> r \<notin> X \<Longrightarrow>
       req_ok (sc_config sc) (sc_cache_manager sc) rs"
  using assms by (auto simp: sched_inv_but_def base_inv_def dest: map_of_SomeD)

lemma sched_inv_butI:
  assumes "valid_config (sc_config sc)" "kv_inv (sc_cache_manager sc)"
    "kv_block_size (sc_cache_manager sc) = nat (block_size (sc_config sc))"
    "kv_cap (sc_cache_manager sc) = nat (num_gpu_blocks (sc_config sc))"
    "dom (kv_tbl (sc_cache_manager sc)) = set (dict_keys (sc_running sc))"
    "distinct (dict_keys (sc_running sc))"
    "distinct (map rs_request_id (sc_waiting sc))"
    "set (dict_keys (sc_running sc)) \<inter> rs_request_id ` set (sc_waiting sc) = {}"
    "int (length (sc_running sc)) \<le> max_num_seqs (sc_config sc)"
    "\<And>rs. rs \<in> set (sc_waiting sc) \<Longrightarrow> wait_ok (sc_config sc) rs"
    "\<And>r rs. (r, rs) \<in> set (sc_running sc) \<Longrightarrow> rs_request_id rs = r"
    "\<And>r rs. (r, rs) \<in> set (sc_running sc) \<Longrightarrow> r \<notin> X \<Longrightarrow>
       req_ok (sc_config sc) (sc_cache_manager sc) rs"
  shows "sched_inv_but X sc"
  using assms unfolding sched_inv_but_def base_inv_def by auto

lemma sched_inv_but_entryD:
  assumes "sched_inv_but X sc" and "(r, rs) \<in> set (sc_running sc)"
  shows "rs_request_id rs = r" "map_of (sc_running sc) r = Some rs"
    "r \<notin> X \<Longrightarrow> req_ok (sc_config sc) (sc_cache_manager sc) rs"
  using assms sched_inv_butD(6) [OF assms(1)]
  by (auto simp: sched_inv_but_def base_inv_def map_of_is_SomeI)

lemma sched_inv_but_mono: "sched_inv_but X sc \<Longrightarrow> X \<subseteq> Y \<Longrightarrow> sched_inv_but Y sc"
  by (auto simp: sched_inv_but_def)

lemma scheduler_init_inv:
  assumes "valid_config config" and "scheduler_init env config = Inr sc"
  shows "sched_inv sc"
  using assms kv_init_inv [of "nat (block_size config)"]
  by (auto simp: scheduler_init_def sched_inv_but_def base_inv_def valid_config_def kv_init_def
      kv_tbl_def block_pool_init_def split: sum.splits)

lemma add_request_inv:
  assumes "sched_inv sc" and "0 < sp_max_tokens (er_sampling_params request)"
  shows "sched_inv (snd (add_request sc request now))"
  using assms
  by (auto simp: add_request_def sched_inv_but_def base_inv_def wait_ok_def all_token_ids_def
      list_ex_iff)

lemma sched_inv_cases_run:
  assumes "sched_inv_but X sc" "r \<in> set (dict_keys (sc_running sc))"
  obtains rs bl where "map_of (sc_running sc) r = Some rs" "rs_request_id rs = r"
    "kv_tbl (sc_cache_manager sc) r = Some bl"
proof -
  from assms(2) obtain rs where rs: "map_of (sc_running sc) r = Some rs"
    by (metis map_of_None_iff not_None_eq)
  moreover from sched_inv_butD(5) [OF assms(1)] assms(2) obtain bl where
    "kv_tbl (sc_cache_manager sc) r = Some bl" by auto
  ultimately show ?thesis using that sched_inv_butD(11) [OF assms(1) rs] by blast
qed


text \<open>A cache manager that agrees on the configuration and only extends block tables.\<close>

definition kv_extends :: "kv_manager \<Rightarrow> kv_manager \<Rightarrow> bool" where
  "kv_extends m m' \<longleftrightarrow> kv_block_size m' = kv_block_size m \<and> kv_cap m' = kv_cap m \<and>
     (\<forall>r bl. kv_tbl m r = Some bl \<longrightarrow> (\<exists>ext. kv_tbl m' r = Some (bl @ ext)))"

lemma kv_extends_refl [simp, intro]: "kv_extends m m"
  by (simp add: kv_extends_def)

lemma kv_extends_trans [trans]: "kv_extends m m' \<Longrightarrow> kv_extends m' m'' \<Longrightarrow> kv_extends m m''"
  unfolding kv_extends_def by (metis append.assoc)

lemma req_ok_extends:
  assumes "req_ok config m rs" and "kv_extends m m'"
  shows "req_ok config m' rs"
proof -
  from assms obtain bl ext where
    "kv_tbl m' (rs_request_id rs) = Some (bl @ ext)" and
    "rs_num_computed_tokens rs \<le> length bl * kv_block_size m'"
    unfolding req_ok_def kv_extends_def by metis
  then have "kv_tbl m' (rs_request_id rs) = Some (bl @ ext) \<and>
      rs_num_computed_tokens rs \<le> length (bl @ ext) * kv_block_size m'"
    by (simp add: add_mult_distrib)
  with assms(1) show ?thesis unfolding req_ok_def by blast
qed

text \<open>The requests the scheduler is responsible for.\<close>

definition active_ids :: "scheduler \<Rightarrow> string list" where
  "active_ids sc = dict_keys (sc_running sc) @ map rs_request_id (sc_waiting sc)"

lemma rotate_waiting_inv:
  assumes inv: "sched_inv sc" and w: "sc_waiting sc = request # rest" and m: "kv_inv m"
    and eqs: "kv_tbl m = kv_tbl (sc_cache_manager sc)"
      "kv_block_size m = kv_block_size (sc_cache_manager sc)"
      "kv_cap m = kv_cap (sc_cache_manager sc)"
  shows "sched_inv (sc\<lparr>sc_cache_manager := m, sc_waiting := rest @ [request]\<rparr>)"
proof -
  note D = sched_inv_butD [OF inv]
  have ext: "kv_extends (sc_cache_manager sc) m" using eqs by (simp add: kv_extends_def)
  show ?thesis
  proof (rule sched_inv_butI)
    fix r rs
    assume "(r, rs) \<in> set (sc_running (sc\<lparr>sc_cache_manager := m, sc_waiting := rest @ [request]\<rparr>))"
    then have "(r, rs) \<in> set (sc_running sc)" by simp
    from sched_inv_but_entryD [OF inv this] ext show "rs_request_id rs = r"
      and "req_ok (sc_config (sc\<lparr>sc_cache_manager := m, sc_waiting := rest @ [request]\<rparr>))
        (sc_cache_manager (sc\<lparr>sc_cache_manager := m, sc_waiting := rest @ [request]\<rparr>)) rs"
      by (auto intro: req_ok_extends)
  qed (use D w m eqs in auto)
qed

lemma admit_inv:
  assumes inv: "sched_inv sc" and w: "sc_waiting sc = request # rest" and m: "kv_inv m"
    and tbl: "kv_tbl m = (kv_tbl (sc_cache_manager sc))(rs_request_id request \<mapsto> [])"
    and bs: "kv_block_size m = kv_block_size (sc_cache_manager sc)"
    and cap: "kv_cap m = kv_cap (sc_cache_manager sc)"
    and room: "int (length (sc_running sc)) < max_num_seqs (sc_config sc)"
  shows "sched_inv (sc\<lparr>sc_waiting := rest, sc_cache_manager := m,
           sc_running := sc_running sc @ [(rs_request_id request, request\<lparr>rs_rank := Some 0\<rparr>)]\<rparr>)"
    (is "sched_inv ?sc")
proof -
  note D = sched_inv_butD [OF inv]
  have fresh: "kv_tbl (sc_cache_manager sc) (rs_request_id request) = None"
    using D(5,8) w by (auto simp: dom_def)
  have ext: "kv_extends (sc_cache_manager sc) m"
    using tbl bs cap fresh by (auto simp: kv_extends_def)
  have new: "req_ok (sc_config sc) m (request\<lparr>rs_rank := Some 0\<rparr>)"
    using D(10) [of request] w tbl by (simp add: wait_ok_def req_ok_def all_token_ids_def)
  show ?thesis
  proof (rule sched_inv_butI)
    fix r rs
    assume "(r, rs) \<in> set (sc_running ?sc)"
    then consider "(r, rs) \<in> set (sc_running sc)"
      | "r = rs_request_id request" "rs = request\<lparr>rs_rank := Some 0\<rparr>" by auto
    then show "rs_request_id rs = r" and "req_ok (sc_config ?sc) (sc_cache_manager ?sc) rs"
      using new ext sched_inv_but_entryD [OF inv, of r rs]
      by (cases; auto intro: req_ok_extends)+
  qed (use D w m tbl bs cap room in auto)
qed

text \<open>
  Admission never raises; it keeps the invariant, appends the admitted requests to the
  running ones, grows no table and loses no request.
\<close>

lemma admit_loop_ok:
  assumes "sched_inv sc"
  shows "\<exists>sc'. admit_loop n sc = (Inr (), sc') \<and> sched_inv sc' \<and>
           sc_config sc' = sc_config sc \<and> sc_tokenizer sc' = sc_tokenizer sc \<and>
           mset (active_ids sc') = mset (active_ids sc) \<and>
           (\<exists>adm. sc_running sc' = sc_running sc @ adm) \<and>
           kv_extends (sc_cache_manager sc) (sc_cache_manager sc') \<and>
           kv_nfree (sc_cache_manager sc') = kv_nfree (sc_cache_manager sc)"
  using assms
proof (induction n arbitrary: sc)
  case 0
  then show ?case by auto
next
  case (Suc n)
  show ?case
  proof (cases "sc_waiting sc")
    case Nil
    with Suc.prems show ?thesis by auto
  next
    case (Cons request rest)
    show ?thesis
    proof (cases "int (length (sc_running sc)) < max_num_seqs (sc_config sc)")
      case False
      with Suc.prems Cons show ?thesis by auto
    next
      case room: True
      let ?r = "rs_request_id request" and ?m = "sc_cache_manager sc"
      let ?t = "min (length (rs_prompt_token_ids request))
        (nat (max_num_batched_tokens (sc_config sc)))"
      note D = sched_inv_butD [OF Suc.prems]
      have fresh: "kv_tbl ?m ?r = None" using D(5,8) Cons by (auto simp: dom_def)
      have r: "?r \<notin> set (dict_keys (sc_running sc))" using D(8) Cons by auto
      from kv.create_fresh [OF D(2) fresh] obtain m1 where
        m1: "kv_create ?m ?r = (Inr (), m1)" "kv_inv m1" "kv_tbl m1 = (kv_tbl ?m)(?r \<mapsto> [])"
          "kv_nfree m1 = kv_nfree ?m" "kv_block_size m1 = kv_block_size ?m" "kv_cap m1 = kv_cap ?m"
        by blast
      have t1: "kv_tbl m1 ?r = Some []" using m1(3) by simp
      obtain b where b: "kv_can_reserve m1 ?r ?t = Inr b"
        using kv.can_reserve_iff [OF m1(2) t1] by blast
      show ?thesis
      proof (cases b)
        case True
        let ?sc1 = "sc\<lparr>sc_waiting := rest, sc_cache_manager := m1,
          sc_running := sc_running sc @ [(?r, request\<lparr>rs_rank := Some 0\<rparr>)]\<rparr>"
        have step: "admit_loop (Suc n) sc = admit_loop n ?sc1"
          using Cons room m1(1) b True r by (simp add: Let_def update_fresh)
        have inv1: "sched_inv ?sc1"
          using admit_inv [OF Suc.prems Cons m1(2,3,5,6) room] .
        have ext: "kv_extends ?m m1" using m1 fresh by (auto simp: kv_extends_def)
        from Suc.IH [OF inv1] obtain sc' where
          "admit_loop n ?sc1 = (Inr (), sc')" "sched_inv sc'" "sc_config sc' = sc_config sc"
          "sc_tokenizer sc' = sc_tokenizer sc" "mset (active_ids sc') = mset (active_ids ?sc1)"
          "\<exists>adm. sc_running sc' = sc_running ?sc1 @ adm" "kv_extends m1 (sc_cache_manager sc')"
          "kv_nfree (sc_cache_manager sc') = kv_nfree m1" by auto
        moreover have "mset (active_ids ?sc1) = mset (active_ids sc)"
          using Cons by (simp add: active_ids_def)
        ultimately show ?thesis
          unfolding step using ext m1(4) by (auto intro: kv_extends_trans)
      next
        case False
        from kv.probe_release [OF D(2) fresh m1(1)] obtain m2 where
          m2: "kv_release m1 ?r = (Inr (), m2)" "kv_inv m2" "kv_tbl m2 = kv_tbl ?m"
            "kv_nfree m2 = kv_nfree ?m" "kv_block_size m2 = kv_block_size ?m" "kv_cap m2 = kv_cap ?m"
          by blast
        let ?sc1 = "sc\<lparr>sc_cache_manager := m2, sc_waiting := rest @ [request]\<rparr>"
        have step: "admit_loop (Suc n) sc = admit_loop n ?sc1"
          using Cons room m1(1) b False m2(1) by (simp add: Let_def)
        have inv1: "sched_inv ?sc1"
          using rotate_waiting_inv [OF Suc.prems Cons m2(2,3,5,6)] .
        have ext: "kv_extends ?m m2" using m2 by (auto simp: kv_extends_def)
        from Suc.IH [OF inv1] obtain sc' where
          "admit_loop n ?sc1 = (Inr (), sc')" "sched_inv sc'" "sc_config sc' = sc_config sc"
          "sc_tokenizer sc' = sc_tokenizer sc" "mset (active_ids sc') = mset (active_ids ?sc1)"
          "\<exists>adm. sc_running sc' = sc_running sc @ adm" "kv_extends m2 (sc_cache_manager sc')"
          "kv_nfree (sc_cache_manager sc') = kv_nfree m2" by auto
        moreover have "mset (active_ids ?sc1) = mset (active_ids sc)"
          using Cons by (simp add: active_ids_def)
        ultimately show ?thesis
          unfolding step using ext m2(4) by (auto intro: kv_extends_trans)
      qed
    qed
  qed
qed


section \<open>What a schedule promises\<close>

text \<open>
  The work item of a running request: \<open>c\<close> of its uncomputed tokens, in order, with their
  positions, with one slot for each taken from the request's block table, and with the whole
  table covering every position up to the end of the chunk.
\<close>

definition item_for :: "kv_manager \<Rightarrow> request_state \<Rightarrow> worker_item \<Rightarrow> bool" where
  "item_for m rs it \<longleftrightarrow>
     (\<exists>bl c. let start = rs_num_computed_tokens rs in
        kv_tbl m (rs_request_id rs) = Some bl \<and> 0 < c \<and>
        start + c \<le> length (all_token_ids rs) \<and> start + c \<le> length bl * kv_block_size m \<and>
        it = make_item rs start (start + c)
               (map (slot_of (kv_block_size m) bl) [start..<start + c]) bl)"

abbreviation item_count :: "worker_item \<Rightarrow> nat" where
  "item_count it \<equiv> length (wi_token_ids it)"

lemma item_forE:
  assumes "item_for m rs it"
  obtains bl c where "kv_tbl m (rs_request_id rs) = Some bl" "0 < c"
    "rs_num_computed_tokens rs + c \<le> length (all_token_ids rs)"
    "rs_num_computed_tokens rs + c \<le> length bl * kv_block_size m"
    "it = make_item rs (rs_num_computed_tokens rs) (rs_num_computed_tokens rs + c)
            (map (slot_of (kv_block_size m) bl)
               [rs_num_computed_tokens rs..<rs_num_computed_tokens rs + c]) bl"
    "item_count it = c" "wi_request_id it = rs_request_id rs"
  using assms by (auto simp: item_for_def Let_def make_item_def)

lemma item_for_cong:
  "kv_tbl m' (rs_request_id rs) = kv_tbl m (rs_request_id rs) \<Longrightarrow>
   kv_block_size m' = kv_block_size m \<Longrightarrow> item_for m' rs it = item_for m rs it"
  by (simp add: item_for_def)

text \<open>The outcome of the loop body on a request that has a block table.\<close>

lemma schedule_request_ok:
  assumes m: "kv_inv m" and bl: "kv_tbl m (rs_request_id rs) = Some bl" and b: "0 < budget"
  obtains (skip) "schedule_request rs budget m = (Inr None, m)"
      "length (all_token_ids rs) \<le> rs_num_computed_tokens rs \<or>
       kv_nfree m < ceil_div (rs_num_computed_tokens rs +
           min (length (all_token_ids rs) - rs_num_computed_tokens rs) budget)
           (kv_block_size m) - length bl"
  | (item) it m' where "schedule_request rs budget m = (Inr (Some (it, item_count it)), m')"
      "item_for m' rs it" "item_count it \<le> budget" "kv_inv m'" "kv_extends m m'"
      "\<And>r. r \<noteq> rs_request_id rs \<Longrightarrow> kv_tbl m' r = kv_tbl m r"
      "dom (kv_tbl m') = dom (kv_tbl m)"
      "item_count it = min (length (all_token_ids rs) - rs_num_computed_tokens rs) budget"
proof -
  let ?r = "rs_request_id rs" and ?s = "rs_num_computed_tokens rs"
  let ?c = "min (length (all_token_ids rs) - ?s) budget"
  consider (computed) "length (all_token_ids rs) \<le> ?s"
    | (no) "?s < length (all_token_ids rs)" "kv_can_reserve m ?r (?s + ?c) = Inr False"
    | (yes) "?s < length (all_token_ids rs)" "kv_can_reserve m ?r (?s + ?c) = Inr True"
    using kv.can_reserve_iff [OF m bl, of "?s + ?c"] by force
  then show ?thesis
  proof cases
    case computed
    then have "schedule_request rs budget m = (Inr None, m)" by (simp add: schedule_request_def)
    then show ?thesis by (rule skip [OF _ disjI1 [OF computed]])
  next
    case no
    then have "schedule_request rs budget m = (Inr None, m)" by (simp add: schedule_request_def Let_def)
    moreover have "\<not> ceil_div (?s + ?c) (kv_block_size m) - length bl \<le> kv_nfree m"
      using no(2) unfolding kv.can_reserve_iff [OF m bl] by simp
    ultimately show ?thesis by (intro skip disjI2) (simp_all only: not_le)
  next
    case yes
    from kv.reserve_covers [OF m bl yes(2)] obtain m' new where
      m': "kv_reserve m ?r (?s + ?c) = (Inr (), m')" "kv_inv m'"
        "kv_tbl m' = (kv_tbl m)(?r \<mapsto> bl @ new)"
        "?s + ?c \<le> length (bl @ new) * kv_block_size m'"
        "kv_block_size m' = kv_block_size m" "kv_cap m' = kv_cap m"
        "kv_block_table m' ?r = Inr (bl @ new)" by metis
    have t': "kv_tbl m' ?r = Some (bl @ new)" using m'(3) by simp
    let ?ss = "map (slot_of (kv_block_size m') (bl @ new)) [?s..<?s + ?c]"
    let ?it = "make_item rs ?s (?s + ?c) ?ss (bl @ new)"
    have slots: "kv_slots m' ?r ?s ?c = Inr ?ss"
      using kv.slots_in_range [OF m'(2) t' m'(4)] .
    have cnt: "item_count ?it = ?c" by (simp add: make_item_def)
    have "schedule_request rs budget m = (Inr (Some (?it, ?c)), m')"
      using yes m'(1,7) slots by (simp add: schedule_request_def Let_def)
    moreover have "item_for m' rs ?it"
      unfolding item_for_def Let_def using t' yes(1) b m'(4)
      by (intro exI [of _ "bl @ new"] exI [of _ ?c]) auto
    moreover have "kv_extends m m'" using m' bl by (auto simp: kv_extends_def)
    moreover have "dom (kv_tbl m') = dom (kv_tbl m)" using m'(3) bl by auto
    ultimately show ?thesis using item [of ?it m'] m'(2,3) cnt by simp
  qed
qed

text \<open>The dictionaries of a schedule whose items all go to rank 0.\<close>

definition schedule_of :: "worker_item list \<Rightarrow> schedule_out" where
  "schedule_of its = \<lparr>
     by_rank = (if its = [] then [] else [(Some 0, its)]),
     scheduled_counts = map (\<lambda>it. (wi_request_id it, item_count it)) its\<rparr>"

lemma schedule_of_snoc:
  assumes "wi_request_id it \<notin> wi_request_id ` set its"
  shows "(schedule_of its)\<lparr>by_rank := dict_append (Some 0) it (by_rank (schedule_of its)),
           scheduled_counts := AList.update (wi_request_id it) (item_count it)
             (scheduled_counts (schedule_of its))\<rparr> = schedule_of (its @ [it])"
proof -
  have "AList.update (wi_request_id it) (item_count it) (scheduled_counts (schedule_of its)) =
      scheduled_counts (schedule_of its) @ [(wi_request_id it, item_count it)]"
    using assms by (intro update_fresh) (auto simp: schedule_of_def comp_def)
  then show ?thesis by (simp add: schedule_of_def dict_append_def)
qed

lemma schedule_loop_ok:
  assumes "kv_inv m" and "distinct (map rs_request_id reqs)"
    and "\<forall>rs\<in>set reqs. rs_rank rs = Some 0 \<and> kv_tbl m (rs_request_id rs) \<noteq> None"
    and "wi_request_id ` set its \<inter> rs_request_id ` set reqs = {}"
  shows "\<exists>new m'. schedule_loop reqs budget m (schedule_of its) = (Inr (schedule_of (its @ new)), m') \<and>
           kv_inv m' \<and> kv_extends m m' \<and> dom (kv_tbl m') = dom (kv_tbl m) \<and>
           sum_list (map item_count new) \<le> budget \<and>
           subseq (map wi_request_id new) (map rs_request_id reqs) \<and>
           (\<forall>it\<in>set new. \<exists>rs\<in>set reqs. item_for m' rs it) \<and>
           (\<forall>r. r \<notin> rs_request_id ` set reqs \<longrightarrow> kv_tbl m' r = kv_tbl m r)"
  using assms
proof (induction reqs arbitrary: budget m its)
  case Nil
  then show ?case by (intro exI [of _ "[]"] exI [of _ m]) simp
next
  case (Cons rs reqs)
  let ?r = "rs_request_id rs"
  show ?case
  proof (cases "budget = 0")
    case True
    then show ?thesis using Cons.prems(1) by (intro exI [of _ "[]"] exI [of _ m]) simp
  next
    case False
    obtain bl where bl: "kv_tbl m ?r = Some bl" using Cons.prems(3) by auto
    have "0 < budget" using False by simp
    with Cons.prems(1) bl show ?thesis
    proof (cases rule: schedule_request_ok)
      case skip
      from Cons.IH [of m its budget] Cons.prems obtain new m' where
        IH: "schedule_loop reqs budget m (schedule_of its) = (Inr (schedule_of (its @ new)), m')"
          "kv_inv m'" "kv_extends m m'" "dom (kv_tbl m') = dom (kv_tbl m)"
          "sum_list (map item_count new) \<le> budget"
          "subseq (map wi_request_id new) (map rs_request_id reqs)"
          "\<forall>it\<in>set new. \<exists>rs\<in>set reqs. item_for m' rs it"
          "\<forall>r. r \<notin> rs_request_id ` set reqs \<longrightarrow> kv_tbl m' r = kv_tbl m r" by auto
      then show ?thesis using skip(1) False by (intro exI [of _ new] exI [of _ m']) auto
    next
      case (item it m1)
      have id: "wi_request_id it = ?r" using item(2) by (elim item_forE) simp
      have acc: "(schedule_of its)\<lparr>by_rank := dict_append (rs_rank rs) it (by_rank (schedule_of its)),
           scheduled_counts := AList.update ?r (item_count it)
             (scheduled_counts (schedule_of its))\<rparr> = schedule_of (its @ [it])"
        using schedule_of_snoc [of it its] Cons.prems(3,4) id by auto
      have step: "schedule_loop (rs # reqs) budget m (schedule_of its) =
          schedule_loop reqs (budget - item_count it) m1 (schedule_of (its @ [it]))"
        using item(1) False acc by simp
      have p2: "distinct (map rs_request_id reqs)" and r: "?r \<notin> rs_request_id ` set reqs"
        using Cons.prems(2) by auto
      have p3: "\<forall>q\<in>set reqs. rs_rank q = Some 0 \<and> kv_tbl m1 (rs_request_id q) \<noteq> None"
        using Cons.prems(3) item(7) by (auto simp: dom_def set_eq_iff)
      have p4: "wi_request_id ` set (its @ [it]) \<inter> rs_request_id ` set reqs = {}"
        using Cons.prems(4) r id by auto
      from Cons.IH [OF item(4) p2 p3 p4, of "budget - item_count it"] obtain new m' where
        IH: "schedule_loop reqs (budget - item_count it) m1 (schedule_of (its @ [it])) =
            (Inr (schedule_of ((its @ [it]) @ new)), m')"
          "kv_inv m'" "kv_extends m1 m'" "dom (kv_tbl m') = dom (kv_tbl m1)"
          "sum_list (map item_count new) \<le> budget - item_count it"
          "subseq (map wi_request_id new) (map rs_request_id reqs)"
          "\<forall>it\<in>set new. \<exists>rs\<in>set reqs. item_for m' rs it"
          "\<forall>r. r \<notin> rs_request_id ` set reqs \<longrightarrow> kv_tbl m' r = kv_tbl m1 r" by blast
      have "item_for m' rs it"
        using item(2) item_for_cong [of m' rs m1 it] IH(3,8) r by (auto simp: kv_extends_def)
      moreover have "kv_extends m m'" using item(5) IH(3) by (rule kv_extends_trans)
      ultimately show ?thesis
        using step IH item(3,6,7) id by (intro exI [of _ "it # new"] exI [of _ m']) auto
    qed
  qed
qed


definition items_ok :: "scheduler \<Rightarrow> worker_item list \<Rightarrow> bool" where
  "items_ok sc its \<longleftrightarrow> distinct (map wi_request_id its) \<and>
     (\<forall>it\<in>set its. \<exists>rs. map_of (sc_running sc) (wi_request_id it) = Some rs \<and>
        item_for (sc_cache_manager sc) rs it)"

lemma schedule_of_Nil: "schedule_of [] = \<lparr>by_rank = [], scheduled_counts = []\<rparr>"
  by (simp add: schedule_of_def)

lemma running_vals_ok:
  assumes "sched_inv sc" and "rs \<in> set (dict_vals (sc_running sc))"
  shows "map_of (sc_running sc) (rs_request_id rs) = Some rs"
    and "req_ok (sc_config sc) (sc_cache_manager sc) rs"
proof -
  from assms(2) obtain r where "(r, rs) \<in> set (sc_running sc)" by auto
  from sched_inv_but_entryD [OF assms(1) this]
  show "map_of (sc_running sc) (rs_request_id rs) = Some rs"
    and "req_ok (sc_config sc) (sc_cache_manager sc) rs" by auto
qed

lemma running_ids:
  assumes "sched_inv_but X sc"
  shows "map rs_request_id (dict_vals (sc_running sc)) = dict_keys (sc_running sc)"
  using sched_inv_but_entryD(1) [OF assms] by auto

lemma set_manager_inv:
  assumes inv: "sched_inv_but X sc" and m: "kv_inv m" and ext: "kv_extends (sc_cache_manager sc) m"
    and dm: "dom (kv_tbl m) = dom (kv_tbl (sc_cache_manager sc))"
  shows "sched_inv_but X (sc\<lparr>sc_cache_manager := m\<rparr>)"
proof (rule sched_inv_butI)
  fix r rs
  assume "(r, rs) \<in> set (sc_running (sc\<lparr>sc_cache_manager := m\<rparr>))"
  then have "(r, rs) \<in> set (sc_running sc)" by simp
  from sched_inv_but_entryD [OF inv this]
  show "rs_request_id rs = r" and "r \<notin> X \<Longrightarrow> req_ok (sc_config (sc\<lparr>sc_cache_manager := m\<rparr>))
      (sc_cache_manager (sc\<lparr>sc_cache_manager := m\<rparr>)) rs"
    using ext by (auto intro: req_ok_extends)
qed (use sched_inv_butD [OF inv] m ext dm in \<open>auto simp: kv_extends_def\<close>)

text \<open>
  One scheduling round from a state that satisfies the invariant: it does not raise, keeps the
  invariant and every request, and returns one item for some of the running requests, in
  their order, within the token budget.
\<close>

lemma schedule_ok:
  assumes inv: "sched_inv sc"
  obtains its sc' where "schedule sc = (Inr (schedule_of its), sc')" and "sched_inv sc'"
    and "items_ok sc' its"
    and "sum_list (map item_count its) \<le> nat (max_num_batched_tokens (sc_config sc))"
    and "sc_config sc' = sc_config sc" and "sc_tokenizer sc' = sc_tokenizer sc"
    and "mset (active_ids sc') = mset (active_ids sc)"
    and "subseq (map wi_request_id its) (dict_keys (sc_running sc'))"
    and "\<exists>adm. sc_running sc' = sc_running sc @ adm"
    and "kv_extends (sc_cache_manager sc) (sc_cache_manager sc')"
proof -
  from admit_loop_ok [OF inv] obtain sc1 where
    a: "admit_waiting sc = (Inr (), sc1)" "sched_inv sc1" "sc_config sc1 = sc_config sc"
      "sc_tokenizer sc1 = sc_tokenizer sc" "mset (active_ids sc1) = mset (active_ids sc)"
      "\<exists>adm. sc_running sc1 = sc_running sc @ adm"
      "kv_extends (sc_cache_manager sc) (sc_cache_manager sc1)"
    unfolding admit_waiting_def by metis
  note D = sched_inv_butD [OF a(2)]
  let ?reqs = "dict_vals (sc_running sc1)" and ?m = "sc_cache_manager sc1"
  let ?b = "nat (max_num_batched_tokens (sc_config sc))"
  have p2: "distinct (map rs_request_id ?reqs)" unfolding running_ids [OF a(2)] by (rule D(6))
  have p3: "\<forall>rs\<in>set ?reqs. rs_rank rs = Some 0 \<and> kv_tbl ?m (rs_request_id rs) \<noteq> None"
    using running_vals_ok(2) [OF a(2)] by (auto simp: req_ok_def)
  have p4: "wi_request_id ` set [] \<inter> rs_request_id ` set ?reqs = {}" by simp
  from schedule_loop_ok [OF D(2) p2 p3 p4, of ?b] obtain its m where
    l: "schedule_loop ?reqs ?b ?m (schedule_of []) = (Inr (schedule_of its), m)" "kv_inv m"
      "kv_extends ?m m" "dom (kv_tbl m) = dom (kv_tbl ?m)" "sum_list (map item_count its) \<le> ?b"
      "subseq (map wi_request_id its) (map rs_request_id ?reqs)"
      "\<forall>it\<in>set its. \<exists>rs\<in>set ?reqs. item_for m rs it" by auto
  let ?sc' = "sc1\<lparr>sc_cache_manager := m\<rparr>"
  have run: "schedule sc = (Inr (schedule_of its), ?sc')"
    using a(1,3) l(1) by (simp add: schedule_def schedule_of_Nil)
  have inv': "sched_inv ?sc'" using set_manager_inv [OF a(2) l(2-4)] .
  have "items_ok ?sc' its"
    unfolding items_ok_def
  proof
    show "distinct (map wi_request_id its)" using p2 l(6) by (blast dest: subseq_distinct)
    show "\<forall>it\<in>set its. \<exists>rs. map_of (sc_running ?sc') (wi_request_id it) = Some rs \<and>
        item_for (sc_cache_manager ?sc') rs it"
    proof
      fix it
      assume "it \<in> set its"
      with l(7) obtain rs where rs: "rs \<in> set ?reqs" "item_for m rs it" by blast
      from rs(2) have "wi_request_id it = rs_request_id rs" by (elim item_forE)
      with rs running_vals_ok(1) [OF a(2) rs(1)]
      show "\<exists>rs. map_of (sc_running ?sc') (wi_request_id it) = Some rs \<and>
          item_for (sc_cache_manager ?sc') rs it" by auto
    qed
  qed
  then show ?thesis
    using that [of its ?sc'] run inv' l(5) l(6) [unfolded running_ids [OF a(2)]] a(3-6)
      kv_extends_trans [OF a(7) l(3)]
    by (simp add: active_ids_def)
qed

text \<open>One turn of the admission loop on a waiting request.\<close>

lemma admit_loop_cases:
  assumes w: "sc_waiting sc = q # rest"
  obtains (stop) "sc_running (snd (admit_loop (Suc n) sc)) = sc_running sc"
      "set (sc_waiting (snd (admit_loop (Suc n) sc))) \<subseteq> set (sc_waiting sc)"
  | (rotate) m where "admit_loop (Suc n) sc =
      admit_loop n (sc\<lparr>sc_cache_manager := m, sc_waiting := rest @ [q]\<rparr>)"
  | (admit) m where "admit_loop (Suc n) sc =
      admit_loop n (sc\<lparr>sc_waiting := rest, sc_cache_manager := m,
        sc_running := AList.update (rs_request_id q) (q\<lparr>rs_rank := Some 0\<rparr>) (sc_running sc)\<rparr>)"
proof (cases "int (length (sc_running sc)) < max_num_seqs (sc_config sc)")
  case False
  then show ?thesis using stop w by simp
next
  case room: True
  let ?r = "rs_request_id q"
  let ?t = "min (length (rs_prompt_token_ids q)) (nat (max_num_batched_tokens (sc_config sc)))"
  obtain c m where c: "kv_create (sc_cache_manager sc) ?r = (c, m)" by fastforce
  obtain d m' where d: "kv_release m ?r = (d, m')" by fastforce
  consider (err) "(\<exists>e. c = Inl e) \<or> (\<exists>e. kv_can_reserve m ?r ?t = Inl e)"
    | (yes) u where "c = Inr u" "kv_can_reserve m ?r ?t = Inr True"
    | (no) u where "c = Inr u" "kv_can_reserve m ?r ?t = Inr False"
    by (cases c; cases "kv_can_reserve m ?r ?t") auto
  then show ?thesis
  proof cases
    case err
    then show ?thesis using stop room c w by (cases c) (auto simp: subset_insertI)
  next
    case yes
    then show ?thesis using admit [of m] room c w by simp
  next
    case no
    then show ?thesis using stop rotate [of m'] room c d w by (cases d) (auto simp: subset_insertI)
  qed
qed

text \<open>The requests admission adds come from the waiting list, unchanged but for the rank.\<close>

lemma admit_loop_new:
  assumes "(k, v) \<in> set (sc_running (snd (admit_loop n sc)))" and "distinct (dict_keys (sc_running sc))"
  shows "(k, v) \<in> set (sc_running sc) \<or> (\<exists>q\<in>set (sc_waiting sc). v = q\<lparr>rs_rank := Some 0\<rparr>)"
  using assms
proof (induction n arbitrary: sc)
  case (Suc n)
  show ?case
  proof (cases "sc_waiting sc")
    case Nil
    with Suc.prems show ?thesis by simp
  next
    case (Cons q rest)
    let ?run = "AList.update (rs_request_id q) (q\<lparr>rs_rank := Some 0\<rparr>) (sc_running sc)"
    from Cons show ?thesis
    proof (cases rule: admit_loop_cases [where n = n])
      case stop
      then show ?thesis using Suc.prems(1) by simp
    next
      case (rotate m)
      then show ?thesis
        using Suc.IH [of "sc\<lparr>sc_cache_manager := m, sc_waiting := rest @ [q]\<rparr>"] Suc.prems Cons by auto
    next
      case (admit m)
      have "(k, v) \<in> set ?run \<or> (\<exists>q\<in>set rest. v = q\<lparr>rs_rank := Some 0\<rparr>)"
        using Suc.IH [of "sc\<lparr>sc_waiting := rest, sc_cache_manager := m, sc_running := ?run\<rparr>"]
          Suc.prems admit by (simp add: distinct_keys_update)
      then show ?thesis using set_update_distinct [OF Suc.prems(2)] Cons by fastforce
    qed
  qed
qed simp

lemma admit_loop_waiting: "set (sc_waiting (snd (admit_loop n sc))) \<subseteq> set (sc_waiting sc)"
proof (induction n arbitrary: sc)
  case (Suc n)
  show ?case
  proof (cases "sc_waiting sc")
    case (Cons q rest)
    then show ?thesis
    proof (cases rule: admit_loop_cases [where n = n])
      case stop
      then show ?thesis by blast
    next
      case (rotate m)
      then show ?thesis using Suc.IH [of "sc\<lparr>sc_cache_manager := m, sc_waiting := rest @ [q]\<rparr>"] Cons by auto
    next
      case (admit m)
      then show ?thesis
        using Suc.IH [of "sc\<lparr>sc_waiting := rest, sc_cache_manager := m,
          sc_running := AList.update (rs_request_id q) (q\<lparr>rs_rank := Some 0\<rparr>) (sc_running sc)\<rparr>"] Cons by auto
    qed
  qed simp
qed simp

lemma schedule_waiting: "schedule sc = (Inr out, sc') \<Longrightarrow> set (sc_waiting sc') \<subseteq> set (sc_waiting sc)"
  using admit_loop_waiting [of "length (sc_waiting sc)" sc]
  by (auto simp: schedule_def admit_waiting_def split: prod.splits sum.splits)

text \<open>A request that starts to run in a round has generated and computed nothing yet.\<close>

lemma schedule_new:
  assumes inv: "sched_inv sc" and run: "schedule sc = (Inr out, sc')"
    and rs: "map_of (sc_running sc') r = Some rs"
  shows "map_of (sc_running sc) r = Some rs \<or>
    map_of (sc_running sc) r = None \<and> rs_output_token_ids rs = [] \<and> rs_num_computed_tokens rs = 0 \<and>
    (\<exists>q\<in>set (sc_waiting sc). rs = q\<lparr>rs_rank := Some 0\<rparr>)"
proof -
  note D = sched_inv_butD [OF inv]
  obtain sc1 where adm: "admit_waiting sc = (Inr (), sc1)"
    using admit_loop_ok [OF inv] unfolding admit_waiting_def by metis
  have sc1: "sc_running sc' = sc_running sc1"
    using run adm by (auto simp: schedule_def split: prod.splits)
  obtain new where new: "sc_running sc' = sc_running sc @ new"
    using schedule_ok [OF inv] run by (metis Pair_inject)
  have "(r, rs) \<in> set (sc_running (snd (admit_loop (length (sc_waiting sc)) sc)))"
    using map_of_SomeD [OF rs] adm sc1 by (simp add: admit_waiting_def)
  from admit_loop_new [OF this D(6)]
  show ?thesis
  proof
    assume "(r, rs) \<in> set (sc_running sc)"
    then show ?thesis using D(6) by (simp add: map_of_is_SomeI)
  next
    assume q: "\<exists>q\<in>set (sc_waiting sc). rs = q\<lparr>rs_rank := Some 0\<rparr>"
    then have "rs_output_token_ids rs = []" "rs_num_computed_tokens rs = 0"
      using D(10) by (auto simp: wait_ok_def)
    then show ?thesis using rs new q by (cases "map_of (sc_running sc) r") (simp_all add: map_add_def)
  qed
qed

section \<open>The methods that update a request\<close>

lemma set_running_inv:
  assumes inv: "sched_inv_but X sc" and rs: "map_of (sc_running sc) r = Some rs"
    and id: "rs_request_id rs' = rs_request_id rs"
    and ok: "r \<notin> Y \<Longrightarrow> req_ok (sc_config sc) (sc_cache_manager sc) rs'" and XY: "X \<subseteq> insert r Y"
  shows "sched_inv_but Y (set_running sc r rs')"
proof (rule sched_inv_butI)
  note D = sched_inv_butD [OF inv]
  fix k v
  assume "(k, v) \<in> set (sc_running (set_running sc r rs'))"
  then have "(k = r \<and> v = rs') \<or> (k \<noteq> r \<and> (k, v) \<in> set (sc_running sc))"
    using set_update_distinct [OF D(6)] by (simp add: set_running_def)
  then show "rs_request_id v = k" and "k \<notin> Y \<Longrightarrow> req_ok (sc_config (set_running sc r rs'))
      (sc_cache_manager (set_running sc r rs')) v"
    using id ok D(11) [OF rs] XY sched_inv_but_entryD [OF inv, of k v]
    by (auto simp: set_running_def)
next
  note D = sched_inv_butD [OF inv]
  have r: "r \<in> set (dict_keys (sc_running sc))" using rs by (rule map_of_Some_in_keys)
  have keys: "dict_keys (sc_running (set_running sc r rs')) = dict_keys (sc_running sc)"
    using r by (simp add: set_running_def keys_update)
  then have len: "length (sc_running (set_running sc r rs')) = length (sc_running sc)"
    by (metis length_map)
  show "int (length (sc_running (set_running sc r rs'))) \<le> max_num_seqs (sc_config (set_running sc r rs'))"
    unfolding len using D(9) by (simp add: set_running_def)
  show "distinct (dict_keys (sc_running (set_running sc r rs')))"
    and "dom (kv_tbl (sc_cache_manager (set_running sc r rs'))) = set (dict_keys (sc_running (set_running sc r rs')))"
    and "set (dict_keys (sc_running (set_running sc r rs'))) \<inter>
      rs_request_id ` set (sc_waiting (set_running sc r rs')) = {}"
    unfolding keys using D(5,6,8) by (simp_all add: set_running_def)
qed (use sched_inv_butD [OF inv] in \<open>auto simp: set_running_def\<close>)


text \<open>Advancing a scheduled request by its token count keeps it within tokens and table.\<close>

lemma update_computed_ok:
  assumes inv: "sched_inv_but X sc" and rs: "map_of (sc_running sc) r = Some rs"
    and it: "item_for (sc_cache_manager sc) rs it" and r: "r \<notin> X"
  shows "update_computed sc r (item_count it) =
      (Inr (), set_running sc r
        (rs\<lparr>rs_num_computed_tokens := rs_num_computed_tokens rs + item_count it\<rparr>))"
    and "sched_inv_but X (set_running sc r
        (rs\<lparr>rs_num_computed_tokens := rs_num_computed_tokens rs + item_count it\<rparr>))"
proof -
  show "update_computed sc r (item_count it) =
      (Inr (), set_running sc r
        (rs\<lparr>rs_num_computed_tokens := rs_num_computed_tokens rs + item_count it\<rparr>))"
    using rs by (simp add: update_computed_def)
  have "req_ok (sc_config sc) (sc_cache_manager sc) rs" using sched_inv_butD(12) [OF inv rs r] .
  with it have "req_ok (sc_config sc) (sc_cache_manager sc)
      (rs\<lparr>rs_num_computed_tokens := rs_num_computed_tokens rs + item_count it\<rparr>)"
    by (elim item_forE) (auto simp: req_ok_def all_token_ids_def)
  with inv rs show "sched_inv_but X (set_running sc r
        (rs\<lparr>rs_num_computed_tokens := rs_num_computed_tokens rs + item_count it\<rparr>))"
    by (intro set_running_inv [OF inv rs]) auto
qed

text \<open>
  Appending a token to a fully computed request.  When the method reports no finish reason the
  request still satisfies its bounds; otherwise, or when decoding raises, only this request
  may be out of them.
\<close>

lemma append_token_inv:
  assumes inv: "sched_inv sc" and rs: "map_of (sc_running sc) r = Some rs"
    and full: "rs_num_computed_tokens rs = length (all_token_ids rs)"
    and run: "append_token sc r token_id now = (res, sc')"
  shows "sched_inv_but {r} sc'" and "res = Inr None \<Longrightarrow> sched_inv sc'"
proof -
  let ?rs1 = "stamp_token rs now"
  let ?rs2 = "?rs1\<lparr>rs_output_token_ids := rs_output_token_ids ?rs1 @ [token_id]\<rparr>"
  have ids: "rs_request_id ?rs1 = rs_request_id rs" "rs_request_id ?rs2 = rs_request_id rs"
    by (simp_all add: stamp_token_def)
  have cases: "sc' = set_running sc r ?rs1 \<and> res = Inr (Some STOP) \<or> sc' = set_running sc r ?rs2"
    using run rs by (auto simp: append_token_def Let_def split: if_splits sum.splits)
  then show "sched_inv_but {r} sc'"
    using set_running_inv [OF inv rs ids(1), of "{r}"] set_running_inv [OF inv rs ids(2), of "{r}"]
    by auto
  assume none: "res = Inr None"
  with cases have sc': "sc' = set_running sc r ?rs2" by auto
  have "int (length (rs_output_token_ids ?rs2)) < sp_max_tokens (rs_sampling_params ?rs2)"
    and "int (rs_num_computed_tokens ?rs2) + 1 < context_limit (sc_config sc)"
    using run rs none
    by (auto simp: append_token_def Let_def not_le split: if_splits sum.splits)
  moreover have "req_ok (sc_config sc) (sc_cache_manager sc) rs"
    using sched_inv_butD(12) [OF inv rs] by simp
  ultimately have "req_ok (sc_config sc) (sc_cache_manager sc) ?rs2"
    using full by (auto simp: req_ok_def stamp_token_def all_token_ids_def)
  then show "sched_inv sc'"
    unfolding sc' using set_running_inv [OF inv rs ids(2), of "{}"] by simp
qed

lemma req_ok_cong:
  "kv_tbl m' (rs_request_id rs) = kv_tbl m (rs_request_id rs) \<Longrightarrow>
   kv_block_size m' = kv_block_size m \<Longrightarrow> req_ok config m' rs = req_ok config m rs"
  by (simp add: req_ok_def)

text \<open>\<open>finish\<close> on a running request removes it and gives all its blocks back.\<close>

lemma finish_running:
  assumes inv: "sched_inv_but X sc" and rs: "map_of (sc_running sc) r = Some rs"
    and X: "X \<subseteq> insert r Y"
  obtains m bl where "finish sc r = (Inr (Some rs), sc\<lparr>sc_running := AList.delete r (sc_running sc),
        sc_cache_manager := m\<rparr>)"
    and "sched_inv_but Y (sc\<lparr>sc_running := AList.delete r (sc_running sc), sc_cache_manager := m\<rparr>)"
    and "kv_tbl (sc_cache_manager sc) r = Some bl"
    and "kv_tbl m = (kv_tbl (sc_cache_manager sc))(r := None)"
    and "kv_nfree m = kv_nfree (sc_cache_manager sc) + length bl"
proof -
  note D = sched_inv_butD [OF inv]
  from sched_inv_cases_run [OF inv map_of_Some_in_keys [OF rs]] obtain bl where
    bl: "kv_tbl (sc_cache_manager sc) r = Some bl" by blast
  from kv.release_held [OF D(2) bl] obtain m where
    m: "kv_release (sc_cache_manager sc) r = (Inr (), m)" "kv_inv m"
      "kv_tbl m = (kv_tbl (sc_cache_manager sc))(r := None)"
      "kv_nfree m = kv_nfree (sc_cache_manager sc) + length bl"
      "kv_block_size m = kv_block_size (sc_cache_manager sc)"
      "kv_cap m = kv_cap (sc_cache_manager sc)" by blast
  let ?sc' = "sc\<lparr>sc_running := AList.delete r (sc_running sc), sc_cache_manager := m\<rparr>"
  have run: "finish sc r = (Inr (Some rs), ?sc')" using rs m(1) by (simp add: finish_def)
  have keys: "dict_keys (sc_running ?sc') = filter (\<lambda>k. k \<noteq> r) (dict_keys (sc_running sc))"
    by (simp add: keys_delete)
  have "sched_inv_but Y ?sc'"
  proof (rule sched_inv_butI)
    fix k v
    assume "(k, v) \<in> set (sc_running ?sc')"
    then have k: "k \<noteq> r" and kv: "(k, v) \<in> set (sc_running sc)" by (auto simp: AList.delete_eq)
    from sched_inv_but_entryD [OF inv kv] k m(3,5) X
    show "rs_request_id v = k"
      and "k \<notin> Y \<Longrightarrow> req_ok (sc_config ?sc') (sc_cache_manager ?sc') v"
      using req_ok_cong [of m v "sc_cache_manager sc"] by auto
  next
    have "length (sc_running ?sc') \<le> length (sc_running sc)" by (simp add: AList.delete_eq)
    with D(9) show "int (length (sc_running ?sc')) \<le> max_num_seqs (sc_config ?sc')" by simp
  next
    show "dom (kv_tbl (sc_cache_manager ?sc')) = set (dict_keys (sc_running ?sc'))"
      unfolding keys using m(3) D(5) by auto
    show "distinct (dict_keys (sc_running ?sc'))" unfolding keys using D(6) by simp
    show "set (dict_keys (sc_running ?sc')) \<inter> rs_request_id ` set (sc_waiting ?sc') = {}"
      unfolding keys using D(8) by auto
  qed (use D m in auto)
  with that run bl m(3,4) show ?thesis by blast
qed

lemma distinct_active_ids: "sched_inv_but X sc \<Longrightarrow> distinct (active_ids sc)"
  using sched_inv_butD(6-8) by (fastforce simp: active_ids_def)

lemma remove_running_ids:
  assumes "sched_inv_but X sc" and "r \<in> set (dict_keys (sc_running sc))"
  shows "active_ids (sc\<lparr>sc_running := AList.delete r (sc_running sc), sc_cache_manager := m\<rparr>) =
           remove1 r (active_ids sc)"
proof -
  note D = sched_inv_butD [OF assms(1)]
  have "dict_keys (AList.delete r (sc_running sc)) = remove1 r (dict_keys (sc_running sc))"
    using distinct_remove1_removeAll [OF D(6), of r]
    by (auto simp: keys_delete removeAll_filter_not_eq intro: filter_cong)
  then show ?thesis using assms(2) by (simp add: active_ids_def remove1_append)
qed

lemma remove_waiting_inv:
  assumes inv: "sched_inv sc" and q: "q \<in> set (sc_waiting sc)"
  shows "sched_inv (sc\<lparr>sc_waiting := remove1 q (sc_waiting sc)\<rparr>)"
    and "active_ids (sc\<lparr>sc_waiting := remove1 q (sc_waiting sc)\<rparr>) =
           remove1 (rs_request_id q) (active_ids sc)"
proof -
  note D = sched_inv_butD [OF inv]
  have ids: "map rs_request_id (remove1 q (sc_waiting sc)) =
      remove1 (rs_request_id q) (map rs_request_id (sc_waiting sc))"
    using map_remove1_distinct [OF D(7) q] .
  have sub: "set (remove1 q (sc_waiting sc)) \<subseteq> set (sc_waiting sc)" by (rule set_remove1_subset)
  show "sched_inv (sc\<lparr>sc_waiting := remove1 q (sc_waiting sc)\<rparr>)"
  proof (rule sched_inv_butI)
    show "distinct (map rs_request_id (sc_waiting (sc\<lparr>sc_waiting := remove1 q (sc_waiting sc)\<rparr>)))"
      using D(7) ids by simp
    have "rs_request_id ` set (remove1 q (sc_waiting sc)) \<subseteq> rs_request_id ` set (sc_waiting sc)"
      using sub by (rule image_mono)
    then show "set (dict_keys (sc_running (sc\<lparr>sc_waiting := remove1 q (sc_waiting sc)\<rparr>))) \<inter>
        rs_request_id ` set (sc_waiting (sc\<lparr>sc_waiting := remove1 q (sc_waiting sc)\<rparr>)) = {}"
      using D(8) by auto
  qed (use D sub sched_inv_but_entryD [OF inv] in auto)
  have "rs_request_id q \<notin> set (dict_keys (sc_running sc))" using D(8) q by auto
  then show "active_ids (sc\<lparr>sc_waiting := remove1 q (sc_waiting sc)\<rparr>) =
      remove1 (rs_request_id q) (active_ids sc)"
    by (simp add: active_ids_def remove1_append ids)
qed

text \<open>
  \<open>abort\<close> answers whether the request was known, and afterwards it is gone: from the queue
  it was in, and with all its blocks.
\<close>

lemma abort_ok:
  assumes inv: "sched_inv sc"
  obtains sc' where "abort sc r = (Inr (r \<in> set (active_ids sc)), sc')" and "sched_inv sc'"
    and "active_ids sc' = remove1 r (active_ids sc)"
    and "sc_config sc' = sc_config sc" and "sc_tokenizer sc' = sc_tokenizer sc"
proof (cases "r \<in> set (dict_keys (sc_running sc))")
  case True
  from sched_inv_cases_run [OF inv True] obtain rs where rs: "map_of (sc_running sc) r = Some rs" .
  from finish_running [OF inv rs, of "{}"] obtain m where
    "finish sc r = (Inr (Some rs), sc\<lparr>sc_running := AList.delete r (sc_running sc),
        sc_cache_manager := m\<rparr>)"
    and "sched_inv (sc\<lparr>sc_running := AList.delete r (sc_running sc), sc_cache_manager := m\<rparr>)"
    by auto
  then show ?thesis
    using that [of "sc\<lparr>sc_running := AList.delete r (sc_running sc), sc_cache_manager := m\<rparr>"]
      remove_running_ids [OF inv True] True by (simp add: abort_def active_ids_def)
next
  case False
  show ?thesis
  proof (cases "find (\<lambda>q. rs_request_id q = r) (sc_waiting sc)")
    case None
    then have "r \<notin> set (active_ids sc)"
      using False by (auto simp: active_ids_def find_None_iff)
    with that [of sc] None False inv show ?thesis by (simp add: abort_def remove1_idem)
  next
    case (Some q)
    then have q: "q \<in> set (sc_waiting sc)" "rs_request_id q = r" by (auto simp: find_Some_iff)
    with that [of "sc\<lparr>sc_waiting := remove1 q (sc_waiting sc)\<rparr>"] Some False
      remove_waiting_inv [OF inv q(1)] show ?thesis by (auto simp: abort_def active_ids_def)
  qed
qed


section \<open>Slots of one round\<close>

text \<open>What the slot list of an item is, in terms of the request's block table.\<close>

lemma items_okE:
  assumes "items_ok sc its" and "it \<in> set its" and "sched_inv_but X sc"
  obtains rs bl where "map_of (sc_running sc) (wi_request_id it) = Some rs"
    and "rs_request_id rs = wi_request_id it"
    and "kv_tbl (sc_cache_manager sc) (wi_request_id it) = Some bl" and "0 < item_count it"
    and "rs_num_computed_tokens rs + item_count it \<le> length (all_token_ids rs)"
    and "rs_num_computed_tokens rs + item_count it \<le> length bl * kv_block_size (sc_cache_manager sc)"
    and "it = make_item rs (rs_num_computed_tokens rs) (rs_num_computed_tokens rs + item_count it)
            (map (slot_of (kv_block_size (sc_cache_manager sc)) bl)
               [rs_num_computed_tokens rs..<rs_num_computed_tokens rs + item_count it]) bl"
    and "item_for (sc_cache_manager sc) rs it"
proof -
  from assms(1,2) obtain rs where rs: "map_of (sc_running sc) (wi_request_id it) = Some rs"
    "item_for (sc_cache_manager sc) rs it" by (auto simp: items_ok_def)
  have "rs_request_id rs = wi_request_id it" using sched_inv_butD(11) [OF assms(3) rs(1)] .
  moreover from rs(2) obtain bl c where
    "kv_tbl (sc_cache_manager sc) (rs_request_id rs) = Some bl" "0 < c"
    "rs_num_computed_tokens rs + c \<le> length (all_token_ids rs)"
    "rs_num_computed_tokens rs + c \<le> length bl * kv_block_size (sc_cache_manager sc)"
    "it = make_item rs (rs_num_computed_tokens rs) (rs_num_computed_tokens rs + c)
            (map (slot_of (kv_block_size (sc_cache_manager sc)) bl)
               [rs_num_computed_tokens rs..<rs_num_computed_tokens rs + c]) bl"
    "item_count it = c" by (rule item_forE)
  ultimately show ?thesis using that rs by metis
qed

lemma item_slots:
  assumes "items_ok sc its" and "it \<in> set its" and "sched_inv_but X sc"
  obtains bl s where "kv_tbl (sc_cache_manager sc) (wi_request_id it) = Some bl"
    and "s + item_count it \<le> length bl * kv_block_size (sc_cache_manager sc)"
    and "wi_slot_mapping it = map int (map (slot_of (kv_block_size (sc_cache_manager sc)) bl)
          [s..<s + item_count it])"
  using assms
proof (cases rule: items_okE)
  case (1 rs bl)
  have "wi_slot_mapping it = map int (map (slot_of (kv_block_size (sc_cache_manager sc)) bl)
          [rs_num_computed_tokens rs..<rs_num_computed_tokens rs + item_count it])"
    by (subst 1(7)) (simp add: make_item_def)
  with 1(3,6) that show ?thesis by blast
qed

lemma item_slots_distinct:
  assumes its: "items_ok sc its" and inv: "sched_inv_but X sc"
  shows "distinct (concat (map wi_slot_mapping its))"
proof (rule distinct_concat_map [where g = wi_request_id])
  note D = sched_inv_butD [OF inv]
  let ?m = "sc_cache_manager sc"
  show "distinct (map wi_request_id its)" using its by (simp add: items_ok_def)
  fix it
  assume it: "it \<in> set its"
  from item_slots [OF its it inv] obtain bl s where
    1: "kv_tbl ?m (wi_request_id it) = Some bl" "s + item_count it \<le> length bl * kv_block_size ?m"
      "wi_slot_mapping it = map int (map (slot_of (kv_block_size ?m) bl) [s..<s + item_count it])" .
  show "distinct (wi_slot_mapping it)"
    unfolding 1(3) using kv.slots_distinct [OF D(2) 1(1,2), of s]
    by (simp add: distinct_map inj_on_def)
  fix it'
  assume it': "it' \<in> set its" and ne: "wi_request_id it \<noteq> wi_request_id it'"
  from item_slots [OF its it' inv] obtain bl' s' where
    2: "kv_tbl ?m (wi_request_id it') = Some bl'" "s' + item_count it' \<le> length bl' * kv_block_size ?m"
      "wi_slot_mapping it' = map int (map (slot_of (kv_block_size ?m) bl') [s'..<s' + item_count it'])" .
  have "slot_of (kv_block_size ?m) bl p \<noteq> slot_of (kv_block_size ?m) bl' q"
    if "p < s + item_count it" "q < s' + item_count it'" for p q
    using kv.slots_disjoint [OF D(2) 1(1) 2(1) ne, of p q] that 1(2) 2(2) by simp
  then show "set (wi_slot_mapping it) \<inter> set (wi_slot_mapping it') = {}"
    unfolding 1(3) 2(3) by auto
qed

lemma item_slots_bounded:
  assumes its: "items_ok sc its" and inv: "sched_inv_but X sc" and it: "it \<in> set its"
    and x: "x \<in> set (wi_slot_mapping it)"
  shows "0 \<le> x \<and> x < num_gpu_blocks (sc_config sc) * block_size (sc_config sc)"
proof -
  note D = sched_inv_butD [OF inv]
  let ?m = "sc_cache_manager sc"
  from item_slots [OF its it inv] obtain bl s where
    1: "kv_tbl ?m (wi_request_id it) = Some bl" "s + item_count it \<le> length bl * kv_block_size ?m"
      "wi_slot_mapping it = map int (map (slot_of (kv_block_size ?m) bl) [s..<s + item_count it])" .
  from x obtain p where "x = int (slot_of (kv_block_size ?m) bl p)" "p < length bl * kv_block_size ?m"
    unfolding 1(3) using 1(2) by auto
  with kv.slot_bound [OF D(2) 1(1), of p] have "x < int (kv_cap ?m * kv_block_size ?m)" "0 \<le> x"
    by (simp_all only: of_nat_less_iff of_nat_0_le_iff)
  then show ?thesis using D(1,3,4) by (simp add: valid_config_def)
qed

section \<open>A lone request is never starved\<close>

lemma lone_request_can_reserve:
  assumes inv: "sched_inv sc" and run: "sc_running sc = [(r, rs)]"
    and t: "t \<le> length (all_token_ids rs)"
    and bl: "kv_tbl (sc_cache_manager sc) r = Some bl"
  shows "ceil_div t (kv_block_size (sc_cache_manager sc)) - length bl \<le> kv_nfree (sc_cache_manager sc)"
proof -
  note D = sched_inv_butD [OF inv]
  let ?m = "sc_cache_manager sc"
  have "req_ok (sc_config sc) ?m rs" using D(12) [of r rs] run by simp
  then have "int (length (all_token_ids rs)) < num_gpu_blocks (sc_config sc) * block_size (sc_config sc)"
    by (simp add: req_ok_def context_limit_def)
  then have "int t \<le> int (kv_cap ?m * kv_block_size ?m)"
    using t D(1,3,4) by (simp add: valid_config_def)
  then have "ceil_div t (kv_block_size ?m) \<le> kv_cap ?m"
    using ceil_div_le_iff [OF kv.bsz_pos [OF D(2)]] by (simp only: of_nat_le_iff)
  moreover have "dom (kv_tbl ?m) = {r}" using D(5) run by simp
  then have "kv_nfree ?m + length bl = kv_cap ?m" using kv.conservation [OF D(2)] bl by simp
  ultimately show ?thesis by simp
qed

lemma lone_request_scheduled:
  assumes inv: "sched_inv sc" and run: "sc_running sc = [(r, rs)]" and w: "sc_waiting sc = []"
    and todo: "rs_num_computed_tokens rs < length (all_token_ids rs)"
  shows "\<exists>it sc'. schedule sc = (Inr (schedule_of [it]), sc') \<and> wi_request_id it = r \<and>
           sc_running sc' = sc_running sc \<and> sc_waiting sc' = [] \<and>
           item_count it = min (length (all_token_ids rs) - rs_num_computed_tokens rs)
              (nat (max_num_batched_tokens (sc_config sc)))"
proof -
  note D = sched_inv_butD [OF inv]
  let ?m = "sc_cache_manager sc" and ?b = "nat (max_num_batched_tokens (sc_config sc))"
  have id: "rs_request_id rs = r" and ok: "req_ok (sc_config sc) ?m rs"
    using sched_inv_but_entryD [OF inv, of r rs] run by auto
  then obtain bl where bl: "kv_tbl ?m (rs_request_id rs) = Some bl" and rank: "rs_rank rs = Some 0"
    by (auto simp: req_ok_def)
  have b: "0 < ?b" using D(1) by (simp add: valid_config_def)
  have adm: "admit_waiting sc = (Inr (), sc)" using w by (simp add: admit_waiting_def)
  from D(2) bl b show ?thesis
  proof (cases rule: schedule_request_ok)
    case skip
    have "rs_num_computed_tokens rs + min (length (all_token_ids rs) - rs_num_computed_tokens rs) ?b
        \<le> length (all_token_ids rs)" using todo by auto
    from lone_request_can_reserve [OF inv run this] bl id skip(2) todo show ?thesis by simp
  next
    case (item it m')
    have "wi_request_id it = r" using item(2) id by (elim item_forE) simp
    moreover have "schedule sc = (Inr (schedule_of [it]), sc\<lparr>sc_cache_manager := m'\<rparr>)"
      using adm run item(1) b schedule_of_snoc [of it "[]"] rank id \<open>wi_request_id it = r\<close>
      by (simp add: schedule_def schedule_of_Nil [symmetric])
    ultimately show ?thesis using item(8) w by auto
  qed
qed

end
