(* ===== verification/Scheduler_Props.thy ===== *)
theory Scheduler_Props
  imports Scheduler_Inv
begin

text \<open>
  What the scheduler promises its caller: the properties of a round and of leaving, and the
  stall when the blocks run out, with a small concrete scheduler on which they are evaluated.
\<close>

section \<open>A small engine\<close>

text \<open>
  Two blocks of two tokens each, and two requests with prompts of two tokens: the state after
  both arrived, after the first round, and after the first generated token of each.
\<close>

definition no_hf :: hf_env where
  "no_hf = \<lparr>hf_importable = False, hf_path_exists = \<lambda>_. False,
     hf_from_pretrained = \<lambda>p. Inl (FileNotFoundError p)\<rparr>"

definition tiny_config :: engine_config where
  "tiny_config = default_engine_config\<lparr>max_num_seqs := 2, block_size := 2, num_gpu_blocks := 2\<rparr>"

definition tiny_request :: "string \<Rightarrow> int list \<Rightarrow> engine_request" where
  "tiny_request r ids = \<lparr>er_request_id = r, er_prompt = [], er_prompt_token_ids = ids,
     er_sampling_params = default_sampling_params\<rparr>"

definition tiny_empty :: scheduler where
  "tiny_empty = \<lparr>sc_config = tiny_config, sc_waiting = [], sc_running = [],
     sc_cache_manager = kv_init 2 2, sc_tokenizer = character_tokenizer\<rparr>"

definition tiny_arrived :: scheduler where
  "tiny_arrived =
     snd (add_request (snd (add_request tiny_empty (tiny_request ''a'' [10, 11]) 0))
       (tiny_request ''b'' [20, 21]) 0)"

definition tiny_scheduled :: scheduler where
  "tiny_scheduled = snd (schedule tiny_arrived)"

definition tiny_step :: "scheduler \<Rightarrow> string \<Rightarrow> scheduler" where
  "tiny_step sc r = snd (append_token (snd (update_computed sc r 2)) r 30 0)"

definition tiny_full :: scheduler where
  "tiny_full = tiny_step (tiny_step tiny_scheduled ''a'') ''b''"

lemma tiny_init: "scheduler_init no_hf tiny_config = Inr tiny_empty"
  by (simp add: scheduler_init_def tiny_config_def default_engine_config_def create_tokenizer_def
      tiny_empty_def)

lemma tiny_config_valid: "valid_config tiny_config"
  by (simp add: valid_config_def tiny_config_def default_engine_config_def capture_sizes_ok_def)

lemma tiny_empty_inv: "sched_inv tiny_empty"
  by (rule scheduler_init_inv [OF tiny_config_valid tiny_init])

lemma tiny_arrived_inv: "sched_inv tiny_arrived"
  unfolding tiny_arrived_def
  by (intro add_request_inv tiny_empty_inv)
    (simp_all add: tiny_request_def default_sampling_params_def)

lemma tiny_scheduled_inv: "sched_inv tiny_scheduled"
  using schedule_ok [OF tiny_arrived_inv] by (metis snd_conv tiny_scheduled_def)

lemmas tiny_defs = tiny_scheduled_def tiny_arrived_def tiny_empty_def tiny_request_def tiny_config_def
  default_engine_config_def default_sampling_params_def


lemma tiny_full_tables:
  "kv_tables (sc_cache_manager tiny_full) =
     [(''a'', \<lparr>physical_blocks = [0]\<rparr>), (''b'', \<lparr>physical_blocks = [1]\<rparr>)]"
  by code_simp

lemma tiny_full_pool: "bp_free (kv_pool (sc_cache_manager tiny_full)) = []"
  by code_simp

lemma tiny_full_running:
  "map (\<lambda>(r, rs). (r, rs_num_computed_tokens rs, all_token_ids rs)) (sc_running tiny_full) =
     [(''a'', 2, [10, 11, 30]), (''b'', 2, [20, 21, 30])]"
  by code_simp

lemma tiny_full_waiting: "sc_waiting tiny_full = []"
  by code_simp


section \<open>A scheduling round\<close>

text \<open>
  C12. A scheduling round is safe.  In every state that satisfies the scheduler's invariant,
  \<open>schedule\<close> raises nothing and restores the invariant; it loses and invents no request; the
  items go to one rank, follow the order of the running requests, name each of them at most
  once and stay within the token budget of the step; and every item is the next chunk of
  uncomputed tokens of a running request, with slots and block table taken from the blocks the
  request owns.
\<close>

theorem schedule_round_safe:
  assumes "sched_inv sc"
  shows "\<exists>its sc'. schedule sc = (Inr (schedule_of its), sc') \<and> sched_inv sc' \<and>
    mset (active_ids sc') = mset (active_ids sc) \<and>
    subseq (map wi_request_id its) (dict_keys (sc_running sc')) \<and>
    sum_list (map item_count its) \<le> nat (max_num_batched_tokens (sc_config sc)) \<and>
    distinct (map wi_request_id its) \<and>
    (\<forall>it\<in>set its. \<exists>rs. map_of (sc_running sc') (wi_request_id it) = Some rs \<and>
       item_for (sc_cache_manager sc') rs it)"
proof -
  obtain its sc' where "schedule sc = (Inr (schedule_of its), sc')" "sched_inv sc'"
    "items_ok sc' its" "sum_list (map item_count its) \<le> nat (max_num_batched_tokens (sc_config sc))"
    "mset (active_ids sc') = mset (active_ids sc)"
    "subseq (map wi_request_id its) (dict_keys (sc_running sc'))"
    using schedule_ok [OF assms] .
  then show ?thesis unfolding items_ok_def by blast
qed

theorem schedule_round_safe_witness:
  "\<exists>its sc'. schedule tiny_arrived = (Inr (schedule_of its), sc') \<and> sched_inv sc'"
  using schedule_round_safe [OF tiny_arrived_inv] by blast

text \<open>The items of a schedule, rank by rank.\<close>

definition schedule_items :: "schedule_out \<Rightarrow> worker_item list" where
  "schedule_items out = concat (dict_vals (by_rank out))"

lemma schedule_items_of [simp]: "schedule_items (schedule_of its) = its"
  by (simp add: schedule_items_def schedule_of_def)

lemma schedule_itemsE:
  assumes "sched_inv sc" and "schedule sc = (Inr out, sc')"
  obtains "out = schedule_of (schedule_items out)" "sched_inv sc'" "items_ok sc' (schedule_items out)"
    "sc_config sc' = sc_config sc" "sc_tokenizer sc' = sc_tokenizer sc"
    "mset (active_ids sc') = mset (active_ids sc)"
    "sum_list (map item_count (schedule_items out)) \<le> nat (max_num_batched_tokens (sc_config sc))"
    "\<exists>adm. sc_running sc' = sc_running sc @ adm"
  using schedule_ok [OF assms(1)] assms(2) by (metis Pair_inject schedule_items_of sum.inject(2))

text \<open>
  C13. No two tokens scheduled in one round are given the same cache slot, whether they belong
  to one request or to two, and every slot lies inside the cache of \<open>num_gpu_blocks\<close> blocks.
\<close>

theorem schedule_slots_disjoint:
  assumes "sched_inv sc" and "schedule sc = (Inr out, sc')"
  shows "distinct (concat (map wi_slot_mapping (schedule_items out))) \<and>
    (\<forall>it\<in>set (schedule_items out). \<forall>slot\<in>set (wi_slot_mapping it).
       0 \<le> slot \<and> slot < num_gpu_blocks (sc_config sc) * block_size (sc_config sc))"
  using assms
proof (cases rule: schedule_itemsE)
  case 1
  then show ?thesis using item_slots_distinct [OF 1(3,2)] item_slots_bounded [OF 1(3,2)] by metis
qed

theorem schedule_slots_disjoint_witness:
  "\<exists>out. fst (schedule tiny_arrived) = Inr out \<and>
     concat (map wi_slot_mapping (schedule_items out)) = [0, 1, 2, 3] \<and>
     distinct (concat (map wi_slot_mapping (schedule_items out)))"
proof -
  from schedule_ok [OF tiny_arrived_inv] obtain its sc' where
    run: "schedule tiny_arrived = (Inr (schedule_of its), sc')" by metis
  have "(case fst (schedule tiny_arrived) of Inl _ \<Rightarrow> []
      | Inr out \<Rightarrow> concat (map wi_slot_mapping (schedule_items out))) = [0, 1, 2, 3]"
    by code_simp
  with schedule_slots_disjoint [OF tiny_arrived_inv run] run show ?thesis by simp
qed

text \<open>
  C19. A request that is alone on its rank is never starved: as long as it has tokens that are
  not computed yet, the next round schedules as many of them as the step budget allows.  (The
  context limit enforced by \<open>add_request\<close> and \<open>append_token\<close> keeps its tokens within the
  cache, so the blocks it needs are always free.)
\<close>

theorem lone_request_progress:
  assumes "sched_inv sc" and "sc_running sc = [(r, rs)]" and "sc_waiting sc = []"
    and "rs_num_computed_tokens rs < length (all_token_ids rs)"
  shows "\<exists>it sc'. schedule sc = (Inr (schedule_of [it]), sc') \<and> wi_request_id it = r \<and>
    0 < item_count it \<and>
    item_count it = min (length (all_token_ids rs) - rs_num_computed_tokens rs)
      (nat (max_num_batched_tokens (sc_config sc)))"
proof -
  have "0 < nat (max_num_batched_tokens (sc_config sc))"
    using sched_inv_butD(1) [OF assms(1)] by (simp add: valid_config_def)
  moreover from lone_request_scheduled [OF assms] obtain it sc' where
    it: "schedule sc = (Inr (schedule_of [it]), sc')" "wi_request_id it = r"
    "item_count it = min (length (all_token_ids rs) - rs_num_computed_tokens rs)
      (nat (max_num_batched_tokens (sc_config sc)))" by blast
  ultimately have "0 < item_count it" using assms(4) by (simp only: min_less_iff_conj zero_less_diff)
  with it show ?thesis by blast
qed

text \<open>One request alone, admitted but not yet computed.\<close>

definition tiny_lone :: scheduler where
  "tiny_lone = snd (admit_waiting (snd (add_request tiny_empty (tiny_request ''a'' [10, 11]) 0)))"

lemma tiny_lone_inv: "sched_inv tiny_lone"
proof -
  let ?sc = "snd (add_request tiny_empty (tiny_request ''a'' [10, 11]) 0)"
  have "sched_inv ?sc"
    by (intro add_request_inv tiny_empty_inv)
      (simp add: tiny_request_def default_sampling_params_def)
  from admit_loop_ok [OF this, of "length (sc_waiting ?sc)"] show ?thesis
    by (auto simp: tiny_lone_def admit_waiting_def)
qed

theorem lone_request_progress_witness:
  "\<exists>it sc'. schedule tiny_lone = (Inr (schedule_of [it]), sc') \<and> wi_request_id it = ''a'' \<and>
     item_count it = 2"
proof -
  have "map fst (sc_running tiny_lone) = [''a''] \<and>
      map (\<lambda>p. (rs_num_computed_tokens (snd p), length (all_token_ids (snd p)))) (sc_running tiny_lone) =
        [(0, 2)] \<and> sc_waiting tiny_lone = [] \<and> max_num_batched_tokens (sc_config tiny_lone) = 256"
    by code_simp
  then obtain rs where rs: "sc_running tiny_lone = [(''a'', rs)]" "rs_num_computed_tokens rs = 0"
    "length (all_token_ids rs) = 2" "sc_waiting tiny_lone = []"
    "max_num_batched_tokens (sc_config tiny_lone) = 256" by (cases "sc_running tiny_lone") auto
  from lone_request_progress [OF tiny_lone_inv rs(1,4)] rs(2,3,5) show ?thesis by auto
qed

section \<open>Running out of blocks\<close>

text \<open>A round that can reserve for nobody schedules nothing and changes nothing.\<close>

lemma schedule_loop_blocked:
  assumes "list_all (\<lambda>rs. kv_can_reserve m (rs_request_id rs) (rs_num_computed_tokens rs +
      min (length (all_token_ids rs) - rs_num_computed_tokens rs) budget) = Inr False) reqs"
  shows "schedule_loop reqs budget m acc = (Inr acc, m)"
  using assms by (induction reqs) (auto simp: schedule_request_def Let_def)

definition blocked :: "scheduler \<Rightarrow> bool" where
  "blocked sc \<longleftrightarrow> sc_waiting sc = [] \<and> sc_running sc \<noteq> [] \<and>
     list_all (\<lambda>rs. kv_can_reserve (sc_cache_manager sc) (rs_request_id rs)
         (rs_num_computed_tokens rs + min (length (all_token_ids rs) - rs_num_computed_tokens rs)
           (nat (max_num_batched_tokens (sc_config sc)))) = Inr False)
       (dict_vals (sc_running sc))"

text \<open>
  C20. The scheduler has no preemption.  Once the blocks are exhausted so that no running
  request can reserve its next token and nobody is waiting, every further round is empty and
  leaves the state as it is: however often \<open>schedule\<close> is called, the requests stay unfinished.
\<close>

theorem exhausted_cache_stalls:
  assumes "blocked sc"
  shows "((\<lambda>s. snd (schedule s)) ^^ n) sc = sc \<and>
    fst (schedule sc) = Inr \<lparr>by_rank = [], scheduled_counts = []\<rparr> \<and> has_requests sc"
proof -
  have "admit_waiting sc = (Inr (), sc)" using assms by (simp add: blocked_def admit_waiting_def)
  then have "schedule sc = (Inr \<lparr>by_rank = [], scheduled_counts = []\<rparr>, sc)"
    using assms by (simp add: blocked_def schedule_def schedule_loop_blocked)
  moreover from this have "((\<lambda>s. snd (schedule s)) ^^ n) sc = sc" by (induction n) simp_all
  ultimately show ?thesis using assms by (simp add: blocked_def has_requests_def)
qed

theorem exhausted_cache_stalls_witness:
  "((\<lambda>s. snd (schedule s)) ^^ 1000) tiny_full = tiny_full \<and> has_requests tiny_full"
proof -
  have "blocked tiny_full" by code_simp
  from exhausted_cache_stalls [OF this] show ?thesis by blast
qed

section \<open>Leaving the scheduler\<close>

text \<open>
  C21. Aborting is exact and gives everything back.  \<open>abort\<close> returns whether the request is
  known (running or waiting); afterwards it is unknown, owns no blocks, every block it owned is
  free again, and every other request keeps its state, its place and its blocks.
\<close>

theorem abort_releases:
  assumes inv: "sched_inv sc"
  shows "\<exists>sc'. abort sc r = (Inr (r \<in> set (active_ids sc)), sc') \<and> sched_inv sc' \<and>
    active_ids sc' = remove1 r (active_ids sc) \<and>
    kv_tbl (sc_cache_manager sc') = (kv_tbl (sc_cache_manager sc))(r := None) \<and>
    kv_nfree (sc_cache_manager sc') = kv_nfree (sc_cache_manager sc) +
      (case kv_tbl (sc_cache_manager sc) r of None \<Rightarrow> 0 | Some bl \<Rightarrow> length bl) \<and>
    (\<forall>r'. r' \<noteq> r \<longrightarrow> map_of (sc_running sc') r' = map_of (sc_running sc) r')"
proof -
  from abort_ok [OF inv, of r] obtain sc' where
    a: "abort sc r = (Inr (r \<in> set (active_ids sc)), sc')" "sched_inv sc'"
      "active_ids sc' = remove1 r (active_ids sc)" by blast
  have "kv_tbl (sc_cache_manager sc') = (kv_tbl (sc_cache_manager sc))(r := None) \<and>
    kv_nfree (sc_cache_manager sc') = kv_nfree (sc_cache_manager sc) +
      (case kv_tbl (sc_cache_manager sc) r of None \<Rightarrow> 0 | Some bl \<Rightarrow> length bl) \<and>
    (\<forall>r'. r' \<noteq> r \<longrightarrow> map_of (sc_running sc') r' = map_of (sc_running sc) r')"
  proof (cases "r \<in> set (dict_keys (sc_running sc))")
    case True
    from sched_inv_cases_run [OF inv True] obtain rs where "map_of (sc_running sc) r = Some rs" .
    from finish_running [OF inv this, of "{}"] obtain m bl where
      f: "finish sc r = (Inr (Some rs), sc\<lparr>sc_running := AList.delete r (sc_running sc),
            sc_cache_manager := m\<rparr>)"
        "kv_tbl (sc_cache_manager sc) r = Some bl"
        "kv_tbl m = (kv_tbl (sc_cache_manager sc))(r := None)"
        "kv_nfree m = kv_nfree (sc_cache_manager sc) + length bl" by blast
    then have "sc' = sc\<lparr>sc_running := AList.delete r (sc_running sc), sc_cache_manager := m\<rparr>"
      using a(1) True by (simp add: abort_def)
    with f show ?thesis by (simp add: delete_conv')
  next
    case False
    then have "kv_tbl (sc_cache_manager sc) r = None" using sched_inv_butD(5) [OF inv] by blast
    moreover have "sc_cache_manager sc' = sc_cache_manager sc \<and> sc_running sc' = sc_running sc"
      using a(1) False by (auto simp: abort_def split: option.splits)
    ultimately show ?thesis by auto
  qed
  with a show ?thesis by blast
qed

theorem abort_releases_witness:
  "\<exists>sc'. abort tiny_scheduled ''a'' = (Inr True, sc') \<and> kv_nfree (sc_cache_manager sc') = 1"
proof -
  have "''a'' \<in> set (active_ids tiny_scheduled) \<and> kv_nfree (sc_cache_manager tiny_scheduled) = 0 \<and>
      kv_tbl (sc_cache_manager tiny_scheduled) ''a'' = Some [0]" by code_simp
  with abort_releases [OF tiny_scheduled_inv, of "''a''"] show ?thesis by auto
qed

end
