(* ===== verification/Batch.thy ===== *)
theory Batch
  imports Protocol
begin

text \<open>
  \<open>minivllm/worker/batch.py\<close>: the flattening of a scheduler's \<open>WorkerBatch\<close> into one
  \<open>GPUInputBatch\<close>.  The loop over the items is \<open>flatten_loop\<close>, its body \<open>flatten_item\<close>
  with the four checks in the code's order; the metadata is built up in the record itself
  (its \<open>block_tables\<close> field holds the unpadded tables until the last step).

  The closed form \<open>flat_form\<close> says what the loop computes; from it follow the round trip
  (every request's slice of the flat arrays is its own data) and the counting facts the
  metrics and the CUDA-graph dispatcher use.
\<close>

section \<open>Data\<close>

record batch_descriptor =
  bd_num_tokens :: nat
  bd_num_requests :: nat
  bd_uniform_decode :: bool

record gpu_input_batch =
  gb_batch_id :: int
  request_ids :: "string list"
  input_ids :: "int list"
  positions :: "int list"
  slot_mapping :: "int list"
  query_start_loc :: "nat list"
  seq_lens :: "int list"
  block_tables :: "int list list"
  context_slot_mapping :: "int list"
  context_start_loc :: "nat list"
  is_decode :: "bool list"
  sample_indices :: "int list"
  generated_counts :: "int list"
  temperatures :: "pyfloat list"

section \<open>Flattening\<close>

definition required_blocks :: "int \<Rightarrow> worker_item \<Rightarrow> int" where
  "required_blocks bsize item = (wi_seq_len item + bsize - 1) div bsize"

text \<open>
  The physical slots of all positions \<open>0 \<dots> seq_len - 1\<close>.  The table is indexed after the
  check that it has at least \<open>required_blocks\<close> entries, so every index is in range
  (\<open>context_index_in_range\<close>, below).
\<close>

definition context_slots :: "int \<Rightarrow> worker_item \<Rightarrow> int list" where
  "context_slots bsize item =
     map (\<lambda>position. wi_block_table item ! nat (position div bsize) * bsize + position mod bsize)
       [0..wi_seq_len item - 1]"

definition decode_item :: "worker_item \<Rightarrow> bool" where
  "decode_item item \<longleftrightarrow> length (wi_token_ids item) = 1 \<and> wi_generated_count item > 0"

definition flatten_item :: "int \<Rightarrow> worker_item \<Rightarrow> gpu_input_batch \<Rightarrow> exn + gpu_input_batch" where
  "flatten_item bsize item b =
     (if wi_token_ids item = [] then
        Inl (ValueError (''request '' @ wi_request_id item @ '' scheduled no tokens''))
      else if length (wi_token_ids item) \<noteq> length (wi_slot_mapping item) then
        Inl (ValueError ''token_ids and slot_mapping must have equal length'')
      else if wi_start_pos item < 0 \<or>
              wi_seq_len item \<noteq> wi_start_pos item + int (length (wi_token_ids item)) then
        Inl (ValueError (''invalid token range for request '' @ wi_request_id item))
      else if int (length (wi_block_table item)) < required_blocks bsize item then
        Inl (ValueError (''incomplete block table for request '' @ wi_request_id item))
      else
        let new_input_ids = input_ids b @ wi_token_ids item;
            new_context = context_slot_mapping b @ context_slots bsize item
        in Inr (b\<lparr>
          request_ids := request_ids b @ [wi_request_id item],
          input_ids := new_input_ids,
          positions := positions b @ [wi_start_pos item..wi_seq_len item - 1],
          slot_mapping := slot_mapping b @ wi_slot_mapping item,
          query_start_loc := query_start_loc b @ [length new_input_ids],
          seq_lens := seq_lens b @ [wi_seq_len item],
          block_tables := block_tables b @
            [take (nat (required_blocks bsize item)) (wi_block_table item)],
          context_slot_mapping := new_context,
          context_start_loc := context_start_loc b @ [length new_context],
          is_decode := is_decode b @ [decode_item item],
          sample_indices := sample_indices b @
            [if wi_should_sample item then int (length new_input_ids) - 1 else - 1],
          generated_counts := generated_counts b @ [wi_generated_count item],
          temperatures := temperatures b @ [wi_temperature item]\<rparr>))"

fun flatten_loop ::
    "int \<Rightarrow> worker_item list \<Rightarrow> gpu_input_batch \<Rightarrow> exn + gpu_input_batch" where
  "flatten_loop bsize [] b = Inr b"
| "flatten_loop bsize (item # items) b =
     (case flatten_item bsize item b of
        Inl e \<Rightarrow> Inl e
      | Inr b' \<Rightarrow> flatten_loop bsize items b')"

definition empty_batch :: "int \<Rightarrow> gpu_input_batch" where
  "empty_batch bid = \<lparr>gb_batch_id = bid, request_ids = [], input_ids = [], positions = [],
     slot_mapping = [], query_start_loc = [0], seq_lens = [], block_tables = [],
     context_slot_mapping = [], context_start_loc = [0], is_decode = [], sample_indices = [],
     generated_counts = [], temperatures = []\<rparr>"

text \<open>\<open>table + [-1] * (max_blocks - len(table))\<close> for every table.\<close>

definition pad_tables :: "nat \<Rightarrow> int list list \<Rightarrow> int list list" where
  "pad_tables width tables = map (\<lambda>t. t @ replicate (width - length t) (- 1)) tables"

definition from_worker_batch :: "worker_batch \<Rightarrow> int \<Rightarrow> exn + gpu_input_batch" where
  "from_worker_batch wb bsize =
     (if bsize \<le> 0 then Inl (ValueError ''block_size must be positive'')
      else if wb_items wb = [] then
        Inl (ValueError ''worker batch must contain at least one request'')
      else (case flatten_loop bsize (wb_items wb) (empty_batch (wb_batch_id wb)) of
              Inl e \<Rightarrow> Inl e
            | Inr b \<Rightarrow>
                let max_blocks = Max (set (map length (block_tables b)))
                in Inr (b\<lparr>block_tables := pad_tables max_blocks (block_tables b)\<rparr>)))"

section \<open>Derived properties of a batch\<close>

definition num_requests :: "gpu_input_batch \<Rightarrow> nat" where
  "num_requests b = length (request_ids b)"

definition num_tokens :: "gpu_input_batch \<Rightarrow> nat" where
  "num_tokens b = length (input_ids b)"

definition num_decode_tokens :: "gpu_input_batch \<Rightarrow> int" where
  "num_decode_tokens b =
     sum_list (map (\<lambda>index. int (query_start_loc b ! (index + 1)) - int (query_start_loc b ! index))
       (filter (\<lambda>index. is_decode b ! index) [0..<length (is_decode b)]))"

definition num_prefill_tokens :: "gpu_input_batch \<Rightarrow> int" where
  "num_prefill_tokens b = int (num_tokens b) - num_decode_tokens b"

definition descriptor :: "gpu_input_batch \<Rightarrow> batch_descriptor" where
  "descriptor b = \<lparr>bd_num_tokens = num_tokens b, bd_num_requests = num_requests b,
     bd_uniform_decode = list_all (\<lambda>d. d) (is_decode b)\<rparr>"

section \<open>The closed form\<close>

text \<open>Prefix sums of the lengths of the segments, starting with 0.\<close>

definition offsets :: "('a \<Rightarrow> nat) \<Rightarrow> 'a list \<Rightarrow> nat list" where
  "offsets f xs = map (\<lambda>k. sum_list (map f (take k xs))) [0..<Suc (length xs)]"

lemma offsets_snoc: "offsets f (xs @ [x]) = offsets f xs @ [sum_list (map f (xs @ [x]))]"
  by (simp add: offsets_def)

lemma length_offsets [simp]: "length (offsets f xs) = Suc (length xs)"
  by (simp add: offsets_def)

lemma nth_offsets: "k \<le> length xs \<Longrightarrow> offsets f xs ! k = sum_list (map f (take k xs))"
  by (simp add: offsets_def del: upt_Suc)

lemma offsets_step:
  "k < length xs \<Longrightarrow> offsets f xs ! Suc k = offsets f xs ! k + f (xs ! k)"
  by (simp add: nth_offsets take_Suc_conv_app_nth)

text \<open>A segment of a concatenation is recovered by slicing between its offsets.\<close>

lemma slice_concat:
  assumes "k < length xs" and "\<And>x. x \<in> set xs \<Longrightarrow> f x = length (g x)"
  shows "slice (concat (map g xs)) (offsets f xs ! k) (offsets f xs ! Suc k) = g (xs ! k)"
proof -
  have "concat (map g xs) = concat (map g (take k xs)) @ g (xs ! k) @ concat (map g (drop (Suc k) xs))"
    by (subst id_take_nth_drop [OF assms(1)]) simp
  moreover have "map f (take k xs) = map (\<lambda>x. length (g x)) (take k xs)"
    using assms(2) by (intro map_cong) (auto dest: in_set_takeD)
  then have "offsets f xs ! k = length (concat (map g (take k xs)))"
    using assms(1) by (simp only: nth_offsets less_imp_le length_concat map_map comp_def)
  moreover have "offsets f xs ! Suc k - offsets f xs ! k = length (g (xs ! k))"
    using assms by (simp add: offsets_step)
  ultimately show ?thesis by (simp add: slice_def)
qed

definition item_valid :: "int \<Rightarrow> worker_item \<Rightarrow> bool" where
  "item_valid bsize item \<longleftrightarrow>
     wi_token_ids item \<noteq> [] \<and> length (wi_token_ids item) = length (wi_slot_mapping item) \<and>
     0 \<le> wi_start_pos item \<and>
     wi_seq_len item = wi_start_pos item + int (length (wi_token_ids item)) \<and>
     required_blocks bsize item \<le> int (length (wi_block_table item))"

definition item_positions :: "worker_item \<Rightarrow> int list" where
  "item_positions item = [wi_start_pos item..wi_seq_len item - 1]"

definition flat_form :: "int \<Rightarrow> int \<Rightarrow> worker_item list \<Rightarrow> gpu_input_batch" where
  "flat_form bsize bid items = \<lparr>
     gb_batch_id = bid,
     request_ids = map wi_request_id items,
     input_ids = concat (map wi_token_ids items),
     positions = concat (map item_positions items),
     slot_mapping = concat (map wi_slot_mapping items),
     query_start_loc = offsets (length \<circ> wi_token_ids) items,
     seq_lens = map wi_seq_len items,
     block_tables = map (\<lambda>i. take (nat (required_blocks bsize i)) (wi_block_table i)) items,
     context_slot_mapping = concat (map (context_slots bsize) items),
     context_start_loc = offsets (length \<circ> context_slots bsize) items,
     is_decode = map decode_item items,
     sample_indices = map (\<lambda>k. if wi_should_sample (items ! k)
         then int (offsets (length \<circ> wi_token_ids) items ! Suc k) - 1 else - 1) [0..<length items],
     generated_counts = map wi_generated_count items,
     temperatures = map wi_temperature items\<rparr>"

lemma context_index_in_range:
  assumes "0 < bsize" and "required_blocks bsize it \<le> int (length (wi_block_table it))"
    and "0 \<le> p" and "p < wi_seq_len it"
  shows "nat (p div bsize) < length (wi_block_table it)"
proof -
  have "p div bsize \<le> (wi_seq_len it - 1) div bsize" using assms by (intro zdiv_mono1) auto
  also have "\<dots> < required_blocks bsize it"
  proof -
    have "wi_seq_len it + bsize - 1 = (wi_seq_len it - 1) + 1 * bsize" by simp
    then have "required_blocks bsize it = (wi_seq_len it - 1) div bsize + 1"
      unfolding required_blocks_def using assms(1) by (metis div_mult_self1 less_irrefl add.commute mult.commute)
    then show ?thesis by simp
  qed
  finally show ?thesis using assms(1-3) by (simp add: nat_less_iff pos_imp_zdiv_nonneg_iff)
qed

lemma flatten_item_valid_iff:
  "(\<exists>b'. flatten_item bsize item b = Inr b') \<longleftrightarrow> item_valid bsize item"
  by (auto simp: flatten_item_def item_valid_def Let_def)

lemma flatten_item_error: "\<not> item_valid bsize item \<Longrightarrow> \<exists>m. flatten_item bsize item b = Inl (ValueError m)"
  by (auto simp: flatten_item_def item_valid_def Let_def)

lemma empty_batch_flat: "empty_batch bid = flat_form bsize bid []"
  by (simp add: empty_batch_def flat_form_def offsets_def)

lemma flatten_item_step:
  assumes "item_valid bsize item"
  shows "flatten_item bsize item (flat_form bsize bid items) = Inr (flat_form bsize bid (items @ [item]))"
proof -
  let ?f = "length \<circ> wi_token_ids"
  have "map (\<lambda>k. if wi_should_sample ((items @ [item]) ! k)
         then int (offsets ?f (items @ [item]) ! Suc k) - 1 else - 1) [0..<length (items @ [item])] =
      map (\<lambda>k. if wi_should_sample (items ! k)
         then int (offsets ?f items ! Suc k) - 1 else - 1) [0..<length items] @
      [if wi_should_sample item then int (sum_list (map ?f (items @ [item]))) - 1 else - 1]"
    by (simp add: offsets_snoc nth_append)
  then show ?thesis
    using assms
    by (simp add: flatten_item_def item_valid_def flat_form_def Let_def offsets_snoc
        length_concat comp_def item_positions_def)
qed

lemma flatten_loop_valid:
  "list_all (item_valid bsize) items \<Longrightarrow>
     flatten_loop bsize items (flat_form bsize bid done_items) =
       Inr (flat_form bsize bid (done_items @ items))"
  by (induction items arbitrary: done_items) (simp_all add: flatten_item_step)

lemma flatten_loop_invalid:
  "\<not> list_all (item_valid bsize) items \<Longrightarrow>
     \<exists>m. flatten_loop bsize items (flat_form bsize bid done_items) = Inl (ValueError m)"
proof (induction items arbitrary: done_items)
  case Nil
  then show ?case by simp
next
  case (Cons item items)
  show ?case
  proof (cases "item_valid bsize item")
    case True
    with Cons show ?thesis by (simp add: flatten_item_step)
  next
    case False
    then obtain m where "flatten_item bsize item (flat_form bsize bid done_items) = Inl (ValueError m)"
      using flatten_item_error by blast
    then show ?thesis by simp
  qed
qed

definition padded_form :: "int \<Rightarrow> int \<Rightarrow> worker_item list \<Rightarrow> gpu_input_batch" where
  "padded_form bsize bid items =
     (let b = flat_form bsize bid items
      in b\<lparr>block_tables := pad_tables (Max (set (map length (block_tables b)))) (block_tables b)\<rparr>)"

lemma from_worker_batch_valid:
  assumes "0 < bsize" and "wb_items wb \<noteq> []" and "list_all (item_valid bsize) (wb_items wb)"
  shows "from_worker_batch wb bsize = Inr (padded_form bsize (wb_batch_id wb) (wb_items wb))"
  using assms flatten_loop_valid [OF assms(3), of "wb_batch_id wb" "[]"]
  by (simp add: from_worker_batch_def empty_batch_flat [of "wb_batch_id wb" bsize] padded_form_def Let_def)

text \<open>
  C24. \<open>GPUInputBatch.from_worker_batch\<close> accepts a batch exactly when the block size is
  positive, there is at least one item and every item is consistent (some tokens, one slot per
  token, a token range that ends at \<open>seq_len\<close>, a block table covering the whole sequence);
  it then returns the concatenated metadata \<open>padded_form\<close>.  Every other batch raises
  \<open>ValueError\<close>.
\<close>

theorem from_worker_batch_exact:
  "case from_worker_batch wb bsize of
     Inr b \<Rightarrow> 0 < bsize \<and> wb_items wb \<noteq> [] \<and> list_all (item_valid bsize) (wb_items wb) \<and>
              b = padded_form bsize (wb_batch_id wb) (wb_items wb)
   | Inl e \<Rightarrow> (\<exists>m. e = ValueError m) \<and>
              \<not> (0 < bsize \<and> wb_items wb \<noteq> [] \<and> list_all (item_valid bsize) (wb_items wb))"
proof (cases "0 < bsize \<and> wb_items wb \<noteq> [] \<and> list_all (item_valid bsize) (wb_items wb)")
  case True
  then show ?thesis using from_worker_batch_valid [of bsize wb] by simp
next
  case False
  then have "\<exists>m. from_worker_batch wb bsize = Inl (ValueError m)"
    using flatten_loop_invalid [of bsize "wb_items wb" "wb_batch_id wb" "[]"]
    by (auto simp: from_worker_batch_def empty_batch_flat [of _ bsize])
  with False show ?thesis by auto
qed

lemma from_worker_batchE:
  assumes "from_worker_batch wb bsize = Inr b"
  obtains "0 < bsize" "wb_items wb \<noteq> []" "\<forall>it\<in>set (wb_items wb). item_valid bsize it"
    "b = padded_form bsize (wb_batch_id wb) (wb_items wb)"
proof -
  have "0 < bsize \<and> wb_items wb \<noteq> [] \<and> list_all (item_valid bsize) (wb_items wb)"
  proof (rule ccontr)
    assume "\<not> ?thesis"
    then have "\<exists>m. from_worker_batch wb bsize = Inl (ValueError m)"
      using flatten_loop_invalid [of bsize "wb_items wb" "wb_batch_id wb" "[]"]
      by (auto simp: from_worker_batch_def empty_batch_flat [of _ bsize])
    with assms show False by simp
  qed
  then show ?thesis
    using that assms from_worker_batch_valid [of bsize wb] by (simp add: list_all_iff)
qed

text \<open>A decode request and a prefill request in one batch, as in \<open>tests/test_batch.py\<close>.\<close>

definition mixed_batch :: worker_batch where
  "mixed_batch = \<lparr>wb_batch_id = 7, wb_items = [
     \<lparr>wi_request_id = ''decode'', wi_token_ids = [13], wi_start_pos = 2, wi_slot_mapping = [2],
      wi_block_table = [0], wi_seq_len = 3, wi_generated_count = 1, wi_should_sample = True,
      wi_temperature = Fin 0\<rparr>,
     \<lparr>wi_request_id = ''prefill'', wi_token_ids = [20, 21], wi_start_pos = 0,
      wi_slot_mapping = [4, 5], wi_block_table = [1], wi_seq_len = 2, wi_generated_count = 0,
      wi_should_sample = True, wi_temperature = Fin 0\<rparr>]\<rparr>"

lemma mixed_batch_accepted: "from_worker_batch mixed_batch 4 = Inr (padded_form 4 7 (wb_items mixed_batch))"
  using from_worker_batch_valid [of 4 mixed_batch]
  by (simp add: mixed_batch_def item_valid_def required_blocks_def)

section \<open>Round trip and counting\<close>

lemma length_item_positions:
  "item_valid bsize it \<Longrightarrow> length (item_positions it) = length (wi_token_ids it)"
  by (simp add: item_valid_def item_positions_def)

text \<open>
  C25. Nothing is lost or mixed up by flattening: for every request of the batch, the slices of
  the flat arrays between its two entries of \<open>query_start_loc\<close> are its tokens, its positions
  and its slots, the slice of \<open>context_slot_mapping\<close> between its entries of
  \<open>context_start_loc\<close> is the slots of its whole context, and when it is to be sampled its
  sample index is the index of its last token.
\<close>

theorem batch_roundtrip:
  assumes b: "from_worker_batch wb bsize = Inr b" and k: "k < num_requests b"
  shows "request_ids b ! k = wi_request_id (wb_items wb ! k) \<and>
    slice (input_ids b) (query_start_loc b ! k) (query_start_loc b ! Suc k) =
      wi_token_ids (wb_items wb ! k) \<and>
    slice (positions b) (query_start_loc b ! k) (query_start_loc b ! Suc k) =
      [wi_start_pos (wb_items wb ! k)..wi_seq_len (wb_items wb ! k) - 1] \<and>
    slice (slot_mapping b) (query_start_loc b ! k) (query_start_loc b ! Suc k) =
      wi_slot_mapping (wb_items wb ! k) \<and>
    slice (context_slot_mapping b) (context_start_loc b ! k) (context_start_loc b ! Suc k) =
      context_slots bsize (wb_items wb ! k) \<and>
    sample_indices b ! k = (if wi_should_sample (wb_items wb ! k)
      then int (query_start_loc b ! Suc k) - 1 else - 1)"
  using b
proof (cases rule: from_worker_batchE)
  case 1
  let ?its = "wb_items wb" and ?f = "length \<circ> wi_token_ids"
  have k': "k < length ?its" using k 1(4) by (simp add: num_requests_def padded_form_def Let_def flat_form_def)
  have v: "\<And>it. it \<in> set ?its \<Longrightarrow> ?f it = length (item_positions it)"
    "\<And>it. it \<in> set ?its \<Longrightarrow> ?f it = length (wi_slot_mapping it)"
    using 1(3) length_item_positions by (auto simp: item_valid_def)
  show ?thesis
    unfolding 1(4) using k' slice_concat [OF k', of ?f wi_token_ids]
      slice_concat [of k ?its ?f item_positions, OF k' v(1)]
      slice_concat [of k ?its ?f wi_slot_mapping, OF k' v(2)]
      slice_concat [OF k', of "length \<circ> context_slots bsize" "context_slots bsize"]
    by (simp add: padded_form_def Let_def flat_form_def item_positions_def)
qed

theorem batch_roundtrip_witness:
  "\<exists>b. from_worker_batch mixed_batch 4 = Inr b \<and>
     slice (input_ids b) (query_start_loc b ! 1) (query_start_loc b ! Suc 1) = [20, 21] \<and>
     slice (context_slot_mapping b) (context_start_loc b ! 1) (context_start_loc b ! Suc 1) =
       context_slots 4 (wb_items mixed_batch ! 1)"
proof -
  have k: "1 < num_requests (padded_form 4 7 (wb_items mixed_batch))"
    by (simp add: num_requests_def padded_form_def Let_def flat_form_def mixed_batch_def)
  have "wi_token_ids (wb_items mixed_batch ! 1) = [20, 21]" by (simp add: mixed_batch_def)
  then show ?thesis using batch_roundtrip [OF mixed_batch_accepted k] mixed_batch_accepted by metis
qed

lemma sum_list_filter_split:
  "sum_list (map f xs) =
     sum_list (map f (filter P xs)) + (sum_list (map f (filter (\<lambda>x. \<not> P x) xs)) :: nat)"
  by (induction xs) auto

lemma sum_filter_index:
  "sum_list (map (\<lambda>i. g (xs ! i)) (filter (\<lambda>i. P (xs ! i)) [0..<length xs])) =
     sum_list (map g (filter P xs))"
proof -
  have "map (\<lambda>i. g (xs ! i)) (filter (\<lambda>i. P (xs ! i)) [0..<length xs]) =
      map g (filter P (map ((!) xs) [0..<length xs]))"
    by (simp add: filter_map comp_def)
  then show ?thesis by (simp only: map_nth)
qed

lemma num_tokens_sum:
  assumes "from_worker_batch wb bsize = Inr b"
  shows "num_tokens b = sum_list (map (length \<circ> wi_token_ids) (wb_items wb))"
  using assms by (elim from_worker_batchE)
    (simp add: num_tokens_def padded_form_def Let_def flat_form_def length_concat comp_def)

text \<open>
  Every decode request contributes exactly one token: the number of decode tokens of a
  batch is the number of its decode requests, the prefill tokens are the tokens of the
  others, and the two add up to all scheduled tokens.
\<close>

theorem batch_token_counts:
  assumes b: "from_worker_batch wb bsize = Inr b"
  shows "num_decode_tokens b = int (length (filter decode_item (wb_items wb))) \<and>
    num_prefill_tokens b = int (sum_list (map (length \<circ> wi_token_ids)
      (filter (\<lambda>it. \<not> decode_item it) (wb_items wb)))) \<and>
    num_decode_tokens b + num_prefill_tokens b = int (num_tokens b)"
  using b
proof (cases rule: from_worker_batchE)
  case 1
  let ?its = "wb_items wb" and ?f = "length \<circ> wi_token_ids"
  have "num_decode_tokens b = sum_list (map (\<lambda>i. int (?f (?its ! i)))
      (filter (\<lambda>i. decode_item (?its ! i)) [0..<length ?its]))"
    unfolding 1(4) num_decode_tokens_def
    by (intro arg_cong [of _ _ sum_list])
      (auto simp: padded_form_def Let_def flat_form_def offsets_step intro!: map_cong filter_cong)
  also have "\<dots> = sum_list (map (\<lambda>it. int (?f it)) (filter decode_item ?its))"
    by (rule sum_filter_index)
  also have "map (\<lambda>it. int (?f it)) (filter decode_item ?its) = map (\<lambda>_. 1) (filter decode_item ?its)"
    by (auto simp: decode_item_def)
  finally have dec: "num_decode_tokens b = int (length (filter decode_item ?its))"
    by (simp add: sum_list_triv)
  note split = sum_list_filter_split [of ?f ?its decode_item]
  have "map ?f (filter decode_item ?its) = map (\<lambda>_. 1) (filter decode_item ?its)"
    by (auto simp: decode_item_def)
  then have one: "sum_list (map ?f (filter decode_item ?its)) = length (filter decode_item ?its)"
    by (simp only: map_replicate_const sum_list_replicate mult_1_right of_nat_id)
  show ?thesis using num_tokens_sum [OF b] dec split one by (simp add: num_prefill_tokens_def)
qed

theorem batch_token_counts_witness:
  "\<exists>b. from_worker_batch mixed_batch 4 = Inr b \<and> num_decode_tokens b = 1 \<and> num_prefill_tokens b = 2"
  using batch_token_counts [OF mixed_batch_accepted] mixed_batch_accepted
  by (simp add: mixed_batch_def decode_item_def)

text \<open>
  C26. The block tables handed to the kernels form a rectangle: every row has the same
  length, starts with the request's own blocks up to the ones its sequence needs and is filled
  up with \<open>-1\<close>, and some row needs no padding.
\<close>

theorem block_tables_rectangular:
  assumes b: "from_worker_batch wb bsize = Inr b" and k: "k < num_requests b"
  shows "\<exists>w. list_all (\<lambda>row. length row = w) (block_tables b) \<and>
    (\<exists>it\<in>set (wb_items wb). required_blocks bsize it = int w) \<and>
    block_tables b ! k =
      take (nat (required_blocks bsize (wb_items wb ! k))) (wi_block_table (wb_items wb ! k)) @
      replicate (w - nat (required_blocks bsize (wb_items wb ! k))) (- 1)"
  using b
proof (cases rule: from_worker_batchE)
  case 1
  let ?its = "wb_items wb"
  let ?n = "\<lambda>it. nat (required_blocks bsize it)"
  let ?t = "\<lambda>it. take (?n it) (wi_block_table it)"
  have len: "length (?t it) = ?n it" if "it \<in> set ?its" for it
    using that 1(3) by (force simp: item_valid_def)
  have pos: "0 \<le> required_blocks bsize it" if "it \<in> set ?its" for it
    using that 1(1,3) by (auto simp: item_valid_def required_blocks_def intro!: pos_imp_zdiv_nonneg_iff [THEN iffD2])
  let ?W = "set (map (\<lambda>it. length (?t it)) ?its)"
  have W: "finite ?W" "?W \<noteq> {}" using 1(2) by auto
  have rows: "block_tables b = map (\<lambda>it. ?t it @ replicate (Max ?W - length (?t it)) (- 1)) ?its"
    unfolding 1(4) by (simp add: padded_form_def Let_def flat_form_def pad_tables_def comp_def image_image)
  have le: "length (?t it) \<le> Max ?W" if "it \<in> set ?its" for it
    using that W by (intro Max_ge) auto
  have "Max ?W \<in> ?W" using W by (rule Max_in)
  then obtain it where it: "it \<in> set ?its" "Max ?W = length (?t it)" by auto
  have "required_blocks bsize it = int (Max ?W)" using it len pos by simp
  moreover have "list_all (\<lambda>row. length row = Max ?W) (block_tables b)"
    unfolding rows using le by (auto simp: list_all_iff)
  moreover have k': "k < length ?its"
    using k 1(4) by (simp add: num_requests_def padded_form_def Let_def flat_form_def)
  moreover have "block_tables b ! k = ?t (?its ! k) @ replicate (Max ?W - ?n (?its ! k)) (- 1)"
    unfolding rows using k' len [of "?its ! k"] by simp
  ultimately show ?thesis using it(1) by blast
qed

theorem block_tables_rectangular_witness:
  "\<exists>b w. from_worker_batch mixed_batch 4 = Inr b \<and> list_all (\<lambda>row. length row = w) (block_tables b)"
proof -
  have k: "1 < num_requests (padded_form 4 7 (wb_items mixed_batch))"
    by (simp add: num_requests_def padded_form_def Let_def flat_form_def mixed_batch_def)
  from block_tables_rectangular [OF mixed_batch_accepted k] mixed_batch_accepted show ?thesis by metis
qed

text \<open>In a batch of decode requests only, requests and tokens are in bijection.\<close>

lemma uniform_decode_counts:
  assumes "from_worker_batch wb bsize = Inr b" and "bd_uniform_decode (descriptor b)"
  shows "num_tokens b = num_requests b"
proof -
  have "\<forall>it\<in>set (wb_items wb). decode_item it"
    using assms by (elim from_worker_batchE)
      (auto simp: descriptor_def padded_form_def Let_def flat_form_def list_all_iff)
  moreover have "num_requests b = length (wb_items wb)"
    using assms(1) by (elim from_worker_batchE)
      (simp add: num_requests_def padded_form_def Let_def flat_form_def)
  moreover have "num_tokens b = sum_list (map (length \<circ> wi_token_ids) (wb_items wb))"
    by (rule num_tokens_sum [OF assms(1)])
  moreover have "map (length \<circ> wi_token_ids) (wb_items wb) = map (\<lambda>_. 1) (wb_items wb)"
    using calculation(1) by (auto simp: decode_item_def)
  ultimately show ?thesis by (simp only: map_replicate_const sum_list_replicate mult_1_right of_nat_id)
qed

end
