(* ===== verification/CudaGraph.thy ===== *)
theory CudaGraph
  imports Batch
begin

text \<open>
  \<open>minivllm/worker/cudagraph.py\<close>: which batches run as a captured CUDA graph and with which
  bucket, and the manager's choice between graph and eager execution.  A model runner is a
  record of the methods the manager looks up with \<open>getattr\<close>; its state is an arbitrary type,
  so the theory applies to every runner.
\<close>

record cudagraph_decision =
  requested_mode :: string
  capture_size :: "int option"

definition wants_graph :: "cudagraph_decision \<Rightarrow> bool" where
  "wants_graph d \<longleftrightarrow> capture_size d \<noteq> None"

record cudagraph_dispatcher =
  cd_mode :: string
  cd_capture_sizes :: "int list"

definition dispatch :: "cudagraph_dispatcher \<Rightarrow> batch_descriptor \<Rightarrow> cudagraph_decision" where
  "dispatch d desc =
     (if cd_mode d = ''none'' \<or> \<not> bd_uniform_decode desc
      then \<lparr>requested_mode = ''none'', capture_size = None\<rparr>
      else let required_size = max (int (bd_num_tokens desc)) (int (bd_num_requests desc))
           in (case find (\<lambda>sz. sz \<ge> required_size) (cd_capture_sizes d) of
                 None \<Rightarrow> \<lparr>requested_mode = ''none'', capture_size = None\<rparr>
               | Some sz \<Rightarrow> \<lparr>requested_mode = ''full_decode_only'', capture_size = Some sz\<rparr>))"

type_synonym sampled = "(string, int) dict"

text \<open>\<open>GraphCapableModelRunner\<close>: the graph method may be absent.\<close>

record 's model_runner =
  mr_execute_model :: "'s \<Rightarrow> gpu_input_batch \<Rightarrow> (exn + sampled) \<times> 's"
  mr_execute_cudagraph :: "('s \<Rightarrow> gpu_input_batch \<Rightarrow> int \<Rightarrow> (exn + sampled) \<times> 's) option"
  mr_supports_cudagraph :: "'s \<Rightarrow> bool"
  mr_close :: "'s \<Rightarrow> 's"

definition manager_execute ::
    "cudagraph_dispatcher \<Rightarrow> 's model_runner \<Rightarrow> 's \<Rightarrow> gpu_input_batch \<Rightarrow>
       (exn + sampled \<times> string) \<times> 's" where
  "manager_execute d runner s batch =
     (let decision = dispatch d (descriptor batch);
          eager = (case mr_execute_model runner s batch of
                     (Inl e, s') \<Rightarrow> (Inl e, s')
                   | (Inr out, s') \<Rightarrow> (Inr (out, ''eager''), s'))
      in if wants_graph decision \<and> mr_supports_cudagraph runner s
         then (case (mr_execute_cudagraph runner, capture_size decision) of
                 (Some execute_graph, Some sz) \<Rightarrow>
                   (case execute_graph s batch sz of
                      (Inl e, s') \<Rightarrow> (Inl e, s')
                    | (Inr out, s') \<Rightarrow> (Inr (out, ''cuda_graph''), s'))
               | _ \<Rightarrow> eager)
         else eager)"

section \<open>The bucket that is chosen\<close>

lemma find_sorted_least:
  assumes "sorted_wrt (<) xs" and "find (\<lambda>x. n \<le> x) xs = Some (c::int)"
  shows "c \<in> set xs \<and> n \<le> c \<and> (\<forall>x\<in>set xs. n \<le> x \<longrightarrow> c \<le> x)"
  using assms by (induction xs) (auto split: if_splits)

text \<open>
  The dispatcher picks the smallest capture bucket that fits: with strictly increasing
  capture sizes, a uniform decode batch is sent to a graph exactly when some bucket holds all
  its tokens and requests, and the bucket is then the least such one; no other batch is ever
  sent to a graph.
\<close>

theorem dispatch_least_bucket:
  assumes "sorted_wrt (<) (cd_capture_sizes d)" and "cd_mode d \<noteq> ''none''"
  shows "case capture_size (dispatch d desc) of
     Some c \<Rightarrow> bd_uniform_decode desc \<and> c \<in> set (cd_capture_sizes d) \<and>
       int (bd_num_tokens desc) \<le> c \<and> int (bd_num_requests desc) \<le> c \<and>
       (\<forall>x\<in>set (cd_capture_sizes d).
          int (bd_num_tokens desc) \<le> x \<and> int (bd_num_requests desc) \<le> x \<longrightarrow> c \<le> x)
   | None \<Rightarrow> bd_uniform_decode desc \<longrightarrow>
       (\<forall>x\<in>set (cd_capture_sizes d).
          x < int (bd_num_tokens desc) \<or> x < int (bd_num_requests desc))"
proof (cases "bd_uniform_decode desc")
  case False
  then show ?thesis by (simp add: dispatch_def)
next
  case True
  define n where "n = max (int (bd_num_tokens desc)) (int (bd_num_requests desc))"
  have d: "capture_size (dispatch d desc) = find ((\<le>) n) (cd_capture_sizes d)"
    using True assms(2) by (simp add: dispatch_def n_def [symmetric] split: option.split)
  show ?thesis
  proof (cases "find ((\<le>) n) (cd_capture_sizes d)")
    case None
    then have "\<forall>x\<in>set (cd_capture_sizes d). \<not> n \<le> x" by (simp add: find_None_iff)
    with None d show ?thesis by (auto simp: n_def)
  next
    case (Some c)
    from find_sorted_least [OF assms(1), of n c] this
    have "c \<in> set (cd_capture_sizes d)" "n \<le> c" "\<forall>x\<in>set (cd_capture_sizes d). n \<le> x \<longrightarrow> c \<le> x"
      by auto
    with Some d True show ?thesis by (auto simp: n_def)
  qed
qed

theorem dispatch_least_bucket_witness:
  "capture_size (dispatch \<lparr>cd_mode = ''full_decode_only'', cd_capture_sizes = [1, 2, 4, 8]\<rparr>
      \<lparr>bd_num_tokens = 3, bd_num_requests = 3, bd_uniform_decode = True\<rparr>) = Some 4 \<and>
   (\<forall>x\<in>set [1, 2, 4, 8]. (3::int) \<le> x \<longrightarrow> 4 \<le> x) = True"
proof -
  let ?d = "\<lparr>cd_mode = ''full_decode_only'', cd_capture_sizes = [1, 2, 4, 8]\<rparr>"
  let ?desc = "\<lparr>bd_num_tokens = 3, bd_num_requests = 3, bd_uniform_decode = True\<rparr>"
  have c: "capture_size (dispatch ?d ?desc) = Some 4" by (simp add: dispatch_def Let_def)
  have "sorted_wrt (<) (cd_capture_sizes ?d)" "cd_mode ?d \<noteq> ''none''" by simp_all
  from dispatch_least_bucket [OF this, of ?desc] c show ?thesis by simp
qed

text \<open>The execution mode that is reported is the one that ran.\<close>

lemma manager_execute_mode:
  assumes "manager_execute d runner s batch = (Inr (out, mode), s')"
  shows "mode = ''cuda_graph'' \<longleftrightarrow>
    wants_graph (dispatch d (descriptor batch)) \<and> mr_supports_cudagraph runner s \<and>
    mr_execute_cudagraph runner \<noteq> None"
  using assms
  by (auto simp: manager_execute_def Let_def wants_graph_def split: if_splits prod.splits
      sum.splits option.splits)

text \<open>Whatever law the runner's two methods share about their outcome, the manager keeps.\<close>

lemma manager_execute_cases:
  obtains (eager) res s' where "mr_execute_model runner s batch = (res, s')"
      "manager_execute d runner s batch =
         (case res of Inl e \<Rightarrow> Inl e | Inr out \<Rightarrow> Inr (out, ''eager''), s')"
  | (graph) f sz res s' where "mr_execute_cudagraph runner = Some f"
      "f s batch sz = (res, s')" "bd_uniform_decode (descriptor batch)"
      "sz \<in> set (cd_capture_sizes d)" "int (num_requests batch) \<le> sz"
      "manager_execute d runner s batch =
         (case res of Inl e \<Rightarrow> Inl e | Inr out \<Rightarrow> Inr (out, ''cuda_graph''), s')"
proof -
  let ?dec = "dispatch d (descriptor batch)"
  obtain r1 s1 where e: "mr_execute_model runner s batch = (r1, s1)" by fastforce
  show ?thesis
  proof (cases "wants_graph ?dec \<and> mr_supports_cudagraph runner s \<and> mr_execute_cudagraph runner \<noteq> None")
    case True
    then obtain f sz where f: "mr_execute_cudagraph runner = Some f" "capture_size ?dec = Some sz"
      by (auto simp: wants_graph_def)
    obtain r2 s2 where g: "f s batch sz = (r2, s2)" by fastforce
    have "bd_uniform_decode (descriptor batch)" "sz \<in> set (cd_capture_sizes d)"
      "int (num_requests batch) \<le> sz"
      using f(2) by (auto simp: dispatch_def Let_def descriptor_def find_Some_iff
          split: if_splits option.splits)
    with graph [OF f(1) g] True f g show ?thesis
      by (auto simp: manager_execute_def Let_def split: sum.splits)
  next
    case False
    then have "manager_execute d runner s batch =
        (case r1 of Inl e \<Rightarrow> Inl e | Inr out \<Rightarrow> Inr (out, ''eager''), s1)"
      using e by (auto simp: manager_execute_def Let_def wants_graph_def split: sum.splits option.splits)
    with eager e show ?thesis by blast
  qed
qed

end
