(* ===== verification/KernelRuntime.thy ===== *)
theory KernelRuntime
  imports Batch
begin

text \<open>
  \<open>minivllm/worker/operator_runtime.py\<close>: the reference kernel runtime.  Floating-point
  arithmetic is idealised to the reals (\<open>sin\<close>, \<open>exp\<close> and \<open>sqrt\<close> are the real functions);
  \<open>-math.inf\<close>, the initial running maximum, is \<open>None\<close>.  The two cache dictionaries are maps
  from slots to vectors.  The other runtime of the file, an adapter around a native library, is in
  \<open>CudaRuntime\<close>.

  The main result is that the single-pass online softmax of \<open>_online_attention\<close> computes
  ordinary softmax attention, with a normaliser that is never below 1.
\<close>

section \<open>ReferenceKernelRuntime\<close>

record ref_runtime =
  rt_head_dim :: nat
  rt_k_cache :: "int \<rightharpoonup> real list"
  rt_v_cache :: "int \<rightharpoonup> real list"
  rt_last_attention_output :: "real list"
  rt_last_batch_attention_outputs :: "real list list"

definition ref_runtime_init :: "nat \<Rightarrow> ref_runtime" where
  "ref_runtime_init hdim = \<lparr>rt_head_dim = hdim, rt_k_cache = Map.empty, rt_v_cache = Map.empty,
     rt_last_attention_output = [], rt_last_batch_attention_outputs = []\<rparr>"

definition kv_vector :: "nat \<Rightarrow> int \<Rightarrow> real \<Rightarrow> real list" where
  "kv_vector hdim token_id phase =
     map (\<lambda>dim. sin (real_of_int token_id * (1 / 100) + real dim * phase)) [0..<hdim]"

definition k_phase :: real where "k_phase = 17 / 100"

definition v_phase :: real where "v_phase = 31 / 100"

fun append_kv_loop :: "(int \<times> int) list \<Rightarrow> ref_runtime \<Rightarrow> ref_runtime" where
  "append_kv_loop [] rt = rt"
| "append_kv_loop ((token_id, slot) # rest) rt =
     append_kv_loop rest (rt\<lparr>
       rt_k_cache := (rt_k_cache rt)(slot \<mapsto> kv_vector (rt_head_dim rt) token_id k_phase),
       rt_v_cache := (rt_v_cache rt)(slot \<mapsto> kv_vector (rt_head_dim rt) token_id v_phase)\<rparr>)"

definition append_kv :: "ref_runtime \<Rightarrow> int list \<Rightarrow> int list \<Rightarrow> (exn + unit) \<times> ref_runtime" where
  "append_kv rt token_ids slots =
     (if length token_ids \<noteq> length slots
      then (Inl (ValueError ''token_ids and slot_mapping must have equal length''), rt)
      else (Inr (), append_kv_loop (zip token_ids slots) rt))"

text \<open>The running maximum, the running normaliser and the unnormalised output.\<close>

type_synonym online_state = "real option \<times> real \<times> real list"

definition attention_scale :: "nat \<Rightarrow> real" where
  "attention_scale hdim = 1 / sqrt (real hdim)"

fun online_loop ::
    "ref_runtime \<Rightarrow> real list \<Rightarrow> int list \<Rightarrow> online_state \<Rightarrow> exn + online_state" where
  "online_loop rt query [] st = Inr st"
| "online_loop rt query (slot # slots) (row_max, row_sum, out) =
     (case rt_k_cache rt slot of None \<Rightarrow> Inl (KeyError (show_int slot))
      | Some key \<Rightarrow>
     (case rt_v_cache rt slot of None \<Rightarrow> Inl (KeyError (show_int slot))
      | Some val \<Rightarrow>
     (case zip_strict query key of Inl e \<Rightarrow> Inl e
      | Inr qk \<Rightarrow>
        let score = sum_list (map (\<lambda>(q, k). q * k) qk) * attention_scale (rt_head_dim rt);
            new_max = (case row_max of None \<Rightarrow> score | Some m \<Rightarrow> max m score);
            alpha = (case row_max of None \<Rightarrow> 0 | Some m \<Rightarrow> exp (m - new_max));
            beta = exp (score - new_max)
        in (case zip_strict out val of Inl e \<Rightarrow> Inl e
            | Inr ov \<Rightarrow>
                online_loop rt query slots
                  (Some new_max, alpha * row_sum + beta,
                   map (\<lambda>(old, new). alpha * old + beta * new) ov)))))"

definition online_attention :: "ref_runtime \<Rightarrow> real list \<Rightarrow> int list \<Rightarrow> exn + real list" where
  "online_attention rt query slots =
     (if rt_head_dim rt = 0 then Inl ZeroDivisionError
      else case online_loop rt query slots (None, 0, replicate (rt_head_dim rt) 0) of
        Inl e \<Rightarrow> Inl e
      | Inr (row_max, row_sum, out) \<Rightarrow>
          if out \<noteq> [] \<and> row_sum = 0 then Inl ZeroDivisionError
          else Inr (map (\<lambda>v. v / row_sum) out))"

text \<open>The query of both single-request entry points is the key stored at the last slot.\<close>

definition attend_last :: "ref_runtime \<Rightarrow> int list \<Rightarrow> exn + real list" where
  "attend_last rt slots =
     (case rt_k_cache rt (last slots) of
        None \<Rightarrow> Inl (KeyError (show_int (last slots)))
      | Some query \<Rightarrow> online_attention rt query slots)"

definition flash_attention_prefill ::
    "ref_runtime \<Rightarrow> int list \<Rightarrow> (exn + unit) \<times> ref_runtime" where
  "flash_attention_prefill rt slots =
     (if slots = [] then (Inr (), rt)
      else (case attend_last rt slots of
              Inl e \<Rightarrow> (Inl e, rt)
            | Inr out \<Rightarrow> (Inr (), rt\<lparr>rt_last_attention_output := out\<rparr>)))"

fun paged_slots :: "int list \<Rightarrow> int \<Rightarrow> int list \<Rightarrow> exn + int list" where
  "paged_slots table bsize [] = Inr []"
| "paged_slots table bsize (position # rest) =
     (if bsize = 0 then Inl ZeroDivisionError
      else (case py_get table (position div bsize) of
              Inl e \<Rightarrow> Inl e
            | Inr block \<Rightarrow>
                (case paged_slots table bsize rest of
                   Inl e \<Rightarrow> Inl e
                 | Inr ss \<Rightarrow> Inr ((block * bsize + position mod bsize) # ss))))"

definition paged_decode_attention ::
    "ref_runtime \<Rightarrow> int list \<Rightarrow> int \<Rightarrow> int \<Rightarrow> (exn + unit) \<times> ref_runtime" where
  "paged_decode_attention rt table seq_len bsize =
     (case paged_slots table bsize [0..seq_len - 1] of
        Inl e \<Rightarrow> (Inl e, rt)
      | Inr slots \<Rightarrow>
          if slots = [] then (Inr (), rt)
          else (case attend_last rt slots of
                  Inl e \<Rightarrow> (Inl e, rt)
                | Inr out \<Rightarrow> (Inr (), rt\<lparr>rt_last_attention_output := out\<rparr>)))"

fun attention_batch_loop ::
    "ref_runtime \<Rightarrow> gpu_input_batch \<Rightarrow> nat list \<Rightarrow> exn + real list list" where
  "attention_batch_loop rt b [] = Inr []"
| "attention_batch_loop rt b (i # rest) =
     (case py_get (context_start_loc b) (int i) of Inl e \<Rightarrow> Inl e
      | Inr start \<Rightarrow>
     (case py_get (context_start_loc b) (int (i + 1)) of Inl e \<Rightarrow> Inl e
      | Inr stop \<Rightarrow>
        let slots = slice (context_slot_mapping b) start stop
        in (case (if slots = [] then Inr [] else attend_last rt slots) of
              Inl e \<Rightarrow> Inl e
            | Inr out \<Rightarrow>
                (case attention_batch_loop rt b rest of
                   Inl e \<Rightarrow> Inl e
                 | Inr outs \<Rightarrow> Inr (out # outs)))))"

definition attention_batch :: "ref_runtime \<Rightarrow> gpu_input_batch \<Rightarrow> (exn + unit) \<times> ref_runtime" where
  "attention_batch rt b =
     (case attention_batch_loop rt b [0..<num_requests b] of
        Inl e \<Rightarrow> (Inl e, rt)
      | Inr outputs \<Rightarrow>
          (Inr (), rt\<lparr>rt_last_batch_attention_outputs := outputs,
                      rt_last_attention_output :=
                        (if outputs = [] then rt_last_attention_output rt else last outputs)\<rparr>))"

section \<open>Softmax attention\<close>

text \<open>The reference: the exponentially weighted average of the values.\<close>

definition dot :: "real list \<Rightarrow> real list \<Rightarrow> real" where
  "dot xs ys = sum_list (map2 (*) xs ys)"

definition softmax_attention ::
    "nat \<Rightarrow> real list \<Rightarrow> (real list \<times> real list) list \<Rightarrow> real list" where
  "softmax_attention hdim query kvs =
     (let w = (\<lambda>kv. exp (dot query (fst kv) * attention_scale hdim))
      in map (\<lambda>d. sum_list (map (\<lambda>kv. w kv * snd kv ! d) kvs) / sum_list (map w kvs)) [0..<hdim])"

text \<open>A cache that resolves every slot of a list to a key and a value of the head size.\<close>

definition resolves :: "ref_runtime \<Rightarrow> int list \<Rightarrow> (real list \<times> real list) list \<Rightarrow> bool" where
  "resolves rt slots kvs \<longleftrightarrow>
     list_all2 (\<lambda>slot kv. rt_k_cache rt slot = Some (fst kv) \<and> rt_v_cache rt slot = Some (snd kv) \<and>
        length (fst kv) = rt_head_dim rt \<and> length (snd kv) = rt_head_dim rt) slots kvs"

text \<open>
  The loop invariant after the entries \<open>ps\<close> (scores and values): everything is scaled by the
  exponential of minus the largest score seen.
\<close>

definition online_inv :: "nat \<Rightarrow> (real \<times> real list) list \<Rightarrow> online_state \<Rightarrow> bool" where
  "online_inv hdim ps st \<longleftrightarrow>
     (case st of (row_max, row_sum, out) \<Rightarrow>
        (if ps = [] then row_max = None \<and> row_sum = 0 \<and> out = replicate hdim 0
         else \<exists>m. row_max = Some m \<and> m = Max (set (map fst ps)) \<and>
                row_sum = sum_list (map (\<lambda>p. exp (fst p - m)) ps) \<and>
                out = map (\<lambda>d. sum_list (map (\<lambda>p. exp (fst p - m) * snd p ! d) ps)) [0..<hdim]))"

lemma rescale:
  "sum_list (map (\<lambda>p. exp (fst p - m') * g p) ps) =
     exp (m - m') * sum_list (map (\<lambda>p. exp (fst p - m) * g p) ps)" for m m' :: real
  by (induction ps) (auto simp: algebra_simps exp_diff)

lemma online_inv_step:
  fixes s :: real
  assumes inv: "online_inv hdim ps (row_max, row_sum, out)" and len: "length v = hdim"
  defines "new_max \<equiv> (case row_max of None \<Rightarrow> s | Some m \<Rightarrow> max m s)"
  defines "alpha \<equiv> (case row_max of None \<Rightarrow> 0 | Some m \<Rightarrow> exp (m - new_max))"
  shows "online_inv hdim (ps @ [(s, v)]) (Some new_max, alpha * row_sum + exp (s - new_max),
           map (\<lambda>(old, new). alpha * old + exp (s - new_max) * new) (zip out v))"
proof (cases "ps = []")
  case True
  with inv have st: "row_max = None" "row_sum = 0" "out = replicate hdim 0"
    by (simp_all add: online_inv_def)
  then have "new_max = s" "alpha = 0" by (simp_all add: new_max_def alpha_def)
  moreover have "map (\<lambda>(old, new). 0 * old + exp (s - s) * new) (zip out v) = map ((!) v) [0..<hdim]"
    using st(3) len by (intro nth_equalityI) auto
  ultimately show ?thesis using True st by (simp add: online_inv_def)
next
  case False
  with inv obtain m where st: "row_max = Some m" "m = Max (set (map fst ps))"
    "row_sum = sum_list (map (\<lambda>p. exp (fst p - m)) ps)"
    "out = map (\<lambda>d. sum_list (map (\<lambda>p. exp (fst p - m) * snd p ! d) ps)) [0..<hdim]"
    by (auto simp: online_inv_def)
  have nm: "new_max = max m s" and al: "alpha = exp (m - new_max)"
    using st(1) by (simp_all add: new_max_def alpha_def)
  have mx: "new_max = Max (set (map fst (ps @ [(s, v)])))"
    using nm st(2) False by (simp add: max.commute)
  have sum: "alpha * row_sum = sum_list (map (\<lambda>p. exp (fst p - new_max)) ps)"
    using rescale [of new_max "\<lambda>_. 1" ps m] st(3) al by simp
  have len': "length out = hdim" using st(4) by simp
  have out: "map (\<lambda>(old, new). alpha * old + exp (s - new_max) * new) (zip out v) =
      map (\<lambda>d. sum_list (map (\<lambda>p. exp (fst p - new_max) * snd p ! d) (ps @ [(s, v)]))) [0..<hdim]"
  proof (rule nth_equalityI)
    fix d
    assume "d < length (map (\<lambda>(old, new). alpha * old + exp (s - new_max) * new) (zip out v))"
    then have d: "d < hdim" using len len' by simp
    have "alpha * out ! d = sum_list (map (\<lambda>p. exp (fst p - new_max) * snd p ! d) ps)"
      using rescale [of new_max "\<lambda>p. snd p ! d" ps m] st(4) al d by simp
    then show "map (\<lambda>(old, new). alpha * old + exp (s - new_max) * new) (zip out v) ! d =
        map (\<lambda>d. sum_list (map (\<lambda>p. exp (fst p - new_max) * snd p ! d) (ps @ [(s, v)]))) [0..<hdim] ! d"
      using d len len' by simp
  qed (use len len' in simp)
  show ?thesis using mx sum out by (simp add: online_inv_def)
qed

definition scored :: "nat \<Rightarrow> real list \<Rightarrow> (real list \<times> real list) list \<Rightarrow> (real \<times> real list) list" where
  "scored hdim query kvs = map (\<lambda>kv. (dot query (fst kv) * attention_scale hdim, snd kv)) kvs"

lemma online_loop_inv:
  assumes "resolves rt slots kvs" and "length query = rt_head_dim rt"
    and "online_inv (rt_head_dim rt) ps st"
  shows "\<exists>st'. online_loop rt query slots st = Inr st' \<and>
           online_inv (rt_head_dim rt) (ps @ scored (rt_head_dim rt) query kvs) st'"
  using assms
proof (induction slots arbitrary: kvs ps st)
  case Nil
  then show ?case by (simp add: resolves_def scored_def)
next
  case (Cons slot slots)
  let ?hdim = "rt_head_dim rt"
  obtain row_max row_sum out where st: "st = (row_max, row_sum, out)" by (cases st) auto
  from Cons.prems(1) obtain k v kvs' where kvs: "kvs = (k, v) # kvs'"
    and kv: "rt_k_cache rt slot = Some k" "rt_v_cache rt slot = Some v" "length k = ?hdim" "length v = ?hdim"
    and rest: "resolves rt slots kvs'"
    by (auto simp: resolves_def list_all2_Cons1)
  let ?s = "dot query k * attention_scale ?hdim"
  let ?nm = "case row_max of None \<Rightarrow> ?s | Some m \<Rightarrow> max m ?s"
  let ?al = "case row_max of None \<Rightarrow> 0 | Some m \<Rightarrow> exp (m - ?nm)"
  let ?st1 = "(Some ?nm, ?al * row_sum + exp (?s - ?nm),
     map (\<lambda>(old, new). ?al * old + exp (?s - ?nm) * new) (zip out v))"
  have lo: "length out = ?hdim"
    using Cons.prems(3) st by (auto simp: online_inv_def split: if_splits)
  have "online_loop rt query (slot # slots) st = online_loop rt query slots ?st1"
    using kv Cons.prems(2) lo by (simp add: st zip_strict_def Let_def dot_def [symmetric])
  moreover have "online_inv ?hdim (ps @ [(?s, v)]) ?st1"
    using online_inv_step [OF Cons.prems(3) [unfolded st] kv(4)] by blast
  ultimately show ?case
    using Cons.IH [OF rest Cons.prems(2), of "ps @ [(?s, v)]" ?st1] kvs by (simp add: scored_def)
qed

lemma online_normaliser:
  assumes "online_inv hdim ps (row_max, row_sum, out)" and "ps \<noteq> []"
  shows "1 \<le> row_sum" and "row_sum \<le> real (length ps)"
proof -
  from assms obtain m where m: "m = Max (set (map fst ps))"
    "row_sum = sum_list (map (\<lambda>p. exp (fst p - m)) ps)" by (auto simp: online_inv_def)
  have "m \<in> set (map fst ps)" unfolding m(1) using assms(2) by (intro Max_in) auto
  then obtain p where p: "p \<in> set ps" "fst p = m" by auto
  have "exp (fst p - m) \<le> sum_list (map (\<lambda>p. exp (fst p - m)) ps)"
    using p(1) by (intro member_le_sum_list) auto
  then show "1 \<le> row_sum" using m(2) p(2) by simp
  have "fst q - m \<le> 0" if "q \<in> set ps" for q
    using that unfolding m(1) by (simp add: Max_ge)
  then have "sum_list (map (\<lambda>p. exp (fst p - m)) ps) \<le> sum_list (map (\<lambda>_. 1) ps)"
    by (intro sum_list_mono) simp
  then show "row_sum \<le> real (length ps)" using m(2) by (simp add: sum_list_triv)
qed

lemma online_attention_softmax:
  assumes res: "resolves rt slots kvs" and q: "length query = rt_head_dim rt" and ne: "slots \<noteq> []"
    and dim: "0 < rt_head_dim rt"
  shows "online_attention rt query slots = Inr (softmax_attention (rt_head_dim rt) query kvs)"
proof -
  let ?hdim = "rt_head_dim rt" and ?ps = "scored (rt_head_dim rt) query kvs"
  have "online_inv ?hdim [] (None, 0, replicate ?hdim 0)" by (simp add: online_inv_def)
  from online_loop_inv [OF res q this] obtain row_max row_sum out where
    loop: "online_loop rt query slots (None, 0, replicate ?hdim 0) = Inr (row_max, row_sum, out)"
    and inv: "online_inv ?hdim ?ps (row_max, row_sum, out)" by auto
  have ps: "?ps \<noteq> []" using res ne by (auto simp: resolves_def scored_def)
  with inv obtain m where m: "row_sum = sum_list (map (\<lambda>p. exp (fst p - m)) ?ps)"
    "out = map (\<lambda>d. sum_list (map (\<lambda>p. exp (fst p - m) * snd p ! d) ?ps)) [0..<?hdim]"
    by (auto simp: online_inv_def)
  have pos: "row_sum \<noteq> 0" using online_normaliser(1) [OF inv ps] by simp
  have "sum_list (map (\<lambda>p. exp (fst p - m) * g p) ?ps) =
      exp (- m) * sum_list (map (\<lambda>p. exp (fst p) * g p) ?ps)" for g
    using rescale [of m g ?ps 0] by simp
  from this [of "\<lambda>_. 1"] this have
    "map (\<lambda>v. v / row_sum) out = map (\<lambda>d. sum_list (map (\<lambda>p. exp (fst p) * snd p ! d) ?ps) /
       sum_list (map (\<lambda>p. exp (fst p)) ?ps)) [0..<?hdim]"
    using m by (simp add: comp_def)
  also have "\<dots> = softmax_attention ?hdim query kvs"
    by (simp add: softmax_attention_def Let_def scored_def comp_def)
  finally show ?thesis using loop pos dim by (simp add: online_attention_def)
qed

text \<open>
  C23. The single-pass attention of the reference runtime is ordinary softmax attention: when
  every slot holds a key and a value of the head size, rescaling the running maximum, normaliser
  and output as it goes gives exactly the exponentially weighted average of the values; and the
  normaliser it divides by is at least 1 (and at most the number of slots), so the division is
  safe.
\<close>

theorem online_attention_is_softmax:
  assumes "resolves rt slots kvs" and "length query = rt_head_dim rt" and "slots \<noteq> []"
    and "0 < rt_head_dim rt"
  shows "online_attention rt query slots = Inr (softmax_attention (rt_head_dim rt) query kvs) \<and>
    (\<exists>row_max row_sum out.
       online_loop rt query slots (None, 0, replicate (rt_head_dim rt) 0) = Inr (row_max, row_sum, out) \<and>
       1 \<le> row_sum \<and> row_sum \<le> real (length slots))"
proof -
  let ?ps = "scored (rt_head_dim rt) query kvs"
  have "online_inv (rt_head_dim rt) [] (None, 0, replicate (rt_head_dim rt) 0)"
    by (simp add: online_inv_def)
  from online_loop_inv [OF assms(1,2) this] obtain row_max row_sum out where
    loop: "online_loop rt query slots (None, 0, replicate (rt_head_dim rt) 0) = Inr (row_max, row_sum, out)"
    and inv: "online_inv (rt_head_dim rt) ?ps (row_max, row_sum, out)" by auto
  have len: "length kvs = length slots" using assms(1) by (simp add: resolves_def list_all2_lengthD)
  then have "?ps \<noteq> []" "length ?ps = length slots" using assms(3) by (auto simp: scored_def)
  with online_normaliser [OF inv] have "1 \<le> row_sum" "row_sum \<le> real (length slots)" by simp_all
  with loop online_attention_softmax [OF assms] show ?thesis by blast
qed

text \<open>A cache with two slots, written by \<open>append_kv\<close>.\<close>

definition demo_runtime :: ref_runtime where
  "demo_runtime = snd (append_kv (ref_runtime_init 2) [10, 11] [4, 5])"

theorem online_attention_is_softmax_witness:
  "\<exists>out. online_attention demo_runtime (kv_vector 2 11 k_phase) [4, 5] = Inr out \<and>
     out = softmax_attention 2 (kv_vector 2 11 k_phase)
       [(kv_vector 2 10 k_phase, kv_vector 2 10 v_phase), (kv_vector 2 11 k_phase, kv_vector 2 11 v_phase)]"
proof -
  have dim: "rt_head_dim demo_runtime = 2"
    by (simp add: demo_runtime_def append_kv_def ref_runtime_init_def)
  have "resolves demo_runtime [4, 5] [(kv_vector 2 10 k_phase, kv_vector 2 10 v_phase),
      (kv_vector 2 11 k_phase, kv_vector 2 11 v_phase)]"
    by (simp add: resolves_def demo_runtime_def append_kv_def ref_runtime_init_def kv_vector_def)
  from online_attention_is_softmax [OF this, of "kv_vector 2 11 k_phase"] dim
  show ?thesis by (simp add: kv_vector_def)
qed

end
