(* ===== verification/ModelRunner.thy ===== *)
theory ModelRunner
  imports CudaGraph KernelRuntime Tokenizer
begin

text \<open>
  \<open>minivllm/worker/model_runner.py\<close>: the bootstrap model runner, which stores the scheduled
  tokens in the KV cache, runs the attention of the batch and then answers with the characters
  of a fixed text.  A kernel runtime is a record of the methods of the abstract class
  \<open>KernelRuntime\<close> over an arbitrary state; \<open>reference_kernel\<close> is the CPU implementation.

  The locale \<open>sampling_runner\<close> is the contract the worker and the engine rely on: a runner
  returns tokens only for requests of the batch whose sample index is not negative.  It is
  interpreted on the bootstrap runners.
\<close>

section \<open>The runtime interface\<close>

record 'k kernel_runtime =
  kr_append_kv :: "'k \<Rightarrow> int list \<Rightarrow> int list \<Rightarrow> (exn + unit) \<times> 'k"
  kr_flash_attention_prefill :: "'k \<Rightarrow> int list \<Rightarrow> (exn + unit) \<times> 'k"
  kr_paged_decode_attention :: "'k \<Rightarrow> int list \<Rightarrow> int \<Rightarrow> int \<Rightarrow> (exn + unit) \<times> 'k"
  kr_attention_batch :: "'k \<Rightarrow> gpu_input_batch \<Rightarrow> (exn + unit) \<times> 'k"
  kr_execute_decode_graph :: "('k \<Rightarrow> gpu_input_batch \<Rightarrow> int \<Rightarrow> (exn + unit) \<times> 'k) option"
  kr_close :: "('k \<Rightarrow> 'k) option"

definition reference_kernel :: "ref_runtime kernel_runtime" where
  "reference_kernel = \<lparr>kr_append_kv = append_kv,
     kr_flash_attention_prefill = flash_attention_prefill,
     kr_paged_decode_attention = paged_decode_attention, kr_attention_batch = attention_batch,
     kr_execute_decode_graph = None, kr_close = None\<rparr>"

section \<open>BootstrapModelRunner\<close>

text \<open>\<open>_response\<close>, as code points.\<close>

definition response_text :: pystr where
  "response_text = [32, 109, 105, 110, 105, 45, 118, 76, 76, 77]"

definition response_tokens :: "int list" where
  "response_tokens = map (\<lambda>char. char + char_offset) response_text"

text \<open>The loop of \<open>_sample\<close> over \<open>enumerate(batch.request_ids)\<close>.\<close>

fun sample_loop :: "gpu_input_batch \<Rightarrow> (nat \<times> string) list \<Rightarrow> sampled \<Rightarrow> exn + sampled" where
  "sample_loop b [] out = Inr out"
| "sample_loop b ((index, r) # rest) out =
     (case py_get (sample_indices b) (int index) of Inl e \<Rightarrow> Inl e
      | Inr sample_index \<Rightarrow>
        if sample_index < 0 then sample_loop b rest out
        else (case py_get (generated_counts b) (int index) of Inl e \<Rightarrow> Inl e
              | Inr generated_count \<Rightarrow>
                if generated_count \<ge> int (length response_tokens)
                then sample_loop b rest (AList.update r (eos_token_id character_tokenizer) out)
                else (case py_get response_tokens generated_count of Inl e \<Rightarrow> Inl e
                      | Inr token \<Rightarrow> sample_loop b rest (AList.update r token out))))"

definition bootstrap_sample :: "gpu_input_batch \<Rightarrow> exn + sampled" where
  "bootstrap_sample b = sample_loop b (enumerate 0 (request_ids b)) []"

definition bootstrap_execute_model ::
    "'k kernel_runtime \<Rightarrow> 'k \<Rightarrow> gpu_input_batch \<Rightarrow> (exn + sampled) \<times> 'k" where
  "bootstrap_execute_model kr s b =
     (case kr_append_kv kr s (input_ids b) (slot_mapping b) of
        (Inl e, s1) \<Rightarrow> (Inl e, s1)
      | (Inr _, s1) \<Rightarrow>
          (case kr_attention_batch kr s1 b of
             (Inl e, s2) \<Rightarrow> (Inl e, s2)
           | (Inr _, s2) \<Rightarrow> (bootstrap_sample b, s2)))"

definition bootstrap_close :: "'k kernel_runtime \<Rightarrow> 'k \<Rightarrow> 'k" where
  "bootstrap_close kr s = (case kr_close kr of None \<Rightarrow> s | Some close \<Rightarrow> close s)"

definition bootstrap_runner :: "'k kernel_runtime \<Rightarrow> 'k model_runner" where
  "bootstrap_runner kr = \<lparr>mr_execute_model = bootstrap_execute_model kr,
     mr_execute_cudagraph = None, mr_supports_cudagraph = (\<lambda>_. False),
     mr_close = bootstrap_close kr\<rparr>"

section \<open>CudaBootstrapModelRunner\<close>

definition cuda_bootstrap_execute_cudagraph ::
    "'k kernel_runtime \<Rightarrow> 'k \<Rightarrow> gpu_input_batch \<Rightarrow> int \<Rightarrow> (exn + sampled) \<times> 'k" where
  "cuda_bootstrap_execute_cudagraph kr s b sz =
     (case kr_execute_decode_graph kr of
        None \<Rightarrow> (Inl (AttributeError ''execute_decode_graph''), s)
      | Some execute_graph \<Rightarrow>
          (case execute_graph s b sz of
             (Inl e, s1) \<Rightarrow> (Inl e, s1)
           | (Inr _, s1) \<Rightarrow> (bootstrap_sample b, s1)))"

definition cuda_bootstrap_runner :: "'k kernel_runtime \<Rightarrow> 'k model_runner" where
  "cuda_bootstrap_runner kr = (bootstrap_runner kr)\<lparr>
     mr_execute_cudagraph := Some (cuda_bootstrap_execute_cudagraph kr),
     mr_supports_cudagraph := (\<lambda>_. True)\<rparr>"

section \<open>What a runner may return\<close>

text \<open>The requests of a batch that are to be sampled.\<close>

definition sampled_ids :: "gpu_input_batch \<Rightarrow> string set" where
  "sampled_ids b = {request_ids b ! i | i. i < num_requests b \<and> i < length (sample_indices b) \<and>
     0 \<le> sample_indices b ! i}"

locale sampling_runner =
  fixes runner :: "'s model_runner"
  assumes execute_keys: "mr_execute_model runner s b = (Inr out, s') \<Longrightarrow>
      set (dict_keys out) \<subseteq> sampled_ids b"
    and graph_keys: "mr_execute_cudagraph runner = Some f \<Longrightarrow> f s b sz = (Inr out, s') \<Longrightarrow>
      set (dict_keys out) \<subseteq> sampled_ids b"
begin

text \<open>Whichever path the CUDA-graph manager takes, only requests to be sampled get a token.\<close>

lemma manager_keys:
  assumes "manager_execute d runner s b = (Inr (out, mode), s')"
  shows "set (dict_keys out) \<subseteq> sampled_ids b"
proof (cases rule: manager_execute_cases [of runner s b d])
  case (eager res t)
  then have "mr_execute_model runner s b = (Inr out, t)"
    using assms by (auto split: sum.splits)
  then show ?thesis by (rule execute_keys)
next
  case (graph f sz res t)
  then have "f s b sz = (Inr out, t)" using assms by (auto split: sum.splits)
  with graph(1) show ?thesis by (rule graph_keys)
qed

end

text \<open>The sampling loop computes one entry for each request to be sampled.\<close>

definition bootstrap_token :: "int \<Rightarrow> int" where
  "bootstrap_token generated_count =
     (if generated_count < int (length response_tokens) then response_tokens ! nat generated_count
      else eos_token_id character_tokenizer)"

lemma sample_loop_keys:
  assumes "sample_loop b xs acc = Inr out"
    and "set (dict_keys acc) \<subseteq> sampled_ids b"
    and "\<forall>(i, r) \<in> set xs. i < num_requests b \<and> request_ids b ! i = r"
  shows "set (dict_keys out) \<subseteq> sampled_ids b"
  using assms
proof (induction b xs acc rule: sample_loop.induct)
  case (2 b i r rest acc)
  have r: "r \<in> sampled_ids b" if "py_get (sample_indices b) (int i) = Inr k" "0 \<le> k" for k
    using that 2(6) by (auto simp: sampled_ids_def py_get_def split: if_splits)
  show ?case
    using 2(4-6) 2(1-3) r by (auto simp: keys_update not_less split: sum.splits if_splits)
qed simp

lemma bootstrap_sample_keys:
  "bootstrap_sample b = Inr out \<Longrightarrow> set (dict_keys out) \<subseteq> sampled_ids b"
  unfolding bootstrap_sample_def
  by (erule sample_loop_keys) (auto simp: in_set_enumerate_eq num_requests_def)

lemma bootstrap_execute_sampled:
  "bootstrap_execute_model kr s b = (Inr out, s') \<Longrightarrow> bootstrap_sample b = Inr out"
  "cuda_bootstrap_execute_cudagraph kr s b sz = (Inr out, s') \<Longrightarrow> bootstrap_sample b = Inr out"
  by (auto simp: bootstrap_execute_model_def cuda_bootstrap_execute_cudagraph_def
      split: prod.splits sum.splits option.splits)

lemmas bootstrap_keys = bootstrap_execute_sampled [THEN bootstrap_sample_keys]

interpretation bootstrap: sampling_runner "bootstrap_runner kr" for kr
  by unfold_locales (simp_all add: bootstrap_runner_def bootstrap_keys(1) del: set_map)

interpretation cuda_bootstrap: sampling_runner "cuda_bootstrap_runner kr" for kr
  by unfold_locales (auto simp: cuda_bootstrap_runner_def bootstrap_runner_def simp del: set_map
      dest: bootstrap_keys)

section \<open>The tokens of a batch\<close>

text \<open>
  On a flattened batch the loop indexes within range, so sampling succeeds and returns, in the
  order of the items, one token for each item that is to be sampled.
\<close>

lemma sample_loop_exact:
  assumes "\<forall>(i, r) \<in> set xs. py_get (sample_indices b) (int i) = Inr (si i) \<and>
      py_get (generated_counts b) (int i) = Inr (g i) \<and> 0 \<le> g i"
    and "distinct (dict_keys acc @ map snd xs)"
  shows "sample_loop b xs acc =
    Inr (acc @ map (\<lambda>(i, r). (r, bootstrap_token (g i))) (filter (\<lambda>(i, r). 0 \<le> si i) xs))"
  using assms
proof (induction xs arbitrary: acc)
  case (Cons p xs)
  obtain i r where p: "p = (i, r)" by (cases p)
  have idx: "py_get (sample_indices b) (int i) = Inr (si i)"
    "py_get (generated_counts b) (int i) = Inr (g i)" "0 \<le> g i"
    using Cons.prems(1) p by auto
  show ?case
  proof (cases "0 \<le> si i")
    case True
    have "r \<notin> set (dict_keys acc)" using Cons.prems(2) p by auto
    then have up: "AList.update r t acc = acc @ [(r, t)]" for t by (rule update_fresh)
    have "sample_loop b (p # xs) acc = sample_loop b xs (acc @ [(r, bootstrap_token (g i))])"
      using idx True by (auto simp: p up bootstrap_token_def py_get_nonneg)
    then show ?thesis
      using Cons.IH [of "acc @ [(r, bootstrap_token (g i))]"] Cons.prems True by (auto simp: p)
  next
    case False
    then have "sample_loop b (p # xs) acc = sample_loop b xs acc" using idx by (simp add: p)
    then show ?thesis using Cons.IH [of acc] Cons.prems False by (auto simp: p)
  qed
qed simp

lemma bootstrap_sample_exact:
  assumes "from_worker_batch wb bsize = Inr b" and "distinct (map wi_request_id (wb_items wb))"
    and "\<forall>it\<in>set (wb_items wb). 0 \<le> wi_generated_count it"
  shows "bootstrap_sample b = Inr (map (\<lambda>it. (wi_request_id it, bootstrap_token (wi_generated_count it)))
     (filter wi_should_sample (wb_items wb)))"
  using assms(1)
proof (cases rule: from_worker_batchE)
  case 1
  let ?its = "wb_items wb" and ?f = "length \<circ> wi_token_ids"
  let ?si = "\<lambda>k. if wi_should_sample (?its ! k) then int (offsets ?f ?its ! Suc k) - 1 else - 1"
  let ?g = "\<lambda>k. wi_generated_count (?its ! k)"
  let ?xs = "enumerate 0 (map wi_request_id ?its)"
  have b: "request_ids b = map wi_request_id ?its" "generated_counts b = map wi_generated_count ?its"
    "sample_indices b = map ?si [0..<length ?its]"
    using 1(4) by (simp_all add: padded_form_def Let_def flat_form_def)
  have si: "0 \<le> ?si k \<longleftrightarrow> wi_should_sample (?its ! k)" if "k < length ?its" for k
  proof -
    have "item_valid bsize (?its ! k)" using 1(3) that by simp
    then have "wi_token_ids (?its ! k) \<noteq> []" by (simp add: item_valid_def)
    then have "0 < ?f (?its ! k)" by simp
    then have "1 \<le> int (offsets ?f ?its ! Suc k)" using offsets_step [OF that, of ?f] by linarith
    then show ?thesis by simp
  qed
  have "sample_loop b ?xs [] =
      Inr ([] @ map (\<lambda>(i, r). (r, bootstrap_token (?g i))) (filter (\<lambda>(i, r). 0 \<le> ?si i) ?xs))"
    using assms(2,3) by (intro sample_loop_exact) (auto simp: b in_set_enumerate_eq py_get_nonneg)
  also have "filter (\<lambda>(i, r). 0 \<le> ?si i) ?xs = filter (\<lambda>(i, r). wi_should_sample (?its ! i)) ?xs"
  proof (rule filter_cong)
    fix x
    assume "x \<in> set ?xs"
    then have "fst x < length ?its" by (simp add: in_set_enumerate_eq)
    from si [OF this] show "(case x of (i, r) \<Rightarrow> 0 \<le> ?si i) = (case x of (i, r) \<Rightarrow> wi_should_sample (?its ! i))"
      by (simp only: case_prod_beta)
  qed simp
  also have "map (\<lambda>(i, r). (r, bootstrap_token (?g i))) \<dots> =
      map (\<lambda>it. (wi_request_id it, bootstrap_token (wi_generated_count it))) (filter wi_should_sample ?its)"
  proof -
    have "?xs = map (\<lambda>k. (k, wi_request_id (?its ! k))) [0..<length ?its]"
      by (auto simp: enumerate_eq_zip intro: nth_equalityI)
    moreover have "?its = map ((!) ?its) [0..<length ?its]" by (simp add: map_nth)
    then have "filter wi_should_sample ?its =
        map ((!) ?its) (filter (\<lambda>k. wi_should_sample (?its ! k)) [0..<length ?its])"
      by (metis (no_types, lifting) comp_apply filter_cong filter_map)
    ultimately show ?thesis by (simp add: filter_map comp_def)
  qed
  finally show ?thesis by (simp add: bootstrap_sample_def b)
qed

end
