(* ===== verification/Worker.thy ===== *)
theory Worker
  imports ModelRunner
begin

text \<open>
  \<open>minivllm/worker/worker.py\<close>: the worker process.  Its command queue is a list of commands;
  each comes with the time the clock would measure for its execution.  The result queue is the
  list of results put so far.  \<open>create_model_runner\<close> is an argument.

  The contract \<open>sampling_runner\<close> of the model runner gives the worker's own: every batch is
  answered exactly once, in order, under its own id, and a token is reported only for a request
  the scheduler asked a token for.
\<close>

section \<open>worker_process_main\<close>

record 's worker =
  wk_rank :: int
  wk_config :: engine_config
  wk_runner :: "'s model_runner"
  wk_state :: 's
  wk_graph_manager :: cudagraph_dispatcher

definition worker_capture_sizes :: "engine_config \<Rightarrow> int list" where
  "worker_capture_sizes config =
     filter (\<lambda>sz. sz \<le> max_num_seqs config) (cudagraph_capture_sizes config)"

text \<open>The part before the loop: either the result put on failure, or the worker.\<close>

definition worker_init ::
    "(engine_config \<Rightarrow> exn + 's model_runner \<times> 's) \<Rightarrow> int \<Rightarrow> engine_config \<Rightarrow>
       worker_result + 's worker" where
  "worker_init create rank config =
     (case create config of
        Inl e \<Rightarrow> Inl \<lparr>wr_batch_id = - 1, wr_rank = rank, wr_sampled_token_ids = [],
                    wr_error = Some (''worker init: '' @ str_exn e), wr_metrics = None\<rparr>
      | Inr (runner, s) \<Rightarrow> Inr \<lparr>wk_rank = rank, wk_config = config, wk_runner = runner, wk_state = s,
          wk_graph_manager = \<lparr>cd_mode = cudagraph_mode config,
                              cd_capture_sizes = worker_capture_sizes config\<rparr>\<rparr>)"

definition error_result :: "int \<Rightarrow> int \<Rightarrow> exn \<Rightarrow> worker_result" where
  "error_result bid rank e = \<lparr>wr_batch_id = bid, wr_rank = rank, wr_sampled_token_ids = [],
     wr_error = Some (''worker '' @ show_int rank @ '': '' @ str_exn e), wr_metrics = None\<rparr>"

text \<open>The body of the loop for a batch, which took \<open>elapsed\<close> seconds to execute.\<close>

definition worker_execute :: "'s worker \<Rightarrow> worker_batch \<Rightarrow> real \<Rightarrow> worker_result \<times> 's worker" where
  "worker_execute wk batch elapsed =
     (case from_worker_batch batch (block_size (wk_config wk)) of
        Inl e \<Rightarrow> (error_result (wb_batch_id batch) (wk_rank wk) e, wk)
      | Inr input_batch \<Rightarrow>
          (case manager_execute (wk_graph_manager wk) (wk_runner wk) (wk_state wk) input_batch of
             (Inl e, s) \<Rightarrow> (error_result (wb_batch_id batch) (wk_rank wk) e, wk\<lparr>wk_state := s\<rparr>)
           | (Inr (smp, execution_mode), s) \<Rightarrow>
               (\<lparr>wr_batch_id = wb_batch_id batch, wr_rank = wk_rank wk, wr_sampled_token_ids = smp,
                 wr_error = None,
                 wr_metrics = Some \<lparr>
                   bm_batch_id = wb_batch_id batch,
                   bm_rank = data_parallel_rank (wk_config wk),
                   bm_num_requests = num_requests input_batch,
                   bm_num_scheduled_tokens = num_tokens input_batch,
                   bm_num_prefill_tokens = num_prefill_tokens input_batch,
                   bm_num_decode_tokens = num_decode_tokens input_batch,
                   bm_execute_time_s = elapsed,
                   bm_execution_mode = execution_mode\<rparr>\<rparr>,
                wk\<lparr>wk_state := s\<rparr>)))"

text \<open>The loop: the results in the order they are put, the worker, and whether it still runs.\<close>

fun worker_loop :: "'s worker \<Rightarrow> (worker_command \<times> real) list \<Rightarrow> worker_result list \<times> 's worker \<times> bool" where
  "worker_loop wk [] = ([], wk, True)"
| "worker_loop wk ((command, elapsed) # commands) =
     (if wc_shutdown command
      then ([], wk\<lparr>wk_state := mr_close (wk_runner wk) (wk_state wk)\<rparr>, False)
      else (case wc_batch command of
              None \<Rightarrow> worker_loop wk commands
            | Some batch \<Rightarrow>
                (case worker_execute wk batch elapsed of
                   (result, wk') \<Rightarrow>
                     (case worker_loop wk' commands of
                        (results, wk'', alive) \<Rightarrow> (result # results, wk'', alive)))))"

section \<open>What the engine may rely on\<close>

text \<open>The ids the scheduler asked a token for.\<close>

definition wanted :: "worker_item list \<Rightarrow> string set" where
  "wanted its = wi_request_id ` {it \<in> set its. wi_should_sample it}"

lemma sampled_ids_batch:
  assumes "from_worker_batch wb bsize = Inr b"
  shows "sampled_ids b = wanted (wb_items wb)"
  using assms
proof (cases rule: from_worker_batchE)
  case 1
  let ?its = "wb_items wb" and ?f = "length \<circ> wi_token_ids"
  have b: "request_ids b = map wi_request_id ?its" "num_requests b = length ?its"
    "sample_indices b = map (\<lambda>k. if wi_should_sample (?its ! k)
       then int (offsets ?f ?its ! Suc k) - 1 else - 1) [0..<length ?its]"
    using 1(4) by (simp_all add: padded_form_def Let_def flat_form_def num_requests_def)
  have iff: "0 \<le> sample_indices b ! k \<longleftrightarrow> wi_should_sample (?its ! k)" if "k < length ?its" for k
  proof -
    have "item_valid bsize (?its ! k)" using 1(3) that by simp
    then have "wi_token_ids (?its ! k) \<noteq> []" by (simp add: item_valid_def)
    then have "0 < ?f (?its ! k)" by simp
    then have "1 \<le> int (offsets ?f ?its ! Suc k)" using offsets_step [OF that, of ?f] by linarith
    then show ?thesis using that by (simp add: b(3))
  qed
  have "sampled_ids b = (\<lambda>i. wi_request_id (?its ! i)) ` {i. i < length ?its \<and> wi_should_sample (?its ! i)}"
  proof -
    have len: "length (sample_indices b) = length ?its" by (simp add: b(3))
    show ?thesis unfolding sampled_ids_def b(1,2) len using iff by (auto simp: image_iff) (metis nth_map)
  qed
  also have "\<dots> = wanted ?its" by (force simp: wanted_def in_set_conv_nth image_iff)
  finally show ?thesis .
qed

text \<open>An honest answer to a batch: it either reports an error and no tokens, or no error and tokens
  only for the requests that are to be sampled, with the metrics of the batch.\<close>

definition honest_result :: "worker_batch \<Rightarrow> worker_result \<Rightarrow> bool" where
  "honest_result batch res \<longleftrightarrow>
     wr_batch_id res = wb_batch_id batch \<and>
     (case wr_error res of
        Some m \<Rightarrow> m \<noteq> [] \<and> wr_sampled_token_ids res = [] \<and> wr_metrics res = None
      | None \<Rightarrow> set (dict_keys (wr_sampled_token_ids res)) \<subseteq> wanted (wb_items batch) \<and>
          (\<exists>bm. wr_metrics res = Some bm \<and> bm_batch_id bm = wb_batch_id batch \<and>
             bm_num_requests bm = length (wb_items batch) \<and>
             bm_num_scheduled_tokens bm = sum_list (map (length \<circ> wi_token_ids) (wb_items batch)) \<and>
             bm_num_prefill_tokens bm + bm_num_decode_tokens bm = int (bm_num_scheduled_tokens bm)))"

lemma worker_execute_config [simp]:
  "wk_runner (snd (worker_execute wk batch t)) = wk_runner wk"
  "wk_config (snd (worker_execute wk batch t)) = wk_config wk"
  "wk_rank (snd (worker_execute wk batch t)) = wk_rank wk"
  "wk_graph_manager (snd (worker_execute wk batch t)) = wk_graph_manager wk"
  by (auto simp: worker_execute_def split: sum.splits prod.splits)

text \<open>The batches a worker reads before it is told to shut down.\<close>

definition worker_batches :: "worker_command list \<Rightarrow> worker_batch list" where
  "worker_batches cs = List.map_filter wc_batch (takeWhile (\<lambda>c. \<not> wc_shutdown c) cs)"

context sampling_runner
begin

lemma worker_execute_honest:
  assumes "wk_runner wk = runner"
  shows "honest_result batch (fst (worker_execute wk batch t))"
proof (cases "from_worker_batch batch (block_size (wk_config wk))")
  case (Inl e)
  then show ?thesis by (simp add: worker_execute_def honest_result_def error_result_def)
next
  case (Inr b)
  obtain res s where x: "manager_execute (wk_graph_manager wk) runner (wk_state wk) b = (res, s)"
    by fastforce
  show ?thesis
  proof (cases res)
    case (Inl e)
    then show ?thesis
      using \<open>from_worker_batch _ _ = _\<close> x assms
      by (simp add: worker_execute_def honest_result_def error_result_def)
  next
    case res: (Inr p)
    obtain out mode where p: "p = (out, mode)" by (cases p)
    have "set (dict_keys out) \<subseteq> wanted (wb_items batch)"
      using manager_keys [OF x [unfolded res p]] sampled_ids_batch [OF Inr] by simp
    moreover have "num_requests b = length (wb_items batch)"
      using Inr by (elim from_worker_batchE)
        (simp add: num_requests_def padded_form_def Let_def flat_form_def)
    moreover have "num_tokens b = sum_list (map (length \<circ> wi_token_ids) (wb_items batch))"
      by (rule num_tokens_sum [OF Inr])
    ultimately show ?thesis
      using Inr x res p assms
      by (simp add: worker_execute_def honest_result_def num_prefill_tokens_def)
  qed
qed

lemma worker_loop_honest:
  assumes "wk_runner wk = runner"
  shows "list_all2 honest_result (worker_batches (map fst commands)) (fst (worker_loop wk commands))"
  using assms
proof (induction wk commands rule: worker_loop.induct)
  case (2 wk command elapsed commands)
  show ?case
  proof (cases "wc_batch command")
    case None
    with 2 show ?thesis by (simp add: worker_batches_def)
  next
    case (Some batch)
    obtain res wk' where ex: "worker_execute wk batch elapsed = (res, wk')" by fastforce
    have "wk_runner wk' = runner"
      using worker_execute_config(1) [of wk batch elapsed] ex 2(3) by simp
    moreover have "honest_result batch res"
      using worker_execute_honest [OF 2(3), of batch elapsed] ex by simp
    ultimately show ?thesis
      using 2(2) [OF _ Some ex [symmetric]] Some ex
      by (cases "worker_loop wk' commands") (auto simp: worker_batches_def)
  qed
qed (simp add: worker_batches_def)

end



text \<open>A reference worker that is sent one good batch, one empty batch, and the shutdown.\<close>

definition demo_worker :: "ref_runtime worker" where
  "demo_worker = \<lparr>wk_rank = 0, wk_config = default_engine_config\<lparr>block_size := 4\<rparr>,
     wk_runner = bootstrap_runner reference_kernel, wk_state = ref_runtime_init 8,
     wk_graph_manager = \<lparr>cd_mode = ''none'', cd_capture_sizes = []\<rparr>\<rparr>"

definition demo_commands :: "(worker_command \<times> real) list" where
  "demo_commands = [
     (\<lparr>wc_batch = Some mixed_batch, wc_shutdown = False\<rparr>, 1),
     (\<lparr>wc_batch = Some \<lparr>wb_batch_id = 8, wb_items = []\<rparr>, wc_shutdown = False\<rparr>, 0),
     (\<lparr>wc_batch = None, wc_shutdown = True\<rparr>, 0)]"


text \<open>A worker whose runner cannot be created announces this once, under the id \<open>-1\<close>.\<close>

lemma worker_init_error:
  "worker_init create rank config = Inl res \<Longrightarrow>
     wr_batch_id res = - 1 \<and> wr_sampled_token_ids res = [] \<and> (\<exists>m. wr_error res = Some (''worker init: '' @ m))"
  by (auto simp: worker_init_def split: sum.splits prod.splits)

end
