(* ===== verification/EngineCore.thy ===== *)
theory EngineCore
  imports Scheduler_Props Worker
begin

text \<open>
  \<open>minivllm/engine/core.py\<close>: the scheduling loop of one rank.  The multiprocessing queues are
  lists in FIFO order; the output queue is the list of everything put so far.  Readings of
  \<open>time.perf_counter()\<close> come from an arbitrary clock, indexed by the number of readings.

  \<open>_execute_schedule\<close> blocks on the worker's result queue, so the loop is a machine whose
  phases are the points where it can wait or stop: \<open>AtHead\<close> (the loop head), \<open>Collecting\<close>
  (inside the collection loop, with the results so far), \<open>Stopped\<close> and \<open>Failed\<close> (after the
  \<open>finally\<close> block of \<open>run\<close>).  \<open>core_turn\<close> executes the code from one such point to the next.
\<close>

section \<open>State\<close>

record engine_core =
  co_config :: engine_config
  co_command_queue :: "engine_command list"
  co_output_queue :: "out_event list"
  co_scheduler :: scheduler
  co_tokenizer :: tokenizer
  co_worker_queues :: "worker_command list list"
  co_result_queue :: "worker_result list"
  co_batch_id :: int
  co_shutdown :: bool
  co_clock :: "nat \<Rightarrow> real"
  co_ticks :: nat

definition engine_core_init :: "hf_env \<Rightarrow> (nat \<Rightarrow> real) \<Rightarrow> engine_config \<Rightarrow> exn + engine_core" where
  "engine_core_init env clock config =
     (case scheduler_init env config of Inl e \<Rightarrow> Inl e
      | Inr sc \<Rightarrow>
     (case create_tokenizer env (model_path config) (tokenizer_path config) of Inl e \<Rightarrow> Inl e
      | Inr tk \<Rightarrow> Inr \<lparr>
          co_config = config, co_command_queue = [], co_output_queue = [], co_scheduler = sc,
          co_tokenizer = tk, co_worker_queues = replicate (nat (data_parallel_size config)) [],
          co_result_queue = [], co_batch_id = 0, co_shutdown = False,
          co_clock = clock, co_ticks = 0\<rparr>))"

definition now :: "engine_core \<Rightarrow> real" where
  "now co = co_clock co (co_ticks co)"

definition tick :: "engine_core \<Rightarrow> engine_core" where
  "tick co = co\<lparr>co_ticks := Suc (co_ticks co)\<rparr>"

definition put_output :: "engine_core \<Rightarrow> out_event \<Rightarrow> engine_core" where
  "put_output co ev = co\<lparr>co_output_queue := co_output_queue co @ [ev]\<rparr>"

section \<open>Commands\<close>

definition final_output :: "string \<Rightarrow> finish_reason \<Rightarrow> string option \<Rightarrow> request_output" where
  "final_output r reason err = \<lparr>ro_request_id = r, ro_token_ids = [], ro_text = [],
     ro_finished = True, ro_finish_reason = Some reason, ro_error = err, ro_metrics = None,
     ro_request_metrics = None\<rparr>"

definition emit_error :: "engine_core \<Rightarrow> string \<Rightarrow> string \<Rightarrow> engine_core" where
  "emit_error co r err = put_output co (EvOutput (final_output r ERROR (Some err)))"

definition core_handle_command ::
    "engine_core \<Rightarrow> engine_command \<Rightarrow> (exn + unit) \<times> engine_core" where
  "core_handle_command co command =
     (case ec_type command of
        SHUTDOWN \<Rightarrow> (Inr (), co\<lparr>co_shutdown := True\<rparr>)
      | ADD \<Rightarrow>
          (case ec_request command of
             None \<Rightarrow> (Inr (), co)
           | Some request \<Rightarrow>
               (case add_request (co_scheduler co) request (now co) of
                  (Inl e, sc) \<Rightarrow> (Inr (), emit_error (co\<lparr>co_scheduler := sc\<rparr>)
                                   (er_request_id request) (str_exn e))
                | (Inr _, sc) \<Rightarrow> (Inr (), tick (co\<lparr>co_scheduler := sc\<rparr>))))
      | ABORT_CMD \<Rightarrow>
          (case ec_request_id command of
             None \<Rightarrow> (Inr (), co)
           | Some r \<Rightarrow>
               (case abort (co_scheduler co) r of
                  (Inl e, sc) \<Rightarrow> (Inl e, co\<lparr>co_scheduler := sc\<rparr>)
                | (Inr known, sc) \<Rightarrow>
                    (Inr (), if known
                       then put_output (co\<lparr>co_scheduler := sc\<rparr>) (EvOutput (final_output r ABORT None))
                       else co\<lparr>co_scheduler := sc\<rparr>))))"

text \<open>The \<open>while True\<close> loop of \<open>_drain_commands\<close> over the commands in the queue.\<close>

fun drain_loop :: "engine_command list \<Rightarrow> engine_core \<Rightarrow> (exn + unit) \<times> engine_core" where
  "drain_loop [] co = (Inr (), co\<lparr>co_command_queue := []\<rparr>)"
| "drain_loop (command # commands) co =
     (case core_handle_command (co\<lparr>co_command_queue := commands\<rparr>) command of
        (Inl e, co') \<Rightarrow> (Inl e, co')
      | (Inr _, co') \<Rightarrow> drain_loop commands co')"

definition drain_commands :: "engine_core \<Rightarrow> bool \<Rightarrow> (exn + unit) \<times> engine_core" where
  "drain_commands co block =
     (if block
      then (case co_command_queue co of
              [] \<Rightarrow> (Inr (), co)
            | command # commands \<Rightarrow>
                (case core_handle_command (co\<lparr>co_command_queue := commands\<rparr>) command of
                   (Inl e, co') \<Rightarrow> (Inl e, co')
                 | (Inr _, co') \<Rightarrow> drain_loop (co_command_queue co') co'))
      else drain_loop (co_command_queue co) co)"

section \<open>Executing a schedule\<close>

text \<open>\<open>self.worker_queues[rank].put(WorkerCommand(batch=WorkerBatch(id, items)))\<close>\<close>

fun put_batches ::
    "int \<Rightarrow> (int option \<times> worker_item list) list \<Rightarrow> worker_command list list \<Rightarrow>
       (exn + unit) \<times> worker_command list list" where
  "put_batches bid [] qs = (Inr (), qs)"
| "put_batches bid ((rank, items) # rest) qs =
     (case rank of
        None \<Rightarrow> (Inl (TypeError ''list indices must be integers or slices, not NoneType''), qs)
      | Some k \<Rightarrow>
          (case py_get qs k of
             Inl e \<Rightarrow> (Inl e, qs)
           | Inr q \<Rightarrow>
               put_batches bid rest (qs[nat (k mod int (length qs)) :=
                 q @ [\<lparr>wc_batch = Some \<lparr>wb_batch_id = bid, wb_items = items\<rparr>, wc_shutdown = False\<rparr>]])))"

text \<open>The part of \<open>_execute_schedule\<close> up to the collection loop; \<open>None\<close> is its early return.\<close>

definition dispatch_schedule :: "engine_core \<Rightarrow> (exn + schedule_out option) \<times> engine_core" where
  "dispatch_schedule co =
     (case schedule (co_scheduler co) of
        (Inl e, sc) \<Rightarrow> (Inl e, co\<lparr>co_scheduler := sc\<rparr>)
      | (Inr out, sc) \<Rightarrow>
          let co1 = co\<lparr>co_scheduler := sc\<rparr> in
          if by_rank out = [] then (Inr None, co1)
          else let co2 = co1\<lparr>co_batch_id := co_batch_id co1 + 1\<rparr>
               in (case put_batches (co_batch_id co2) (by_rank out) (co_worker_queues co2) of
                     (Inl e, qs) \<Rightarrow> (Inl e, co2\<lparr>co_worker_queues := qs\<rparr>)
                   | (Inr _, qs) \<Rightarrow> (Inr (Some out), co2\<lparr>co_worker_queues := qs\<rparr>)))"

text \<open>The text streamed for a token: what decoding the longer sequence adds.\<close>

definition streamed_text ::
    "tokenizer \<Rightarrow> int \<Rightarrow> pystr \<Rightarrow> pystr \<Rightarrow> exn + pystr" where
  "streamed_text tk token_id previous current =
     (if startswith current previous then Inr (drop (length previous) current)
      else tok_decode tk [token_id])"

text \<open>The tail of the item loop, for a request whose token \<open>token_id\<close> was sampled.\<close>

definition accept_token ::
    "worker_result \<Rightarrow> string \<Rightarrow> int \<Rightarrow> engine_core \<Rightarrow> (exn + unit) \<times> engine_core" where
  "accept_token res r token_id co =
     (case output_text (co_scheduler co) r of Inl e \<Rightarrow> (Inl e, co)
      | Inr previous_text \<Rightarrow>
     (case append_token (co_scheduler co) r token_id (now co) of
        (Inl e, sc) \<Rightarrow> (Inl e, tick (co\<lparr>co_scheduler := sc\<rparr>))
      | (Inr reason, sc) \<Rightarrow>
        let co1 = tick (co\<lparr>co_scheduler := sc\<rparr>) in
     (case output_text sc r of Inl e \<Rightarrow> (Inl e, co1)
      | Inr current_text \<Rightarrow>
     (case streamed_text (co_tokenizer co1) token_id previous_text current_text of
        Inl e \<Rightarrow> (Inl e, co1)
      | Inr text \<Rightarrow>
     (case request_metrics_of sc r (reason \<noteq> None) (now co1) of Inl e \<Rightarrow> (Inl e, co1)
      | Inr metrics \<Rightarrow>
        let co2 = put_output (tick co1) (EvOutput \<lparr>
              ro_request_id = r,
              ro_token_ids = (if token_id = eos_token_id (co_tokenizer co1) then [] else [token_id]),
              ro_text = text,
              ro_finished = (reason \<noteq> None),
              ro_finish_reason = reason,
              ro_error = None,
              ro_metrics = wr_metrics res,
              ro_request_metrics = Some metrics\<rparr>)
        in if reason = None then (Inr (), co2)
           else (case finish (co_scheduler co2) r of
                   (Inl e, sc') \<Rightarrow> (Inl e, co2\<lparr>co_scheduler := sc'\<rparr>)
                 | (Inr _, sc') \<Rightarrow> (Inr (), co2\<lparr>co_scheduler := sc'\<rparr>)))))))"

definition process_item ::
    "schedule_out \<Rightarrow> worker_result \<Rightarrow> worker_item \<Rightarrow> engine_core \<Rightarrow> (exn + unit) \<times> engine_core" where
  "process_item out res item co =
     (let r = wi_request_id item in
      if r \<notin> set (dict_keys (sc_running (co_scheduler co))) then (Inr (), co)
      else (case map_of (scheduled_counts out) r of
              None \<Rightarrow> (Inl (KeyError r), co)
            | Some n_tokens \<Rightarrow>
                (case update_computed (co_scheduler co) r n_tokens of
                   (Inl e, sc) \<Rightarrow> (Inl e, co\<lparr>co_scheduler := sc\<rparr>)
                 | (Inr _, sc) \<Rightarrow>
                     (case map_of (wr_sampled_token_ids res) r of
                        None \<Rightarrow> (Inr (), co\<lparr>co_scheduler := sc\<rparr>)
                      | Some token_id \<Rightarrow> accept_token res r token_id (co\<lparr>co_scheduler := sc\<rparr>)))))"

fun process_items ::
    "schedule_out \<Rightarrow> worker_result \<Rightarrow> worker_item list \<Rightarrow> engine_core \<Rightarrow> (exn + unit) \<times> engine_core" where
  "process_items out res [] co = (Inr (), co)"
| "process_items out res (item # items) co =
     (case process_item out res item co of
        (Inl e, co') \<Rightarrow> (Inl e, co')
      | (Inr _, co') \<Rightarrow> process_items out res items co')"

text \<open>The loop that reports the worker's error for every item of the batch.\<close>

fun fail_items :: "string \<Rightarrow> worker_item list \<Rightarrow> engine_core \<Rightarrow> (exn + unit) \<times> engine_core" where
  "fail_items err [] co = (Inr (), co)"
| "fail_items err (item # items) co =
     (let co1 = emit_error co (wi_request_id item) err
      in (case finish (co_scheduler co1) (wi_request_id item) of
            (Inl e, sc) \<Rightarrow> (Inl e, co1\<lparr>co_scheduler := sc\<rparr>)
          | (Inr _, sc) \<Rightarrow> fail_items err items (co1\<lparr>co_scheduler := sc\<rparr>)))"

definition process_result ::
    "schedule_out \<Rightarrow> worker_result \<Rightarrow> engine_core \<Rightarrow> (exn + unit) \<times> engine_core" where
  "process_result out res co =
     (let co1 = (case wr_metrics res of None \<Rightarrow> co | Some bm \<Rightarrow> put_output co (EvMetrics bm))
      in (case map_of (by_rank out) (Some (wr_rank res)) of
            None \<Rightarrow> (Inl (KeyError (show_int (wr_rank res))), co1)
          | Some items \<Rightarrow>
              (case wr_error res of
                 Some err \<Rightarrow> if err \<noteq> [] then fail_items err items co1
                             else process_items out res items co1
               | None \<Rightarrow> process_items out res items co1)))"

fun process_results ::
    "schedule_out \<Rightarrow> worker_result list \<Rightarrow> engine_core \<Rightarrow> (exn + unit) \<times> engine_core" where
  "process_results out [] co = (Inr (), co)"
| "process_results out (res # rest) co =
     (case process_result out res co of
        (Inl e, co') \<Rightarrow> (Inl e, co')
      | (Inr _, co') \<Rightarrow> process_results out rest co')"

section \<open>The loop\<close>

datatype core_phase =
    AtHead
  | Collecting schedule_out "(int, worker_result) dict"
  | Stopped
  | Failed

type_synonym core_state = "engine_core \<times> core_phase"

text \<open>The \<open>finally\<close> block (the processes are joined afterwards).\<close>

definition core_finally :: "engine_core \<Rightarrow> engine_core" where
  "core_finally co = co\<lparr>co_worker_queues :=
     map (\<lambda>q. q @ [\<lparr>wc_batch = None, wc_shutdown = True\<rparr>]) (co_worker_queues co)\<rparr>"

text \<open>The exception handler of \<open>run\<close>: everyone the scheduler knows is told.\<close>

definition core_fail :: "exn \<Rightarrow> engine_core \<Rightarrow> core_state" where
  "core_fail e co =
     (core_finally (fold (\<lambda>r c. emit_error c r (str_exn e))
        (dict_keys (sc_running (co_scheduler co)) @ map rs_request_id (sc_waiting (co_scheduler co))) co),
      Failed)"

definition core_head :: "engine_core \<Rightarrow> core_state" where
  "core_head co =
     (if co_shutdown co then (core_finally co, Stopped)
      else (case drain_commands co (\<not> has_requests (co_scheduler co)) of
              (Inl e, co1) \<Rightarrow> core_fail e co1
            | (Inr _, co1) \<Rightarrow>
                if co_shutdown co1 then (core_finally co1, Stopped)
                else (case dispatch_schedule co1 of
                        (Inl e, co2) \<Rightarrow> core_fail e co2
                      | (Inr None, co2) \<Rightarrow> (co2, AtHead)
                      | (Inr (Some out), co2) \<Rightarrow> (co2, Collecting out []))))"

definition core_collect ::
    "engine_core \<Rightarrow> schedule_out \<Rightarrow> (int, worker_result) dict \<Rightarrow> core_state" where
  "core_collect co out results =
     (if length results < length (by_rank out)
      then (case co_result_queue co of
              [] \<Rightarrow> (co, Collecting out results)
            | res # rest \<Rightarrow>
                let co1 = co\<lparr>co_result_queue := rest\<rparr> in
                if wr_batch_id res = - 1
                then core_fail (RuntimeError (case wr_error res of None \<Rightarrow> ''None'' | Some m \<Rightarrow> m)) co1
                else if wr_batch_id res = co_batch_id co1
                then (co1, Collecting out (AList.update (wr_rank res) res results))
                else (co1, Collecting out results))
      else (case process_results out (dict_vals results) co of
              (Inl e, co1) \<Rightarrow> core_fail e co1
            | (Inr _, co1) \<Rightarrow> (co1, AtHead)))"

fun core_turn :: "core_state \<Rightarrow> core_state" where
  "core_turn (co, AtHead) = core_head co"
| "core_turn (co, Collecting out results) = core_collect co out results"
| "core_turn (co, Stopped) = (co, Stopped)"
| "core_turn (co, Failed) = (co, Failed)"

end
