(* ===== verification/EngineCore_Inv.thy ===== *)
theory EngineCore_Inv
  imports EngineCore
begin

text \<open>
  The invariant of the engine core's loop and its book-keeping: every operation of
  \<open>EngineCore\<close> keeps the scheduler's invariant, and the number of unread add commands, final
  outputs and requests in the scheduler together stays the same for every request id.  The
  worker is trusted only to sample requests it was asked to sample.
\<close>

section \<open>Counting what is owed\<close>

definition is_add :: "string \<Rightarrow> engine_command \<Rightarrow> bool" where
  "is_add r c \<longleftrightarrow> ec_type c = ADD \<and>
     (case ec_request c of None \<Rightarrow> False | Some q \<Rightarrow> er_request_id q = r)"

fun is_final :: "string \<Rightarrow> out_event \<Rightarrow> bool" where
  "is_final r (EvOutput out) = (ro_request_id out = r \<and> ro_finished out)"
| "is_final r (EvMetrics bm) = False"

abbreviation add_count :: "string \<Rightarrow> engine_command list \<Rightarrow> nat" where
  "add_count r cs \<equiv> length (filter (is_add r) cs)"

abbreviation final_count :: "string \<Rightarrow> out_event list \<Rightarrow> nat" where
  "final_count r evs \<equiv> length (filter (is_final r) evs)"

text \<open>Add commands not read yet, final outputs, and whether the request is in the scheduler.\<close>

definition balance :: "engine_core \<Rightarrow> string \<Rightarrow> nat" where
  "balance co r = add_count r (co_command_queue co) + final_count r (co_output_queue co) +
     count_list (active_ids (co_scheduler co)) r"

section \<open>Frames\<close>

text \<open>What processing commands and results leaves alone; outputs are only added.\<close>

definition core_frame :: "engine_core \<Rightarrow> engine_core \<Rightarrow> bool" where
  "core_frame co co' \<longleftrightarrow>
     co_config co' = co_config co \<and> co_tokenizer co' = co_tokenizer co \<and>
     co_command_queue co' = co_command_queue co \<and> co_worker_queues co' = co_worker_queues co \<and>
     co_result_queue co' = co_result_queue co \<and> co_batch_id co' = co_batch_id co \<and>
     sc_config (co_scheduler co') = sc_config (co_scheduler co) \<and>
     sc_tokenizer (co_scheduler co') = sc_tokenizer (co_scheduler co) \<and>
     prefix (co_output_queue co) (co_output_queue co')"

lemma core_frame_refl [simp, intro]: "core_frame co co"
  by (simp add: core_frame_def)

lemma core_frame_trans [trans]: "core_frame a b \<Longrightarrow> core_frame b c \<Longrightarrow> core_frame a c"
  by (auto simp: core_frame_def intro: prefix_order.trans)

text \<open>Only the entry and the blocks of request \<open>r\<close> may differ.\<close>

definition others_same :: "string \<Rightarrow> scheduler \<Rightarrow> scheduler \<Rightarrow> bool" where
  "others_same r sc sc' \<longleftrightarrow>
     (\<forall>q. q \<noteq> r \<longrightarrow> map_of (sc_running sc') q = map_of (sc_running sc) q \<and>
        kv_tbl (sc_cache_manager sc') q = kv_tbl (sc_cache_manager sc) q) \<and>
     kv_block_size (sc_cache_manager sc') = kv_block_size (sc_cache_manager sc) \<and>
     set (sc_waiting sc') \<subseteq> set (sc_waiting sc)"

lemma others_same_refl [simp, intro]: "others_same r sc sc"
  by (simp add: others_same_def)

lemma others_same_trans [trans]: "others_same r a b \<Longrightarrow> others_same r b c \<Longrightarrow> others_same r a c"
  by (auto simp: others_same_def)

lemma active_ids_set_running:
  "r \<in> set (dict_keys (sc_running sc)) \<Longrightarrow> active_ids (set_running sc r rs) = active_ids sc"
  by (simp add: active_ids_def set_running_def keys_update)

lemma others_same_set_running: "others_same r sc (set_running sc r rs)"
  by (simp add: others_same_def set_running_def update_conv')

lemma append_token_form:
  assumes "append_token sc r t tm = (res, sc')" and "map_of (sc_running sc) r = Some rs"
  obtains rs' where "sc' = set_running sc r rs'"
  using assms by (auto simp: append_token_def Let_def split: if_splits sum.splits)

lemma finish_form:
  assumes "sched_inv_but {r} sc" and "map_of (sc_running sc) r = Some rs"
  obtains sc' where "finish sc r = (Inr (Some rs), sc')" and "sched_inv sc'"
    and "active_ids sc' = remove1 r (active_ids sc)" and "others_same r sc sc'"
    and "sc_config sc' = sc_config sc" and "sc_tokenizer sc' = sc_tokenizer sc"
proof -
  from finish_running [OF assms, of "{}"] obtain m bl where
    f: "finish sc r = (Inr (Some rs), sc\<lparr>sc_running := AList.delete r (sc_running sc),
          sc_cache_manager := m\<rparr>)"
      "sched_inv (sc\<lparr>sc_running := AList.delete r (sc_running sc), sc_cache_manager := m\<rparr>)"
      "kv_tbl m = (kv_tbl (sc_cache_manager sc))(r := None)" by auto
  let ?sc' = "sc\<lparr>sc_running := AList.delete r (sc_running sc), sc_cache_manager := m\<rparr>"
  have "kv_block_size m = kv_block_size (sc_cache_manager sc)"
    using sched_inv_butD(3) [OF f(2)] sched_inv_butD(3) [OF assms(1)] by simp
  then have "others_same r sc ?sc'" using f(3) by (simp add: others_same_def delete_conv')
  moreover have "active_ids ?sc' = remove1 r (active_ids sc)"
    by (rule remove_running_ids [OF assms(1) map_of_Some_in_keys [OF assms(2)]])
  ultimately show ?thesis using that f by simp
qed

lemma count_active_running:
  assumes "sched_inv_but X sc" and "map_of (sc_running sc) r = Some rs"
  shows "count_list (active_ids sc) r = 1"
proof -
  have "r \<in> set (active_ids sc)" using map_of_Some_in_keys [OF assms(2)] by (simp add: active_ids_def)
  with distinct_active_ids [OF assms(1)] show ?thesis by (simp add: distinct_count_list)
qed

section \<open>Commands\<close>

text \<open>\<open>SamplingParams\<close> objects are validated, so the limit of an add command is positive.\<close>

definition valid_command :: "engine_command \<Rightarrow> bool" where
  "valid_command c \<longleftrightarrow>
     (case ec_request c of None \<Rightarrow> True | Some q \<Rightarrow> 0 < sp_max_tokens (er_sampling_params q))"

lemma add_request_active:
  "add_request sc q tm = (res, sc') \<Longrightarrow>
     (case res of Inl e \<Rightarrow> sc' = sc | Inr _ \<Rightarrow> active_ids sc' = active_ids sc @ [er_request_id q]) \<and>
     sc_config sc' = sc_config sc \<and> sc_tokenizer sc' = sc_tokenizer sc"
  by (auto simp: add_request_def active_ids_def split: if_splits)

lemma balance_final:
  "balance (put_output co (EvOutput (final_output q reason err))) r = balance co r + (if q = r then 1 else 0)"
  by (simp add: balance_def put_output_def final_output_def)

definition handled_ok :: "engine_core \<Rightarrow> engine_command \<Rightarrow> engine_core \<Rightarrow> bool" where
  "handled_ok co c co' \<longleftrightarrow> core_handle_command co c = (Inr (), co') \<and> sched_inv (co_scheduler co') \<and>
     core_frame co co' \<and> (\<forall>r. balance co' r = balance co r + (if is_add r c then 1 else 0))"

lemma handle_add_ok:
  assumes inv: "sched_inv (co_scheduler co)" and c: "valid_command c" and ADD: "ec_type c = ADD"
    and q: "ec_request c = Some q"
  shows "\<exists>co'. handled_ok co c co'"
proof -
  obtain res sc where a: "add_request (co_scheduler co) q (now co) = (res, sc)" by fastforce
  note act = add_request_active [OF a]
  have inv': "sched_inv sc"
    using add_request_inv [OF inv, of q "now co"] c q a by (simp add: valid_command_def)
  show ?thesis
  proof (cases res)
    case (Inl e)
    let ?co = "emit_error (co\<lparr>co_scheduler := sc\<rparr>) (er_request_id q) (str_exn e)"
    have "core_handle_command co c = (Inr (), ?co)"
      using ADD q a Inl by (simp add: core_handle_command_def)
    moreover have "balance ?co r = balance co r + (if is_add r c then 1 else 0)" for r
      using act Inl ADD q by (simp add: emit_error_def balance_final is_add_def)
    ultimately have "handled_ok co c ?co" using inv' act Inl
      by (simp add: handled_ok_def core_frame_def emit_error_def put_output_def)
    then show ?thesis ..
  next
    case (Inr u)
    let ?co = "tick (co\<lparr>co_scheduler := sc\<rparr>)"
    have "core_handle_command co c = (Inr (), ?co)"
      using ADD q a Inr by (simp add: core_handle_command_def)
    moreover have "balance ?co r = balance co r + (if is_add r c then 1 else 0)" for r
      using act Inr ADD q by (simp add: balance_def tick_def is_add_def)
    ultimately have "handled_ok co c ?co"
      using inv' act by (simp add: handled_ok_def core_frame_def tick_def)
    then show ?thesis ..
  qed
qed

lemma handle_abort_ok:
  assumes inv: "sched_inv (co_scheduler co)" and ABORT_CMD: "ec_type c = ABORT_CMD"
    and r: "ec_request_id c = Some r"
  shows "\<exists>co'. handled_ok co c co'"
proof -
  from abort_ok [OF inv, of r] obtain sc where
    a: "abort (co_scheduler co) r = (Inr (r \<in> set (active_ids (co_scheduler co))), sc)"
      "sched_inv sc" "active_ids sc = remove1 r (active_ids (co_scheduler co))"
      "sc_config sc = sc_config (co_scheduler co)" "sc_tokenizer sc = sc_tokenizer (co_scheduler co)" .
  let ?known = "r \<in> set (active_ids (co_scheduler co))" and ?co1 = "co\<lparr>co_scheduler := sc\<rparr>"
  let ?co = "if ?known then put_output ?co1 (EvOutput (final_output r ABORT None)) else ?co1"
  have "core_handle_command co c = (Inr (), ?co)"
    using ABORT_CMD r a(1) by (simp add: core_handle_command_def)
  moreover have "balance ?co q = balance co q + (if is_add q c then 1 else 0)" for q
  proof -
    have "count_list (active_ids (co_scheduler co)) r \<noteq> 0 \<longleftrightarrow> ?known"
      by (simp add: count_list_0_iff)
    then have "balance ?co1 q + (if ?known \<and> r = q then 1 else 0) = balance co q"
      using a(3) by (auto simp: balance_def count_list_remove1)
    then show ?thesis using ABORT_CMD by (auto simp: balance_final is_add_def split: if_splits)
  qed
  moreover have "core_frame co ?co" using a(4,5) by (simp add: core_frame_def put_output_def)
  moreover have "sched_inv (co_scheduler ?co)" using a(2) by (simp add: put_output_def)
  ultimately show ?thesis unfolding handled_ok_def by blast
qed

lemma handle_command_ok:
  assumes inv: "sched_inv (co_scheduler co)" and c: "valid_command c"
  obtains co' where "core_handle_command co c = (Inr (), co')" and "sched_inv (co_scheduler co')"
    and "core_frame co co'" and "\<And>r. balance co' r = balance co r + (if is_add r c then 1 else 0)"
proof -
  have shut: "handled_ok co c (co\<lparr>co_shutdown := True\<rparr>)" if "ec_type c = SHUTDOWN"
    using that inv by (simp add: handled_ok_def core_handle_command_def core_frame_def balance_def is_add_def)
  have noop: "handled_ok co c co"
    if "ec_type c = ADD \<and> ec_request c = None \<or> ec_type c = ABORT_CMD \<and> ec_request_id c = None"
    using that inv by (auto simp: handled_ok_def core_handle_command_def is_add_def)
  have "\<exists>co'. handled_ok co c co'"
    using shut noop handle_add_ok [OF inv c] handle_abort_ok [OF inv]
    by (cases "ec_type c"; cases "ec_request c"; cases "ec_request_id c") blast+
  then show ?thesis using that unfolding handled_ok_def by blast
qed

lemma balance_queue:
  "balance (co\<lparr>co_command_queue := cs\<rparr>) r + add_count r (co_command_queue co) =
     balance co r + add_count r cs"
  by (simp add: balance_def)

lemma core_frame_queue:
  "core_frame (co\<lparr>co_command_queue := cs\<rparr>) co' \<Longrightarrow>
     core_frame (co\<lparr>co_command_queue := cs'\<rparr>) (co'\<lparr>co_command_queue := cs'\<rparr>)"
  by (simp add: core_frame_def)

lemma drain_loop_ok:
  assumes "sched_inv (co_scheduler co)" and "\<forall>c\<in>set cs. valid_command c"
  shows "\<exists>co'. drain_loop cs co = (Inr (), co') \<and> sched_inv (co_scheduler co') \<and>
    core_frame (co\<lparr>co_command_queue := []\<rparr>) co' \<and>
    (\<forall>r. balance co' r = balance (co\<lparr>co_command_queue := cs\<rparr>) r)"
  using assms
proof (induction cs arbitrary: co)
  case Nil
  then show ?case by simp
next
  case (Cons c cs)
  let ?co = "co\<lparr>co_command_queue := cs\<rparr>"
  have "sched_inv (co_scheduler ?co)" "valid_command c" using Cons.prems by simp_all
  from handle_command_ok [OF this] obtain co1 where
    h: "core_handle_command ?co c = (Inr (), co1)" "sched_inv (co_scheduler co1)" "core_frame ?co co1"
      "\<forall>r. balance co1 r = balance ?co r + (if is_add r c then 1 else 0)" by blast
  from Cons.IH [OF h(2)] Cons.prems(2) obtain co' where
    d: "drain_loop cs co1 = (Inr (), co')" "sched_inv (co_scheduler co')"
      "core_frame (co1\<lparr>co_command_queue := []\<rparr>) co'"
      "\<forall>r. balance co' r = balance (co1\<lparr>co_command_queue := cs\<rparr>) r" by auto
  have "co1\<lparr>co_command_queue := cs\<rparr> = co1" using h(3) by (simp add: core_frame_def)
  then have "\<forall>r. balance co' r = balance (co\<lparr>co_command_queue := c # cs\<rparr>) r"
    using d(4) h(4) by (simp add: balance_def)
  moreover have "core_frame (co\<lparr>co_command_queue := []\<rparr>) co'"
    using core_frame_queue [OF h(3), of "[]"] d(3) by (blast intro: core_frame_trans)
  ultimately show ?case using h(1) d(1,2) by auto
qed

text \<open>Waiting for the first command does not change what is drained.\<close>

lemma drain_commands_eq:
  assumes "sched_inv (co_scheduler co)" and "\<forall>c\<in>set (co_command_queue co). valid_command c"
  shows "drain_commands co block = drain_loop (co_command_queue co) co"
proof (cases "block \<and> co_command_queue co \<noteq> []")
  case True
  then obtain c cs where q: "co_command_queue co = c # cs" by (cases "co_command_queue co") auto
  let ?co = "co\<lparr>co_command_queue := cs\<rparr>"
  have "sched_inv (co_scheduler ?co)" "valid_command c" using assms q by simp_all
  from handle_command_ok [OF this] obtain co1 where
    "core_handle_command ?co c = (Inr (), co1)" "core_frame ?co co1" .
  then show ?thesis using True q by (simp add: drain_commands_def core_frame_def)
qed (auto simp: drain_commands_def)

lemma drain_commands_ok:
  assumes "sched_inv (co_scheduler co)" and "\<forall>c\<in>set (co_command_queue co). valid_command c"
  obtains co' where "drain_commands co block = (Inr (), co')" and "sched_inv (co_scheduler co')"
    and "core_frame (co\<lparr>co_command_queue := []\<rparr>) co'" and "\<And>r. balance co' r = balance co r"
  using drain_loop_ok [OF assms] drain_commands_eq [OF assms] that by auto

section \<open>Results\<close>

text \<open>The output put for a token: its id, and the text that it adds to the decoded output.\<close>

definition token_output :: "engine_core \<Rightarrow> string \<Rightarrow> int \<Rightarrow> scheduler \<Rightarrow> request_output \<Rightarrow> bool" where
  "token_output co r t sc1 ro \<longleftrightarrow> ro_request_id ro = r \<and>
     ro_token_ids ro = (if t = eos_token_id (co_tokenizer co) then [] else [t]) \<and>
     (\<exists>prev cur. output_text (co_scheduler co) r = Inr prev \<and> output_text sc1 r = Inr cur \<and>
        streamed_text (co_tokenizer co) t prev cur = Inr (ro_text ro))"

text \<open>How accepting a token can end: an exception before anything is put, or an output.\<close>

lemma accept_token_cases:
  assumes run: "accept_token res r t co = (out, co')"
    and ap: "append_token (co_scheduler co) r t (now co) = (ares, sc1)"
  obtains (raised) e where "out = Inl e" "co_output_queue co' = co_output_queue co"
      "co_scheduler co' \<in> {co_scheduler co, sc1}" "core_frame (co\<lparr>co_scheduler := co_scheduler co'\<rparr>) co'"
  | (streamed) ro where "out = Inr ()" "ares = Inr None" "co_scheduler co' = sc1"
      "co_output_queue co' = co_output_queue co @ [EvOutput ro]" "token_output co r t sc1 ro"
      "\<not> ro_finished ro" "core_frame (co\<lparr>co_scheduler := sc1\<rparr>) co'"
  | (finished) ro reason fres where "ares = Inr (Some reason)" "finish sc1 r = (fres, co_scheduler co')"
      "out = (case fres of Inl e \<Rightarrow> Inl e | Inr _ \<Rightarrow> Inr ())"
      "co_output_queue co' = co_output_queue co @ [EvOutput ro]" "token_output co r t sc1 ro"
      "ro_finished ro" "core_frame (co\<lparr>co_scheduler := co_scheduler co'\<rparr>) co'" "ro_finish_reason ro = Some reason"
proof -
  let ?sc = "co_scheduler co" and ?co1 = "tick (co\<lparr>co_scheduler := sc1\<rparr>)"
  have raise: thesis if "out = Inl e" "co' \<in> {co, ?co1}" for e
    using that by (intro raised) (auto simp: tick_def core_frame_def)
  note run' = run [unfolded accept_token_def ap Let_def]
  show ?thesis
  proof (cases "output_text ?sc r")
    case (Inl e)
    then show ?thesis using run' raise [of e] by auto
  next
    case prev: (Inr prev)
    show ?thesis
    proof (cases ares)
      case (Inl e)
      then show ?thesis using run' prev raise [of e] by auto
    next
      case reason: (Inr reason)
      note run2 = run' [unfolded prev reason sum.case prod.case]
      consider (err) e where "out = Inl e" "co' = ?co1"
        | (ok) cur tx metrics where "output_text sc1 r = Inr cur"
            "streamed_text (co_tokenizer ?co1) t prev cur = Inr tx"
            "request_metrics_of sc1 r (reason \<noteq> None) (now ?co1) = Inr metrics"
        using run2 by (simp split: sum.splits) metis+
      then show ?thesis
      proof cases
        case err
        then show ?thesis using raise by simp
      next
        case ok
        note run3 = run2 [unfolded ok sum.case]
        show ?thesis
        proof (cases reason)
          case None
          with run3 reason prev ok show ?thesis
            by (intro streamed) (auto simp: put_output_def tick_def core_frame_def token_output_def)
        next
          case (Some fr)
          obtain fres sc2 where f: "finish sc1 r = (fres, sc2)" by fastforce
          let ?ro = "\<lparr>ro_request_id = r,
              ro_token_ids = (if t = eos_token_id (co_tokenizer ?co1) then [] else [t]), ro_text = tx,
              ro_finished = True, ro_finish_reason = Some fr, ro_error = None,
              ro_metrics = wr_metrics res, ro_request_metrics = Some metrics\<rparr>"
          have "out = (case fres of Inl e \<Rightarrow> Inl e | Inr _ \<Rightarrow> Inr ())"
            "co' = (put_output (tick ?co1) (EvOutput ?ro))\<lparr>co_scheduler := sc2\<rparr>"
            using run3 f Some by (auto simp: put_output_def tick_def split: sum.splits)
          with f Some reason prev ok show ?thesis
            by (intro finished [of fr fres ?ro])
              (simp_all add: put_output_def tick_def core_frame_def token_output_def)
        qed
      qed
    qed
  qed
qed

text \<open>A fully computed running request takes a token.\<close>

lemma accept_token_ok:
  assumes inv: "sched_inv (co_scheduler co)" and rs: "map_of (sc_running (co_scheduler co)) r = Some rs"
    and full: "rs_num_computed_tokens rs = length (all_token_ids rs)"
    and run: "accept_token res r t co = (out, co')"
  shows "sched_inv_but {r} (co_scheduler co')" and "out = Inr () \<Longrightarrow> sched_inv (co_scheduler co')"
    and "core_frame co co'" and "others_same r (co_scheduler co) (co_scheduler co')"
    and "balance co' q = balance co q"
proof -
  let ?sc = "co_scheduler co"
  obtain ares sc1 where ap: "append_token ?sc r t (now co) = (ares, sc1)" by fastforce
  from append_token_form [OF ap rs] obtain rs' where sc1: "sc1 = set_running ?sc r rs'" .
  have key: "r \<in> set (dict_keys (sc_running ?sc))" using rs by (rule map_of_Some_in_keys)
  have act: "active_ids sc1 = active_ids ?sc" unfolding sc1 by (rule active_ids_set_running [OF key])
  have same: "others_same r ?sc sc1" unfolding sc1 by (rule others_same_set_running)
  have cfg: "sc_config sc1 = sc_config ?sc" "sc_tokenizer sc1 = sc_tokenizer ?sc"
    by (simp_all add: sc1 set_running_def)
  note ai = append_token_inv [OF inv rs full ap]
  have but: "sched_inv_but {r} ?sc" using inv by (rule sched_inv_but_mono) simp
  have rs1: "map_of (sc_running sc1) r = Some rs'" by (simp add: sc1 set_running_def update_conv')
  have goal: "sched_inv_but {r} (co_scheduler co') \<and> (out = Inr () \<longrightarrow> sched_inv (co_scheduler co')) \<and>
    core_frame co co' \<and> others_same r ?sc (co_scheduler co') \<and> balance co' q = balance co q"
    using run ap
  proof (cases rule: accept_token_cases)
    case (raised e)
    then show ?thesis using ai(1) but act same cfg by (auto simp: core_frame_def balance_def)
  next
    case (streamed ro)
    then show ?thesis using ai act same cfg by (auto simp: core_frame_def balance_def)
  next
    case (finished ro reason fres)
    from finish_form [OF ai(1) rs1] obtain sc2 where
      f: "finish sc1 r = (Inr (Some rs'), sc2)" "sched_inv sc2"
        "active_ids sc2 = remove1 r (active_ids sc1)" "others_same r sc1 sc2"
        "sc_config sc2 = sc_config sc1" "sc_tokenizer sc2 = sc_tokenizer sc1" .
    have sc2: "co_scheduler co' = sc2" using finished(2) f(1) by simp
    have "balance co' q = balance co q"
      using finished f(3) act count_active_running [OF inv rs] sc2
      by (auto simp: balance_def core_frame_def count_list_remove1 token_output_def)
    moreover have "sched_inv_but {r} sc2" using f(2) by (rule sched_inv_but_mono) simp
    ultimately show ?thesis
      using finished(7) sc2 f cfg others_same_trans [OF same f(4)] by (simp add: core_frame_def)
  qed
  then show "sched_inv_but {r} (co_scheduler co')" "out = Inr () \<Longrightarrow> sched_inv (co_scheduler co')"
    "core_frame co co'" "others_same r (co_scheduler co) (co_scheduler co')" "balance co' q = balance co q"
    by blast+
qed

text \<open>The item fits the entry the scheduler has for its request, if it still has one.\<close>

definition item_live :: "scheduler \<Rightarrow> worker_item \<Rightarrow> bool" where
  "item_live sc it \<longleftrightarrow>
     (\<forall>rs. map_of (sc_running sc) (wi_request_id it) = Some rs \<longrightarrow> item_for (sc_cache_manager sc) rs it)"

lemma item_live_others:
  assumes "sched_inv_but X sc" and "others_same r sc sc'" and "wi_request_id it \<noteq> r" and "item_live sc it"
  shows "item_live sc' it"
  unfolding item_live_def
proof (intro allI impI)
  fix rs
  assume "map_of (sc_running sc') (wi_request_id it) = Some rs"
  then have rs: "map_of (sc_running sc) (wi_request_id it) = Some rs"
    using assms(2,3) by (simp add: others_same_def)
  then have "rs_request_id rs = wi_request_id it" by (rule sched_inv_butD(11) [OF assms(1)])
  then have "item_for (sc_cache_manager sc') rs it = item_for (sc_cache_manager sc) rs it"
    using assms(2,3) by (intro item_for_cong) (simp_all add: others_same_def)
  then show "item_for (sc_cache_manager sc') rs it" using assms(4) rs by (simp add: item_live_def)
qed

lemma item_for_full:
  assumes "item_for m rs it" and "wi_should_sample it"
  shows "rs_num_computed_tokens rs + item_count it = length (all_token_ids rs)"
  using assms by (auto simp: item_for_def Let_def make_item_def)

lemma process_item_ok:
  assumes inv: "sched_inv (co_scheduler co)" and live: "item_live (co_scheduler co) it"
    and cnt: "map_of (scheduled_counts out) (wi_request_id it) = Some (item_count it)"
    and trust: "wi_request_id it \<in> set (dict_keys (wr_sampled_token_ids res)) \<Longrightarrow> wi_should_sample it"
    and run: "process_item out res it co = (o', co')"
  shows "sched_inv_but {wi_request_id it} (co_scheduler co')"
    and "o' = Inr () \<Longrightarrow> sched_inv (co_scheduler co')" and "core_frame co co'"
    and "others_same (wi_request_id it) (co_scheduler co) (co_scheduler co')"
    and "balance co' q = balance co q"
proof -
  let ?r = "wi_request_id it" and ?sc = "co_scheduler co"
  have but: "sched_inv_but {?r} ?sc" using inv by (rule sched_inv_but_mono) simp
  have goal: "sched_inv_but {?r} (co_scheduler co') \<and> (o' = Inr () \<longrightarrow> sched_inv (co_scheduler co')) \<and>
    core_frame co co' \<and> others_same ?r ?sc (co_scheduler co') \<and> balance co' q = balance co q"
  proof (cases "map_of (sc_running ?sc) ?r")
    case None
    then have "?r \<notin> set (dict_keys (sc_running ?sc))" using map_of_None_iff by metis
    with run inv but show ?thesis by (auto simp: process_item_def Let_def)
  next
    case (Some rs)
    have key: "?r \<in> set (dict_keys (sc_running ?sc))" using Some by (rule map_of_Some_in_keys)
    have it: "item_for (sc_cache_manager ?sc) rs it" using live Some by (simp add: item_live_def)
    let ?rs1 = "rs\<lparr>rs_num_computed_tokens := rs_num_computed_tokens rs + item_count it\<rparr>"
    let ?co1 = "co\<lparr>co_scheduler := set_running ?sc ?r ?rs1\<rparr>"
    note up = update_computed_ok [OF inv Some it]
    have inv1: "sched_inv (co_scheduler ?co1)" using up(2) by simp
    then have but1: "sched_inv_but {?r} (co_scheduler ?co1)" by (rule sched_inv_but_mono) simp
    have frame1: "core_frame co ?co1" by (simp add: core_frame_def set_running_def)
    have same1: "others_same ?r ?sc (co_scheduler ?co1)" by (simp add: others_same_set_running)
    have bal1: "balance ?co1 q = balance co q"
      by (simp add: balance_def active_ids_set_running [OF key])
    show ?thesis
    proof (cases "map_of (wr_sampled_token_ids res) ?r")
      case None
      then have "o' = Inr () \<and> co' = ?co1"
        using run key cnt up(1) by (simp add: process_item_def Let_def)
      then show ?thesis using inv1 but1 frame1 same1 bal1 by simp
    next
      case tok: (Some t)
      then have ac: "accept_token res ?r t ?co1 = (o', co')"
        using run key cnt up(1) by (simp add: process_item_def Let_def)
      have rs1: "map_of (sc_running (co_scheduler ?co1)) ?r = Some ?rs1"
        by (simp add: set_running_def update_conv')
      have "wi_should_sample it" using trust map_of_Some_in_keys [OF tok] by blast
      then have "rs_num_computed_tokens ?rs1 = length (all_token_ids ?rs1)"
        using item_for_full [OF it] by (simp add: all_token_ids_def)
      note A = accept_token_ok [OF inv1 rs1 this ac]
      show ?thesis
        using A bal1 core_frame_trans [OF frame1 A(3)] others_same_trans [OF same1 A(4)] by simp
    qed
  qed
  then show "sched_inv_but {?r} (co_scheduler co')" "o' = Inr () \<Longrightarrow> sched_inv (co_scheduler co')"
    "core_frame co co'" "others_same ?r (co_scheduler co) (co_scheduler co')" "balance co' q = balance co q"
    by blast+
qed


text \<open>
  The loop over the items.  Tokens are trusted to belong to items that are to be sampled.  An
  exception may leave one request in the middle of its update; the counts are right even then.
\<close>

definition trusted :: "worker_item list \<Rightarrow> worker_result \<Rightarrow> bool" where
  "trusted its res \<longleftrightarrow> wr_error res = None \<or> wr_error res = Some [] \<longrightarrow>
     set (dict_keys (wr_sampled_token_ids res)) \<subseteq> wanted its"

definition outcome_ok :: "engine_core \<Rightarrow> (exn + unit) \<times> engine_core \<Rightarrow> bool" where
  "outcome_ok co p \<longleftrightarrow>
     (case p of (o', co') \<Rightarrow> core_frame co co' \<and> (\<forall>q. balance co' q = balance co q) \<and>
        (o' = Inr () \<longrightarrow> sched_inv (co_scheduler co')))"

lemma outcome_ok_seq:
  assumes "outcome_ok co (Inr (), co1)" and "outcome_ok co1 p"
  shows "outcome_ok co p"
  using assms by (auto simp: outcome_ok_def intro: core_frame_trans)

lemma items_live_rest:
  assumes inv: "sched_inv_but X sc" and same: "others_same (wi_request_id it) sc sc'"
    and live: "\<forall>it'\<in>set its. item_live sc it'" and dist: "distinct (map wi_request_id (it # its))"
  shows "\<forall>it'\<in>set its. item_live sc' it'"
proof
  fix it'
  assume it': "it' \<in> set its"
  show "item_live sc' it'"
  proof (rule item_live_others [OF inv same])
    show "wi_request_id it' \<noteq> wi_request_id it"
      using it' dist by (metis distinct.simps(2) image_eqI list.set_map list.simps(9))
    show "item_live sc it'" using it' live by blast
  qed
qed

lemma process_items_ok:
  assumes "sched_inv (co_scheduler co)" and "\<forall>it\<in>set its. item_live (co_scheduler co) it"
    and "distinct (map wi_request_id its)"
    and "\<forall>it\<in>set its. map_of (scheduled_counts out) (wi_request_id it) = Some (item_count it)"
    and "\<forall>it\<in>set its. wi_request_id it \<in> set (dict_keys (wr_sampled_token_ids res)) \<longrightarrow> wi_should_sample it"
  shows "outcome_ok co (process_items out res its co)"
  using assms
proof (induction its arbitrary: co)
  case Nil
  then show ?case by (simp add: outcome_ok_def)
next
  case (Cons it its)
  obtain o1 co1 where p: "process_item out res it co = (o1, co1)" by fastforce
  note A = process_item_ok [OF Cons.prems(1) _ _ _ p]
  have P: "item_live (co_scheduler co) it"
    "map_of (scheduled_counts out) (wi_request_id it) = Some (item_count it)"
    "wi_request_id it \<in> set (dict_keys (wr_sampled_token_ids res)) \<Longrightarrow> wi_should_sample it"
    using Cons.prems(2,4,5) by (simp, simp, metis list.set_intros(1))
  have one: "outcome_ok co (o1, co1)" using A(2,3,5) P by (simp add: outcome_ok_def)
  show ?case
  proof (cases o1)
    case (Inl e)
    then show ?thesis using p one by simp
  next
    case (Inr u)
    then have ok: "o1 = Inr ()" by simp
    have "\<forall>it'\<in>set its. item_live (co_scheduler co1) it'"
      by (rule items_live_rest [OF Cons.prems(1) A(4) [OF P]]) (use Cons.prems(2,3) in auto)
    then have "outcome_ok co1 (process_items out res its co1)"
      using Cons.prems(3-5) A(2) [OF P ok] by (intro Cons.IH) simp_all
    then show ?thesis using outcome_ok_seq [OF one [unfolded ok]] p ok by simp
  qed
qed

text \<open>One turn of the loop that reports an error.\<close>

lemma fail_item_ok:
  assumes inv: "sched_inv (co_scheduler co)" and dist: "distinct (map wi_request_id (it # its))"
    and run: "\<forall>i\<in>set (it # its). wi_request_id i \<in> set (dict_keys (sc_running (co_scheduler co)))"
  shows "\<exists>co1. fail_items err (it # its) co = fail_items err its co1 \<and> sched_inv (co_scheduler co1) \<and>
    (\<forall>i\<in>set its. wi_request_id i \<in> set (dict_keys (sc_running (co_scheduler co1)))) \<and>
    core_frame co co1 \<and> others_same (wi_request_id it) (co_scheduler co) (co_scheduler co1) \<and>
    co_output_queue co1 = co_output_queue co @ [EvOutput (final_output (wi_request_id it) ERROR (Some err))] \<and>
    active_ids (co_scheduler co1) = remove1 (wi_request_id it) (active_ids (co_scheduler co)) \<and>
    (\<forall>q. balance co1 q = balance co q)"
proof -
  let ?r = "wi_request_id it" and ?sc = "co_scheduler co"
  from run obtain rs where rs: "map_of (sc_running ?sc) ?r = Some rs"
    by (metis list.set_intros(1) map_of_None_iff not_None_eq)
  have "sched_inv_but {?r} ?sc" using inv by (rule sched_inv_but_mono) simp
  from finish_form [OF this rs] obtain sc where
    f: "finish ?sc ?r = (Inr (Some rs), sc)" "sched_inv sc"
      "active_ids sc = remove1 ?r (active_ids ?sc)" "others_same ?r ?sc sc"
      "sc_config sc = sc_config ?sc" "sc_tokenizer sc = sc_tokenizer ?sc" .
  let ?co1 = "(emit_error co ?r err)\<lparr>co_scheduler := sc\<rparr>"
  have "wi_request_id i \<in> set (dict_keys (sc_running sc))" if "i \<in> set its" for i
  proof -
    have "wi_request_id i \<noteq> ?r"
      using that dist by (metis distinct.simps(2) image_eqI list.set_map list.simps(9))
    then have "map_of (sc_running sc) (wi_request_id i) = map_of (sc_running ?sc) (wi_request_id i)"
      using f(4) by (simp add: others_same_def)
    then show ?thesis using that run by (metis list.set_intros(2) map_of_None_iff)
  qed
  moreover have "balance ?co1 q = balance co q" for q
    using f(3) count_active_running [OF inv rs]
    by (auto simp: balance_def emit_error_def put_output_def final_output_def count_list_remove1)
  moreover have "core_frame co ?co1"
    using f(5,6) by (simp add: core_frame_def emit_error_def put_output_def)
  ultimately show ?thesis
    using f(1-4) by (intro exI [of _ ?co1]) (simp add: emit_error_def put_output_def)
qed

lemma fail_items_ok:
  assumes "sched_inv (co_scheduler co)" and "distinct (map wi_request_id its)"
    and "\<forall>it\<in>set its. wi_request_id it \<in> set (dict_keys (sc_running (co_scheduler co)))"
  shows "outcome_ok co (fail_items err its co)"
  using assms
proof (induction its arbitrary: co)
  case Nil
  then show ?case by (simp add: outcome_ok_def)
next
  case (Cons it its)
  from fail_item_ok [OF Cons.prems] obtain co1 where
    f: "fail_items err (it # its) co = fail_items err its co1" "sched_inv (co_scheduler co1)"
      "\<forall>i\<in>set its. wi_request_id i \<in> set (dict_keys (sc_running (co_scheduler co1)))"
      "core_frame co co1" "\<forall>q. balance co1 q = balance co q" by blast
  have "outcome_ok co (Inr (), co1)" using f by (simp add: outcome_ok_def)
  moreover have "outcome_ok co1 (fail_items err its co1)"
    using Cons.prems(2) f(2,3) by (intro Cons.IH) simp_all
  ultimately show ?case unfolding f(1) by (rule outcome_ok_seq)
qed

text \<open>What the loops need to know about a round's items and a trusted result.\<close>

lemma items_ok_facts:
  assumes its: "items_ok sc its" and out: "out = schedule_of its" and tr: "trusted its res"
  shows "distinct (map wi_request_id its)"
    and "\<forall>it\<in>set its. wi_request_id it \<in> set (dict_keys (sc_running sc))"
    and "\<forall>it\<in>set its. item_live sc it"
    and "\<forall>it\<in>set its. map_of (scheduled_counts out) (wi_request_id it) = Some (item_count it)"
    and "wr_error res = None \<or> wr_error res = Some [] \<Longrightarrow> \<forall>it\<in>set its.
      wi_request_id it \<in> set (dict_keys (wr_sampled_token_ids res)) \<longrightarrow> wi_should_sample it"
proof -
  show dist: "distinct (map wi_request_id its)" using its by (simp add: items_ok_def)
  show "\<forall>it\<in>set its. wi_request_id it \<in> set (dict_keys (sc_running sc))"
    using its map_of_Some_in_keys unfolding items_ok_def by metis
  show "\<forall>it\<in>set its. item_live sc it" using its by (auto simp: items_ok_def item_live_def)
  show "\<forall>it\<in>set its. map_of (scheduled_counts out) (wi_request_id it) = Some (item_count it)"
    using dist by (auto simp: out schedule_of_def comp_def intro!: map_of_is_SomeI)
  assume err: "wr_error res = None \<or> wr_error res = Some []"
  show "\<forall>it\<in>set its. wi_request_id it \<in> set (dict_keys (wr_sampled_token_ids res)) \<longrightarrow> wi_should_sample it"
  proof (intro ballI impI)
    fix it
    assume "it \<in> set its" "wi_request_id it \<in> set (dict_keys (wr_sampled_token_ids res))"
    with tr err obtain it' where "it' \<in> set its" "wi_should_sample it'"
      "wi_request_id it' = wi_request_id it" by (auto simp: trusted_def wanted_def)
    with dist \<open>it \<in> set its\<close> show "wi_should_sample it" by (metis distinct_map inj_onD)
  qed
qed

lemma process_result_ok:
  assumes inv: "sched_inv (co_scheduler co)" and its: "items_ok (co_scheduler co) its"
    and out: "out = schedule_of its" and tr: "trusted its res"
  shows "outcome_ok co (process_result out res co)"
proof -
  let ?co1 = "case wr_metrics res of None \<Rightarrow> co | Some bm \<Rightarrow> put_output co (EvMetrics bm)"
  have sc: "co_scheduler ?co1 = co_scheduler co" by (simp add: put_output_def split: option.split)
  have one: "outcome_ok co (Inr (), ?co1)" and raise: "outcome_ok co (Inl e, ?co1)" for e
    using inv by (auto simp: outcome_ok_def core_frame_def balance_def put_output_def split: option.split)
  note H = items_ok_facts [OF its out tr]
  show ?thesis
  proof (cases "map_of (by_rank out) (Some (wr_rank res))")
    case None
    then show ?thesis using raise by (simp add: process_result_def Let_def)
  next
    case (Some items)
    then have items: "items = its" by (auto simp: out schedule_of_def split: if_splits)
    have F: "outcome_ok ?co1 (fail_items err its ?co1)" for err
      by (rule fail_items_ok) (use inv H(1,2) in \<open>simp_all add: sc\<close>)
    have P: "outcome_ok ?co1 (process_items out res its ?co1)"
      if "wr_error res = None \<or> wr_error res = Some []"
      by (rule process_items_ok) (use inv H(1,3,4) H(5) [OF that] in \<open>simp_all add: sc\<close>)
    show ?thesis
      using outcome_ok_seq [OF one F] outcome_ok_seq [OF one P] Some items
      by (auto simp: process_result_def Let_def split: option.split)
  qed
qed

section \<open>Dispatching\<close>

lemma schedule_counts_active:
  assumes "mset (active_ids sc') = mset (active_ids sc)"
  shows "count_list (active_ids sc') r = count_list (active_ids sc) r"
  using assms by (metis count_mset)

lemma dispatch_schedule_ok:
  assumes inv: "sched_inv (co_scheduler co)" and qs: "co_worker_queues co = q # qs"
  obtains (idle) co' where "dispatch_schedule co = (Inr None, co')" "sched_inv (co_scheduler co')"
      "core_frame co co'" "\<And>r. balance co' r = balance co r" "co_shutdown co' = co_shutdown co"
  | (batch) its co' where "dispatch_schedule co = (Inr (Some (schedule_of its)), co')" "its \<noteq> []"
      "sched_inv (co_scheduler co')" "items_ok (co_scheduler co') its"
      "co_batch_id co' = co_batch_id co + 1"
      "co_worker_queues co' = (q @ [\<lparr>wc_batch = Some \<lparr>wb_batch_id = co_batch_id co + 1, wb_items = its\<rparr>,
         wc_shutdown = False\<rparr>]) # qs"
      "core_frame (co\<lparr>co_batch_id := co_batch_id co', co_worker_queues := co_worker_queues co'\<rparr>) co'"
      "\<And>r. balance co' r = balance co r"
proof -
  from schedule_ok [OF inv] obtain its sc where
    s: "schedule (co_scheduler co) = (Inr (schedule_of its), sc)" "sched_inv sc" "items_ok sc its"
      "sc_config sc = sc_config (co_scheduler co)" "sc_tokenizer sc = sc_tokenizer (co_scheduler co)"
      "mset (active_ids sc) = mset (active_ids (co_scheduler co))" by metis
  have bal: "balance (co\<lparr>co_scheduler := sc, co_batch_id := i, co_worker_queues := w\<rparr>) r = balance co r"
    "balance (co\<lparr>co_scheduler := sc\<rparr>) r = balance co r" for r i w
    using schedule_counts_active [OF s(6)] by (simp_all add: balance_def)
  show ?thesis
  proof (cases "its = []")
    case True
    then have "dispatch_schedule co = (Inr None, co\<lparr>co_scheduler := sc\<rparr>)"
      using s(1) by (simp add: dispatch_schedule_def schedule_of_def)
    then show ?thesis using s bal
      by (intro idle [of "co\<lparr>co_scheduler := sc\<rparr>"]) (simp_all add: core_frame_def)
  next
    case False
    let ?w = "(q @ [\<lparr>wc_batch = Some \<lparr>wb_batch_id = co_batch_id co + 1, wb_items = its\<rparr>,
         wc_shutdown = False\<rparr>]) # qs"
    let ?co = "co\<lparr>co_scheduler := sc, co_batch_id := co_batch_id co + 1, co_worker_queues := ?w\<rparr>"
    have "dispatch_schedule co = (Inr (Some (schedule_of its)), ?co)"
      using s(1) False qs by (simp add: dispatch_schedule_def schedule_of_def Let_def py_get_nonneg)
    then show ?thesis using s bal False by (intro batch [of its ?co]) (simp_all add: core_frame_def)
  qed
qed

section \<open>The invariant of the loop\<close>

definition collecting_ok :: "engine_core \<Rightarrow> schedule_out \<Rightarrow> (int, worker_result) dict \<Rightarrow> bool" where
  "collecting_ok co out results \<longleftrightarrow>
     schedule_items out \<noteq> [] \<and> out = schedule_of (schedule_items out) \<and>
     items_ok (co_scheduler co) (schedule_items out) \<and> length results \<le> 1 \<and>
     (\<forall>w\<in>set (dict_vals results). trusted (schedule_items out) w) \<and>
     (\<forall>w\<in>set (co_result_queue co). wr_batch_id w = co_batch_id co \<longrightarrow> trusted (schedule_items out) w)"

definition core_base :: "engine_core \<Rightarrow> bool" where
  "core_base co \<longleftrightarrow>
     sc_tokenizer (co_scheduler co) = co_tokenizer co \<and> sc_config (co_scheduler co) = co_config co \<and>
     co_worker_queues co \<noteq> [] \<and>
     (\<forall>c\<in>set (co_command_queue co). valid_command c) \<and>
     (\<forall>w\<in>set (co_result_queue co). wr_batch_id w \<le> co_batch_id co)"

fun core_inv :: "core_state \<Rightarrow> bool" where
  "core_inv (co, AtHead) = (core_base co \<and> sched_inv (co_scheduler co))"
| "core_inv (co, Collecting out results) =
     (core_base co \<and> sched_inv (co_scheduler co) \<and> collecting_ok co out results)"
| "core_inv (co, Stopped) = (core_base co \<and> sched_inv (co_scheduler co))"
| "core_inv (co, Failed) = core_base co"

text \<open>Add commands not read yet, final outputs, and the requests the engine still works on.\<close>

fun owed :: "core_state \<Rightarrow> string \<Rightarrow> nat" where
  "owed (co, Failed) r = add_count r (co_command_queue co) + final_count r (co_output_queue co)"
| "owed (co, ph) r = balance co r"

lemma core_base_frame: "core_base co \<Longrightarrow> core_frame co co' \<Longrightarrow> core_base co'"
  by (simp add: core_base_def core_frame_def)

lemma fold_emit_error:
  "fold (\<lambda>r c. emit_error c r m) rs co =
     co\<lparr>co_output_queue := co_output_queue co @ map (\<lambda>r. EvOutput (final_output r ERROR (Some m))) rs\<rparr>"
  by (induction rs arbitrary: co) (simp_all add: emit_error_def put_output_def)

lemma core_fail_ok:
  assumes "core_base co"
  shows "core_inv (core_fail e co)" and "owed (core_fail e co) r = balance co r"
proof -
  have "final_count r (map (\<lambda>r. EvOutput (final_output r ERROR (Some m))) rs) = count_list rs r" for m rs
    by (induction rs) (auto simp: final_output_def)
  from this [of "str_exn e" "active_ids (co_scheduler co)"]
  show "owed (core_fail e co) r = balance co r"
    unfolding core_fail_def fold_emit_error core_finally_def active_ids_def [symmetric]
    by (simp add: balance_def)
  show "core_inv (core_fail e co)"
    using assms by (simp add: core_fail_def core_finally_def fold_emit_error core_base_def)
qed

lemma core_finally_ok:
  "core_base (core_finally co) = core_base co" "balance (core_finally co) r = balance co r"
  "co_scheduler (core_finally co) = co_scheduler co"
  by (simp_all add: core_finally_def core_base_def balance_def)

lemma core_head_ok:
  assumes base: "core_base co" and inv: "sched_inv (co_scheduler co)"
  shows "core_inv (core_head co) \<and> owed (core_head co) r = balance co r"
proof (cases "co_shutdown co")
  case True
  then show ?thesis using base inv by (simp add: core_head_def core_finally_ok)
next
  case False
  have "\<forall>c\<in>set (co_command_queue co). valid_command c" using base by (simp add: core_base_def)
  from drain_commands_ok [OF inv this] obtain co1 where
    d: "drain_commands co (\<not> has_requests (co_scheduler co)) = (Inr (), co1)"
      "sched_inv (co_scheduler co1)" "core_frame (co\<lparr>co_command_queue := []\<rparr>) co1"
      "\<And>r. balance co1 r = balance co r" by blast
  have base1: "core_base co1"
    by (rule core_base_frame [OF _ d(3)]) (use base in \<open>simp add: core_base_def\<close>)
  show ?thesis
  proof (cases "co_shutdown co1")
    case True
    then show ?thesis using False d base1 by (simp add: core_head_def core_finally_ok)
  next
    case go: False
    obtain q qs where qs: "co_worker_queues co1 = q # qs"
      using base1 by (cases "co_worker_queues co1") (auto simp: core_base_def)
    from d(2) qs show ?thesis
    proof (cases rule: dispatch_schedule_ok)
      case (idle co2)
      then show ?thesis using False go d base1 core_base_frame by (simp add: core_head_def)
    next
      case (batch its co2)
      have "core_head co = (co2, Collecting (schedule_of its) [])"
        using False go d(1) batch(1) by (simp add: core_head_def)
      moreover have "core_base co2"
        using base1 batch(5-7) by (fastforce simp: core_base_def core_frame_def)
      moreover have "collecting_ok co2 (schedule_of its) []"
        using batch(2,4,5,7) base1 by (fastforce simp: collecting_ok_def core_base_def core_frame_def)
      ultimately show ?thesis using batch d(4) by simp
    qed
  qed
qed

text \<open>When the collection loop ends there is exactly one result, and it is trusted.\<close>

lemma collected_one:
  assumes col: "collecting_ok co out results" and "\<not> length results < length (by_rank out)"
  obtains k w where "results = [(k, w)]" and "trusted (schedule_items out) w"
proof -
  obtain its where "out = schedule_of its" "its \<noteq> []" using col unfolding collecting_ok_def by blast
  then have "length (by_rank out) = 1" by (simp add: schedule_of_def)
  then have "length results = 1" using assms(2) col unfolding collecting_ok_def by linarith
  then obtain k w where "results = [(k, w)]"
    by (metis One_nat_def length_0_conv length_Suc_conv surj_pair)
  moreover from this have "trusted (schedule_items out) w" using col by (simp add: collecting_ok_def)
  ultimately show ?thesis using that by blast
qed

lemma core_collect_ok:
  assumes base: "core_base co" and inv: "sched_inv (co_scheduler co)" and col: "collecting_ok co out results"
  shows "core_inv (core_collect co out results) \<and> owed (core_collect co out results) r = balance co r"
proof (cases "length results < length (by_rank out)")
  case less: True
  have len: "length (by_rank out) = 1" and "results = []"
  proof -
    obtain its where "out = schedule_of its" "its \<noteq> []" using col unfolding collecting_ok_def by blast
    then show "length (by_rank out) = 1" by (simp add: schedule_of_def)
    with less show "results = []" by simp
  qed
  show ?thesis
  proof (cases "co_result_queue co")
    case Nil
    then show ?thesis using less base inv col by (simp add: core_collect_def)
  next
    case (Cons w rest)
    let ?co1 = "co\<lparr>co_result_queue := rest\<rparr>"
    have base1: "core_base ?co1" using base Cons by (simp add: core_base_def)
    have bal: "balance ?co1 r = balance co r" by (simp add: balance_def)
    have col1: "collecting_ok ?co1 out results" using col Cons by (simp add: collecting_ok_def)
    have col2: "collecting_ok ?co1 out (AList.update (wr_rank w) w results)"
      if "wr_batch_id w = co_batch_id co"
      using that col Cons \<open>results = []\<close> by (simp add: collecting_ok_def)
    show ?thesis
      using less Cons base1 bal col1 col2 inv core_fail_ok [OF base1]
      by (simp add: core_collect_def Let_def)
  qed
next
  case False
  from collected_one [OF col False] obtain k w where
    res: "results = [(k, w)]" "trusted (schedule_items out) w" by blast
  have its: "items_ok (co_scheduler co) (schedule_items out)" "out = schedule_of (schedule_items out)"
    using col unfolding collecting_ok_def by blast+
  from process_result_ok [OF inv its res(2)] obtain o' co1 where
    p: "process_result out w co = (o', co1)" "core_frame co co1" "\<forall>q. balance co1 q = balance co q"
      "o' = Inr () \<longrightarrow> sched_inv (co_scheduler co1)"
    unfolding outcome_ok_def by (auto split: prod.splits)
  have base1: "core_base co1" by (rule core_base_frame [OF base p(2)])
  show ?thesis
    using False res(1) p base1 core_fail_ok [OF base1]
    by (cases o') (simp_all add: core_collect_def)
qed

lemma core_turn_ok:
  assumes "core_inv s"
  shows "core_inv (core_turn s)" and "owed (core_turn s) r = owed s r"
  using assms core_head_ok core_collect_ok
  by (cases s rule: core_turn.cases; simp)+

end
