(* ===== verification/EngineCore_Props.thy ===== *)
theory EngineCore_Props
  imports EngineCore_Inv
begin

text \<open>
  Runs of one engine core as interleavings of arriving commands, delivered worker results and
  turns of the loop, and what holds in all of them: every add command is answered exactly once,
  and the running requests stay within the configured bounds.
\<close>

section \<open>Runs\<close>

text \<open>
  What can happen to a core: a command arrives on its queue, the worker delivers a result, or
  the core itself takes a turn.  Runs are arbitrary interleavings of these.
\<close>

datatype core_event = Arrive engine_command | Deliver worker_result | Turn

fun core_step :: "core_event \<Rightarrow> core_state \<Rightarrow> core_state" where
  "core_step (Arrive c) (co, ph) = (co\<lparr>co_command_queue := co_command_queue co @ [c]\<rparr>, ph)"
| "core_step (Deliver w) (co, ph) = (co\<lparr>co_result_queue := co_result_queue co @ [w]\<rparr>, ph)"
| "core_step Turn s = core_turn s"

text \<open>
  The environment: add commands carry validated sampling parameters, and the worker answers
  batches that were sent, without inventing tokens for requests that are not to be sampled
  (it may fail, answer late, twice or never).
\<close>

fun core_event_ok :: "core_event \<Rightarrow> core_state \<Rightarrow> bool" where
  "core_event_ok (Arrive c) s = valid_command c"
| "core_event_ok (Deliver w) (co, ph) =
     (wr_batch_id w \<le> co_batch_id co \<and>
      (case ph of Collecting out _ \<Rightarrow> wr_batch_id w = co_batch_id co \<longrightarrow> trusted (schedule_items out) w
       | _ \<Rightarrow> True))"
| "core_event_ok Turn s = True"

lemma balance_arrive:
  "balance (co\<lparr>co_command_queue := co_command_queue co @ [c]\<rparr>) r =
     balance co r + (if is_add r c then 1 else 0)"
  by (simp add: balance_def)

lemma core_step_inv:
  assumes "core_inv s" and "core_event_ok e s"
  shows "core_inv (core_step e s)"
proof (cases e)
  case (Arrive c)
  then show ?thesis using assms
    by (cases s rule: core_inv.cases) (auto simp: core_base_def collecting_ok_def)
next
  case (Deliver w)
  then show ?thesis using assms
    by (cases s rule: core_inv.cases) (auto simp: core_base_def collecting_ok_def)
next
  case Turn
  then show ?thesis using core_turn_ok(1) [OF assms(1)] by simp
qed

interpretation core: invariant_system core_step core_event_ok core_inv
  by unfold_locales (rule core_step_inv)

fun arrived :: "core_event list \<Rightarrow> engine_command list" where
  "arrived [] = []"
| "arrived (Arrive c # es) = c # arrived es"
| "arrived (_ # es) = arrived es"

lemma owed_step:
  assumes "core_inv s"
  shows "owed (core_step e s) r = owed s r + add_count r (arrived [e])"
proof (cases e)
  case (Arrive c)
  then show ?thesis by (cases s rule: core_inv.cases) (auto simp: balance_arrive)
next
  case (Deliver w)
  then show ?thesis by (cases s rule: core_inv.cases) (auto simp: balance_def)
next
  case Turn
  then show ?thesis using core_turn_ok(2) [OF assms] by simp
qed

lemma owed_run:
  assumes "core_inv s" and "core.admissible es s"
  shows "owed (fold core_step es s) r = owed s r + add_count r (arrived es)"
  using assms
proof (induction es arbitrary: s)
  case (Cons e es)
  then have "core_inv (core_step e s)" using core.step_inv by simp
  moreover have "add_count r (arrived (e # es)) = add_count r (arrived [e]) + add_count r (arrived es)"
    by (cases e) simp_all
  ultimately show ?case using Cons owed_step [OF Cons.prems(1), of e r] by simp
qed simp

lemma engine_core_init_inv:
  assumes "engine_core_init env clock config = Inr co" and "valid_config config"
  shows "core_inv (co, AtHead)" and "owed (co, AtHead) r = 0"
proof -
  from assms(1) obtain sc tk where
    sc: "scheduler_init env config = Inr sc"
      "create_tokenizer env (model_path config) (tokenizer_path config) = Inr tk"
    and co: "co_scheduler co = sc" "co_tokenizer co = tk" "co_config co = config"
      "co_worker_queues co = replicate (nat (data_parallel_size config)) []"
      "co_command_queue co = []" "co_result_queue co = []" "co_output_queue co = []"
    unfolding engine_core_init_def by (auto split: sum.splits)
  have "sc_tokenizer sc = tk" "sc_config sc = config" "sc_waiting sc = []" "sc_running sc = []"
    using sc by (auto simp: scheduler_init_def)
  moreover have "replicate (nat (data_parallel_size config)) [] \<noteq> []"
    using assms(2) by (simp add: valid_config_def)
  ultimately show "core_inv (co, AtHead)" and "owed (co, AtHead) r = 0"
    using co scheduler_init_inv [OF assms(2) sc(1)]
    by (simp_all add: core_base_def balance_def active_ids_def)
qed

text \<open>The states of a core that starts fresh.\<close>

definition core_run :: "engine_core \<Rightarrow> core_event list \<Rightarrow> core_state" where
  "core_run co es = fold core_step es (co, AtHead)"

definition core_run_ok :: "engine_core \<Rightarrow> core_event list \<Rightarrow> bool" where
  "core_run_ok co es \<longleftrightarrow> core.admissible es (co, AtHead)"

lemma core_run_inv:
  assumes "engine_core_init env clock config = Inr co" "valid_config config" "core_run_ok co es"
  shows "core_inv (core_run co es)"
  using core.fold_inv [OF engine_core_init_inv(1) [OF assms(1,2)]] assms(3)
  by (simp add: core_run_def core_run_ok_def)

text \<open>
  C1. Every request is answered exactly once.  In every run of an engine core, whatever the
  interleaving of commands, worker results and turns: for every request id, the add commands
  received so far are exactly accounted for by the ones still unread, the final outputs already
  sent, and one more if the request is in the scheduler.  So nobody gets two final outputs for
  one add command, none is forgotten, and after a failure of the loop every request it knew has
  been told.
\<close>

theorem requests_answered_once:
  assumes "engine_core_init env clock config = Inr co0" and "valid_config config"
    and "core_run_ok co0 es" and "core_run co0 es = (co, ph)"
  shows "add_count r (arrived es) =
    add_count r (co_command_queue co) + final_count r (co_output_queue co) +
    (if ph \<noteq> Failed \<and> r \<in> set (active_ids (co_scheduler co)) then 1 else 0)"
proof -
  have inv: "core_inv (co, ph)" using core_run_inv [OF assms(1-3)] assms(4) by simp
  have "add_count r (arrived es) = owed (co, ph) r"
    using owed_run [OF engine_core_init_inv(1) [OF assms(1,2)], of es r]
      engine_core_init_inv(2) [OF assms(1,2)] assms(3,4)
    by (simp add: core_run_def core_run_ok_def)
  moreover have "count_list (active_ids (co_scheduler co)) r =
      (if r \<in> set (active_ids (co_scheduler co)) then 1 else 0)" if "ph \<noteq> Failed"
    using that inv distinct_active_ids [of "{}" "co_scheduler co"]
    by (cases ph) (simp_all add: distinct_count_list)
  ultimately show ?thesis by (cases ph) (auto simp: balance_def)
qed

text \<open>Two add commands under one id: the first is served, the second rejected.\<close>

definition add_command :: "string \<Rightarrow> int list \<Rightarrow> engine_command" where
  "add_command r ids = \<lparr>ec_type = ADD, ec_request = Some (tiny_request r ids), ec_request_id = None\<rparr>"

definition tiny_core :: engine_core where
  "tiny_core = \<lparr>co_config = tiny_config, co_command_queue = [], co_output_queue = [],
     co_scheduler = tiny_empty, co_tokenizer = character_tokenizer, co_worker_queues = [[]],
     co_result_queue = [], co_batch_id = 0, co_shutdown = False, co_clock = (\<lambda>_. 0), co_ticks = 0\<rparr>"

lemma tiny_core_init: "engine_core_init no_hf (\<lambda>_. 0) tiny_config = Inr tiny_core"
  by (simp add: engine_core_init_def tiny_init tiny_core_def)
    (simp add: create_tokenizer_def tiny_config_def default_engine_config_def)

lemma add_command_valid: "valid_command (add_command r ids)"
  by (simp add: valid_command_def add_command_def tiny_request_def default_sampling_params_def)

definition twice :: "core_event list" where
  "twice = [Arrive (add_command ''a'' [10, 11]), Arrive (add_command ''a'' [10, 11]), Turn]"

theorem requests_answered_once_witness:
  "let (co, ph) = core_run tiny_core twice in
     2 = add_count ''a'' (co_command_queue co) + final_count ''a'' (co_output_queue co) +
       (if ph \<noteq> Failed \<and> ''a'' \<in> set (active_ids (co_scheduler co)) then 1 else 0)"
proof -
  have ok: "core_run_ok tiny_core twice"
    by (simp add: core_run_ok_def twice_def add_command_valid)
  obtain co ph where run: "core_run tiny_core twice = (co, ph)" by fastforce
  have "add_count ''a'' (arrived twice) = 2" by (simp add: twice_def is_add_def add_command_def tiny_request_def)
  with requests_answered_once [OF tiny_core_init tiny_config_valid ok run, of "''a''"] run
  show ?thesis by simp
qed

text \<open>
  C17. What a running core never exceeds.  In every state of every run before the loop stops:
  at most \<open>max_num_seqs\<close> requests run; a request that is still running has generated fewer
  tokens than its \<open>max_tokens\<close> and has fewer tokens in all than the context limit; it owns
  blocks for all its computed tokens; and the blocks owned by the running requests together
  with the free ones are the configured number.
\<close>

theorem running_requests_bounded:
  assumes "engine_core_init env clock config = Inr co0" and "valid_config config"
    and "core_run_ok co0 es" and "core_run co0 es = (co, ph)" and "ph \<noteq> Failed"
  shows "let sc = co_scheduler co; m = sc_cache_manager sc in
    int (length (sc_running sc)) \<le> max_num_seqs (sc_config sc) \<and>
    kv_nfree m + (\<Sum>r\<in>set (dict_keys (sc_running sc)). length (the (kv_tbl m r))) =
      nat (num_gpu_blocks (sc_config sc)) \<and>
    (\<forall>r rs. map_of (sc_running sc) r = Some rs \<longrightarrow>
       int (length (rs_output_token_ids rs)) < sp_max_tokens (rs_sampling_params rs) \<and>
       int (length (all_token_ids rs)) < context_limit (sc_config sc) \<and>
       (\<exists>bl. kv_tbl m r = Some bl \<and>
          rs_num_computed_tokens rs \<le> length bl * nat (block_size (sc_config sc))))"
proof -
  let ?sc = "co_scheduler co"
  have "core_inv (co, ph)" using core_run_inv [OF assms(1-3)] assms(4) by simp
  then have inv: "sched_inv ?sc" using assms(5) by (cases ph) simp_all
  note D = sched_inv_butD [OF inv]
  have req: "int (length (rs_output_token_ids rs)) < sp_max_tokens (rs_sampling_params rs) \<and>
      int (length (all_token_ids rs)) < context_limit (sc_config ?sc) \<and>
      (\<exists>bl. kv_tbl (sc_cache_manager ?sc) r = Some bl \<and>
        rs_num_computed_tokens rs \<le> length bl * nat (block_size (sc_config ?sc)))"
    if "map_of (sc_running ?sc) r = Some rs" for r rs
    using D(11) [OF that] D(12) [OF that] D(3) by (auto simp: req_ok_def)
  have "kv_nfree (sc_cache_manager ?sc) +
      (\<Sum>r\<in>set (dict_keys (sc_running ?sc)). length (the (kv_tbl (sc_cache_manager ?sc) r))) =
    nat (num_gpu_blocks (sc_config ?sc))"
    using kv.conservation [OF D(2)] unfolding D(4,5) .
  with D(9) req show ?thesis unfolding Let_def by blast
qed

theorem running_requests_bounded_witness:
  "let (co, ph) = core_run tiny_core twice in
     int (length (sc_running (co_scheduler co))) \<le> 2"
proof -
  have ok: "core_run_ok tiny_core twice"
    by (simp add: core_run_ok_def twice_def add_command_valid)
  obtain co ph where run: "core_run tiny_core twice = (co, ph)" by fastforce
  have "(case core_run tiny_core twice of (co, ph) \<Rightarrow>
      (case ph of Failed \<Rightarrow> False | _ \<Rightarrow> True) \<and> max_num_seqs (sc_config (co_scheduler co)) = 2)"
    by code_simp
  then have "ph \<noteq> Failed" "max_num_seqs (sc_config (co_scheduler co)) = 2" using run by auto
  with running_requests_bounded [OF tiny_core_init tiny_config_valid ok run] run
  show ?thesis by (simp add: Let_def)
qed

text \<open>A request whose only stop value is the number 1, beside a request of somebody else.\<close>

definition int_stop_params :: sampling_params where
  "int_stop_params = default_sampling_params\<lparr>sp_stop := [PyOther ''int'' True]\<rparr>"

definition poisoned :: "core_event list" where
  "poisoned =
     [Arrive (add_command ''a'' [10, 11]),
      Arrive \<lparr>ec_type = ADD, ec_request = Some ((tiny_request ''b'' [10])\<lparr>er_sampling_params := int_stop_params\<rparr>),
        ec_request_id = None\<rparr>,
      Turn,
      Deliver \<lparr>wr_batch_id = 1, wr_rank = 0, wr_sampled_token_ids = [(''a'', 70), (''b'', 70)],
        wr_error = None, wr_metrics = None\<rparr>,
      Turn, Turn]"

end
