(* ===== verification/EngineCore_Carry.thy ===== *)
theory EngineCore_Carry
  imports EngineCore_Props
begin

text \<open>
  Carrying a property of the engine core through its runs: the locale \<open>core_property\<close> names the elementary
  changes of the scheduler and the output queue, and proves once that a property they keep holds after every
  turn, provided that no id is reused while it is in use.
\<close>

section \<open>Requests that leave\<close>

lemma removed_running:
  assumes "sched_inv_but X sc" and "active_ids sc' = remove1 r (active_ids sc)"
  shows "map_of (sc_running sc') r = None"
proof -
  have "r \<notin> set (active_ids sc')" using assms(2) distinct_active_ids [OF assms(1)] by simp
  then show ?thesis by (simp add: active_ids_def map_of_eq_None_iff)
qed

lemma abort_others:
  assumes "sched_inv sc" and "abort sc r = (res, sc')"
  shows "others_same r sc sc'" and "map_of (sc_running sc') r = None"
    and "res = Inr (r \<in> set (active_ids sc))" and "res = Inr False \<Longrightarrow> sc' = sc"
    and "sc_config sc' = sc_config sc" and "sc_tokenizer sc' = sc_tokenizer sc"
proof -
  from abort_ok [OF assms(1), of r] assms(2) have
    r: "res = Inr (r \<in> set (active_ids sc))" "sched_inv sc'" "active_ids sc' = remove1 r (active_ids sc)"
      "sc_config sc' = sc_config sc" "sc_tokenizer sc' = sc_tokenizer sc" by auto
  then show "res = Inr (r \<in> set (active_ids sc))" "sc_config sc' = sc_config sc"
    "sc_tokenizer sc' = sc_tokenizer sc" by simp_all
  show "res = Inr False \<Longrightarrow> sc' = sc"
    using assms(2) by (auto simp: abort_def split: if_splits option.splits prod.splits sum.splits)
  show "map_of (sc_running sc') r = None" by (rule removed_running [OF assms(1) r(3)])
  show "others_same r sc sc'"
  proof (cases "r \<in> set (dict_keys (sc_running sc))")
    case True
    from sched_inv_cases_run [OF assms(1) True] obtain rs where rs: "map_of (sc_running sc) r = Some rs" .
    have "sched_inv_but {r} sc" using assms(1) by (rule sched_inv_but_mono) simp
    from finish_form [OF this rs] obtain sc1 where
      "finish sc r = (Inr (Some rs), sc1)" "others_same r sc sc1" .
    with True assms(2) show ?thesis by (simp add: abort_def)
  next
    case False
    then have "sc_running sc' = sc_running sc \<and> sc_cache_manager sc' = sc_cache_manager sc \<and>
        set (sc_waiting sc') \<subseteq> set (sc_waiting sc)"
      using assms(2) notin_set_remove1 by (auto simp: abort_def split: option.splits)
    then show ?thesis by (simp add: others_same_def)
  qed
qed

text \<open>Under every id at most one add command is unread or one request is in the scheduler.\<close>

definition unique_ids :: "engine_core \<Rightarrow> bool" where
  "unique_ids co \<longleftrightarrow> (\<forall>r. balance co r \<le> final_count r (co_output_queue co) + 1)"

lemma final_count_mono: "prefix xs ys \<Longrightarrow> final_count r xs \<le> final_count r ys"
  by (auto simp: prefix_def)

lemma unique_ids_grow:
  assumes "unique_ids co" and "\<And>r. balance co' r \<le> balance co r"
    and "prefix (co_output_queue co) (co_output_queue co')"
  shows "unique_ids co'"
  unfolding unique_ids_def
proof
  fix r
  have "balance co' r \<le> balance co r" by (rule assms(2))
  also have "\<dots> \<le> final_count r (co_output_queue co) + 1" using assms(1) by (simp add: unique_ids_def)
  also have "\<dots> \<le> final_count r (co_output_queue co') + 1" using final_count_mono [OF assms(3)] by simp
  finally show "balance co' r \<le> final_count r (co_output_queue co') + 1" .
qed

lemma unread_not_active:
  assumes "unique_ids co" and "c \<in> set (co_command_queue co)" and "is_add r c"
  shows "r \<notin> set (active_ids (co_scheduler co))"
proof -
  have "filter (is_add r) (co_command_queue co) \<noteq> []" using assms(2,3) by (auto simp: filter_empty_conv)
  then have "1 \<le> add_count r (co_command_queue co)" by (simp add: Suc_le_eq)
  moreover have "balance co r \<le> final_count r (co_output_queue co) + 1"
    using assms(1) by (simp add: unique_ids_def)
  ultimately have "count_list (active_ids (co_scheduler co)) r = 0" by (simp add: balance_def)
  then show ?thesis by (simp add: count_list_0_iff)
qed

text \<open>In addition to what the core relies on: an id is not reused while it is in use.\<close>

fun fresh_event :: "core_event \<Rightarrow> core_state \<Rightarrow> bool" where
  "fresh_event (Arrive c) (co, ph) =
     (case ec_request c of None \<Rightarrow> True
      | Some q \<Rightarrow> add_count (er_request_id q) (co_command_queue co) = 0 \<and>
          er_request_id q \<notin> set (active_ids (co_scheduler co)))"
| "fresh_event _ s = True"


section \<open>Properties of the core\<close>

text \<open>
  A property \<open>I\<close> of the scheduler and the outputs that each elementary change of the core keeps: a
  command that satisfies \<open>C\<close> is handled, a round is scheduled, a chunk is counted as computed, a request
  takes a token that satisfies \<open>T\<close>, or is removed with an error.  It then holds in all runs.
\<close>

locale core_property =
  fixes I :: "engine_core \<Rightarrow> bool"
    and C :: "engine_command \<Rightarrow> bool"
    and T :: "string \<Rightarrow> int list \<Rightarrow> int \<Rightarrow> bool"
  assumes I_cong: "I co \<Longrightarrow> co_scheduler co' = co_scheduler co \<Longrightarrow> co_output_queue co' = co_output_queue co \<Longrightarrow>
      co_tokenizer co' = co_tokenizer co \<Longrightarrow> I co'"
    and I_metrics: "I co \<Longrightarrow> I (put_output co (EvMetrics bm))"
    and I_command: "I co \<Longrightarrow> sched_inv (co_scheduler co) \<Longrightarrow> valid_command c \<Longrightarrow> C c \<Longrightarrow>
      (\<And>r. is_add r c \<Longrightarrow> r \<notin> set (active_ids (co_scheduler co))) \<Longrightarrow>
      core_handle_command co c = (Inr (), co') \<Longrightarrow> I co'"
    and I_schedule: "I co \<Longrightarrow> sched_inv (co_scheduler co) \<Longrightarrow> schedule (co_scheduler co) = (Inr out, sc) \<Longrightarrow>
      I (co\<lparr>co_scheduler := sc\<rparr>)"
    and I_computed: "I co \<Longrightarrow> map_of (sc_running (co_scheduler co)) r = Some rs \<Longrightarrow>
      I (co\<lparr>co_scheduler := set_running (co_scheduler co) r (rs\<lparr>rs_num_computed_tokens := n\<rparr>)\<rparr>)"
    and I_token: "I co \<Longrightarrow> sched_inv (co_scheduler co) \<Longrightarrow> map_of (sc_running (co_scheduler co)) r = Some rs \<Longrightarrow>
      rs_num_computed_tokens rs = length (all_token_ids rs) \<Longrightarrow> T r (rs_output_token_ids rs) t \<Longrightarrow>
      accept_token res r t co = (Inr (), co') \<Longrightarrow> I co'"
    and I_removed: "I co \<Longrightarrow> core_frame co co' \<Longrightarrow> others_same r (co_scheduler co) (co_scheduler co') \<Longrightarrow>
      map_of (sc_running (co_scheduler co')) r = None \<Longrightarrow>
      active_ids (co_scheduler co') = remove1 r (active_ids (co_scheduler co)) \<Longrightarrow>
      co_output_queue co' = co_output_queue co @ [EvOutput (final_output r ERROR (Some err))] \<Longrightarrow> I co'"
begin

lemma drain_loop_keeps:
  assumes "I co" and "sched_inv (co_scheduler co)" and "\<forall>c\<in>set cs. valid_command c \<and> C c"
    and "unique_ids (co\<lparr>co_command_queue := cs\<rparr>)" and "drain_loop cs co = (Inr (), co')"
  shows "I co'"
  using assms
proof (induction cs arbitrary: co)
  case Nil
  then show ?case by (auto elim: I_cong)
next
  case (Cons c cs)
  let ?co = "co\<lparr>co_command_queue := cs\<rparr>"
  have pre: "sched_inv (co_scheduler ?co)" "valid_command c" "C c" "I ?co"
    using Cons.prems(1-3) I_cong [OF Cons.prems(1), of ?co] by simp_all
  from handle_command_ok [OF pre(1,2)] obtain co1 where
    h: "core_handle_command ?co c = (Inr (), co1)" "sched_inv (co_scheduler co1)" "core_frame ?co co1"
      "\<forall>r. balance co1 r = balance ?co r + (if is_add r c then 1 else 0)" by blast
  have "r \<notin> set (active_ids (co_scheduler ?co))" if "is_add r c" for r
    using unread_not_active [OF Cons.prems(4), of c r] that by simp
  then have "I co1" by (rule I_command [OF pre(4,1-3) _ h(1)])
  moreover have q: "co1\<lparr>co_command_queue := cs\<rparr> = co1" using h(3) by (simp add: core_frame_def)
  have "unique_ids (co1\<lparr>co_command_queue := cs\<rparr>)"
    unfolding q
  proof (rule unique_ids_grow [OF Cons.prems(4)])
    show "balance co1 r \<le> balance (co\<lparr>co_command_queue := c # cs\<rparr>) r" for r
      using h(4) by (simp add: balance_def)
  qed (use h(3) in \<open>simp add: core_frame_def\<close>)
  ultimately show ?case using Cons.prems(3,5) h(1,2) by (intro Cons.IH [of co1]) simp_all
qed

lemma dispatch_keeps:
  assumes "I co" and "sched_inv (co_scheduler co)" and "dispatch_schedule co = (Inr res, co')"
  shows "I co'"
proof -
  obtain out sc where s: "schedule (co_scheduler co) = (Inr out, sc)"
    using schedule_ok [OF assms(2)] by metis
  have "co_scheduler co' = sc" "co_output_queue co' = co_output_queue co" "co_tokenizer co' = co_tokenizer co"
    using s assms(3) by (auto simp: dispatch_schedule_def Let_def split: if_splits prod.splits sum.splits)
  then show ?thesis by (intro I_cong [OF I_schedule [OF assms(1,2) s]]) simp_all
qed

lemma process_item_keeps:
  assumes ok: "I co" and inv: "sched_inv (co_scheduler co)" and live: "item_live (co_scheduler co) it"
    and cnt: "map_of (scheduled_counts out) (wi_request_id it) = Some (item_count it)"
    and trust: "wi_request_id it \<in> set (dict_keys (wr_sampled_token_ids res)) \<Longrightarrow> wi_should_sample it"
    and tok: "\<And>rs t. map_of (sc_running (co_scheduler co)) (wi_request_id it) = Some rs \<Longrightarrow>
      map_of (wr_sampled_token_ids res) (wi_request_id it) = Some t \<Longrightarrow> T (wi_request_id it) (rs_output_token_ids rs) t"
    and run: "process_item out res it co = (Inr (), co')"
  shows "I co'"
proof (cases "map_of (sc_running (co_scheduler co)) (wi_request_id it)")
  case None
  then have "wi_request_id it \<notin> set (dict_keys (sc_running (co_scheduler co)))" using map_of_None_iff by metis
  with run ok show ?thesis by (auto simp: process_item_def Let_def)
next
  case (Some rs)
  let ?r = "wi_request_id it" and ?sc = "co_scheduler co"
  have key: "?r \<in> set (dict_keys (sc_running ?sc))" using Some by (rule map_of_Some_in_keys)
  have it: "item_for (sc_cache_manager ?sc) rs it" using live Some by (simp add: item_live_def)
  let ?rs1 = "rs\<lparr>rs_num_computed_tokens := rs_num_computed_tokens rs + item_count it\<rparr>"
  let ?co1 = "co\<lparr>co_scheduler := set_running ?sc ?r ?rs1\<rparr>"
  note up = update_computed_ok [OF inv Some it]
  have rs1: "map_of (sc_running (co_scheduler ?co1)) ?r = Some ?rs1"
    by (simp add: set_running_def update_conv')
  have ok1: "I ?co1" by (rule I_computed [OF ok Some])
  show ?thesis
  proof (cases "map_of (wr_sampled_token_ids res) ?r")
    case None
    then have "co' = ?co1" using run key cnt up(1) by (simp add: process_item_def Let_def)
    with ok1 show ?thesis by simp
  next
    case t: (Some t)
    then have ac: "accept_token res ?r t ?co1 = (Inr (), co')"
      using run key cnt up(1) by (simp add: process_item_def Let_def)
    have "wi_should_sample it" using trust map_of_Some_in_keys [OF t] by blast
    then have "rs_num_computed_tokens ?rs1 = length (all_token_ids ?rs1)"
      using item_for_full [OF it] by (simp add: all_token_ids_def)
    from I_token [OF ok1 _ rs1 this _ ac] up(2) tok [OF Some t] show ?thesis by simp
  qed
qed

text \<open>The tokens of a result are such that their requests may take them.\<close>

definition takes :: "scheduler \<Rightarrow> worker_item list \<Rightarrow> worker_result \<Rightarrow> bool" where
  "takes sc its res \<longleftrightarrow> (\<forall>it\<in>set its. \<forall>rs t. map_of (sc_running sc) (wi_request_id it) = Some rs \<longrightarrow>
     map_of (wr_sampled_token_ids res) (wi_request_id it) = Some t \<longrightarrow> T (wi_request_id it) (rs_output_token_ids rs) t)"

lemma takesD:
  "takes sc its res \<Longrightarrow> it \<in> set its \<Longrightarrow> map_of (sc_running sc) (wi_request_id it) = Some rs \<Longrightarrow>
     map_of (wr_sampled_token_ids res) (wi_request_id it) = Some t \<Longrightarrow> T (wi_request_id it) (rs_output_token_ids rs) t"
  unfolding takes_def by blast

lemma process_items_keeps:
  assumes "I co" and "sched_inv (co_scheduler co)"
    and "\<forall>it\<in>set its. item_live (co_scheduler co) it" and "distinct (map wi_request_id its)"
    and "\<forall>it\<in>set its. map_of (scheduled_counts out) (wi_request_id it) = Some (item_count it)"
    and "\<forall>it\<in>set its. wi_request_id it \<in> set (dict_keys (wr_sampled_token_ids res)) \<longrightarrow> wi_should_sample it"
    and "takes (co_scheduler co) its res"
    and "process_items out res its co = (Inr (), co')"
  shows "I co'"
  using assms
proof (induction its arbitrary: co)
  case (Cons it its)
  obtain o1 co1 where "process_item out res it co = (o1, co1)" by fastforce
  then have p: "process_item out res it co = (Inr (), co1)"
    using Cons.prems(8) by (cases o1) simp_all
  have P: "item_live (co_scheduler co) it"
    "map_of (scheduled_counts out) (wi_request_id it) = Some (item_count it)"
    "wi_request_id it \<in> set (dict_keys (wr_sampled_token_ids res)) \<Longrightarrow> wi_should_sample it"
    using Cons.prems(3,5,6) by (simp, simp, metis list.set_intros(1))
  note A = process_item_ok [OF Cons.prems(2) P p]
  have live: "\<forall>it'\<in>set its. item_live (co_scheduler co1) it'"
    by (rule items_live_rest [OF Cons.prems(2) A(4)]) (use Cons.prems(3,4) in auto)
  have one: "I co1"
    by (rule process_item_keeps [OF Cons.prems(1,2) P takesD [OF Cons.prems(7)] p]) simp_all
  have "takes (co_scheduler co1) its res"
    unfolding takes_def
  proof (intro ballI allI impI)
    fix it' rs t
    assume it': "it' \<in> set its" and rs: "map_of (sc_running (co_scheduler co1)) (wi_request_id it') = Some rs"
      and t: "map_of (wr_sampled_token_ids res) (wi_request_id it') = Some t"
    have "wi_request_id it' \<noteq> wi_request_id it" using Cons.prems(4) it' by (metis distinct.simps(2) image_eqI list.set_map list.simps(9))
    then have "map_of (sc_running (co_scheduler co)) (wi_request_id it') = Some rs"
      using rs A(4) by (simp add: others_same_def)
    then show "T (wi_request_id it') (rs_output_token_ids rs) t"
      using takesD [OF Cons.prems(7) _ _ t] it' by simp
  qed
  then show ?case using one live A(2) Cons.prems(4-8) p by (intro Cons.IH [of co1]) simp_all
qed simp

lemma fail_items_keeps:
  assumes "I co" and "sched_inv (co_scheduler co)" and "distinct (map wi_request_id its)"
    and "\<forall>it\<in>set its. wi_request_id it \<in> set (dict_keys (sc_running (co_scheduler co)))"
    and "fail_items err its co = (Inr (), co')"
  shows "I co'"
  using assms
proof (induction its arbitrary: co)
  case (Cons it its)
  from fail_item_ok [OF Cons.prems(2-4)] obtain co1 where
    f: "fail_items err (it # its) co = fail_items err its co1" "sched_inv (co_scheduler co1)"
      "\<forall>it'\<in>set its. wi_request_id it' \<in> set (dict_keys (sc_running (co_scheduler co1)))"
      "core_frame co co1" "others_same (wi_request_id it) (co_scheduler co) (co_scheduler co1)"
      "co_output_queue co1 = co_output_queue co @ [EvOutput (final_output (wi_request_id it) ERROR (Some err))]"
      "active_ids (co_scheduler co1) = remove1 (wi_request_id it) (active_ids (co_scheduler co))" by blast
  have "I co1" by (rule I_removed [OF Cons.prems(1) f(4,5) removed_running [OF Cons.prems(2) f(7)] f(7,6)])
  then show ?case using f(1-3) Cons.prems(3,5) by (intro Cons.IH [of co1]) simp_all
qed simp

lemma process_result_keeps:
  assumes ok: "I co" and inv: "sched_inv (co_scheduler co)" and its: "items_ok (co_scheduler co) its"
    and out: "out = schedule_of its" and tr: "trusted its res" and tk: "takes (co_scheduler co) its res"
    and run: "process_result out res co = (Inr (), co')"
  shows "I co'"
proof -
  let ?co1 = "case wr_metrics res of None \<Rightarrow> co | Some bm \<Rightarrow> put_output co (EvMetrics bm)"
  have sc: "co_scheduler ?co1 = co_scheduler co" by (simp add: put_output_def split: option.split)
  have ok1: "I ?co1" using ok I_metrics by (simp split: option.split)
  note H = items_ok_facts [OF its out tr]
  consider (f) err where "fail_items err its ?co1 = (Inr (), co')"
    | (p) "process_items out res its ?co1 = (Inr (), co')" "wr_error res = None \<or> wr_error res = Some []"
    using run unfolding process_result_def Let_def
    by (auto simp: out schedule_of_def split: option.splits if_splits)
  then show ?thesis
  proof cases
    case f
    then show ?thesis using fail_items_keeps [OF ok1, of its] H(1,2) inv by (simp add: sc)
  next
    case p
    then show ?thesis using process_items_keeps [OF ok1 _ _ H(1,4), of res co'] H(3,5) inv tk by (simp add: sc)
  qed
qed

section \<open>Turns\<close>

lemma core_head_keeps:
  assumes base: "core_base co" and inv: "sched_inv (co_scheduler co)" and ok: "I co"
    and uni: "unique_ids co" and cs: "\<forall>c\<in>set (co_command_queue co). C c"
    and run: "core_head co = (co', ph)" and ph: "ph \<noteq> Failed"
  shows "I co' \<and> prefix (co_output_queue co) (co_output_queue co') \<and> (\<forall>c\<in>set (co_command_queue co'). C c)"
proof (cases "co_shutdown co")
  case True
  then show ?thesis using run I_cong [OF ok, of co'] cs by (auto simp: core_head_def core_finally_def)
next
  case False
  have valid: "\<forall>c\<in>set (co_command_queue co). valid_command c" using base by (simp add: core_base_def)
  from drain_commands_ok [OF inv valid] obtain co1 where
    d: "drain_commands co (\<not> has_requests (co_scheduler co)) = (Inr (), co1)"
      "sched_inv (co_scheduler co1)" "core_frame (co\<lparr>co_command_queue := []\<rparr>) co1" by blast
  have ok1: "I co1"
    using drain_loop_keeps [OF ok inv, of "co_command_queue co" co1] valid cs uni d(1) drain_commands_eq [OF inv valid] by simp
  have pre: "prefix (co_output_queue co) (co_output_queue co1)" "co_command_queue co1 = []"
    using d(3) by (simp_all add: core_frame_def)
  show ?thesis
  proof (cases "co_shutdown co1")
    case True
    then show ?thesis using run False d(1) I_cong [OF ok1, of co'] pre
      by (auto simp: core_head_def core_finally_def)
  next
    case go: False
    obtain q qs where qs: "co_worker_queues co1 = q # qs"
      using base d(3) by (cases "co_worker_queues co1") (auto simp: core_base_def core_frame_def)
    from d(2) qs show ?thesis
    proof (cases rule: dispatch_schedule_ok)
      case (idle co2)
      then show ?thesis
        using dispatch_keeps [OF ok1 d(2) idle(1)] run False go d(1) pre
        by (auto simp: core_head_def core_frame_def)
    next
      case (batch its co2)
      then show ?thesis
        using dispatch_keeps [OF ok1 d(2) batch(1)] run False go d(1) pre
        by (auto simp: core_head_def core_frame_def)
    qed
  qed
qed

lemma core_collect_keeps:
  assumes inv: "sched_inv (co_scheduler co)" and ok: "I co" and col: "collecting_ok co out results"
    and tk: "\<forall>w\<in>set (dict_vals results). takes (co_scheduler co) (schedule_items out) w"
    and run: "core_collect co out results = (co', ph)" and ph: "ph \<noteq> Failed"
  shows "I co' \<and> prefix (co_output_queue co) (co_output_queue co') \<and> co_command_queue co' = co_command_queue co"
proof (cases "length results < length (by_rank out)")
  case True
  then have "co_output_queue co' = co_output_queue co \<and> co_scheduler co' = co_scheduler co \<and>
      co_tokenizer co' = co_tokenizer co \<and> co_command_queue co' = co_command_queue co"
    using run ph by (auto simp: core_collect_def core_fail_def Let_def split: list.splits if_splits)
  then show ?thesis using I_cong [OF ok, of co'] by simp
next
  case False
  from collected_one [OF col False] obtain k w where
    res: "results = [(k, w)]" "trusted (schedule_items out) w" by blast
  have its: "items_ok (co_scheduler co) (schedule_items out)" "out = schedule_of (schedule_items out)"
    using col unfolding collecting_ok_def by blast+
  obtain o' co1 where p: "process_result out w co = (o', co1)" by fastforce
  have o': "o' = Inr () \<and> co' = co1"
    using run ph False res(1) p by (cases o') (auto simp: core_collect_def core_fail_def)
  have "outcome_ok co (o', co1)" using process_result_ok [OF inv its res(2)] p by simp
  then show ?thesis
    using o' p process_result_keeps [OF ok inv its res(2), of co1] tk res(1)
    by (simp add: outcome_ok_def core_frame_def)
qed

definition holds_in :: "core_state \<Rightarrow> bool" where
  "holds_in s \<longleftrightarrow> core_inv s \<and>
     (snd s \<noteq> Failed \<longrightarrow> I (fst s) \<and> unique_ids (fst s) \<and> (\<forall>c\<in>set (co_command_queue (fst s)). C c))"

lemma turn_keeps:
  assumes hold: "holds_in (co, ph)"
    and tk: "\<And>out results w. ph = Collecting out results \<Longrightarrow> w \<in> set (dict_vals results) \<Longrightarrow>
      takes (co_scheduler co) (schedule_items out) w"
  shows "holds_in (core_turn (co, ph))"
proof -
  have inv: "core_inv (co, ph)" using hold by (simp add: holds_in_def)
  obtain co' ph' where t: "core_turn (co, ph) = (co', ph')" by fastforce
  have inv': "core_inv (co', ph')" using core_turn_ok(1) [OF inv] t by simp
  have "I co' \<and> unique_ids co' \<and> (\<forall>c\<in>set (co_command_queue co'). C c)" if ph': "ph' \<noteq> Failed"
  proof -
    have ph: "ph \<noteq> Failed" using t ph' by auto
    then have ok: "I co" "unique_ids co" "\<forall>c\<in>set (co_command_queue co). C c" using hold by (simp_all add: holds_in_def)
    have "I co' \<and> prefix (co_output_queue co) (co_output_queue co') \<and> (\<forall>c\<in>set (co_command_queue co'). C c)"
      using core_head_keeps [OF _ _ ok, of co' ph'] core_collect_keeps [OF _ ok(1), of _ _ co' ph'] tk inv t ph ph' ok
      by (cases ph) auto
    moreover have "balance co' r = balance co r" for r
      using core_turn_ok(2) [OF inv, of r] t ph ph' by (cases ph; cases ph') simp_all
    ultimately show ?thesis using unique_ids_grow [OF ok(2), of co'] by simp
  qed
  then show ?thesis using inv' t by (simp add: holds_in_def)
qed

lemma turn_grows:
  assumes hold: "holds_in (co, ph)"
    and tk: "\<And>out results w. ph = Collecting out results \<Longrightarrow> w \<in> set (dict_vals results) \<Longrightarrow>
      takes (co_scheduler co) (schedule_items out) w"
    and run: "core_turn (co, ph) = (co', ph')" "ph' \<noteq> Failed"
  shows "prefix (co_output_queue co) (co_output_queue co')"
proof -
  have ph: "ph \<noteq> Failed" using run by auto
  then have ok: "I co" "unique_ids co" "\<forall>c\<in>set (co_command_queue co). C c" and inv: "core_inv (co, ph)"
    using hold by (simp_all add: holds_in_def)
  show ?thesis
    using core_head_keeps [OF _ _ ok, of co' ph'] core_collect_keeps [OF _ ok(1), of _ _ co' ph'] tk inv run
    by (cases ph) auto
qed

lemma arrive_keeps:
  assumes hold: "holds_in s" and c: "valid_command c" "C c" and fresh: "fresh_event (Arrive c) s"
  shows "holds_in (core_step (Arrive c) s)"
proof -
  obtain co ph where s: "s = (co, ph)" by (cases s)
  let ?co = "co\<lparr>co_command_queue := co_command_queue co @ [c]\<rparr>"
  have "balance ?co r \<le> final_count r (co_output_queue co) + 1" if "unique_ids co" for r
  proof (cases "is_add r c")
    case True
    then obtain q where "ec_request c = Some q" "er_request_id q = r"
      by (auto simp: is_add_def split: option.splits)
    then have "balance co r = final_count r (co_output_queue co)"
      using fresh s by (simp add: balance_def count_list_0_iff)
    then show ?thesis by (simp add: balance_arrive)
  next
    case False
    then show ?thesis using that by (simp add: balance_arrive unique_ids_def)
  qed
  moreover have "core_inv (core_step (Arrive c) s)"
    by (rule core_step_inv) (use hold c in \<open>simp_all add: holds_in_def\<close>)
  ultimately show ?thesis
    using hold s c(2) I_cong [of co ?co] by (auto simp: holds_in_def unique_ids_def)
qed

text \<open>What the worker does to its queues is no concern of the property.\<close>

lemma queues_keep:
  assumes "holds_in (co, ph)" and "core_inv (co', ph)" and "co_scheduler co' = co_scheduler co"
    and "co_output_queue co' = co_output_queue co" and "co_tokenizer co' = co_tokenizer co"
    and "co_command_queue co' = co_command_queue co"
  shows "holds_in (co', ph)"
  using assms I_cong [of co co'] by (auto simp: holds_in_def unique_ids_def balance_def)

lemma deliver_keeps:
  assumes hold: "holds_in s" and ok: "core_event_ok (Deliver w) s"
  shows "holds_in (core_step (Deliver w) s)"
proof -
  obtain co ph where s: "s = (co, ph)" by (cases s)
  have "core_inv (core_step (Deliver w) s)" by (rule core_step_inv) (use hold ok in \<open>simp_all add: holds_in_def\<close>)
  then show ?thesis using queues_keep [of co ph "co\<lparr>co_result_queue := co_result_queue co @ [w]\<rparr>"] hold s by simp
qed

lemma init_holds:
  assumes "core_inv (co, AtHead)" and "\<And>r. balance co r = 0" and "I co" and "co_command_queue co = []"
  shows "holds_in (co, AtHead)"
  using assms by (simp add: holds_in_def unique_ids_def)

end

end
