(* ===== verification/EngineCore_Stream.thy ===== *)
theory EngineCore_Stream
  imports EngineCore_Carry
begin

text \<open>
  The streams an engine core sends (\<open>_execute_schedule\<close> in \<open>minivllm/engine/core.py\<close>): in every
  run that reuses no id while it is in use, the outputs sent under an id since its last final
  output carry exactly the tokens the scheduler has generated, and their texts concatenate to the
  decoded output.  The contract \<open>ct\<close> of the character tokenizer carries the text part.
\<close>

section \<open>The open stream of a request\<close>

text \<open>The outputs sent under an id since the last final one.\<close>

fun extend_stream :: "string \<Rightarrow> out_event \<Rightarrow> request_output list \<Rightarrow> request_output list" where
  "extend_stream r (EvOutput ro) acc =
     (if ro_request_id ro \<noteq> r then acc else if ro_finished ro then [] else acc @ [ro])"
| "extend_stream r (EvMetrics bm) acc = acc"

definition open_stream :: "string \<Rightarrow> out_event list \<Rightarrow> request_output list" where
  "open_stream r evs = fold (extend_stream r) evs []"

definition stream_tokens :: "string \<Rightarrow> out_event list \<Rightarrow> int list" where
  "stream_tokens r evs = concat (map ro_token_ids (open_stream r evs))"

definition stream_text :: "string \<Rightarrow> out_event list \<Rightarrow> pystr" where
  "stream_text r evs = concat (map ro_text (open_stream r evs))"

lemma open_stream_snoc: "open_stream r (evs @ [ev]) = extend_stream r ev (open_stream r evs)"
  by (simp add: open_stream_def)

lemmas stream_defs = stream_tokens_def stream_text_def open_stream_snoc

lemma stream_other:
  "ro_request_id ro \<noteq> r \<Longrightarrow> stream_tokens r (evs @ [EvOutput ro]) = stream_tokens r evs"
  "ro_request_id ro \<noteq> r \<Longrightarrow> stream_text r (evs @ [EvOutput ro]) = stream_text r evs"
  "stream_tokens r (evs @ [EvMetrics bm]) = stream_tokens r evs"
  "stream_text r (evs @ [EvMetrics bm]) = stream_text r evs"
  by (simp_all add: stream_defs)

lemma stream_final:
  "ro_request_id ro = r \<Longrightarrow> ro_finished ro \<Longrightarrow> stream_tokens r (evs @ [EvOutput ro]) = []"
  "ro_request_id ro = r \<Longrightarrow> ro_finished ro \<Longrightarrow> stream_text r (evs @ [EvOutput ro]) = []"
  by (simp_all add: stream_defs)

lemma stream_more:
  "ro_request_id ro = r \<Longrightarrow> \<not> ro_finished ro \<Longrightarrow>
     stream_tokens r (evs @ [EvOutput ro]) = stream_tokens r evs @ ro_token_ids ro"
  "ro_request_id ro = r \<Longrightarrow> \<not> ro_finished ro \<Longrightarrow>
     stream_text r (evs @ [EvOutput ro]) = stream_text r evs @ ro_text ro"
  by (simp_all add: stream_defs)

text \<open>What the scheduler has generated for an id that is running; nothing for any other.\<close>

definition generated :: "scheduler \<Rightarrow> string \<Rightarrow> int list" where
  "generated sc r =
     (case map_of (sc_running sc) r of None \<Rightarrow> [] | Some rs \<Rightarrow> rs_output_token_ids rs)"

definition stream_ok_at :: "engine_core \<Rightarrow> string \<Rightarrow> bool" where
  "stream_ok_at co r \<longleftrightarrow>
     stream_tokens r (co_output_queue co) = generated (co_scheduler co) r \<and>
     char_decode (generated (co_scheduler co) r) = Inr (stream_text r (co_output_queue co))"

definition stream_ok :: "engine_core \<Rightarrow> bool" where
  "stream_ok co \<longleftrightarrow> co_tokenizer co = character_tokenizer \<and>
     sc_tokenizer (co_scheduler co) = character_tokenizer \<and> (\<forall>r. stream_ok_at co r)"

lemma stream_ok_at_cong:
  assumes "stream_ok_at co r" and "generated (co_scheduler co') r = generated (co_scheduler co) r"
    and "stream_tokens r (co_output_queue co') = stream_tokens r (co_output_queue co)"
    and "stream_text r (co_output_queue co') = stream_text r (co_output_queue co)"
  shows "stream_ok_at co' r"
  using assms by (simp add: stream_ok_at_def)

lemma generated_others: "others_same r sc sc' \<Longrightarrow> q \<noteq> r \<Longrightarrow> generated sc' q = generated sc q"
  by (simp add: generated_def others_same_def)

text \<open>Sending one more output for \<open>r\<close> and changing only \<open>r\<close> in the scheduler.\<close>

lemma stream_ok_output:
  assumes "stream_ok co" and "core_frame co co'" and "others_same r (co_scheduler co) (co_scheduler co')"
    and "co_output_queue co' = co_output_queue co @ [EvOutput ro]" and "ro_request_id ro = r"
    and "stream_ok_at co' r"
  shows "stream_ok co'"
proof -
  have "stream_ok_at co' q" for q
  proof (cases "q = r")
    case False
    have ok: "stream_ok_at co q" using assms(1) by (simp add: stream_ok_def)
    from False assms(5) have "ro_request_id ro \<noteq> q" by simp
    from stream_ok_at_cong [OF ok generated_others [OF assms(3) False]] stream_other(1,2) [OF this]
    show ?thesis by (simp only: assms(4))
  qed (simp add: assms(6))
  then show ?thesis using assms(1,2) by (simp add: stream_ok_def core_frame_def)
qed

lemma stream_ok_final:
  assumes "stream_ok co" and "core_frame co co'" and "others_same r (co_scheduler co) (co_scheduler co')"
    and "co_output_queue co' = co_output_queue co @ [EvOutput ro]" and "ro_request_id ro = r"
    and "ro_finished ro" and "map_of (sc_running (co_scheduler co')) r = None"
  shows "stream_ok co'"
  using assms(1-5)
  by (rule stream_ok_output)
    (use assms(4-7) in \<open>simp add: stream_ok_at_def stream_final generated_def\<close>)

section \<open>The operations keep the streams\<close>

lemma handle_add_stream:
  assumes "stream_ok co" and "ec_type c = ADD" and q: "ec_request c = Some q"
    and new: "er_request_id q \<notin> set (active_ids (co_scheduler co))"
    and run: "core_handle_command co c = (Inr (), co')"
  shows "stream_ok co'"
proof -
  obtain res sc where a: "add_request (co_scheduler co) q (now co) = (res, sc)" by fastforce
  have sc: "sc_running sc = sc_running (co_scheduler co)" "sc_tokenizer sc = sc_tokenizer (co_scheduler co)"
    using a by (auto simp: add_request_def split: if_splits)
  show ?thesis
  proof (cases res)
    case (Inl e)
    then have sc': "sc = co_scheduler co" using add_request_active [OF a] by simp
    have co': "co' = emit_error co (er_request_id q) (str_exn e)"
      using run assms(2) q a Inl sc' by (simp add: core_handle_command_def)
    have "map_of (sc_running (co_scheduler co)) (er_request_id q) = None"
      using new by (simp add: active_ids_def map_of_eq_None_iff)
    then show ?thesis unfolding co'
      by (intro stream_ok_final [OF assms(1)])
        (auto simp: emit_error_def put_output_def core_frame_def final_output_def)
  next
    case (Inr u)
    then have "co' = tick (co\<lparr>co_scheduler := sc\<rparr>)"
      using run assms(2) q a by (simp add: core_handle_command_def)
    then show ?thesis using assms(1) sc
      by (simp add: stream_ok_def tick_def stream_ok_at_def generated_def)
  qed
qed

lemma handle_command_stream:
  assumes ok: "stream_ok co" and inv: "sched_inv (co_scheduler co)"
    and new: "\<And>r. is_add r c \<Longrightarrow> r \<notin> set (active_ids (co_scheduler co))"
    and run: "core_handle_command co c = (Inr (), co')"
  shows "stream_ok co'"
proof (cases "ec_type c")
  case ADD
  then show ?thesis
    using handle_add_stream [OF ok ADD _ _ run] new run ok
    by (cases "ec_request c") (auto simp: core_handle_command_def is_add_def)
next
  case SHUTDOWN
  then show ?thesis using run ok
    by (auto simp: core_handle_command_def stream_ok_def stream_ok_at_def)
next
  case ABORT_CMD
  show ?thesis
  proof (cases "ec_request_id c")
    case None
    then show ?thesis using ABORT_CMD run ok by (simp add: core_handle_command_def)
  next
    case (Some r)
    obtain res sc where a: "abort (co_scheduler co) r = (res, sc)" by fastforce
    note A = abort_others [OF inv a]
    show ?thesis
    proof (cases "r \<in> set (active_ids (co_scheduler co))")
      case True
      then have "co' = put_output (co\<lparr>co_scheduler := sc\<rparr>) (EvOutput (final_output r ABORT None))"
        using ABORT_CMD Some a A(3) run by (simp add: core_handle_command_def)
      then show ?thesis using A(1,2,5,6)
        by (intro stream_ok_final [OF ok]) (auto simp: put_output_def core_frame_def final_output_def)
    next
      case False
      then have "co' = co" using ABORT_CMD Some a A(3,4) run by (simp add: core_handle_command_def)
      then show ?thesis using ok by simp
    qed
  qed
qed

text \<open>Admission brings in requests that have generated nothing.\<close>

lemma schedule_generated:
  assumes inv: "sched_inv sc" and run: "schedule sc = (Inr out, sc')"
  shows "generated sc' r = generated sc r"
proof -
  obtain new where "sc_running sc' = sc_running sc @ new"
    using schedule_ok [OF inv] run by (metis Pair_inject)
  then show ?thesis
    using schedule_new [OF inv run, of r]
    by (cases "map_of (sc_running sc') r"; cases "map_of (sc_running sc) r") (auto simp: generated_def map_add_def)
qed

lemma append_token_generated:
  assumes "append_token sc r t tm = (Inr None, sc')" and "map_of (sc_running sc) r = Some rs"
  shows "t \<noteq> eos_token_id (sc_tokenizer sc)" and "generated sc' r = generated sc r @ [t]"
  using assms
  by (auto simp: append_token_def Let_def generated_def set_running_def update_conv' stamp_token_def
      split: if_splits sum.splits)

lemma output_text_generated:
  "sc_tokenizer sc = character_tokenizer \<Longrightarrow> output_text sc r = Inr tx \<Longrightarrow>
     char_decode (generated sc r) = Inr tx"
  by (auto simp: output_text_def generated_def character_tokenizer_def split: option.splits)

text \<open>The text sent with a token is exactly what the token adds.\<close>

lemma streamed_text_char:
  assumes "char_decode xs = Inr prev" and "char_decode (xs @ [t]) = Inr cur"
    and "streamed_text tk t prev cur = Inr tx"
  shows "cur = prev @ tx"
  using assms ct.decode_grows [OF assms(1,2)] startswith_drop by (fastforce simp: streamed_text_def)

lemma accept_token_stream:
  assumes ok: "stream_ok co" and inv: "sched_inv (co_scheduler co)"
    and rs: "map_of (sc_running (co_scheduler co)) r = Some rs"
    and full: "rs_num_computed_tokens rs = length (all_token_ids rs)"
    and run: "accept_token res r t co = (Inr (), co')"
  shows "stream_ok co'"
proof -
  let ?sc = "co_scheduler co"
  obtain ares sc1 where ap: "append_token ?sc r t (now co) = (ares, sc1)" by fastforce
  note A = accept_token_ok [OF inv rs full run]
  have tk: "co_tokenizer co = character_tokenizer" "sc_tokenizer ?sc = character_tokenizer"
    using ok by (simp_all add: stream_ok_def)
  from append_token_form [OF ap rs] obtain rs' where sc1: "sc1 = set_running ?sc r rs'" .
  have tk1: "sc_tokenizer sc1 = character_tokenizer" using tk(2) by (simp add: sc1 set_running_def)
  from run ap show ?thesis
  proof (cases rule: accept_token_cases)
    case (streamed ro)
    note gen = append_token_generated [OF ap [unfolded streamed(2)] rs]
    from streamed(5) obtain prev cur where
      o1: "output_text ?sc r = Inr prev" "output_text sc1 r = Inr cur"
        "streamed_text (co_tokenizer co) t prev cur = Inr (ro_text ro)"
        "ro_request_id ro = r" "ro_token_ids ro = [t]"
      using gen(1) tk by (auto simp: token_output_def)
    have at: "stream_tokens r (co_output_queue co) = generated ?sc r"
      "char_decode (generated ?sc r) = Inr (stream_text r (co_output_queue co))"
      using ok by (simp_all add: stream_ok_def stream_ok_at_def)
    have dec: "char_decode (generated ?sc r) = Inr prev" "char_decode (generated ?sc r @ [t]) = Inr cur"
      using output_text_generated [OF tk(2) o1(1)] output_text_generated [OF tk1 o1(2)] gen(2) by simp_all
    have "stream_ok_at co' r"
      using at dec streamed_text_char [OF dec o1(3)] streamed(3,4,6) o1(4,5) gen(2)
      by (simp add: stream_ok_at_def stream_more)
    with o1(4) show ?thesis by (rule stream_ok_output [OF ok A(3,4) streamed(4)])
  next
    case (finished ro reason fres)
    have "ro_request_id ro = r" using finished(5) by (simp add: token_output_def)
    moreover have "map_of (sc_running (co_scheduler co')) r = None"
    proof -
      have "map_of (sc_running sc1) r = Some rs'" by (simp add: sc1 set_running_def update_conv')
      from finish_form [OF append_token_inv(1) [OF inv rs full ap] this] finished(2)
      show ?thesis using removed_running [OF append_token_inv(1) [OF inv rs full ap]] by (metis Pair_inject)
    qed
    ultimately show ?thesis by (rule stream_ok_final [OF ok A(3,4) finished(4) _ finished(6)])
  qed simp
qed

section \<open>Streams of runs\<close>

lemma generated_computed:
  "map_of (sc_running sc) r = Some rs \<Longrightarrow>
     generated (set_running sc r (rs\<lparr>rs_num_computed_tokens := n\<rparr>)) q = generated sc q"
  by (simp add: generated_def set_running_def update_conv')

interpretation sent: core_property stream_ok "\<lambda>_. True" "\<lambda>_ _ _. True"
proof
  fix co out sc
  assume ok: "stream_ok co" and inv: "sched_inv (co_scheduler co)" and run: "schedule (co_scheduler co) = (Inr out, sc)"
  have "sc_tokenizer sc = sc_tokenizer (co_scheduler co)" using schedule_ok [OF inv] run by (metis Pair_inject)
  then show "stream_ok (co\<lparr>co_scheduler := sc\<rparr>)"
    using ok schedule_generated [OF inv run] by (simp add: stream_ok_def stream_ok_at_def)
next
  fix co r rs n
  assume ok: "stream_ok co" and rs: "map_of (sc_running (co_scheduler co)) r = Some rs"
  show "stream_ok (co\<lparr>co_scheduler := set_running (co_scheduler co) r (rs\<lparr>rs_num_computed_tokens := n\<rparr>)\<rparr>)"
    using ok generated_computed [OF rs] by (simp add: stream_ok_def stream_ok_at_def) (simp add: set_running_def)
next
  fix co r rs t res co'
  assume "stream_ok co" "sched_inv (co_scheduler co)" "map_of (sc_running (co_scheduler co)) r = Some rs"
    "rs_num_computed_tokens rs = length (all_token_ids rs)" "accept_token res r t co = (Inr (), co')"
  then show "stream_ok co'" by (rule accept_token_stream)
next
  fix co co' r err
  assume "stream_ok co" "core_frame co co'" "others_same r (co_scheduler co) (co_scheduler co')"
    and none: "map_of (sc_running (co_scheduler co')) r = None"
    and "co_output_queue co' = co_output_queue co @ [EvOutput (final_output r ERROR (Some err))]"
  from stream_ok_final [OF this(1-3,5) _ _ none] show "stream_ok co'" by (simp add: final_output_def)
next
  fix co c co'
  assume "stream_ok co" "sched_inv (co_scheduler co)" "\<And>r. is_add r c \<Longrightarrow> r \<notin> set (active_ids (co_scheduler co))"
    "core_handle_command co c = (Inr (), co')"
  then show "stream_ok co'" by (rule handle_command_stream)
qed (simp_all add: stream_ok_def stream_ok_at_def put_output_def stream_other)

abbreviation stream_inv :: "core_state \<Rightarrow> bool" where
  "stream_inv \<equiv> sent.holds_in"

lemma stream_inv_step:
  assumes inv: "stream_inv s" and ok: "core_event_ok e s" and fresh: "fresh_event e s"
  shows "stream_inv (core_step e s)"
proof (cases e)
  case Turn
  then show ?thesis using sent.turn_keeps [of "fst s" "snd s"] inv by (simp add: sent.takes_def)
next
  case (Deliver w)
  then show ?thesis using sent.deliver_keeps [OF inv] ok by simp
next
  case (Arrive c)
  then show ?thesis using sent.arrive_keeps [OF inv] ok fresh by simp
qed

interpretation streams: invariant_system core_step "\<lambda>e s. core_event_ok e s \<and> fresh_event e s" stream_inv
  by unfold_locales (blast intro: stream_inv_step)

definition stream_run_ok :: "engine_core \<Rightarrow> core_event list \<Rightarrow> bool" where
  "stream_run_ok co es \<longleftrightarrow> streams.admissible es (co, AtHead)"

lemma engine_core_init_stream:
  assumes "engine_core_init env clock config = Inr co" and "valid_config config"
    and "co_tokenizer co = character_tokenizer"
  shows "stream_inv (co, AtHead)"
proof -
  have inv: "core_inv (co, AtHead)" "\<And>r. balance co r = 0"
    using engine_core_init_inv [OF assms(1,2)] by simp_all
  have "sc_running (co_scheduler co) = []" "co_output_queue co = []"
    using assms(1) by (auto simp: engine_core_init_def scheduler_init_def split: sum.splits)
  then have "stream_ok co"
    using inv(1) assms(3)
    by (simp add: stream_ok_def stream_ok_at_def generated_def stream_tokens_def stream_text_def
        open_stream_def core_base_def)
  moreover have "co_command_queue co = []"
    using assms(1) by (auto simp: engine_core_init_def split: sum.splits)
  ultimately show ?thesis using sent.init_holds [OF inv] by simp
qed

text \<open>
  C11. What a client has received is what was generated.  With the character tokenizer and ids that
  are not reused while in use, in every state of every run of an engine core that has not failed:
  for every request id, the token ids of the outputs sent since its last final output are exactly
  the tokens the scheduler has generated for it so far (none when it is not running), and the
  texts of these outputs, concatenated, are the decoding of all those tokens.
\<close>

theorem stream_faithful:
  assumes "engine_core_init env clock config = Inr co0" and "valid_config config"
    and "co_tokenizer co0 = character_tokenizer" and "stream_run_ok co0 es"
    and "core_run co0 es = (co, ph)" and "ph \<noteq> Failed"
  shows "stream_tokens r (co_output_queue co) = generated (co_scheduler co) r \<and>
    char_decode (generated (co_scheduler co) r) = Inr (stream_text r (co_output_queue co))"
proof -
  have "stream_inv (core_run co0 es)"
    using streams.fold_inv [OF engine_core_init_stream [OF assms(1-3)]] assms(4)
    by (simp add: core_run_def stream_run_ok_def)
  with assms(5,6) show ?thesis by (simp add: sent.holds_in_def stream_ok_def stream_ok_at_def)
qed

text \<open>A request whose prompt is computed in one round and that then receives its first token.\<close>

definition one_token :: "core_event list" where
  "one_token = [Arrive (add_command ''a'' [10, 11]), Turn,
     Deliver \<lparr>wr_batch_id = 1, wr_rank = 0, wr_sampled_token_ids = [(''a'', 107)],
       wr_error = None, wr_metrics = None\<rparr>, Turn, Turn]"

theorem stream_faithful_witness:
  "case core_run tiny_core one_token of (co, ph) \<Rightarrow>
     stream_tokens ''a'' (co_output_queue co) = [107] \<and> stream_text ''a'' (co_output_queue co) = [104] \<and>
     generated (co_scheduler co) ''a'' = [107]"
proof -
  have a: "(case core_run tiny_core [Arrive (add_command ''a'' [10, 11]), Turn] of (co, ph) \<Rightarrow>
      co_batch_id co = 1 \<and> (case ph of Collecting out _ \<Rightarrow> ''a'' \<in> wanted (schedule_items out) | _ \<Rightarrow> False))"
    by code_simp
  have b: "(case core_run tiny_core one_token of (co, ph) \<Rightarrow>
      (case ph of Failed \<Rightarrow> False | _ \<Rightarrow> True) \<and> generated (co_scheduler co) ''a'' = [107] \<and>
      char_decode [107] = Inr [104])"
    by code_simp
  have ok: "stream_run_ok tiny_core one_token"
    using a add_command_valid [of "''a''" "[10, 11]"]
    unfolding stream_run_ok_def one_token_def core_run_def
    by (auto simp: trusted_def add_command_def tiny_core_def tiny_empty_def active_ids_def
        split: prod.splits core_phase.splits simp del: core_turn.simps)
  obtain co ph where run: "core_run tiny_core one_token = (co, ph)" by fastforce
  have "ph \<noteq> Failed" using b run by auto
  with stream_faithful [OF tiny_core_init tiny_config_valid _ ok run, of "''a''"] b run
  show ?thesis by (simp add: tiny_core_def)
qed

end
