(* ===== verification/Rounds.thy ===== *)
theory Rounds
  imports Scheduler_Props Worker
begin

text \<open>
  A scheduling round on its way through the worker: the items \<open>schedule\<close> produces are always
  accepted by \<open>from_worker_batch\<close>; the slots the worker writes and the context slots its
  attention reads are those of the requests' block tables; and executing the round keeps the
  cache coherent, so that attention finds every key and value it asks for.
\<close>

section \<open>The items of a round, seen by the worker\<close>

lemma required_blocks_nat:
  assumes "0 < b" and "wi_seq_len it = int n"
  shows "required_blocks (int b) it = int (ceil_div n b)"
proof -
  have "int (n + b - 1) = int n + int b - 1" using assms(1) by simp
  then show ?thesis using assms(2) by (simp add: required_blocks_def ceil_div_def zdiv_int)
qed

lemma make_item_sel [simp]:
  "wi_request_id (make_item rs s t sl bl) = rs_request_id rs"
  "wi_token_ids (make_item rs s t sl bl) = take (t - s) (drop s (all_token_ids rs))"
  "wi_start_pos (make_item rs s t sl bl) = int s"
  "wi_slot_mapping (make_item rs s t sl bl) = map int sl"
  "wi_block_table (make_item rs s t sl bl) = map int bl"
  "wi_seq_len (make_item rs s t sl bl) = int t"
  "wi_generated_count (make_item rs s t sl bl) = int (length (rs_output_token_ids rs))"
  "wi_should_sample (make_item rs s t sl bl) = (t = length (all_token_ids rs))"
  by (simp_all add: make_item_def)

lemma item_for_valid:
  assumes "item_for m rs it" and b: "0 < kv_block_size m"
  shows "item_valid (int (kv_block_size m)) it"
  using assms(1)
proof (rule item_forE)
  fix bl c
  assume c: "0 < c" "rs_num_computed_tokens rs + c \<le> length (all_token_ids rs)"
    "rs_num_computed_tokens rs + c \<le> length bl * kv_block_size m"
    and it: "it = make_item rs (rs_num_computed_tokens rs) (rs_num_computed_tokens rs + c)
      (map (slot_of (kv_block_size m) bl) [rs_num_computed_tokens rs..<rs_num_computed_tokens rs + c]) bl"
  have "ceil_div (rs_num_computed_tokens rs + c) (kv_block_size m) \<le> length bl"
    using c(3) ceil_div_le_iff [OF b] by simp
  moreover have "required_blocks (int (kv_block_size m)) it =
      int (ceil_div (rs_num_computed_tokens rs + c) (kv_block_size m))"
    by (rule required_blocks_nat [OF b]) (simp add: it)
  ultimately show ?thesis using c by (simp add: item_valid_def it)
qed

lemma upto_int: "[0..int n - 1] = map int [0..<n]"
  by (rule nth_equalityI) simp_all

lemma item_for_context:
  assumes "item_for m rs it" and b: "0 < kv_block_size m" and bl: "kv_tbl m (rs_request_id rs) = Some bl"
  shows "context_slots (int (kv_block_size m)) it =
    map (\<lambda>p. int (slot_of (kv_block_size m) bl p)) [0..<rs_num_computed_tokens rs + item_count it]"
  using assms(1)
proof (rule item_forE)
  fix bl' c
  let ?b = "kv_block_size m" and ?n = "rs_num_computed_tokens rs + c"
  assume bl': "kv_tbl m (rs_request_id rs) = Some bl'" and c: "?n \<le> length bl' * ?b" "item_count it = c"
    and it: "it = make_item rs (rs_num_computed_tokens rs) ?n
      (map (slot_of ?b bl') [rs_num_computed_tokens rs..<?n]) bl'"
  have "map int bl' ! nat (int p div int ?b) * int ?b + int p mod int ?b = int (slot_of ?b bl' p)"
    if "p < ?n" for p
  proof -
    have "p div ?b < length bl'" using that c(1) b by (simp add: div_less_iff_less_mult)
    then show ?thesis by (simp add: slot_of_def flip: zdiv_int zmod_int)
  qed
  then show ?thesis using bl bl' c(2) unfolding context_slots_def it make_item_sel upto_int by simp
qed

section \<open>What a batch writes\<close>

text \<open>A slot that holds the vectors of a token.\<close>

definition holds :: "ref_runtime \<Rightarrow> int \<Rightarrow> int \<Rightarrow> bool" where
  "holds rt slot tok \<longleftrightarrow>
     rt_k_cache rt slot = Some (kv_vector (rt_head_dim rt) tok k_phase) \<and>
     rt_v_cache rt slot = Some (kv_vector (rt_head_dim rt) tok v_phase)"

lemma append_kv_loop_other:
  "slot \<notin> snd ` set ps \<Longrightarrow> holds (append_kv_loop ps rt) slot tok = holds rt slot tok"
  "rt_head_dim (append_kv_loop ps rt) = rt_head_dim rt"
  by (induction ps rt rule: append_kv_loop.induct) (auto simp: holds_def)

lemma append_kv_loop_written:
  "(tok, slot) \<in> set ps \<Longrightarrow> distinct (map snd ps) \<Longrightarrow> holds (append_kv_loop ps rt) slot tok"
proof (induction ps rt rule: append_kv_loop.induct)
  case (2 t s rest rt)
  show ?case
  proof (cases "(tok, slot) = (t, s)")
    case True
    then have "slot \<notin> snd ` set rest" using 2(3) by (simp add: image_iff)
    from append_kv_loop_other(1) [OF this] show ?thesis using True by (simp add: holds_def)
  next
    case False
    then have "(tok, slot) \<in> set rest" using 2(2) by auto
    then show ?thesis using 2(1,3) by simp
  qed
qed simp

lemma zip_concat:
  "(\<And>x. x \<in> set xs \<Longrightarrow> length (f x) = length (g x)) \<Longrightarrow>
     zip (concat (map f xs)) (concat (map g xs)) = concat (map (\<lambda>x. zip (f x) (g x)) xs)"
  by (induction xs) auto

lemma append_kv_batch:
  assumes b: "from_worker_batch wb bsize = Inr b"
  defines "ps \<equiv> concat (map (\<lambda>it. zip (wi_token_ids it) (wi_slot_mapping it)) (wb_items wb))"
  shows "append_kv rt (input_ids b) (slot_mapping b) = (Inr (), append_kv_loop ps rt)"
    and "map snd ps = concat (map wi_slot_mapping (wb_items wb))"
proof -
  from b have v: "\<forall>it\<in>set (wb_items wb). item_valid bsize it"
    and f: "b = padded_form bsize (wb_batch_id wb) (wb_items wb)" by (auto elim: from_worker_batchE)
  have len: "length (wi_token_ids it) = length (wi_slot_mapping it)" if "it \<in> set (wb_items wb)" for it
    using v that by (simp add: item_valid_def)
  then have "map length (map wi_token_ids (wb_items wb)) = map length (map wi_slot_mapping (wb_items wb))"
    by simp
  then have "length (concat (map wi_token_ids (wb_items wb))) = length (concat (map wi_slot_mapping (wb_items wb)))"
    unfolding length_concat by (simp only:)
  then show "append_kv rt (input_ids b) (slot_mapping b) = (Inr (), append_kv_loop ps rt)"
    unfolding f ps_def using zip_concat [of "wb_items wb" wi_token_ids wi_slot_mapping] len
    by (simp add: append_kv_def padded_form_def Let_def flat_form_def)
  show "map snd ps = concat (map wi_slot_mapping (wb_items wb))"
    unfolding ps_def using len by (simp add: map_concat comp_def cong: map_cong)
qed

section \<open>What attention reads\<close>

lemma kv_vector_length [simp]: "length (kv_vector h t p) = h"
  by (simp add: kv_vector_def)

lemma holds_resolves:
  assumes "list_all2 (holds rt) slots toks"
  shows "resolves rt slots (map (\<lambda>t. (kv_vector (rt_head_dim rt) t k_phase, kv_vector (rt_head_dim rt) t v_phase)) toks)"
  using assms by (induction rule: list_all2_induct) (auto simp: resolves_def holds_def)

lemma attend_last_ok:
  assumes "list_all2 (holds rt) slots toks" and "slots \<noteq> []" and "0 < rt_head_dim rt"
  shows "\<exists>out. attend_last rt slots = Inr out"
proof -
  have "length toks = length slots" using assms(1) by (simp add: list_all2_lengthD)
  moreover from this have "toks \<noteq> []" using assms(2) by auto
  ultimately have "holds rt (last slots) (last toks)"
    using list_all2_nthD [OF assms(1), of "length slots - 1"] assms(2) by (simp add: last_conv_nth)
  then show ?thesis
    using online_attention_softmax [OF holds_resolves [OF assms(1)] _ assms(2,3)]
    by (simp add: attend_last_def holds_def)
qed

lemma attention_batch_loop_ok:
  assumes "\<And>i. i \<in> set idx \<Longrightarrow> Suc i < length (context_start_loc b) \<and>
      (\<exists>toks. list_all2 (holds rt)
        (slice (context_slot_mapping b) (context_start_loc b ! i) (context_start_loc b ! Suc i)) toks)"
    and "0 < rt_head_dim rt"
  shows "\<exists>outs. attention_batch_loop rt b idx = Inr outs"
  using assms
proof (induction idx)
  case (Cons i idx)
  let ?s = "slice (context_slot_mapping b) (context_start_loc b ! i) (context_start_loc b ! Suc i)"
  have i: "Suc i < length (context_start_loc b)" "\<exists>toks. list_all2 (holds rt) ?s toks"
    using Cons.prems(1) [of i] by auto
  then have "\<exists>out. (if ?s = [] then Inr [] else attend_last rt ?s) = Inr out"
    using attend_last_ok Cons.prems(2) by (cases "?s = []") auto
  moreover obtain outs where "attention_batch_loop rt b idx = Inr outs" using Cons by auto
  moreover have "py_get (context_start_loc b) (int i) = Inr (context_start_loc b ! i)"
    "py_get (context_start_loc b) (int (i + 1)) = Inr (context_start_loc b ! Suc i)"
    using i(1) py_get_nonneg [of "int (Suc i)" "context_start_loc b"]
    by (simp_all add: py_get_nonneg nat_add_distrib)
  ultimately show ?case by (auto simp: Let_def)
qed simp

lemma attention_batch_ok:
  assumes b: "from_worker_batch wb bsize = Inr b" and dim: "0 < rt_head_dim rt"
    and cov: "\<And>it. it \<in> set (wb_items wb) \<Longrightarrow> \<exists>toks. list_all2 (holds rt) (context_slots bsize it) toks"
  obtains rt' where "attention_batch rt b = (Inr (), rt')"
    and "\<And>slot tok. holds rt' slot tok = holds rt slot tok" and "rt_head_dim rt' = rt_head_dim rt"
proof -
  from b have f: "b = padded_form bsize (wb_batch_id wb) (wb_items wb)" by (auto elim: from_worker_batchE)
  let ?f = "length \<circ> context_slots bsize"
  have loc: "context_start_loc b = offsets ?f (wb_items wb)"
    "context_slot_mapping b = concat (map (context_slots bsize) (wb_items wb))"
    "num_requests b = length (wb_items wb)"
    by (simp_all add: f padded_form_def Let_def flat_form_def num_requests_def)
  have "\<exists>outs. attention_batch_loop rt b [0..<num_requests b] = Inr outs"
  proof (rule attention_batch_loop_ok [OF _ dim])
    fix i
    assume "i \<in> set [0..<num_requests b]"
    then have i: "i < length (wb_items wb)" by (simp add: loc)
    have "slice (context_slot_mapping b) (context_start_loc b ! i) (context_start_loc b ! Suc i) =
        context_slots bsize (wb_items wb ! i)"
      unfolding loc by (rule slice_concat [OF i]) simp
    then show "Suc i < length (context_start_loc b) \<and> (\<exists>toks. list_all2 (holds rt)
        (slice (context_slot_mapping b) (context_start_loc b ! i) (context_start_loc b ! Suc i)) toks)"
      using cov i by (simp add: loc(1))
  qed
  then obtain outs where "attention_batch_loop rt b [0..<num_requests b] = Inr outs" ..
  then show ?thesis
    using that [of "rt\<lparr>rt_last_batch_attention_outputs := outs,
      rt_last_attention_output := (if outs = [] then rt_last_attention_output rt else last outs)\<rparr>"]
    by (simp add: attention_batch_def holds_def)
qed

section \<open>Coherence of the cache\<close>

text \<open>
  The first \<open>n\<close> tokens of a request are in the cache: the slot its block table assigns to
  position \<open>p\<close> holds the vectors of its token \<open>p\<close>.
\<close>

definition coherent :: "kv_manager \<Rightarrow> ref_runtime \<Rightarrow> request_state \<Rightarrow> nat \<Rightarrow> bool" where
  "coherent m rt rs n \<longleftrightarrow>
     (case kv_tbl m (rs_request_id rs) of None \<Rightarrow> False
      | Some bl \<Rightarrow> n \<le> length bl * kv_block_size m \<and> n \<le> length (all_token_ids rs) \<and>
          (\<forall>p<n. holds rt (int (slot_of (kv_block_size m) bl p)) (all_token_ids rs ! p)))"

text \<open>Every running request has its computed tokens in the cache.\<close>

definition cache_coherent :: "scheduler \<Rightarrow> ref_runtime \<Rightarrow> bool" where
  "cache_coherent sc rt \<longleftrightarrow> (\<forall>r rs. map_of (sc_running sc) r = Some rs \<longrightarrow>
     coherent (sc_cache_manager sc) rt rs (rs_num_computed_tokens rs))"

text \<open>The tokens of the items are in the cache too.\<close>

definition items_coherent :: "scheduler \<Rightarrow> ref_runtime \<Rightarrow> worker_item list \<Rightarrow> bool" where
  "items_coherent sc rt its \<longleftrightarrow> (\<forall>it\<in>set its. \<forall>rs. map_of (sc_running sc) (wi_request_id it) = Some rs \<longrightarrow>
     coherent (sc_cache_manager sc) rt rs (rs_num_computed_tokens rs + item_count it))"

lemma coherent_cong:
  assumes "\<And>slot tok. holds rt' slot tok = holds rt slot tok"
  shows "coherent m rt' rs n = coherent m rt rs n"
  using assms by (simp add: coherent_def split: option.split)

text \<open>The slots a round writes are not those of tokens that are computed already.\<close>

lemma computed_slot_not_written:
  assumes inv: "sched_inv sc" and its: "items_ok sc its" and it: "it \<in> set its"
    and rs: "map_of (sc_running sc) r = Some rs" and bl: "kv_tbl (sc_cache_manager sc) r = Some bl"
    and p: "p < rs_num_computed_tokens rs" and pl: "p < length bl * kv_block_size (sc_cache_manager sc)"
  shows "int (slot_of (kv_block_size (sc_cache_manager sc)) bl p) \<notin> set (wi_slot_mapping it)"
proof
  note D = sched_inv_butD [OF inv]
  let ?m = "sc_cache_manager sc"
  assume w: "int (slot_of (kv_block_size ?m) bl p) \<in> set (wi_slot_mapping it)"
  from its it inv show False
  proof (cases rule: items_okE)
    case (1 rs' bl')
    have "wi_slot_mapping it = map int (map (slot_of (kv_block_size ?m) bl')
        [rs_num_computed_tokens rs'..<rs_num_computed_tokens rs' + item_count it])"
      by (subst 1(7)) simp
    with w obtain q where q: "q \<in> {rs_num_computed_tokens rs'..<rs_num_computed_tokens rs' + item_count it}"
      "slot_of (kv_block_size ?m) bl p = slot_of (kv_block_size ?m) bl' q" by auto
    have ql: "q < length bl' * kv_block_size ?m" using q(1) 1(6) by simp
    show False
    proof (cases "wi_request_id it = r")
      case True
      then have eq: "rs' = rs" "bl' = bl" using rs bl 1(1,3) by simp_all
      have "p = q"
        using inj_onD [OF slot_of_inj [OF kv.bsz_pos [OF D(2)] kv.tbl_distinct [OF D(2) bl]], of p q]
          q(2) pl ql eq(2) by simp
      then show False using q(1) p eq(1) by simp
    next
      case False
      then show False using kv.slots_disjoint [OF D(2) bl 1(3), of p q] pl ql q(2) by simp
    qed
  qed
qed

text \<open>Writing the items of a round keeps the computed tokens and adds the scheduled ones.\<close>

lemma round_written:
  assumes inv: "sched_inv sc" and its: "items_ok sc its" and coh: "cache_coherent sc rt"
  defines "ps \<equiv> concat (map (\<lambda>it. zip (wi_token_ids it) (wi_slot_mapping it)) its)"
  assumes keys: "map snd ps = concat (map wi_slot_mapping its)"
  shows "cache_coherent sc (append_kv_loop ps rt)" and "items_coherent sc (append_kv_loop ps rt) its"
proof -
  note D = sched_inv_butD [OF inv]
  let ?m = "sc_cache_manager sc" and ?rt = "append_kv_loop ps rt"
  have dist: "distinct (map snd ps)" unfolding keys by (rule item_slots_distinct [OF its inv])
  have written: "snd ` set ps = (\<Union>it\<in>set its. set (wi_slot_mapping it))"
    using arg_cong [OF keys, of set] by simp
  have old: "holds ?rt (int (slot_of (kv_block_size ?m) bl p)) (all_token_ids rs ! p)"
    if rs: "map_of (sc_running sc) r = Some rs" and bl: "kv_tbl ?m r = Some bl"
      and p: "p < rs_num_computed_tokens rs" for r rs bl p
  proof -
    have id: "rs_request_id rs = r" using D(11) [OF rs] .
    from coh rs have c: "coherent ?m rt rs (rs_num_computed_tokens rs)" by (simp add: cache_coherent_def)
    then have "p < length bl * kv_block_size ?m" using bl id p by (simp add: coherent_def)
    then have "int (slot_of (kv_block_size ?m) bl p) \<notin> snd ` set ps"
      using computed_slot_not_written [OF inv its _ rs bl p] written by blast
    from append_kv_loop_other(1) [OF this] c bl id p show ?thesis by (simp add: coherent_def)
  qed
  show "cache_coherent sc ?rt"
    unfolding cache_coherent_def
  proof (intro allI impI)
    fix r rs
    assume rs: "map_of (sc_running sc) r = Some rs"
    then have "coherent ?m rt rs (rs_num_computed_tokens rs)" using coh by (simp add: cache_coherent_def)
    then show "coherent ?m ?rt rs (rs_num_computed_tokens rs)"
      using old [OF rs] D(11) [OF rs] by (simp add: coherent_def split: option.splits)
  qed
  show "items_coherent sc ?rt its"
    unfolding items_coherent_def
  proof (intro ballI allI impI)
    fix it rs
    assume it: "it \<in> set its" and rs: "map_of (sc_running sc) (wi_request_id it) = Some rs"
    from its it inv show "coherent ?m ?rt rs (rs_num_computed_tokens rs + item_count it)"
    proof (cases rule: items_okE)
      case (1 rs' bl)
      let ?s = "rs_num_computed_tokens rs" and ?c = "item_count it"
      have eq: "rs' = rs" using 1(1) rs by simp
      note it_def = 1(7) [unfolded eq]
      have new: "holds ?rt (int (slot_of (kv_block_size ?m) bl p)) (all_token_ids rs ! p)"
        if p: "?s \<le> p" "p < ?s + ?c" for p
      proof -
        have "wi_token_ids it ! (p - ?s) = all_token_ids rs ! p"
          "wi_slot_mapping it ! (p - ?s) = int (slot_of (kv_block_size ?m) bl p)"
          using p 1(5) eq by (subst it_def, simp)+
        moreover have "length (wi_slot_mapping it) = ?c" by (subst it_def) simp
        ultimately have "(all_token_ids rs ! p, int (slot_of (kv_block_size ?m) bl p)) \<in>
            set (zip (wi_token_ids it) (wi_slot_mapping it))"
          using p by (auto simp: set_zip intro!: exI [of _ "p - ?s"])
        then have "(all_token_ids rs ! p, int (slot_of (kv_block_size ?m) bl p)) \<in> set ps"
          using it by (auto simp: ps_def)
        from append_kv_loop_written [OF this dist] show ?thesis .
      qed
      have "holds ?rt (int (slot_of (kv_block_size ?m) bl p)) (all_token_ids rs ! p)"
        if "p < ?s + ?c" for p
        using that new old [OF rs 1(3)] by (cases "p < ?s") auto
      then show ?thesis using 1(2,3,5,6) eq by (simp add: coherent_def)
    qed
  qed
qed

section \<open>The worker on a scheduled round\<close>

lemma round_accepted:
  assumes inv: "sched_inv sc" and its: "items_ok sc its" and ne: "its \<noteq> []"
  obtains b where "from_worker_batch \<lparr>wb_batch_id = bid, wb_items = its\<rparr> (block_size (sc_config sc)) = Inr b"
    and "block_size (sc_config sc) = int (kv_block_size (sc_cache_manager sc))"
proof -
  note D = sched_inv_butD [OF inv]
  let ?m = "sc_cache_manager sc"
  have bs: "block_size (sc_config sc) = int (kv_block_size ?m)" "0 < kv_block_size ?m"
    using D(1,3) kv.bsz_pos [OF D(2)] by (simp_all add: valid_config_def)
  have "item_valid (block_size (sc_config sc)) it" if "it \<in> set its" for it
    using its that item_for_valid [OF _ bs(2)] by (auto simp: items_ok_def bs(1))
  then have "list_all (item_valid (block_size (sc_config sc))) its" by (simp add: list_all_iff)
  then show ?thesis
    using that from_worker_batch_valid [of "block_size (sc_config sc)" "\<lparr>wb_batch_id = bid, wb_items = its\<rparr>"] ne bs
    by simp
qed

text \<open>
  C14. What the scheduler plans, the worker accepts.  Every non-empty round is a valid batch for
  \<open>from_worker_batch\<close>; it has at most \<open>max_num_seqs\<close> requests and \<open>max_num_batched_tokens\<close>
  tokens; and for each of its requests the context slots that attention will read are the slots
  its block table assigns to the positions \<open>0 \<dots> seq_len - 1\<close>, ending with exactly the slots the
  round writes.
\<close>

theorem scheduled_batch_accepted:
  assumes "sched_inv sc" and "schedule sc = (Inr out, sc')" and "schedule_items out \<noteq> []"
  shows "\<exists>b. from_worker_batch \<lparr>wb_batch_id = bid, wb_items = schedule_items out\<rparr>
        (block_size (sc_config sc)) = Inr b \<and>
    int (num_requests b) \<le> max_num_seqs (sc_config sc) \<and>
    int (num_tokens b) \<le> max_num_batched_tokens (sc_config sc) \<and>
    (\<forall>it\<in>set (schedule_items out). \<exists>bl. kv_tbl (sc_cache_manager sc') (wi_request_id it) = Some bl \<and>
       context_slots (block_size (sc_config sc)) it =
         map (\<lambda>p. int (slot_of (nat (block_size (sc_config sc))) bl p)) [0..<nat (wi_seq_len it)] \<and>
       wi_slot_mapping it = drop (nat (wi_start_pos it)) (context_slots (block_size (sc_config sc)) it))"
  using assms(1,2)
proof (cases rule: schedule_itemsE)
  case 1
  let ?its = "schedule_items out" and ?m = "sc_cache_manager sc'"
  note D = sched_inv_butD [OF 1(2)]
  from round_accepted [OF 1(2,3) assms(3)] 1(4) obtain b where
    b: "from_worker_batch \<lparr>wb_batch_id = bid, wb_items = ?its\<rparr> (block_size (sc_config sc)) = Inr b"
    and bs: "block_size (sc_config sc) = int (kv_block_size ?m)" by metis
  have "num_requests b = length ?its"
    using b by (elim from_worker_batchE) (simp add: num_requests_def padded_form_def Let_def flat_form_def)
  moreover have "length ?its \<le> length (sc_running sc')"
  proof -
    have "wi_request_id ` set ?its \<subseteq> set (dict_keys (sc_running sc'))"
      using 1(3) map_of_Some_in_keys unfolding items_ok_def by (metis image_subsetI)
    moreover have "card (wi_request_id ` set ?its) = length ?its"
      using 1(3) distinct_card [of "map wi_request_id ?its"] by (simp add: items_ok_def)
    moreover have "card (set (dict_keys (sc_running sc'))) \<le> length (sc_running sc')"
      using card_length [of "dict_keys (sc_running sc')"] by simp
    ultimately show ?thesis by (metis List.finite_set card_mono le_trans)
  qed
  ultimately have "int (num_requests b) \<le> max_num_seqs (sc_config sc)" using D(9) 1(4) by simp
  moreover have "int (num_tokens b) \<le> max_num_batched_tokens (sc_config sc)"
  proof -
    have "0 < max_num_batched_tokens (sc_config sc)" using D(1) 1(4) by (simp add: valid_config_def)
    moreover have "num_tokens b \<le> nat (max_num_batched_tokens (sc_config sc))"
      using num_tokens_sum [OF b] 1(7) by (simp add: comp_def)
    ultimately show ?thesis by linarith
  qed
  moreover have "\<exists>bl. kv_tbl ?m (wi_request_id it) = Some bl \<and>
       context_slots (block_size (sc_config sc)) it =
         map (\<lambda>p. int (slot_of (nat (block_size (sc_config sc))) bl p)) [0..<nat (wi_seq_len it)] \<and>
       wi_slot_mapping it = drop (nat (wi_start_pos it)) (context_slots (block_size (sc_config sc)) it)"
    if it: "it \<in> set ?its" for it
    using 1(3) it 1(2)
  proof (cases rule: items_okE)
    case (1 rs bl)
    let ?n = "rs_num_computed_tokens rs + item_count it"
    have sel: "wi_seq_len it = int ?n" "wi_start_pos it = int (rs_num_computed_tokens rs)"
      "wi_slot_mapping it = map int (map (slot_of (kv_block_size ?m) bl) [rs_num_computed_tokens rs..<?n])"
      by (subst 1(7), simp)+
    have ctx: "context_slots (int (kv_block_size ?m)) it =
        map (\<lambda>p. int (slot_of (kv_block_size ?m) bl p)) [0..<?n]"
      by (rule item_for_context [OF 1(8) kv.bsz_pos [OF D(2)]]) (simp add: 1(2,3))
    show ?thesis
      unfolding bs ctx using 1(3) sel by (simp add: drop_map nat_add_distrib comp_def)
  qed
  ultimately show ?thesis using b by blast
qed

theorem scheduled_batch_accepted_witness:
  "\<exists>out b. fst (schedule tiny_arrived) = Inr out \<and>
     from_worker_batch \<lparr>wb_batch_id = 1, wb_items = schedule_items out\<rparr> 2 = Inr b \<and> num_requests b = 2"
proof -
  from schedule_ok [OF tiny_arrived_inv] obtain its sc' where
    run: "schedule tiny_arrived = (Inr (schedule_of its), sc')" by metis
  have len: "(case fst (schedule tiny_arrived) of Inl _ \<Rightarrow> 0 | Inr out \<Rightarrow> length (schedule_items out)) = 2"
    and bs: "block_size (sc_config tiny_arrived) = 2" by code_simp+
  then have its: "length its = 2" using run by simp
  then have "schedule_items (schedule_of its) \<noteq> []" by auto
  from scheduled_batch_accepted [OF tiny_arrived_inv run this, of 1] obtain b where
    b: "from_worker_batch \<lparr>wb_batch_id = 1, wb_items = its\<rparr> 2 = Inr b" using bs by auto
  moreover have "num_requests b = 2"
    using b its by (elim from_worker_batchE) (simp add: num_requests_def padded_form_def Let_def flat_form_def)
  ultimately show ?thesis using run by auto
qed

lemma items_coherent_context:
  assumes inv: "sched_inv sc" and its: "items_ok sc its" and it: "it \<in> set its"
    and coh: "items_coherent sc rt its"
  shows "\<exists>toks. list_all2 (holds rt) (context_slots (int (kv_block_size (sc_cache_manager sc))) it) toks"
  using its it inv
proof (cases rule: items_okE)
  case (1 rs bl)
  let ?m = "sc_cache_manager sc" and ?n = "rs_num_computed_tokens rs + item_count it"
  have bs: "0 < kv_block_size ?m" using kv.bsz_pos sched_inv_butD(2) [OF inv] by blast
  have "context_slots (int (kv_block_size ?m)) it =
      map (\<lambda>p. int (slot_of (kv_block_size ?m) bl p)) [0..<?n]"
    by (rule item_for_context [OF 1(8) bs]) (simp add: 1(2,3))
  moreover have "coherent ?m rt rs ?n" using coh it 1(1) by (simp add: items_coherent_def)
  then have "\<forall>p<?n. holds rt (int (slot_of (kv_block_size ?m) bl p)) (all_token_ids rs ! p)"
    using 1(2,3) by (simp add: coherent_def)
  then have "list_all2 (holds rt) (map (\<lambda>p. int (slot_of (kv_block_size ?m) bl p)) [0..<?n])
      (map ((!) (all_token_ids rs)) [0..<?n])"
    by (simp add: list_all2_conv_all_nth)
  ultimately show ?thesis by metis
qed

lemma worker_round:
  assumes inv: "sched_inv sc" and its: "items_ok sc its" and ne: "its \<noteq> []"
    and coh: "cache_coherent sc (wk_state wk)" and dim: "0 < rt_head_dim (wk_state wk)"
    and runner: "wk_runner wk = bootstrap_runner reference_kernel" and cfg: "wk_config wk = sc_config sc"
  obtains res wk' where "worker_execute wk \<lparr>wb_batch_id = bid, wb_items = its\<rparr> t = (res, wk')"
    and "wr_error res = None" and "wr_rank res = wk_rank wk" and "wr_batch_id res = bid"
    and "wr_sampled_token_ids res =
      map (\<lambda>it. (wi_request_id it, bootstrap_token (wi_generated_count it))) (filter wi_should_sample its)"
    and "cache_coherent sc (wk_state wk')" and "items_coherent sc (wk_state wk') its"
    and "rt_head_dim (wk_state wk') = rt_head_dim (wk_state wk)"
proof -
  let ?wb = "\<lparr>wb_batch_id = bid, wb_items = its\<rparr>" and ?bs = "block_size (sc_config sc)"
  let ?ps = "concat (map (\<lambda>it. zip (wi_token_ids it) (wi_slot_mapping it)) its)"
  let ?rt1 = "append_kv_loop ?ps (wk_state wk)"
  from round_accepted [OF inv its ne] obtain b where
    b: "from_worker_batch ?wb ?bs = Inr b" and bs: "?bs = int (kv_block_size (sc_cache_manager sc))" .
  note W = append_kv_batch [OF b, simplified]
  note C = round_written [OF inv its coh W(2)]
  have dim1: "rt_head_dim ?rt1 = rt_head_dim (wk_state wk)" by (rule append_kv_loop_other(2))
  then have d1: "0 < rt_head_dim ?rt1" using dim by simp
  have cov: "\<exists>toks. list_all2 (holds ?rt1) (context_slots ?bs it) toks" if "it \<in> set (wb_items ?wb)" for it
    unfolding bs using items_coherent_context [OF inv its _ C(2)] that by simp
  from attention_batch_ok [OF b d1 cov] obtain rt2 where
    at: "attention_batch ?rt1 b = (Inr (), rt2)" "\<forall>slot tok. holds rt2 slot tok = holds ?rt1 slot tok"
      "rt_head_dim rt2 = rt_head_dim ?rt1" by blast
  let ?out = "map (\<lambda>it. (wi_request_id it, bootstrap_token (wi_generated_count it))) (filter wi_should_sample its)"
  have "\<forall>it\<in>set its. 0 \<le> wi_generated_count it"
  proof
    fix it
    assume "it \<in> set its"
    from its this inv show "0 \<le> wi_generated_count it" by (cases rule: items_okE) (metis make_item_sel(7) of_nat_0_le_iff)
  qed
  then have smp: "bootstrap_sample b = Inr ?out"
    using bootstrap_sample_exact [OF b] its by (simp add: items_ok_def)
  have "manager_execute (wk_graph_manager wk) (bootstrap_runner reference_kernel) (wk_state wk) b =
      (Inr (?out, ''eager''), rt2)"
    using W(1) at(1) smp
    by (simp add: manager_execute_def bootstrap_runner_def bootstrap_execute_model_def reference_kernel_def Let_def)
  then have "\<exists>bm. worker_execute wk ?wb t = (\<lparr>wr_batch_id = bid, wr_rank = wk_rank wk,
      wr_sampled_token_ids = ?out, wr_error = None, wr_metrics = Some bm\<rparr>, wk\<lparr>wk_state := rt2\<rparr>)"
    using b runner cfg by (simp add: worker_execute_def)
  then obtain bm where ex: "worker_execute wk ?wb t = (\<lparr>wr_batch_id = bid, wr_rank = wk_rank wk,
      wr_sampled_token_ids = ?out, wr_error = None, wr_metrics = Some bm\<rparr>, wk\<lparr>wk_state := rt2\<rparr>)" ..
  have "cache_coherent sc rt2" "items_coherent sc rt2 its"
    using C coherent_cong [OF at(2) [rule_format]] by (simp_all add: cache_coherent_def items_coherent_def)
  then show ?thesis using that [OF ex] at(3) dim1 by simp
qed

end
