(* ===== verification/Serving.thy ===== *)
theory Serving
  imports EngineCore_Stream Rounds
begin

text \<open>
  Requests as the bootstrap engine serves them.  The locale \<open>request_property\<close> carries a
  property of each running request and its block table through commands and scheduling; it is
  interpreted with \<open>served\<close>: the output so far is a beginning of the runner's fixed answer, and
  the key/value cache holds the computed tokens at the slots of the request's block table.
  Processing a worker's exact answer raises nothing and keeps it.
\<close>

section \<open>Properties of the running requests\<close>

text \<open>
  A property of each running request and its block table that holds of fresh requests whose
  sampling parameters are acceptable and survives longer tables.  Scheduling keeps it, and so do
  the commands if the parameters of every request added are acceptable.
\<close>

locale request_property =
  fixes R :: "nat \<Rightarrow> nat list \<Rightarrow> request_state \<Rightarrow> bool"
    and F :: "sampling_params \<Rightarrow> bool"
  assumes R_new: "rs_output_token_ids rs = [] \<Longrightarrow> rs_num_computed_tokens rs = 0 \<Longrightarrow>
      F (rs_sampling_params rs) \<Longrightarrow> R b bl rs"
    and R_extend: "R b bl rs \<Longrightarrow> R b (bl @ ext) rs"
begin

definition all_R :: "scheduler \<Rightarrow> bool" where
  "all_R sc \<longleftrightarrow> (\<forall>w\<in>set (sc_waiting sc). F (rs_sampling_params w)) \<and> (\<forall>r rs bl. map_of (sc_running sc) r = Some rs \<longrightarrow>
     kv_tbl (sc_cache_manager sc) r = Some bl \<longrightarrow> R (kv_block_size (sc_cache_manager sc)) bl rs)"

lemma all_RD:
  "all_R sc \<Longrightarrow> map_of (sc_running sc) r = Some rs \<Longrightarrow> kv_tbl (sc_cache_manager sc) r = Some bl \<Longrightarrow>
     R (kv_block_size (sc_cache_manager sc)) bl rs"
  by (simp add: all_R_def)

lemma all_R_one:
  assumes all: "all_R sc" and same: "others_same r sc sc'"
    and one: "\<And>rs bl. map_of (sc_running sc') r = Some rs \<Longrightarrow> kv_tbl (sc_cache_manager sc') r = Some bl \<Longrightarrow>
      R (kv_block_size (sc_cache_manager sc)) bl rs"
  shows "all_R sc'"
  unfolding all_R_def
proof (intro conjI ballI allI impI)
  fix w
  assume "w \<in> set (sc_waiting sc')"
  then show "F (rs_sampling_params w)" using all same by (auto simp: all_R_def others_same_def)
next
  fix q rs bl
  assume rs: "map_of (sc_running sc') q = Some rs" and bl: "kv_tbl (sc_cache_manager sc') q = Some bl"
  have b: "kv_block_size (sc_cache_manager sc') = kv_block_size (sc_cache_manager sc)"
    using same by (simp add: others_same_def)
  show "R (kv_block_size (sc_cache_manager sc')) bl rs"
  proof (cases "q = r")
    case True
    then show ?thesis using one rs bl b by simp
  next
    case False
    then have "map_of (sc_running sc) q = Some rs" "kv_tbl (sc_cache_manager sc) q = Some bl"
      using same rs bl by (simp_all add: others_same_def)
    then show ?thesis using all_RD [OF all] b by simp
  qed
qed

lemma all_R_removed:
  "all_R sc \<Longrightarrow> others_same r sc sc' \<Longrightarrow> map_of (sc_running sc') r = None \<Longrightarrow> all_R sc'"
  by (rule all_R_one) auto

lemma all_R_schedule:
  assumes all: "all_R sc" and inv: "sched_inv sc" and run: "schedule sc = (Inr out, sc')"
  shows "all_R sc'"
  unfolding all_R_def
proof (intro conjI ballI allI impI)
  fix w
  assume "w \<in> set (sc_waiting sc')"
  then show "F (rs_sampling_params w)" using all schedule_waiting [OF run] by (auto simp: all_R_def)
next
  fix r rs bl
  assume rs: "map_of (sc_running sc') r = Some rs" and bl: "kv_tbl (sc_cache_manager sc') r = Some bl"
  have ext: "kv_extends (sc_cache_manager sc) (sc_cache_manager sc')"
    using schedule_ok [OF inv] run by (metis Pair_inject)
  from schedule_new [OF inv run rs]
  show "R (kv_block_size (sc_cache_manager sc')) bl rs"
  proof
    assume old: "map_of (sc_running sc) r = Some rs"
    from sched_inv_cases_run [OF inv map_of_Some_in_keys [OF old]] obtain bl0 where
      "kv_tbl (sc_cache_manager sc) r = Some bl0" .
    moreover from this ext bl obtain e where "bl = bl0 @ e"
      unfolding kv_extends_def by (metis option.inject)
    ultimately show ?thesis using all_RD [OF all old] ext R_extend by (simp add: kv_extends_def)
  next
    assume "map_of (sc_running sc) r = None \<and> rs_output_token_ids rs = [] \<and> rs_num_computed_tokens rs = 0 \<and>
      (\<exists>q\<in>set (sc_waiting sc). rs = q\<lparr>rs_rank := Some 0\<rparr>)"
    moreover from this have "F (rs_sampling_params rs)" using all by (auto simp: all_R_def)
    ultimately show ?thesis by (simp add: R_new)
  qed
qed

definition params_ok :: "engine_command \<Rightarrow> bool" where
  "params_ok c \<longleftrightarrow> (case ec_request c of None \<Rightarrow> True | Some q \<Rightarrow> F (er_sampling_params q))"

lemma all_R_handle:
  assumes all: "all_R (co_scheduler co)" and inv: "sched_inv (co_scheduler co)"
    and run: "core_handle_command co c = (Inr (), co')" and ok: "params_ok c"
  shows "all_R (co_scheduler co')"
proof (cases "\<exists>r. ec_type c = ABORT_CMD \<and> ec_request_id c = Some r")
  case True
  then obtain r where r: "ec_type c = ABORT_CMD" "ec_request_id c = Some r" by blast
  obtain res sc where a: "abort (co_scheduler co) r = (res, sc)" by fastforce
  have "co_scheduler co' = sc"
    using run r a by (auto simp: core_handle_command_def put_output_def split: sum.splits if_splits)
  then show ?thesis using all_R_removed [OF all abort_others(1,2) [OF inv a]] by simp
next
  case False
  then have "sc_running (co_scheduler co') = sc_running (co_scheduler co) \<and>
      sc_cache_manager (co_scheduler co') = sc_cache_manager (co_scheduler co) \<and>
      (\<forall>w\<in>set (sc_waiting (co_scheduler co')). w \<in> set (sc_waiting (co_scheduler co)) \<or> F (rs_sampling_params w))"
    using run ok
    by (auto simp: core_handle_command_def add_request_def emit_error_def put_output_def tick_def
        params_ok_def split: command_type.splits option.splits if_splits)
  then show ?thesis using all by (auto simp: all_R_def)
qed

lemma all_R_drain:
  assumes "all_R (co_scheduler co)" and "sched_inv (co_scheduler co)" and "\<forall>c\<in>set cs. valid_command c"
    and "drain_loop cs co = (Inr (), co')" and "\<forall>c\<in>set cs. params_ok c"
  shows "all_R (co_scheduler co')"
  using assms
proof (induction cs arbitrary: co)
  case Nil
  then show ?case by auto
next
  case (Cons c cs)
  let ?co = "co\<lparr>co_command_queue := cs\<rparr>"
  have pre: "sched_inv (co_scheduler ?co)" "valid_command c" using Cons.prems by simp_all
  from handle_command_ok [OF pre] obtain co1 where
    h: "core_handle_command ?co c = (Inr (), co1)" "sched_inv (co_scheduler co1)" by blast
  have "all_R (co_scheduler co1)" using all_R_handle [OF _ pre(1) h(1)] Cons.prems(1,5) by simp
  then show ?case using Cons.prems(3-5) h by (intro Cons.IH [of co1]) simp_all
qed

end

section \<open>The bootstrap engine\<close>

text \<open>Every stop value is a string, as the annotation of \<open>SamplingParams\<close> says.\<close>

definition string_stops :: "sampling_params \<Rightarrow> bool" where
  "string_stops p \<longleftrightarrow> list_all is_pystr (sp_stop p)"

text \<open>The tokens generated so far are the beginning of the runner's fixed answer, and the stop values
  can be compared with their text.\<close>

definition resp_ok :: "request_state \<Rightarrow> bool" where
  "resp_ok rs \<longleftrightarrow> rs_output_token_ids rs = take (length (rs_output_token_ids rs)) response_tokens \<and>
     string_stops (rs_sampling_params rs)"

definition string_params :: "engine_command \<Rightarrow> bool" where
  "string_params c \<longleftrightarrow>
     (case ec_request c of None \<Rightarrow> True | Some q \<Rightarrow> string_stops (er_sampling_params q))"

definition served :: "ref_runtime \<Rightarrow> nat \<Rightarrow> nat list \<Rightarrow> request_state \<Rightarrow> bool" where
  "served rt b bl rs \<longleftrightarrow> resp_ok rs \<and> rs_num_computed_tokens rs \<le> length bl * b \<and>
     (\<forall>p<rs_num_computed_tokens rs. p < length (all_token_ids rs) \<and>
        holds rt (int (slot_of b bl p)) (all_token_ids rs ! p))"

lemma slot_of_append:
  "p < length bl * b \<Longrightarrow> slot_of b (bl @ ext) p = slot_of b bl p"
  by (cases "b = 0") (simp_all add: slot_of_def nth_append div_less_iff_less_mult)

interpretation served: request_property "served rt" string_stops for rt
proof
  fix b bl rs ext
  assume s: "served rt b bl rs"
  have "slot_of b (bl @ ext) p = slot_of b bl p" if "p < rs_num_computed_tokens rs" for p
    using that s by (intro slot_of_append) (simp add: served_def)
  then show "served rt b (bl @ ext) rs" using s by (simp add: served_def add_mult_distrib)
qed (simp add: served_def resp_ok_def)

lemma params_ok_string [simp]: "served.params_ok = string_params"
  by (rule ext) (simp add: served.params_ok_def string_params_def)

lemma served_coherent:
  assumes inv: "sched_inv sc" and all: "served.all_R rt sc"
  shows "cache_coherent sc rt"
  unfolding cache_coherent_def
proof (intro allI impI)
  fix r rs
  assume rs: "map_of (sc_running sc) r = Some rs"
  from sched_inv_cases_run [OF inv map_of_Some_in_keys [OF rs]] obtain bl where
    bl: "kv_tbl (sc_cache_manager sc) r = Some bl" .
  have "req_ok (sc_config sc) (sc_cache_manager sc) rs" "rs_request_id rs = r"
    using sched_inv_butD(11,12) [OF inv rs] by simp_all
  with served.all_RD [OF all rs bl] bl show "coherent (sc_cache_manager sc) rt rs (rs_num_computed_tokens rs)"
    by (simp add: coherent_def served_def req_ok_def)
qed

lemma coherent_served:
  assumes inv: "sched_inv sc" and coh: "cache_coherent sc rt'" and all: "served.all_R rt sc"
  shows "served.all_R rt' sc"
  unfolding served.all_R_def
proof (intro conjI ballI allI impI)
  fix w
  assume "w \<in> set (sc_waiting sc)"
  then show "string_stops (rs_sampling_params w)" using all by (simp add: served.all_R_def)
next
  fix r rs bl
  assume rs: "map_of (sc_running sc) r = Some rs" and bl: "kv_tbl (sc_cache_manager sc) r = Some bl"
  have "coherent (sc_cache_manager sc) rt' rs (rs_num_computed_tokens rs)" "rs_request_id rs = r"
    using coh rs sched_inv_butD(11) [OF inv rs] by (simp_all add: cache_coherent_def)
  with served.all_RD [OF all rs bl] bl show "served rt' (kv_block_size (sc_cache_manager sc)) bl rs"
    by (simp add: coherent_def served_def)
qed

section \<open>Tokens of the fixed answer\<close>

lemma response_valid: "valid_text (take n response_text)"
proof -
  have "valid_text response_text" by (simp add: valid_text_def response_text_def)
  then show ?thesis by (auto simp: valid_text_def list_all_iff dest: in_set_takeD)
qed

lemma response_decodes: "char_decode (take n response_tokens) = Inr (take n response_text)"
  using char_decode_encoded [OF response_valid, of n] by (simp add: response_tokens_def take_map)

text \<open>The next token extends the answer, or is the end-of-sequence token when it is complete.\<close>

lemma next_token:
  fixes rs :: request_state
  assumes "resp_ok rs"
  defines "t \<equiv> bootstrap_token (int (length (rs_output_token_ids rs)))"
  shows "t \<noteq> 1 \<Longrightarrow> rs_output_token_ids rs @ [t] =
      take (Suc (length (rs_output_token_ids rs))) response_tokens"
    and "\<exists>s. char_decode (rs_output_token_ids rs @ [t]) = Inr s"
proof -
  let ?n = "length (rs_output_token_ids rs)"
  have eos: "eos_token_id character_tokenizer = 1" by (simp add: character_tokenizer_def)
  show ext: "rs_output_token_ids rs @ [t] = take (Suc ?n) response_tokens" if "t \<noteq> 1"
  proof -
    have "?n < length response_tokens"
      using that eos by (auto simp: t_def bootstrap_token_def split: if_splits)
    moreover from this have "t = response_tokens ! ?n" by (simp add: t_def bootstrap_token_def)
    ultimately show ?thesis using assms(1) by (simp add: resp_ok_def take_Suc_conv_app_nth)
  qed
  show "\<exists>s. char_decode (rs_output_token_ids rs @ [t]) = Inr s"
  proof (cases "t = 1")
    case True
    moreover have "char_decode (rs_output_token_ids rs) = Inr (take ?n response_text)"
      using response_decodes [of ?n] assms(1) by (simp add: resp_ok_def)
    ultimately show ?thesis by (simp add: char_decode_append char_offset_def)
  next
    case False
    then show ?thesis using ext response_decodes by simp
  qed
qed

lemma append_token_total:
  assumes tk: "sc_tokenizer sc = character_tokenizer" and rs: "map_of (sc_running sc) r = Some rs"
    and d: "char_decode (rs_output_token_ids rs @ [t]) = Inr s"
    and stops: "string_stops (rs_sampling_params rs)"
  obtains reason rs' where "append_token sc r t tm = (Inr reason, set_running sc r rs')"
    and "rs_request_id rs' = rs_request_id rs" and "rs_num_computed_tokens rs' = rs_num_computed_tokens rs"
    and "rs_prompt_token_ids rs' = rs_prompt_token_ids rs"
    and "rs_sampling_params rs' = rs_sampling_params rs"
    and "rs_output_token_ids rs' = (if t = 1 then rs_output_token_ids rs else rs_output_token_ids rs @ [t])"
    and "reason = None \<Longrightarrow> t \<noteq> 1"
proof -
  let ?rs1 = "stamp_token rs tm"
  let ?rs2 = "?rs1\<lparr>rs_output_token_ids := rs_output_token_ids ?rs1 @ [t]\<rparr>"
  have sel: "eos_token_id character_tokenizer = 1" "tok_decode character_tokenizer = char_decode"
    by (simp_all add: character_tokenizer_def)
  show ?thesis
  proof (cases "t = 1")
    case True
    then have "append_token sc r t tm = (Inr (Some STOP), set_running sc r ?rs1)"
      using tk rs sel by (simp add: append_token_def Let_def)
    then show ?thesis using that True by (simp add: stamp_token_def)
  next
    case False
    have "tok_decode (sc_tokenizer sc) (rs_output_token_ids ?rs2) = Inr s"
      using d tk sel by (simp add: stamp_token_def)
    moreover obtain stopped where "any_endswith s (sp_stop (rs_sampling_params ?rs2)) = Inr stopped"
      using stops any_endswith_strings by (simp add: string_stops_def stamp_token_def)
    ultimately have "\<exists>reason. append_token sc r t tm = (Inr reason, set_running sc r ?rs2)"
      using tk rs sel False by (simp add: append_token_def Let_def)
    then show ?thesis using that False by (auto simp: stamp_token_def)
  qed
qed

lemma accept_token_no_raise:
  assumes tk: "co_tokenizer co = character_tokenizer" "sc_tokenizer (co_scheduler co) = character_tokenizer"
    and rs: "map_of (sc_running (co_scheduler co)) r = Some rs"
    and ds: "char_decode (rs_output_token_ids rs) = Inr s0" "char_decode [t] = Inr s1"
    and d: "char_decode (rs_output_token_ids rs @ [t]) = Inr s"
    and ap: "append_token (co_scheduler co) r t (now co) = (Inr reason, set_running (co_scheduler co) r rs')"
    and out: "rs_output_token_ids rs' = (if t = 1 then rs_output_token_ids rs else rs_output_token_ids rs @ [t])"
    and fin: "finish (set_running (co_scheduler co) r rs') r = (Inr x, sc2)"
  shows "fst (accept_token res r t co) = Inr ()"
proof -
  let ?sc = "co_scheduler co" and ?sc1 = "set_running (co_scheduler co) r rs'"
  let ?co1 = "tick (co\<lparr>co_scheduler := ?sc1\<rparr>)"
  have sel: "tok_decode character_tokenizer = char_decode" by (simp add: character_tokenizer_def)
  have rs1: "map_of (sc_running ?sc1) r = Some rs'" by (simp add: set_running_def update_conv')
  have o1: "output_text ?sc r = Inr s0" using rs tk ds sel by (simp add: output_text_def)
  have tk1: "sc_tokenizer ?sc1 = character_tokenizer" using tk by (simp add: set_running_def)
  obtain cur where o2: "output_text ?sc1 r = Inr cur"
    using rs1 tk1 out ds d sel by (cases "t = 1") (simp_all add: output_text_def)
  obtain tx where o3: "streamed_text (co_tokenizer ?co1) t s0 cur = Inr tx"
  proof (cases "startswith cur s0")
    case False
    then have "streamed_text (co_tokenizer ?co1) t s0 cur = Inr s1"
      using tk ds(2) sel by (simp add: streamed_text_def tick_def del: char_decode.simps)
    then show ?thesis by (rule that)
  qed (use that in \<open>simp add: streamed_text_def\<close>)
  obtain rm where o4: "request_metrics_of ?sc1 r (reason \<noteq> None) (now ?co1) = Inr rm"
    using rs1 by (auto simp: request_metrics_of_def)
  show ?thesis
    unfolding accept_token_def o1 ap Let_def sum.case prod.case o2 o3 o4
    using fin by (simp add: put_output_def tick_def)
qed

lemma accept_token_total:
  assumes inv: "sched_inv (co_scheduler co)" and rs: "map_of (sc_running (co_scheduler co)) r = Some rs"
    and full: "rs_num_computed_tokens rs = length (all_token_ids rs)"
    and tk: "co_tokenizer co = character_tokenizer" "sc_tokenizer (co_scheduler co) = character_tokenizer"
    and resp: "resp_ok rs" and t: "t = bootstrap_token (int (length (rs_output_token_ids rs)))"
  obtains co' where "accept_token res r t co = (Inr (), co')"
    and "\<And>rs'. map_of (sc_running (co_scheduler co')) r = Some rs' \<Longrightarrow>
      rs_num_computed_tokens rs' = rs_num_computed_tokens rs \<and>
      all_token_ids rs' = all_token_ids rs @ [t] \<and> resp_ok rs' \<and>
      kv_tbl (sc_cache_manager (co_scheduler co')) r = kv_tbl (sc_cache_manager (co_scheduler co)) r"
proof -
  let ?sc = "co_scheduler co"
  note N = next_token [OF resp, folded t]
  from N(2) obtain s where d: "char_decode (rs_output_token_ids rs @ [t]) = Inr s" ..
  then obtain s0 s1 where ds: "char_decode (rs_output_token_ids rs) = Inr s0" "char_decode [t] = Inr s1"
    by (rule ct.decode_snoc)
  have stops: "string_stops (rs_sampling_params rs)" using resp by (simp add: resp_ok_def)
  from append_token_total [OF tk(2) rs d stops, of "now co"] obtain reason rs' where
    ap: "append_token ?sc r t (now co) = (Inr reason, set_running ?sc r rs')"
      "rs_num_computed_tokens rs' = rs_num_computed_tokens rs"
      "rs_prompt_token_ids rs' = rs_prompt_token_ids rs"
      "rs_output_token_ids rs' = (if t = 1 then rs_output_token_ids rs else rs_output_token_ids rs @ [t])"
      "reason = None \<Longrightarrow> t \<noteq> 1" "rs_sampling_params rs' = rs_sampling_params rs" by blast
  let ?sc1 = "set_running ?sc r rs'"
  have rs1: "map_of (sc_running ?sc1) r = Some rs'" by (simp add: set_running_def update_conv')
  obtain out co' where run: "accept_token res r t co = (out, co')" by fastforce
  note but = append_token_inv(1) [OF inv rs full ap(1)]
  from finish_form [OF but rs1] obtain sc2 where
    f: "finish ?sc1 r = (Inr (Some rs'), sc2)" "active_ids sc2 = remove1 r (active_ids ?sc1)" by blast
  have no: "out \<noteq> Inl e" for e
    using accept_token_no_raise [OF tk rs ds d ap(1,4) f(1), of res] run by simp
  from run ap(1) show ?thesis
  proof (cases rule: accept_token_cases)
    case (raised e)
    then show ?thesis using no by simp
  next
    case (streamed ro)
    then have t1: "t \<noteq> 1" using ap(5) by simp
    have "all_token_ids rs' = all_token_ids rs @ [t]" using ap(3,4) t1 by (simp add: all_token_ids_def)
    moreover have "resp_ok rs'"
    proof -
      have "rs_output_token_ids rs' = take (Suc (length (rs_output_token_ids rs))) response_tokens"
        using ap(4) t1 N(1) by simp
      moreover have "length (rs_output_token_ids rs') = Suc (length (rs_output_token_ids rs))"
        using ap(4) t1 by simp
      ultimately show ?thesis using stops ap(6) by (simp add: resp_ok_def)
    qed
    moreover have "kv_tbl (sc_cache_manager ?sc1) r = kv_tbl (sc_cache_manager ?sc) r"
      by (simp add: set_running_def)
    ultimately show ?thesis using that [of co'] run streamed(1,3) rs1 ap(2) by simp
  next
    case (finished ro rsn fres)
    then have "out = Inr ()" "co_scheduler co' = sc2" using f(1) by auto
    moreover have "map_of (sc_running sc2) r = None" by (rule removed_running [OF but f(2)])
    ultimately show ?thesis using that [of co'] run by simp
  qed
qed

section \<open>Processing an honest result\<close>

lemma coherent_advance:
  assumes "coherent m rt rs n" and "kv_tbl m (rs_request_id rs) = Some bl" and "resp_ok rs'"
    and "rs_num_computed_tokens rs' = n" and "prefix (all_token_ids rs) (all_token_ids rs')"
  shows "served rt (kv_block_size m) bl rs'"
proof -
  have c: "n \<le> length bl * kv_block_size m" "n \<le> length (all_token_ids rs)"
    "\<forall>p<n. holds rt (int (slot_of (kv_block_size m) bl p)) (all_token_ids rs ! p)"
    using assms(1,2) by (simp_all add: coherent_def)
  obtain zs where zs: "all_token_ids rs' = all_token_ids rs @ zs" using assms(5) by (auto simp: prefix_def)
  then have "all_token_ids rs' ! p = all_token_ids rs ! p" if "p < n" for p
    using that c(2) by (simp add: nth_append)
  then show ?thesis using c zs assms(3,4) by (auto simp: served_def)
qed

lemma process_item_served:
  assumes inv: "sched_inv (co_scheduler co)" and live: "item_live (co_scheduler co) it"
    and cnt: "map_of (scheduled_counts out) (wi_request_id it) = Some (item_count it)"
    and smp: "map_of (wr_sampled_token_ids res) (wi_request_id it) =
      (if wi_should_sample it then Some (bootstrap_token (wi_generated_count it)) else None)"
    and tk: "co_tokenizer co = character_tokenizer" "sc_tokenizer (co_scheduler co) = character_tokenizer"
    and all: "served.all_R rt (co_scheduler co)"
    and coh: "\<And>rs. map_of (sc_running (co_scheduler co)) (wi_request_id it) = Some rs \<Longrightarrow>
      coherent (sc_cache_manager (co_scheduler co)) rt rs (rs_num_computed_tokens rs + item_count it)"
  shows "\<exists>co'. process_item out res it co = (Inr (), co') \<and> served.all_R rt (co_scheduler co') \<and>
    (\<forall>rs rs'. map_of (sc_running (co_scheduler co)) (wi_request_id it) = Some rs \<longrightarrow>
       map_of (sc_running (co_scheduler co')) (wi_request_id it) = Some rs' \<longrightarrow>
       rs_num_computed_tokens rs' = rs_num_computed_tokens rs + item_count it \<and>
       rs_num_computed_tokens rs' < length (all_token_ids rs'))"
proof (cases "map_of (sc_running (co_scheduler co)) (wi_request_id it)")
  case None
  then have "wi_request_id it \<notin> set (dict_keys (sc_running (co_scheduler co)))" using map_of_None_iff by metis
  then show ?thesis using all None by (simp add: process_item_def Let_def)
next
  case (Some rs)
  let ?r = "wi_request_id it" and ?sc = "co_scheduler co"
  have key: "?r \<in> set (dict_keys (sc_running ?sc))" using Some by (rule map_of_Some_in_keys)
  have it: "item_for (sc_cache_manager ?sc) rs it" using live Some by (simp add: item_live_def)
  have id: "rs_request_id rs = ?r" using sched_inv_butD(11) [OF inv Some] .
  from sched_inv_cases_run [OF inv key] obtain bl where bl: "kv_tbl (sc_cache_manager ?sc) ?r = Some bl" .
  have resp: "resp_ok rs" using served.all_RD [OF all Some bl] by (simp add: served_def)
  let ?rs1 = "rs\<lparr>rs_num_computed_tokens := rs_num_computed_tokens rs + item_count it\<rparr>"
  let ?co1 = "co\<lparr>co_scheduler := set_running ?sc ?r ?rs1\<rparr>"
  have all1: "all_token_ids ?rs1 = all_token_ids rs" by (simp add: all_token_ids_def)
  note up = update_computed_ok [OF inv Some it]
  have rs1: "map_of (sc_running (co_scheduler ?co1)) ?r = Some ?rs1"
    by (simp add: set_running_def update_conv')
  have resp1: "resp_ok ?rs1" using resp by (simp add: resp_ok_def)
  have adv: "served rt (kv_block_size (sc_cache_manager ?sc)) bl rs'"
    if "resp_ok rs'" "rs_num_computed_tokens rs' = rs_num_computed_tokens ?rs1"
      "prefix (all_token_ids rs) (all_token_ids rs')" for rs'
    by (rule coherent_advance [OF coh [OF Some]]) (use that id bl in simp_all)
  have cm1: "sc_cache_manager (co_scheduler ?co1) = sc_cache_manager ?sc" by (simp add: set_running_def)
  have A1: "served.all_R rt (co_scheduler ?co1)"
  proof (rule served.all_R_one [OF all])
    show "others_same ?r ?sc (co_scheduler ?co1)" by (simp add: others_same_set_running)
  qed (use rs1 adv [OF resp1] all1 bl cm1 in auto)
  show ?thesis
  proof (cases "wi_should_sample it")
    case False
    then have "process_item out res it co = (Inr (), ?co1)"
      using smp key cnt up(1) by (simp add: process_item_def Let_def)
    moreover have "rs_num_computed_tokens ?rs1 < length (all_token_ids ?rs1)"
      using it False all1 by (auto simp: item_for_def Let_def make_item_def)
    ultimately show ?thesis using A1 rs1 Some by auto
  next
    case True
    let ?t = "bootstrap_token (int (length (rs_output_token_ids ?rs1)))"
    have gc: "wi_generated_count it = int (length (rs_output_token_ids ?rs1))"
      using it by (auto simp: item_for_def Let_def make_item_def)
    have full: "rs_num_computed_tokens ?rs1 = length (all_token_ids ?rs1)"
      using item_for_full [OF it True] all1 by simp
    have inv1: "sched_inv (co_scheduler ?co1)" using up(2) by simp
    have tk1: "co_tokenizer ?co1 = character_tokenizer" "sc_tokenizer (co_scheduler ?co1) = character_tokenizer"
      using tk by (simp_all add: set_running_def)
    from accept_token_total [OF inv1 rs1 full tk1 resp1 refl] obtain co' where
      ac: "accept_token res ?r ?t ?co1 = (Inr (), co')"
      and rs': "\<And>rs'. map_of (sc_running (co_scheduler co')) ?r = Some rs' \<Longrightarrow>
        rs_num_computed_tokens rs' = rs_num_computed_tokens ?rs1 \<and>
        all_token_ids rs' = all_token_ids ?rs1 @ [?t] \<and> resp_ok rs' \<and>
        kv_tbl (sc_cache_manager (co_scheduler co')) ?r = kv_tbl (sc_cache_manager (co_scheduler ?co1)) ?r"
      by blast
    have "process_item out res it co = (Inr (), co')"
      using smp True key cnt up(1) ac gc by (simp add: process_item_def Let_def)
    moreover have "served.all_R rt (co_scheduler co')"
    proof (rule served.all_R_one [OF A1 accept_token_ok(4) [OF inv1 rs1 full ac]])
      fix rs' bl'
      assume m: "map_of (sc_running (co_scheduler co')) ?r = Some rs'"
        and b: "kv_tbl (sc_cache_manager (co_scheduler co')) ?r = Some bl'"
      have "bl' = bl" using rs' [OF m] b bl cm1 by simp
      moreover have "prefix (all_token_ids rs) (all_token_ids rs')" using rs' [OF m] all1 by simp
      ultimately show "served rt (kv_block_size (sc_cache_manager (co_scheduler ?co1))) bl' rs'"
        unfolding cm1 using adv [of rs'] rs' [OF m] by simp
    qed
    moreover have "rs_num_computed_tokens rs' = rs_num_computed_tokens rs + item_count it \<and>
        rs_num_computed_tokens rs' < length (all_token_ids rs')"
      if "map_of (sc_running (co_scheduler co')) ?r = Some rs'" for rs'
      using rs' [OF that] full by simp
    ultimately show ?thesis using Some by auto
  qed
qed

lemma process_items_served:
  assumes "sched_inv (co_scheduler co)" and "\<forall>it\<in>set its. item_live (co_scheduler co) it"
    and "distinct (map wi_request_id its)"
    and "\<forall>it\<in>set its. map_of (scheduled_counts out) (wi_request_id it) = Some (item_count it)"
    and "\<forall>it\<in>set its. map_of (wr_sampled_token_ids res) (wi_request_id it) =
      (if wi_should_sample it then Some (bootstrap_token (wi_generated_count it)) else None)"
    and "co_tokenizer co = character_tokenizer" "sc_tokenizer (co_scheduler co) = character_tokenizer"
    and "served.all_R rt (co_scheduler co)" and "items_coherent (co_scheduler co) rt its"
  shows "\<exists>co'. process_items out res its co = (Inr (), co') \<and> served.all_R rt (co_scheduler co')"
  using assms
proof (induction its arbitrary: co)
  case (Cons it its)
  have P: "item_live (co_scheduler co) it"
    "map_of (scheduled_counts out) (wi_request_id it) = Some (item_count it)"
    "map_of (wr_sampled_token_ids res) (wi_request_id it) =
      (if wi_should_sample it then Some (bootstrap_token (wi_generated_count it)) else None)"
    "\<And>rs. map_of (sc_running (co_scheduler co)) (wi_request_id it) = Some rs \<Longrightarrow>
      coherent (sc_cache_manager (co_scheduler co)) rt rs (rs_num_computed_tokens rs + item_count it)"
    using Cons.prems(2,4,5,9) by (auto simp: items_coherent_def)
  from process_item_served [OF Cons.prems(1) P(1-3) Cons.prems(6-8) P(4)] obtain co1 where
    p: "process_item out res it co = (Inr (), co1)" "served.all_R rt (co_scheduler co1)" by blast
  have trust: "wi_should_sample it" if "wi_request_id it \<in> set (dict_keys (wr_sampled_token_ids res))"
    using P(3) that map_of_None_iff by (metis option.distinct(1))
  note A = process_item_ok [OF Cons.prems(1) P(1,2) trust p(1)]
  have live: "\<forall>it'\<in>set its. item_live (co_scheduler co1) it'"
    by (rule items_live_rest [OF Cons.prems(1) A(4)]) (use Cons.prems(2,3) in auto)
  have coh: "items_coherent (co_scheduler co1) rt its"
    unfolding items_coherent_def
  proof (intro ballI allI impI)
    fix it' rs
    assume it': "it' \<in> set its" and rs: "map_of (sc_running (co_scheduler co1)) (wi_request_id it') = Some rs"
    have ne: "wi_request_id it' \<noteq> wi_request_id it"
      using it' Cons.prems(3) by (metis distinct.simps(2) image_eqI list.set_map list.simps(9))
    then have old: "map_of (sc_running (co_scheduler co)) (wi_request_id it') = Some rs"
      using rs A(4) by (simp add: others_same_def)
    then have "coherent (sc_cache_manager (co_scheduler co)) rt rs (rs_num_computed_tokens rs + item_count it')"
      using Cons.prems(9) it' by (simp add: items_coherent_def)
    moreover have "rs_request_id rs = wi_request_id it'" using sched_inv_butD(11) [OF Cons.prems(1) old] .
    moreover have "kv_tbl (sc_cache_manager (co_scheduler co1)) (wi_request_id it') =
        kv_tbl (sc_cache_manager (co_scheduler co)) (wi_request_id it')"
      "kv_block_size (sc_cache_manager (co_scheduler co1)) = kv_block_size (sc_cache_manager (co_scheduler co))"
      using A(4) ne by (simp_all add: others_same_def)
    ultimately show "coherent (sc_cache_manager (co_scheduler co1)) rt rs (rs_num_computed_tokens rs + item_count it')"
      by (simp add: coherent_def split: option.splits)
  qed
  have tk: "co_tokenizer co1 = character_tokenizer" "sc_tokenizer (co_scheduler co1) = character_tokenizer"
    using A(3) Cons.prems(6,7) by (simp_all add: core_frame_def)
  have "\<exists>co'. process_items out res its co1 = (Inr (), co') \<and> served.all_R rt (co_scheduler co')"
    using A(2) live coh p(2) tk Cons.prems(3-5) by (intro Cons.IH) simp_all
  then show ?case using p(1) by simp
qed simp

section \<open>Processing any trusted result\<close>

lemma append_token_continues:
  assumes "append_token sc r t tm = (Inr None, sc')" and "map_of (sc_running sc) r = Some rs"
  shows "\<exists>rs'. sc' = set_running sc r rs' \<and> rs_request_id rs' = rs_request_id rs \<and>
    rs_num_computed_tokens rs' = rs_num_computed_tokens rs \<and> rs_prompt_token_ids rs' = rs_prompt_token_ids rs \<and>
    rs_sampling_params rs' = rs_sampling_params rs \<and> rs_output_token_ids rs' = rs_output_token_ids rs @ [t]"
  using assms by (auto simp: append_token_def Let_def stamp_token_def split: if_splits sum.splits)

context request_property
begin

text \<open>
  \<open>G\<close> is what is known of an item and its request before the result is processed: the property holds
  once the item's tokens count as computed, and again when the sampled token has been appended.
\<close>

lemma all_R_process_item:
  assumes inv: "sched_inv (co_scheduler co)" and live: "item_live (co_scheduler co) it"
    and cnt: "map_of (scheduled_counts out) (wi_request_id it) = Some (item_count it)"
    and trust: "wi_request_id it \<in> set (dict_keys (wr_sampled_token_ids res)) \<Longrightarrow> wi_should_sample it"
    and all: "all_R (co_scheduler co)"
    and adv: "\<And>rs bl. map_of (sc_running (co_scheduler co)) (wi_request_id it) = Some rs \<Longrightarrow>
      kv_tbl (sc_cache_manager (co_scheduler co)) (wi_request_id it) = Some bl \<Longrightarrow>
      R (kv_block_size (sc_cache_manager (co_scheduler co))) bl
        (rs\<lparr>rs_num_computed_tokens := rs_num_computed_tokens rs + item_count it\<rparr>)"
    and app: "\<And>rs bl t rs'. map_of (sc_running (co_scheduler co)) (wi_request_id it) = Some rs \<Longrightarrow>
      kv_tbl (sc_cache_manager (co_scheduler co)) (wi_request_id it) = Some bl \<Longrightarrow>
      map_of (wr_sampled_token_ids res) (wi_request_id it) = Some t \<Longrightarrow>
      rs_num_computed_tokens rs' = rs_num_computed_tokens rs + item_count it \<Longrightarrow>
      rs_prompt_token_ids rs' = rs_prompt_token_ids rs \<Longrightarrow> rs_sampling_params rs' = rs_sampling_params rs \<Longrightarrow>
      rs_output_token_ids rs' = rs_output_token_ids rs @ [t] \<Longrightarrow>
      R (kv_block_size (sc_cache_manager (co_scheduler co))) bl rs'"
    and run: "process_item out res it co = (Inr (), co')"
  shows "all_R (co_scheduler co')"
proof (cases "map_of (sc_running (co_scheduler co)) (wi_request_id it)")
  case None
  then have "wi_request_id it \<notin> set (dict_keys (sc_running (co_scheduler co)))" using map_of_None_iff by metis
  then show ?thesis using all run by (simp add: process_item_def Let_def)
next
  case (Some rs)
  let ?r = "wi_request_id it" and ?sc = "co_scheduler co"
  have key: "?r \<in> set (dict_keys (sc_running ?sc))" using Some by (rule map_of_Some_in_keys)
  have it: "item_for (sc_cache_manager ?sc) rs it" using live Some by (simp add: item_live_def)
  let ?rs1 = "rs\<lparr>rs_num_computed_tokens := rs_num_computed_tokens rs + item_count it\<rparr>"
  let ?co1 = "co\<lparr>co_scheduler := set_running ?sc ?r ?rs1\<rparr>"
  note up = update_computed_ok [OF inv Some it]
  have rs1: "map_of (sc_running (co_scheduler ?co1)) ?r = Some ?rs1"
    and cm1: "sc_cache_manager (co_scheduler ?co1) = sc_cache_manager ?sc"
    by (simp_all add: set_running_def update_conv')
  have A1: "all_R (co_scheduler ?co1)"
  proof (rule all_R_one [OF all])
    show "others_same ?r ?sc (co_scheduler ?co1)" by (simp add: others_same_set_running)
  qed (use rs1 adv [OF Some] cm1 in auto)
  show ?thesis
  proof (cases "map_of (wr_sampled_token_ids res) ?r")
    case None
    then have "co' = ?co1" using run key cnt up(1) by (simp add: process_item_def Let_def)
    then show ?thesis using A1 by simp
  next
    case (Some t)
    note t = this
    have ac: "accept_token res ?r t ?co1 = (Inr (), co')"
      using run t key cnt up(1) by (simp add: process_item_def Let_def)
    have inv1: "sched_inv (co_scheduler ?co1)" using up(2) by simp
    have full: "rs_num_computed_tokens ?rs1 = length (all_token_ids ?rs1)"
      using item_for_full [OF it trust] map_of_Some_in_keys [OF t] by (simp add: all_token_ids_def)
    obtain ares sc1 where ap: "append_token (co_scheduler ?co1) ?r t (now ?co1) = (ares, sc1)" by fastforce
    note same = accept_token_ok(4) [OF inv1 rs1 full ac]
    from ac ap show ?thesis
    proof (cases rule: accept_token_cases)
      case (streamed ro)
      from append_token_continues [OF ap [unfolded streamed(2)] rs1] obtain rs' where
        rs': "co_scheduler co' = set_running (co_scheduler ?co1) ?r rs'"
          "rs_num_computed_tokens rs' = rs_num_computed_tokens rs + item_count it"
          "rs_prompt_token_ids rs' = rs_prompt_token_ids rs" "rs_sampling_params rs' = rs_sampling_params rs"
          "rs_output_token_ids rs' = rs_output_token_ids rs @ [t]"
        using streamed(3) by auto
      show ?thesis
      proof (rule all_R_one [OF A1 same])
        fix q bl
        assume "map_of (sc_running (co_scheduler co')) ?r = Some q"
          and bl: "kv_tbl (sc_cache_manager (co_scheduler co')) ?r = Some bl"
        then have "q = rs'" "kv_tbl (sc_cache_manager ?sc) ?r = Some bl"
          by (simp_all add: rs'(1) set_running_def update_conv')
        then show "R (kv_block_size (sc_cache_manager (co_scheduler ?co1))) bl q"
          unfolding cm1 using app [OF \<open>map_of (sc_running ?sc) ?r = Some rs\<close> _ t rs'(2-5)] by simp
      qed
    next
      case (finished ro rsn fres)
      from append_token_form [OF ap rs1] obtain rs' where sc1: "sc1 = set_running (co_scheduler ?co1) ?r rs'" .
      then have rs2: "map_of (sc_running sc1) ?r = Some rs'" by (simp add: set_running_def update_conv')
      note but = append_token_inv(1) [OF inv1 rs1 full ap]
      from finish_form [OF but rs2] obtain sc2 where
        f: "finish sc1 ?r = (Inr (Some rs'), sc2)" "active_ids sc2 = remove1 ?r (active_ids sc1)" by blast
      then have "map_of (sc_running (co_scheduler co')) ?r = None"
        using finished(2) removed_running [OF but f(2)] by simp
      then show ?thesis by (rule all_R_removed [OF A1 same])
    qed simp
  qed
qed

lemma all_R_process_items:
  assumes "sched_inv (co_scheduler co)" and "\<forall>it\<in>set its. item_live (co_scheduler co) it"
    and "distinct (map wi_request_id its)"
    and "\<forall>it\<in>set its. map_of (scheduled_counts out) (wi_request_id it) = Some (item_count it)"
    and "\<forall>it\<in>set its. wi_request_id it \<in> set (dict_keys (wr_sampled_token_ids res)) \<longrightarrow> wi_should_sample it"
    and "all_R (co_scheduler co)" and "kv_block_size (sc_cache_manager (co_scheduler co)) = b"
    and "\<forall>it\<in>set its. \<forall>rs bl. map_of (sc_running (co_scheduler co)) (wi_request_id it) = Some rs \<longrightarrow>
      kv_tbl (sc_cache_manager (co_scheduler co)) (wi_request_id it) = Some bl \<longrightarrow> G it rs bl"
    and adv: "\<And>it rs bl. G it rs bl \<Longrightarrow>
      R b bl (rs\<lparr>rs_num_computed_tokens := rs_num_computed_tokens rs + item_count it\<rparr>)"
    and app: "\<And>it rs bl t rs'. G it rs bl \<Longrightarrow> map_of (wr_sampled_token_ids res) (wi_request_id it) = Some t \<Longrightarrow>
      rs_num_computed_tokens rs' = rs_num_computed_tokens rs + item_count it \<Longrightarrow>
      rs_prompt_token_ids rs' = rs_prompt_token_ids rs \<Longrightarrow> rs_sampling_params rs' = rs_sampling_params rs \<Longrightarrow>
      rs_output_token_ids rs' = rs_output_token_ids rs @ [t] \<Longrightarrow> R b bl rs'"
    and "process_items out res its co = (Inr (), co')"
  shows "all_R (co_scheduler co')"
  using assms(1-8,11)
proof (induction its arbitrary: co)
  case (Cons it its)
  from Cons.prems(9) obtain co1 where p: "process_item out res it co = (Inr (), co1)"
    and rest: "process_items out res its co1 = (Inr (), co')" by (auto split: prod.splits sum.splits)
  have P: "item_live (co_scheduler co) it"
    "map_of (scheduled_counts out) (wi_request_id it) = Some (item_count it)"
    "wi_request_id it \<in> set (dict_keys (wr_sampled_token_ids res)) \<Longrightarrow> wi_should_sample it"
    using Cons.prems(2,4,5) by (simp, simp, metis list.set_intros(1))
  note A = process_item_ok [OF Cons.prems(1) P p]
  have G: "G it rs bl" if "map_of (sc_running (co_scheduler co)) (wi_request_id it) = Some rs"
    "kv_tbl (sc_cache_manager (co_scheduler co)) (wi_request_id it) = Some bl" for rs bl
    using Cons.prems(8) that by simp
  have all1: "all_R (co_scheduler co1)"
    by (rule all_R_process_item [OF Cons.prems(1) P Cons.prems(6) _ _ p])
      (use G adv app Cons.prems(7) in blast)+
  have live: "\<forall>it'\<in>set its. item_live (co_scheduler co1) it'"
    by (rule items_live_rest [OF Cons.prems(1) A(4)]) (use Cons.prems(2,3) in auto)
  have ne: "wi_request_id it' \<noteq> wi_request_id it" if "it' \<in> set its" for it'
    using that Cons.prems(3) by (metis distinct.simps(2) image_eqI list.set_map list.simps(9))
  have bs: "kv_block_size (sc_cache_manager (co_scheduler co1)) = b" using A(4) Cons.prems(7) by (simp add: others_same_def)
  have "\<forall>it'\<in>set its. \<forall>rs bl. map_of (sc_running (co_scheduler co1)) (wi_request_id it') = Some rs \<longrightarrow>
      kv_tbl (sc_cache_manager (co_scheduler co1)) (wi_request_id it') = Some bl \<longrightarrow> G it' rs bl"
    using Cons.prems(8) ne A(4) by (simp add: others_same_def)
  then show ?case using Cons.prems(3-5) A(2) live all1 bs rest by (intro Cons.IH) simp_all
qed simp

text \<open>A failed batch only removes requests.\<close>

lemma all_R_fail_items:
  assumes "sched_inv (co_scheduler co)" and "distinct (map wi_request_id its)"
    and "\<forall>it\<in>set its. wi_request_id it \<in> set (dict_keys (sc_running (co_scheduler co)))"
    and "all_R (co_scheduler co)"
  shows "\<exists>co'. fail_items err its co = (Inr (), co') \<and> all_R (co_scheduler co')"
  using assms
proof (induction its arbitrary: co)
  case (Cons it its)
  from fail_item_ok [OF Cons.prems(1-3)] obtain co1 where
    f: "fail_items err (it # its) co = fail_items err its co1" "sched_inv (co_scheduler co1)"
      "\<forall>i\<in>set its. wi_request_id i \<in> set (dict_keys (sc_running (co_scheduler co1)))"
      "others_same (wi_request_id it) (co_scheduler co) (co_scheduler co1)"
      "active_ids (co_scheduler co1) = remove1 (wi_request_id it) (active_ids (co_scheduler co))" by blast
  have "map_of (sc_running (co_scheduler co1)) (wi_request_id it) = None"
    using removed_running [of "{}"] Cons.prems(1) f(5) by blast
  then have "all_R (co_scheduler co1)" by (rule all_R_removed [OF Cons.prems(4) f(4)])
  then show ?case using f Cons.prems(2) Cons.IH [of co1] by simp
qed simp

end

end
