(* ===== verification/EngineCore_Work.thy ===== *)
theory EngineCore_Work
  imports Serving
begin

text \<open>
  Termination of the engine's work: a measure on the scheduler that every batch decreases and only add
  commands increase, and the bound on the number of batches of a run that follows.
\<close>

section \<open>The work that is left\<close>

text \<open>
  A waiting request may still have as many tokens computed as its context can hold, a running one those
  that are not computed yet.
\<close>

definition cost :: "scheduler \<Rightarrow> string \<Rightarrow> int" where
  "cost sc r = (case map_of (sc_running sc) r of
     None \<Rightarrow> context_limit (sc_config sc)
   | Some rs \<Rightarrow> context_limit (sc_config sc) - int (rs_num_computed_tokens rs))"

definition work :: "scheduler \<Rightarrow> int" where
  "work sc = (\<Sum>r\<in>set (active_ids sc). cost sc r)"

lemma context_limit_pos: "sched_inv_but X sc \<Longrightarrow> 0 < context_limit (sc_config sc)"
  using sched_inv_butD(1) by (auto simp: valid_config_def context_limit_def)

lemma cost_pos:
  assumes "sched_inv sc"
  shows "0 < cost sc r"
proof (cases "map_of (sc_running sc) r")
  case None
  then show ?thesis using context_limit_pos [OF assms] by (simp add: cost_def)
next
  case (Some rs)
  then have "req_ok (sc_config sc) (sc_cache_manager sc) rs" using sched_inv_butD(12) [OF assms Some] by simp
  then show ?thesis using Some by (simp add: cost_def req_ok_def)
qed

lemma work_nonneg: "sched_inv sc \<Longrightarrow> 0 \<le> work sc"
  unfolding work_def using cost_pos by (intro sum_nonneg) (simp add: less_imp_le)

lemma work_pos: "sched_inv sc \<Longrightarrow> r \<in> set (active_ids sc) \<Longrightarrow> 0 < work sc"
  unfolding work_def using cost_pos by (intro sum_pos) auto

lemma cost_others:
  "others_same r sc sc' \<Longrightarrow> sc_config sc' = sc_config sc \<Longrightarrow> q \<noteq> r \<Longrightarrow> cost sc' q = cost sc q"
  by (simp add: cost_def others_same_def split: option.split)

lemma work_removed:
  assumes inv: "sched_inv sc" and ids: "active_ids sc' = remove1 r (active_ids sc)"
    and same: "others_same r sc sc'" "sc_config sc' = sc_config sc"
  shows "work sc' = work sc - (if r \<in> set (active_ids sc) then cost sc r else 0)"
proof -
  have "set (active_ids sc') = set (active_ids sc) - {r}"
    using ids distinct_active_ids [OF inv] by simp
  then have "work sc' = (\<Sum>q\<in>set (active_ids sc) - {r}. cost sc q)"
    unfolding work_def using cost_others [OF same] by (intro sum.cong) auto
  then show ?thesis by (simp add: work_def sum_diff1)
qed

lemma work_updated:
  assumes ids: "active_ids sc' = active_ids sc" and r: "r \<in> set (active_ids sc)"
    and same: "others_same r sc sc'" "sc_config sc' = sc_config sc"
  shows "work sc' = work sc - cost sc r + cost sc' r"
proof -
  have "work sc' = cost sc' r + (\<Sum>q\<in>set (active_ids sc) - {r}. cost sc' q)"
    unfolding work_def ids using r by (intro sum.remove) auto
  also have "(\<Sum>q\<in>set (active_ids sc) - {r}. cost sc' q) = (\<Sum>q\<in>set (active_ids sc) - {r}. cost sc q)"
    using cost_others [OF same] by (intro sum.cong) auto
  also have "\<dots> = work sc - cost sc r" using r by (simp add: work_def sum_diff1)
  finally show ?thesis by simp
qed

section \<open>Every round does some of it\<close>

lemma process_item_work:
  assumes inv: "sched_inv (co_scheduler co)" and live: "item_live (co_scheduler co) it"
    and cnt: "map_of (scheduled_counts out) (wi_request_id it) = Some (item_count it)"
    and trust: "wi_request_id it \<in> set (dict_keys (wr_sampled_token_ids res)) \<Longrightarrow> wi_should_sample it"
    and run: "process_item out res it co = (Inr (), co')"
  shows "work (co_scheduler co') \<le> work (co_scheduler co)"
    and "map_of (sc_running (co_scheduler co)) (wi_request_id it) = Some rs \<Longrightarrow>
      work (co_scheduler co') < work (co_scheduler co)"
proof -
  let ?r = "wi_request_id it" and ?sc = "co_scheduler co"
  show less: "work (co_scheduler co') < work ?sc" if rs: "map_of (sc_running ?sc) ?r = Some rs" for rs
  proof -
    have key: "?r \<in> set (dict_keys (sc_running ?sc))" using rs by (rule map_of_Some_in_keys)
    then have act: "?r \<in> set (active_ids ?sc)" by (simp add: active_ids_def)
    have it: "item_for (sc_cache_manager ?sc) rs it" using live rs by (simp add: item_live_def)
    let ?rs1 = "rs\<lparr>rs_num_computed_tokens := rs_num_computed_tokens rs + item_count it\<rparr>"
    let ?co1 = "co\<lparr>co_scheduler := set_running ?sc ?r ?rs1\<rparr>"
    note up = update_computed_ok [OF inv rs it]
    have rs1: "map_of (sc_running (co_scheduler ?co1)) ?r = Some ?rs1" by (simp add: set_running_def update_conv')
    have pos: "0 < item_count it" using it by (elim item_forE) simp
    note same1 = others_same_set_running [of ?r ?sc ?rs1]
    have ids1: "active_ids (co_scheduler ?co1) = active_ids ?sc" by (simp add: active_ids_set_running [OF key])
    have inv1: "sched_inv (co_scheduler ?co1)" using up(2) by simp
    have w1: "work (co_scheduler ?co1) < work ?sc"
      using work_updated [of "co_scheduler ?co1" ?sc ?r] ids1 act same1 rs pos
      by (simp add: cost_def set_running_def update_conv')
    show ?thesis
    proof (cases "map_of (wr_sampled_token_ids res) ?r")
      case None
      then have "co' = ?co1" using run key cnt up(1) by (simp add: process_item_def Let_def)
      then show ?thesis using w1 by simp
    next
      case (Some t)
      have ac: "accept_token res ?r t ?co1 = (Inr (), co')"
        using run Some key cnt up(1) by (simp add: process_item_def Let_def)
      have full: "rs_num_computed_tokens ?rs1 = length (all_token_ids ?rs1)"
        using item_for_full [OF it trust] map_of_Some_in_keys [OF Some] by (simp add: all_token_ids_def)
      obtain ares sc1 where ap: "append_token (co_scheduler ?co1) ?r t (now ?co1) = (ares, sc1)" by fastforce
      note A = accept_token_ok [OF inv1 rs1 full ac]
      have cfg: "sc_config (co_scheduler co') = sc_config (co_scheduler ?co1)" using A(3) by (simp add: core_frame_def)
      from append_token_form [OF ap rs1] obtain rs' where sc1: "sc1 = set_running (co_scheduler ?co1) ?r rs'" .
      have key1: "?r \<in> set (dict_keys (sc_running (co_scheduler ?co1)))" using rs1 by (rule map_of_Some_in_keys)
      have ids2: "active_ids sc1 = active_ids (co_scheduler ?co1)" unfolding sc1 by (rule active_ids_set_running [OF key1])
      have act1: "?r \<in> set (active_ids (co_scheduler ?co1))" using act ids1 by simp
      have "work (co_scheduler co') \<le> work (co_scheduler ?co1)"
        using ac ap
      proof (cases rule: accept_token_cases)
        case (streamed ro)
        from append_token_continues [OF ap [unfolded streamed(2)] rs1] obtain rs2 where
          rs2: "co_scheduler co' = set_running (co_scheduler ?co1) ?r rs2"
            "rs_num_computed_tokens rs2 = rs_num_computed_tokens ?rs1" using streamed(3) by auto
        have ids: "active_ids (co_scheduler co') = active_ids (co_scheduler ?co1)" using ids2 streamed(3) by simp
        have "cost (co_scheduler co') ?r = cost (co_scheduler ?co1) ?r"
          using rs2 rs1 cfg by (simp add: cost_def) (simp add: set_running_def update_conv')
        then show ?thesis using work_updated [OF ids act1 A(4) cfg] by simp
      next
        case (finished ro rsn fres)
        have rs2: "map_of (sc_running sc1) ?r = Some rs'" by (simp add: sc1 set_running_def update_conv')
        from finish_form [OF append_token_inv(1) [OF inv1 rs1 full ap] rs2] obtain sc2 where
          "finish sc1 ?r = (Inr (Some rs'), sc2)" "active_ids sc2 = remove1 ?r (active_ids sc1)" by blast
        then have "active_ids (co_scheduler co') = remove1 ?r (active_ids (co_scheduler ?co1))"
          using finished(2) ids2 by simp
        from work_removed [OF inv1 this A(4) cfg] act1 cost_pos [OF inv1, of ?r] show ?thesis by simp
      qed simp
      with w1 show ?thesis by simp
    qed
  qed
  show "work (co_scheduler co') \<le> work ?sc"
  proof (cases "map_of (sc_running ?sc) ?r")
    case None
    then have "?r \<notin> set (dict_keys (sc_running ?sc))" using map_of_None_iff by metis
    then show ?thesis using run by (simp add: process_item_def Let_def)
  next
    case (Some rs)
    then show ?thesis using less by fastforce
  qed
qed

lemma process_items_work:
  assumes "sched_inv (co_scheduler co)" and "\<forall>it\<in>set its. item_live (co_scheduler co) it"
    and "distinct (map wi_request_id its)"
    and "\<forall>it\<in>set its. map_of (scheduled_counts out) (wi_request_id it) = Some (item_count it)"
    and "\<forall>it\<in>set its. wi_request_id it \<in> set (dict_keys (wr_sampled_token_ids res)) \<longrightarrow> wi_should_sample it"
    and "process_items out res its co = (Inr (), co')"
  shows "work (co_scheduler co') \<le> work (co_scheduler co) \<and>
    (its \<noteq> [] \<and> wi_request_id (hd its) \<in> set (dict_keys (sc_running (co_scheduler co))) \<longrightarrow>
      work (co_scheduler co') < work (co_scheduler co))"
  using assms
proof (induction its arbitrary: co)
  case (Cons it its)
  obtain co1 where p: "process_item out res it co = (Inr (), co1)" and rest: "process_items out res its co1 = (Inr (), co')"
    using Cons.prems(6) by (auto split: prod.splits sum.splits)
  have P: "item_live (co_scheduler co) it"
    "map_of (scheduled_counts out) (wi_request_id it) = Some (item_count it)"
    "wi_request_id it \<in> set (dict_keys (wr_sampled_token_ids res)) \<Longrightarrow> wi_should_sample it"
    using Cons.prems(2,4,5) by (simp, simp, metis list.set_intros(1))
  note A = process_item_ok [OF Cons.prems(1) _ _ _ p] and W = process_item_work [OF Cons.prems(1) _ _ _ p]
  have "\<forall>it'\<in>set its. item_live (co_scheduler co1) it'"
    by (rule items_live_rest [OF Cons.prems(1) A(4) [OF P]]) (use Cons.prems(2,3) in auto)
  then have "work (co_scheduler co') \<le> work (co_scheduler co1)"
    using Cons.IH [OF A(2) [OF P refl] _ _ _ _ rest] Cons.prems(3-5) by simp
  moreover have "work (co_scheduler co1) < work (co_scheduler co)"
    if "wi_request_id it \<in> set (dict_keys (sc_running (co_scheduler co)))"
    using that W(2) [OF P] by (metis map_of_None_iff not_None_eq)
  ultimately show ?case using W(1) [OF P] by fastforce
qed simp

lemma fail_items_work:
  assumes "sched_inv (co_scheduler co)" and "distinct (map wi_request_id its)"
    and "\<forall>it\<in>set its. wi_request_id it \<in> set (dict_keys (sc_running (co_scheduler co)))"
    and "fail_items err its co = (Inr (), co')"
  shows "work (co_scheduler co') \<le> work (co_scheduler co) \<and> (its \<noteq> [] \<longrightarrow> work (co_scheduler co') < work (co_scheduler co))"
  using assms
proof (induction its arbitrary: co)
  case (Cons it its)
  from fail_item_ok [OF Cons.prems(1-3)] obtain co1 where
    f: "fail_items err (it # its) co = fail_items err its co1" "sched_inv (co_scheduler co1)"
      "\<forall>i\<in>set its. wi_request_id i \<in> set (dict_keys (sc_running (co_scheduler co1)))" "core_frame co co1"
      "others_same (wi_request_id it) (co_scheduler co) (co_scheduler co1)"
      "active_ids (co_scheduler co1) = remove1 (wi_request_id it) (active_ids (co_scheduler co))" by blast
  have "wi_request_id it \<in> set (active_ids (co_scheduler co))" using Cons.prems(3) by (simp add: active_ids_def)
  moreover have "sc_config (co_scheduler co1) = sc_config (co_scheduler co)" using f(4) by (simp add: core_frame_def)
  ultimately have "work (co_scheduler co1) < work (co_scheduler co)"
    using work_removed [OF Cons.prems(1) f(6,5)] cost_pos [OF Cons.prems(1)] by simp
  moreover have "work (co_scheduler co') \<le> work (co_scheduler co1)"
    using Cons.IH [OF f(2) _ f(3)] Cons.prems(2,4) f(1) by simp
  ultimately show ?case by simp
qed simp

lemma process_result_work:
  assumes inv: "sched_inv (co_scheduler co)" and its: "items_ok (co_scheduler co) its" and ne: "its \<noteq> []"
    and out: "out = schedule_of its" and tr: "trusted its res"
    and run: "process_result out res co = (Inr (), co')"
  shows "work (co_scheduler co') < work (co_scheduler co)"
proof -
  let ?co1 = "case wr_metrics res of None \<Rightarrow> co | Some bm \<Rightarrow> put_output co (EvMetrics bm)"
  have sc: "co_scheduler ?co1 = co_scheduler co" by (simp add: put_output_def split: option.split)
  note H = items_ok_facts [OF its out tr]
  have items: "map_of (by_rank out) (Some (wr_rank res)) = Some its"
    using run by (auto simp: process_result_def Let_def out schedule_of_def split: option.splits if_splits)
  have hd: "wi_request_id (hd its) \<in> set (dict_keys (sc_running (co_scheduler co)))" using H(2) ne by simp
  have F: "work (co_scheduler co') < work (co_scheduler co)" if "fail_items err its ?co1 = (Inr (), co')" for err
    using fail_items_work [OF _ H(1) _ that] inv H(2) ne by (simp add: sc)
  have P: "work (co_scheduler co') < work (co_scheduler co)"
    if "wr_error res = None \<or> wr_error res = Some []" "process_items out res its ?co1 = (Inr (), co')"
    using process_items_work [OF _ _ H(1,4) H(5) [OF that(1)] that(2)] inv H(3) hd ne by (simp add: sc)
  show ?thesis
    using run items F P by (auto simp: process_result_def Let_def split: option.splits if_splits)
qed

section \<open>Commands bring work\<close>

definition is_add_command :: "engine_command \<Rightarrow> bool" where
  "is_add_command c \<longleftrightarrow> ec_type c = ADD \<and> ec_request c \<noteq> None"

abbreviation adds :: "engine_command list \<Rightarrow> int" where
  "adds cs \<equiv> int (length (filter is_add_command cs))"

lemma handle_command_work:
  assumes inv: "sched_inv (co_scheduler co)" and c: "valid_command c"
    and run: "core_handle_command co c = (Inr (), co')"
  shows "work (co_scheduler co') \<le> work (co_scheduler co) + (if is_add_command c then context_limit (sc_config (co_scheduler co)) else 0)"
proof -
  let ?sc = "co_scheduler co"
  note L = context_limit_pos [OF inv]
  have add: ?thesis if q: "ec_type c = ADD" "ec_request c = Some q" for q
  proof -
    obtain res sc where a: "add_request ?sc q (now co) = (res, sc)" by fastforce
    note act = add_request_active [OF a]
    have sc: "co_scheduler co' = sc"
      using run q a by (auto simp: core_handle_command_def emit_error_def put_output_def tick_def split: sum.splits)
    show ?thesis
    proof (cases res)
      case (Inl e)
      then show ?thesis using act L sc q by (simp add: is_add_command_def)
    next
      case (Inr u)
      have ids: "active_ids sc = active_ids ?sc @ [er_request_id q]" using act Inr by simp
      have "sched_inv sc" using add_request_inv [OF inv, of q "now co"] c q a by (simp add: valid_command_def)
      then have new: "er_request_id q \<notin> set (active_ids ?sc)" using distinct_active_ids [of "{}" sc] ids by simp
      have "sc_running sc = sc_running ?sc" using a Inr by (auto simp: add_request_def split: if_splits)
      then have same: "cost sc r = cost ?sc r" for r using act by (simp add: cost_def split: option.split)
      have "cost ?sc (er_request_id q) = context_limit (sc_config ?sc)"
        using new by (auto simp: cost_def active_ids_def split: option.split dest: map_of_Some_in_keys)
      then have "work sc = work ?sc + context_limit (sc_config ?sc)"
        using new by (simp add: work_def ids same)
      then show ?thesis using sc q by (simp add: is_add_command_def)
    qed
  qed
  have abort: ?thesis if r: "ec_type c = ABORT_CMD" "ec_request_id c = Some r" for r
  proof -
    obtain sc where a: "abort ?sc r = (Inr (r \<in> set (active_ids ?sc)), sc)" "active_ids sc = remove1 r (active_ids ?sc)"
      using abort_ok [OF inv, of r] by metis
    have sc: "co_scheduler co' = sc" using run r a(1) by (auto simp: core_handle_command_def put_output_def split: if_splits)
    note O = abort_others [OF inv a(1)]
    from work_removed [OF inv a(2) O(1,5)] cost_pos [OF inv, of r] have "work sc \<le> work ?sc" by (simp split: if_splits)
    then show ?thesis using sc L by simp
  qed
  have other: "co_scheduler co' = ?sc"
    if "ec_type c = SHUTDOWN \<or> ec_type c = ADD \<and> ec_request c = None \<or> ec_type c = ABORT_CMD \<and> ec_request_id c = None"
    using that run by (auto simp: core_handle_command_def)
  show ?thesis using add abort other L
    by (cases "ec_type c"; cases "ec_request c"; cases "ec_request_id c") fastforce+
qed

lemma drain_loop_work:
  assumes "sched_inv (co_scheduler co)" and "\<forall>c\<in>set cs. valid_command c" and "drain_loop cs co = (Inr (), co')"
  shows "work (co_scheduler co') \<le> work (co_scheduler co) + context_limit (sc_config (co_scheduler co)) * adds cs"
  using assms
proof (induction cs arbitrary: co)
  case (Cons c cs)
  let ?co = "co\<lparr>co_command_queue := cs\<rparr>"
  have inv: "sched_inv (co_scheduler ?co)" and c: "valid_command c" using Cons.prems(1,2) by simp_all
  from handle_command_ok [OF this] obtain co1 where
    h: "core_handle_command ?co c = (Inr (), co1)" "sched_inv (co_scheduler co1)" "core_frame ?co co1" by metis
  have "drain_loop cs co1 = (Inr (), co')" using Cons.prems(3) h(1) by simp
  from Cons.IH [OF h(2) _ this] Cons.prems(2) handle_command_work [OF inv c h(1)] h(3)
  show ?case by (simp add: core_frame_def algebra_simps split: if_splits)
qed auto

section \<open>Batches are paid for\<close>

text \<open>
  The batches dispatched so far and the work that is left; a batch whose results are not processed yet is
  already counted, and is paid for when they are.
\<close>

fun account :: "core_state \<Rightarrow> int" where
  "account (co, AtHead) = co_batch_id co + work (co_scheduler co) + context_limit (co_config co) * adds (co_command_queue co)"
| "account (co, Collecting out results) =
     co_batch_id co - 1 + work (co_scheduler co) + context_limit (co_config co) * adds (co_command_queue co)"
| "account (co, Stopped) = co_batch_id co"
| "account (co, Failed) = co_batch_id co"

lemma schedule_work:
  assumes inv: "sched_inv sc" and run: "schedule sc = (Inr out, sc')"
  shows "work sc' = work sc"
proof -
  from inv run obtain cfg: "sc_config sc' = sc_config sc" and ids: "mset (active_ids sc') = mset (active_ids sc)"
    and adm: "\<exists>adm. sc_running sc' = sc_running sc @ adm" by (rule schedule_itemsE)
  have "cost sc' r = cost sc r" for r
  proof (cases "map_of (sc_running sc') r")
    case None
    then have "map_of (sc_running sc) r = None" using adm by (auto simp: map_add_None)
    then show ?thesis using None by (simp add: cost_def cfg)
  next
    case (Some rs)
    from schedule_new [OF inv run Some] Some show ?thesis by (auto simp: cost_def cfg)
  qed
  then show ?thesis unfolding work_def using mset_eq_setD [OF ids] by simp
qed

lemma dispatch_schedule_work:
  assumes "sched_inv (co_scheduler co)" and "dispatch_schedule co = (Inr out, co')"
  shows "work (co_scheduler co') = work (co_scheduler co)"
proof -
  obtain out0 sc where "schedule (co_scheduler co) = (Inr out0, sc)" using schedule_ok [OF assms(1)] by metis
  with assms(2) schedule_work [OF assms(1) this] show ?thesis
    by (auto simp: dispatch_schedule_def Let_def split: if_splits prod.splits sum.splits)
qed

lemma account_head:
  assumes base: "core_base co" and inv: "sched_inv (co_scheduler co)"
  shows "account (core_head co) \<le> account (co, AtHead) \<and> co_config (fst (core_head co)) = co_config co"
proof (cases "co_shutdown co")
  case True
  have "0 \<le> context_limit (co_config co) * adds (co_command_queue co)"
    using base context_limit_pos [OF inv] by (simp add: core_base_def)
  then show ?thesis using True work_nonneg [OF inv] by (simp add: core_head_def core_finally_def)
next
  case False
  have v: "\<forall>c\<in>set (co_command_queue co). valid_command c" using base by (simp add: core_base_def)
  from drain_commands_ok [OF inv v] obtain co1 where
    d: "drain_commands co (\<not> has_requests (co_scheduler co)) = (Inr (), co1)"
      "sched_inv (co_scheduler co1)" "core_frame (co\<lparr>co_command_queue := []\<rparr>) co1" by metis
  have w: "work (co_scheduler co1) \<le> work (co_scheduler co) + context_limit (co_config co) * adds (co_command_queue co)"
    using drain_loop_work [OF inv v] d(1) drain_commands_eq [OF inv v] base by (simp add: core_base_def)
  have fr: "co_batch_id co1 = co_batch_id co" "co_command_queue co1 = []" "co_config co1 = co_config co"
    using d(3) by (simp_all add: core_frame_def)
  show ?thesis
  proof (cases "co_shutdown co1")
    case True
    then show ?thesis using False d w fr work_nonneg [OF d(2)] by (simp add: core_head_def core_finally_def)
  next
    case go: False
    have base1: "core_base co1"
      by (rule core_base_frame [OF _ d(3)]) (use base in \<open>simp add: core_base_def\<close>)
    obtain q qs where qs: "co_worker_queues co1 = q # qs"
      using base1 by (cases "co_worker_queues co1") (auto simp: core_base_def)
    from d(2) qs show ?thesis
    proof (cases rule: dispatch_schedule_ok)
      case (idle co2)
      then show ?thesis using False go d w fr dispatch_schedule_work [OF d(2) idle(1)]
        by (simp add: core_head_def core_frame_def)
    next
      case (batch its co2)
      then show ?thesis using False go d w fr dispatch_schedule_work [OF d(2) batch(1)]
        by (simp add: core_head_def core_frame_def)
    qed
  qed
qed

lemma account_fail: "account (core_fail e co) = co_batch_id co" "co_config (fst (core_fail e co)) = co_config co"
  by (simp_all add: core_fail_def core_finally_def fold_emit_error)

lemma collecting_work:
  assumes inv: "sched_inv (co_scheduler co)" and col: "collecting_ok co out results"
  shows "0 < work (co_scheduler co)"
proof -
  obtain its where its: "items_ok (co_scheduler co) its" "its \<noteq> []"
    using col unfolding collecting_ok_def by blast
  from its(1,2) obtain rs where "map_of (sc_running (co_scheduler co)) (wi_request_id (hd its)) = Some rs"
    unfolding items_ok_def by (meson list.set_sel(1))
  from map_of_Some_in_keys [OF this] have "wi_request_id (hd its) \<in> set (active_ids (co_scheduler co))"
    by (simp add: active_ids_def)
  from work_pos [OF inv this] show ?thesis .
qed

lemma account_collect:
  assumes base: "core_base co" and inv: "sched_inv (co_scheduler co)" and col: "collecting_ok co out results"
  shows "account (core_collect co out results) \<le> account (co, Collecting out results) \<and>
    co_config (fst (core_collect co out results)) = co_config co"
proof -
  have L: "0 \<le> context_limit (co_config co) * adds (co_command_queue co)"
    using base context_limit_pos [OF inv] by (simp add: core_base_def)
  obtain its where its: "items_ok (co_scheduler co) its" "its \<noteq> []" "out = schedule_of its" "its = schedule_items out"
    using col unfolding collecting_ok_def by blast
  have w: "0 < work (co_scheduler co)" by (rule collecting_work [OF inv col])
  show ?thesis
  proof (cases "length results < length (by_rank out)")
    case True
    then show ?thesis using w L by (auto simp: core_collect_def Let_def account_fail split: list.split)
  next
    case False
    from collected_one [OF col False] obtain k r where res: "results = [(k, r)]" "trusted its r" using its(4) by metis
    obtain o' co1 where p: "process_result out r co = (o', co1)" by fastforce
    from process_result_ok [OF inv its(1,3) res(2)] p have fr: "core_frame co co1" by (simp add: outcome_ok_def)
    have "work (co_scheduler co1) < work (co_scheduler co)" if "o' = Inr ()"
      using process_result_work [OF inv its(1,2,3) res(2)] p that by simp
    then show ?thesis
      using False res(1) p fr w L by (cases o') (simp_all add: core_collect_def account_fail core_frame_def)
  qed
qed

lemma account_step:
  assumes "core_inv s" and "co_config (fst s) = config" and "0 < context_limit config"
  shows "account (core_step e s) \<le> account s + context_limit config * adds (arrived [e])"
    and "co_config (fst (core_step e s)) = config"
proof -
  obtain co ph where s: "s = (co, ph)" by (cases s)
  have "account (core_step e s) \<le> account s + context_limit config * adds (arrived [e]) \<and>
    co_config (fst (core_step e s)) = config"
  proof (cases e)
    case (Arrive c)
    then show ?thesis using assms(2,3) s by (cases ph) (auto simp: algebra_simps)
  next
    case (Deliver w)
    then show ?thesis using assms(2) s by (cases ph) auto
  next
    case Turn
    then show ?thesis using assms s account_head account_collect by (cases ph) auto
  qed
  then show "account (core_step e s) \<le> account s + context_limit config * adds (arrived [e])"
    "co_config (fst (core_step e s)) = config" by blast+
qed

lemma account_run:
  assumes "core_inv s" and "core.admissible es s" and "co_config (fst s) = config" and "0 < context_limit config"
  shows "account (fold core_step es s) \<le> account s + context_limit config * adds (arrived es)"
  using assms
proof (induction es arbitrary: s)
  case (Cons e es)
  have "core_inv (core_step e s)" "core.admissible es (core_step e s)" using Cons.prems(1,2) core.step_inv by simp_all
  note IH = Cons.IH [OF this account_step(2) [OF Cons.prems(1,3,4)] Cons.prems(4)]
  have "adds (arrived (e # es)) = adds (arrived [e]) + adds (arrived es)" by (cases e) simp_all
  then show ?case using IH account_step(1) [OF Cons.prems(1,3,4), of e] by (simp add: algebra_simps)
qed simp

lemma account_batches:
  assumes "core_inv (co, ph)"
  shows "co_batch_id co \<le> account (co, ph)"
proof (cases ph)
  case AtHead
  then have b: "core_base co" and i: "sched_inv (co_scheduler co)" using assms by simp_all
  have "0 \<le> context_limit (co_config co) * adds (co_command_queue co)"
    using b context_limit_pos [OF i] by (simp add: core_base_def)
  then show ?thesis using work_nonneg [OF i] AtHead by simp
next
  case (Collecting out results)
  then have b: "core_base co" and i: "sched_inv (co_scheduler co)" and c: "collecting_ok co out results" using assms by simp_all
  have "0 \<le> context_limit (co_config co) * adds (co_command_queue co)"
    using b context_limit_pos [OF i] by (simp add: core_base_def)
  then show ?thesis using collecting_work [OF i c] Collecting by simp
qed simp_all



end
