(* ===== verification/EngineWorker.thy ===== *)
theory EngineWorker
  imports EngineCore_Stream Rounds
begin

text \<open>
  An engine core together with its worker: commands arrive, and the two processes take turns in any
  order, connected by the worker queue and the result queue.  The worker's state is arbitrary.  The
  locale \<open>engine_worker\<close> states what the pair relies on: a property of the scheduler and the worker
  that commands, scheduling, the execution of a batch and the processing of its answer keep.  It
  gives the protocol between the two: at most one batch is under way, and its answer belongs to it.
\<close>

section \<open>The system\<close>

record 's system =
  sy_core :: core_state
  sy_worker :: "'s worker"
  sy_alive :: bool

datatype sys_event = Submit engine_command | CoreTurn | WorkerTurn real

text \<open>The worker reads one command of its queue, executes it in time \<open>t\<close> and answers.\<close>

definition worker_turn :: "real \<Rightarrow> 's system \<Rightarrow> 's system" where
  "worker_turn t s =
     (case sy_core s of (co, ph) \<Rightarrow>
        (case co_worker_queues co of
           (c # q) # qs \<Rightarrow>
             if sy_alive s
             then (case worker_loop (sy_worker s) [(c, t)] of
                     (results, wk, alive) \<Rightarrow>
                       \<lparr>sy_core = (co\<lparr>co_worker_queues := q # qs,
                                     co_result_queue := co_result_queue co @ results\<rparr>, ph),
                        sy_worker = wk, sy_alive = alive\<rparr>)
             else s
         | _ \<Rightarrow> s))"

fun sys_step :: "sys_event \<Rightarrow> 's system \<Rightarrow> 's system" where
  "sys_step (Submit c) s = s\<lparr>sy_core := core_step (Arrive c) (sy_core s)\<rparr>"
| "sys_step CoreTurn s = s\<lparr>sy_core := core_turn (sy_core s)\<rparr>"
| "sys_step (WorkerTurn t) s = worker_turn t s"

text \<open>The commands that arrive satisfy \<open>C\<close>.\<close>

fun sys_event_ok :: "(engine_command \<Rightarrow> bool) \<Rightarrow> sys_event \<Rightarrow> 's system \<Rightarrow> bool" where
  "sys_event_ok C (Submit c) s = (valid_command c \<and> C c)"
| "sys_event_ok C _ s = True"

definition sys_run_ok :: "(engine_command \<Rightarrow> bool) \<Rightarrow> sys_event list \<Rightarrow> bool" where
  "sys_run_ok C es \<longleftrightarrow> (\<forall>c. Submit c \<in> set es \<longrightarrow> valid_command c \<and> C c)"

text \<open>An engine core and its worker, started from one configuration.\<close>

definition system_init ::
    "hf_env \<Rightarrow> (nat \<Rightarrow> real) \<Rightarrow> (engine_config \<Rightarrow> exn + 's model_runner \<times> 's) \<Rightarrow> engine_config \<Rightarrow> exn + 's system" where
  "system_init env clock create config =
     (case engine_core_init env clock config of Inl e \<Rightarrow> Inl e
      | Inr co \<Rightarrow>
     (case worker_init create 0 config of
        Inl w \<Rightarrow> Inl (RuntimeError (case wr_error w of None \<Rightarrow> [] | Some m \<Rightarrow> m))
      | Inr wk \<Rightarrow> Inr \<lparr>sy_core = (co, AtHead), sy_worker = wk, sy_alive = True\<rparr>))"

section \<open>The contract of the pair\<close>

text \<open>
  \<open>W\<close> relates the scheduler to the worker, \<open>C\<close> restricts the commands, \<open>A\<close> describes the worker's
  answer to a batch, \<open>F\<close> the exceptions that processing an answer may raise.
\<close>

definition same_setup :: "scheduler \<Rightarrow> scheduler \<Rightarrow> bool" where
  "same_setup sc sc' \<longleftrightarrow> sc_config sc' = sc_config sc \<and> sc_tokenizer sc' = sc_tokenizer sc"

locale engine_worker =
  fixes W :: "scheduler \<Rightarrow> 's worker \<Rightarrow> bool"
    and C :: "engine_command \<Rightarrow> bool"
    and A :: "scheduler \<Rightarrow> 's worker \<Rightarrow> worker_item list \<Rightarrow> worker_result \<Rightarrow> bool"
    and F :: "exn \<Rightarrow> bool"
  assumes W_drain: "W (co_scheduler co) wk \<Longrightarrow> sched_inv (co_scheduler co) \<Longrightarrow>
      \<forall>c\<in>set cs. valid_command c \<Longrightarrow> \<forall>c\<in>set cs. C c \<Longrightarrow> drain_loop cs co = (Inr (), co') \<Longrightarrow>
      same_setup (co_scheduler co) (co_scheduler co') \<Longrightarrow> W (co_scheduler co') wk"
    and W_schedule: "W sc wk \<Longrightarrow> sched_inv sc \<Longrightarrow> schedule sc = (Inr out, sc') \<Longrightarrow> same_setup sc sc' \<Longrightarrow> W sc' wk"
    and W_execute: "W sc wk \<Longrightarrow> sched_inv sc \<Longrightarrow> items_ok sc its \<Longrightarrow> its \<noteq> [] \<Longrightarrow>
      \<exists>w wk'. worker_execute wk \<lparr>wb_batch_id = bid, wb_items = its\<rparr> t = (w, wk') \<and> W sc wk' \<and> A sc wk' its w \<and>
        wr_batch_id w = bid \<and> wr_rank w = 0 \<and> trusted its w"
    and W_process: "W (co_scheduler co) wk \<Longrightarrow> sched_inv (co_scheduler co) \<Longrightarrow>
      co_tokenizer co = sc_tokenizer (co_scheduler co) \<Longrightarrow> items_ok (co_scheduler co) its \<Longrightarrow> its \<noteq> [] \<Longrightarrow>
      A (co_scheduler co) wk its w \<Longrightarrow> wr_rank w = 0 \<Longrightarrow> trusted its w \<Longrightarrow>
      process_result (schedule_of its) w co = (res, co') \<Longrightarrow> same_setup (co_scheduler co) (co_scheduler co') \<Longrightarrow>
      (res = Inr () \<and> W (co_scheduler co') wk) \<or> (\<exists>e. res = Inl e \<and> F e)"
begin

lemma frame_setup: "core_frame co co' \<Longrightarrow> same_setup (co_scheduler co) (co_scheduler co')"
  by (simp add: same_setup_def core_frame_def)

lemma dispatch_W:
  assumes W: "W (co_scheduler co) wk" and inv: "sched_inv (co_scheduler co)"
    and run: "dispatch_schedule co = (Inr out, co')"
  shows "W (co_scheduler co') wk"
proof -
  from schedule_ok [OF inv] obtain its sc where
    s: "schedule (co_scheduler co) = (Inr (schedule_of its), sc)" "same_setup (co_scheduler co) sc"
    unfolding same_setup_def by metis
  then have "co_scheduler co' = sc"
    using run by (auto simp: dispatch_schedule_def Let_def split: prod.splits sum.splits if_splits)
  then show ?thesis using W_schedule [OF W inv s] by simp
qed

definition base :: "engine_core \<Rightarrow> 's worker \<Rightarrow> bool" where
  "base co wk \<longleftrightarrow> 0 \<le> co_batch_id co \<and> (\<forall>c\<in>set (co_command_queue co). C c) \<and> W (co_scheduler co) wk"

definition answered :: "engine_core \<Rightarrow> 's worker \<Rightarrow> worker_item list \<Rightarrow> worker_result \<Rightarrow> bool" where
  "answered co wk its w \<longleftrightarrow> hd (co_worker_queues co) = [] \<and> wr_batch_id w = co_batch_id co \<and> wr_rank w = 0 \<and>
     trusted its w \<and> A (co_scheduler co) wk its w"

text \<open>The batch is in the worker's queue, or its answer in the result queue, or it is collected.\<close>

definition sent_ok ::
    "engine_core \<Rightarrow> 's worker \<Rightarrow> worker_item list \<Rightarrow> (int, worker_result) dict \<Rightarrow> bool" where
  "sent_ok co wk its results \<longleftrightarrow>
     (results = [] \<and> co_result_queue co = [] \<and> hd (co_worker_queues co) =
        [\<lparr>wc_batch = Some \<lparr>wb_batch_id = co_batch_id co, wb_items = its\<rparr>, wc_shutdown = False\<rparr>]) \<or>
     (\<exists>w. answered co wk its w \<and>
        (results = [] \<and> co_result_queue co = [w] \<or> results = [(0, w)] \<and> co_result_queue co = []))"

text \<open>No batch is under way when the core has stopped.\<close>

definition idle :: "engine_core \<Rightarrow> bool" where
  "idle co \<longleftrightarrow> co_result_queue co = [] \<and> (\<forall>c\<in>set (hd (co_worker_queues co)). wc_batch c = None)"

fun inv_at :: "core_state \<Rightarrow> 's worker \<Rightarrow> bool \<Rightarrow> bool" where
  "inv_at (co, AtHead) wk alive =
     (alive \<and> base co wk \<and> hd (co_worker_queues co) = [] \<and> co_result_queue co = [])"
| "inv_at (co, Collecting out results) wk alive =
     (alive \<and> base co wk \<and> sent_ok co wk (schedule_items out) results)"
| "inv_at (co, Stopped) wk alive = idle co"
| "inv_at (co, Failed) wk alive = ((\<exists>e. F e) \<and> idle co)"

definition inv :: "'s system \<Rightarrow> bool" where
  "inv s \<longleftrightarrow> core_inv (sy_core s) \<and> inv_at (sy_core s) (sy_worker s) (sy_alive s)"

lemma submit:
  assumes "inv s" and "valid_command c" and "C c"
  shows "inv (sys_step (Submit c) s)"
proof -
  have "core_inv (core_step (Arrive c) (sy_core s))"
    by (rule core_step_inv) (use assms in \<open>simp_all add: inv_def\<close>)
  moreover have "inv_at (core_step (Arrive c) (sy_core s)) (sy_worker s) (sy_alive s)"
    using assms(1,3) unfolding inv_def
    by (cases "sy_core s" rule: core_inv.cases) (auto simp: base_def sent_ok_def answered_def idle_def)
  ultimately show ?thesis by (simp add: inv_def)
qed

text \<open>A worker whose core has stopped drops what is left in its queue.\<close>

lemma stopped_worker:
  assumes "sy_core s = (co, ph)" and "co_worker_queues co = (c # q) # qs" and "sy_alive s" and "wc_batch c = None"
  obtains wk alive where
    "worker_turn t s = \<lparr>sy_core = (co\<lparr>co_worker_queues := q # qs\<rparr>, ph), sy_worker = wk, sy_alive = alive\<rparr>"
proof -
  have "fst (worker_loop (sy_worker s) [(c, t)]) = []" using assms(4) by simp
  then obtain wk alive where l: "worker_loop (sy_worker s) [(c, t)] = ([], wk, alive)"
    by (metis prod.collapse)
  then show ?thesis using that assms by (simp add: worker_turn_def)
qed

lemma worker:
  assumes inv: "inv s"
  shows "inv (worker_turn t s)"
proof (cases "\<exists>c q qs. co_worker_queues (fst (sy_core s)) = (c # q) # qs \<and> sy_alive s")
  case False
  then have "worker_turn t s = s"
    by (auto simp: worker_turn_def split: prod.splits list.splits)
  then show ?thesis using inv by simp
next
  case True
  then obtain co ph c q qs where s: "sy_core s = (co, ph)" "co_worker_queues co = (c # q) # qs" "sy_alive s"
    by (cases "sy_core s") auto
  let ?wk = "sy_worker s"
  have core: "core_inv (co, ph)" and at: "inv_at (co, ph) ?wk True"
    using inv s by (simp_all add: inv_def)
  show ?thesis
  proof (cases ph)
    case (Collecting out results)
    let ?its = "schedule_items out" and ?bid = "co_batch_id co"
    have base: "base co ?wk" and rs: "results = []" "co_result_queue co = []" "q = []"
      and c: "c = \<lparr>wc_batch = Some \<lparr>wb_batch_id = ?bid, wb_items = ?its\<rparr>, wc_shutdown = False\<rparr>"
      using at s(2) Collecting by (auto simp: sent_ok_def answered_def)
    have ci: "core_base co" "sched_inv (co_scheduler co)" "collecting_ok co out results"
      using core Collecting by simp_all
    have ne: "?its \<noteq> []" and its: "items_ok (co_scheduler co) ?its"
      using ci(3) by (simp_all add: collecting_ok_def)
    have W: "W (co_scheduler co) ?wk" using base by (simp add: base_def)
    from W_execute [OF W ci(2) its ne, of ?bid t] obtain w wk' where
      x: "worker_execute ?wk \<lparr>wb_batch_id = ?bid, wb_items = ?its\<rparr> t = (w, wk')"
      and w: "W (co_scheduler co) wk'" "A (co_scheduler co) wk' ?its w" "wr_batch_id w = ?bid" "wr_rank w = 0"
        "trusted ?its w" by blast
    let ?co' = "co\<lparr>co_worker_queues := [] # qs, co_result_queue := [w]\<rparr>"
    have step: "worker_turn t s = \<lparr>sy_core = (?co', ph), sy_worker = wk', sy_alive = True\<rparr>"
      using s c x rs by (simp add: worker_turn_def)
    have "core_inv (core_step (Deliver w) (co, ph))"
      by (rule core_step_inv [OF core]) (use w Collecting in simp)
    then have "core_inv (?co', ph)"
      using rs Collecting by (simp add: core_base_def collecting_ok_def)
    moreover have "base ?co' wk'" using base w(1) by (simp add: base_def)
    moreover have "sent_ok ?co' wk' ?its results" using w rs(1) by (auto simp: sent_ok_def answered_def)
    ultimately show ?thesis using Collecting by (simp add: inv_def step)
  next
    case Stopped
    then have c: "wc_batch c = None" "\<forall>c\<in>set q. wc_batch c = None" "co_result_queue co = []"
      using at s(2) by (auto simp: idle_def)
    from stopped_worker [OF s c(1), of t] obtain wk alive where
      "worker_turn t s = \<lparr>sy_core = (co\<lparr>co_worker_queues := q # qs\<rparr>, ph), sy_worker = wk, sy_alive = alive\<rparr>" .
    then show ?thesis using core c(2,3) Stopped by (simp add: inv_def core_base_def idle_def)
  next
    case Failed
    then have c: "wc_batch c = None" "\<forall>c\<in>set q. wc_batch c = None" "co_result_queue co = []" "\<exists>e. F e"
      using at s(2) by (auto simp: idle_def)
    from stopped_worker [OF s c(1), of t] obtain wk alive where
      "worker_turn t s = \<lparr>sy_core = (co\<lparr>co_worker_queues := q # qs\<rparr>, ph), sy_worker = wk, sy_alive = alive\<rparr>" .
    then show ?thesis using core c(2-4) Failed by (simp add: inv_def core_base_def idle_def)
  qed (use at s in simp)
qed

lemma W_frame:
  assumes "base co wk" and "core_frame co co'" and "W (co_scheduler co') wk"
  shows "base co' wk"
  using assms by (simp add: base_def core_frame_def)

lemma core_head_inv:
  assumes core: "core_inv (co, AtHead)" and base: "base co wk"
    and q: "hd (co_worker_queues co) = []" and res: "co_result_queue co = []"
  shows "inv_at (core_head co) wk True"
proof -
  have cb: "core_base co" and inv: "sched_inv (co_scheduler co)" using core by simp_all
  have vc: "\<forall>c\<in>set (co_command_queue co). valid_command c" using cb by (simp add: core_base_def)
  obtain qs where qs: "co_worker_queues co = [] # qs"
    using cb q by (cases "co_worker_queues co") (auto simp: core_base_def)
  have stop: "inv_at (core_finally co', Stopped) wk True"
    if "co_worker_queues co' = [] # qs" "co_result_queue co' = []" for co'
    using that by (simp add: core_finally_def idle_def)
  have W: "W (co_scheduler co) wk" and cs: "\<forall>c\<in>set (co_command_queue co). C c"
    using base by (simp_all add: base_def)
  from drain_commands_ok [OF inv vc] obtain co1 where
    d: "drain_commands co (\<not> has_requests (co_scheduler co)) = (Inr (), co1)"
      "sched_inv (co_scheduler co1)" "core_frame (co\<lparr>co_command_queue := []\<rparr>) co1" by blast
  have W1: "W (co_scheduler co1) wk"
    using W_drain [OF W inv vc cs, of co1] d(1) drain_commands_eq [OF inv vc] frame_setup [OF d(3)] by simp
  have base1: "base co1 wk"
    by (rule W_frame [OF _ d(3) W1]) (use base in \<open>simp add: base_def\<close>)
  have q1: "co_worker_queues co1 = [] # qs" "co_result_queue co1 = []"
    using d(3) qs res by (simp_all add: core_frame_def)
  show ?thesis
  proof (cases "co_shutdown co \<or> co_shutdown co1")
    case True
    then show ?thesis using stop qs res q1 d(1) by (auto simp: core_head_def)
  next
    case False
    from d(2) q1(1) show ?thesis
    proof (cases rule: dispatch_schedule_ok)
      case (idle co2)
      have "W (co_scheduler co2) wk" by (rule dispatch_W [OF W1 d(2) idle(1)])
      from W_frame [OF base1 idle(3) this] show ?thesis
        using False d(1) idle(1,3) q1 by (simp add: core_head_def core_frame_def)
    next
      case (batch its co2)
      have "W (co_scheduler co2) wk" by (rule dispatch_W [OF W1 d(2) batch(1)])
      from W_frame [OF _ batch(7) this] have "base co2 wk"
        using base1 batch(5) by (simp add: base_def)
      moreover have "co_result_queue co2 = []" using batch(7) q1 by (simp add: core_frame_def)
      moreover have "schedule_items (schedule_of its) = its" using batch(2) by simp
      ultimately show ?thesis
        using False d(1) batch(1,5,6) by (simp add: core_head_def sent_ok_def)
    qed
  qed
qed

lemma core_fail_idle:
  assumes "hd (co_worker_queues co) = []" and "co_worker_queues co \<noteq> []" and "co_result_queue co = []"
  obtains co' where "core_fail e co = (co', Failed)" and "idle co'"
proof -
  let ?co = "fst (core_fail e co)"
  have "core_fail e co = (?co, Failed)" by (simp add: core_fail_def)
  moreover have "idle ?co"
    using assms by (cases "co_worker_queues co") (auto simp: idle_def core_fail_def fold_emit_error core_finally_def)
  ultimately show ?thesis by (rule that)
qed

lemma core_collect_inv:
  assumes core: "core_inv (co, Collecting out results)" and base: "base co wk"
    and sent: "sent_ok co wk (schedule_items out) results"
  shows "inv_at (core_collect co out results) wk True"
proof -
  let ?its = "schedule_items out"
  have ci: "core_base co" "sched_inv (co_scheduler co)" "collecting_ok co out results" using core by simp_all
  have out: "out = schedule_of ?its" "?its \<noteq> []" and its: "items_ok (co_scheduler co) ?its"
    using ci(3) unfolding collecting_ok_def by blast+
  have "by_rank (schedule_of ?its) = [(Some 0, ?its)]" using out(2) by (simp add: schedule_of_def)
  with arg_cong [OF out(1), of by_rank] have br: "by_rank out = [(Some 0, ?its)]" by (rule trans)
  show ?thesis
  proof (cases "results = []")
    case True
    show ?thesis
    proof (cases "co_result_queue co")
      case Nil
      then show ?thesis using True br base sent by (simp add: core_collect_def)
    next
      case (Cons w rest)
      then have a: "answered co wk ?its w" "rest = []" using sent True by (auto simp: sent_ok_def)
      then have w: "wr_batch_id w = co_batch_id co" "wr_rank w = 0" "wr_batch_id w \<noteq> - 1"
        using base by (auto simp: answered_def base_def)
      let ?co = "co\<lparr>co_result_queue := []\<rparr>"
      have "core_collect co out results = (?co, Collecting out [(0, w)])"
        using True Cons a(2) w br by (simp add: core_collect_def)
      moreover have "sent_ok ?co wk ?its [(0, w)]" using a(1) by (simp add: sent_ok_def answered_def)
      ultimately show ?thesis using base by (simp add: base_def)
    qed
  next
    case False
    then obtain w where w: "results = [(0, w)]" "answered co wk ?its w" "co_result_queue co = []"
      using sent by (auto simp: sent_ok_def)
    have a: "hd (co_worker_queues co) = []" "wr_rank w = 0" "trusted ?its w" "A (co_scheduler co) wk ?its w"
      using w(2) by (simp_all add: answered_def)
    have tk: "co_tokenizer co = sc_tokenizer (co_scheduler co)" and qs: "co_worker_queues co \<noteq> []"
      using ci(1) by (simp_all add: core_base_def)
    have W: "W (co_scheduler co) wk" using base by (simp add: base_def)
    obtain res co' where pr: "process_result out w co = (res, co')" by fastforce
    have fr: "core_frame co co'"
      using process_result_ok [OF ci(2) its out(1) a(3)] pr by (simp add: outcome_ok_def)
    have q': "co_worker_queues co' = co_worker_queues co" "co_result_queue co' = []"
      using fr w(3) by (simp_all add: core_frame_def)
    from W_process [OF W ci(2) tk its out(2) a(4,2,3), folded out(1), OF pr frame_setup [OF fr]]
    show ?thesis
    proof (elim disjE exE conjE)
      assume r: "res = Inr ()" and W': "W (co_scheduler co') wk"
      have "core_collect co out results = (co', AtHead)" using w(1) br pr r by (simp add: core_collect_def)
      moreover have "base co' wk" by (rule W_frame [OF base fr W'])
      ultimately show ?thesis using q' a(1) by simp
    next
      fix e
      assume r: "res = Inl e" and F: "F e"
      have "core_collect co out results = core_fail e co'" using w(1) br pr r by (simp add: core_collect_def)
      then show ?thesis using core_fail_idle [of co' e] q' a(1) qs F by (metis inv_at.simps(4))
    qed
  qed
qed

lemma sys_step_inv:
  assumes i: "inv s" and ok: "sys_event_ok C e s"
  shows "inv (sys_step e s)"
proof (cases e)
  case CoreTurn
  have core: "core_inv (sy_core s)" and at: "inv_at (sy_core s) (sy_worker s) (sy_alive s)"
    using i by (simp_all add: inv_def)
  have "inv_at (core_turn (sy_core s)) (sy_worker s) (sy_alive s)"
    using core at core_head_inv core_collect_inv
    by (cases "sy_core s" rule: core_turn.cases) (simp_all del: core_inv.simps)
  then show ?thesis using CoreTurn core_turn_ok(1) [OF core] by (simp add: inv_def)
qed (use submit [OF i] worker [OF i] ok in auto)

end

text \<open>The pair is a system with an invariant.\<close>

sublocale engine_worker \<subseteq> sys: invariant_system sys_step "sys_event_ok C" inv
  by unfold_locales (rule sys_step_inv)

context engine_worker
begin

lemma run_admissible: "sys_run_ok C es \<Longrightarrow> sys.admissible es s"
proof (induction es arbitrary: s)
  case (Cons e es)
  then show ?case by (cases e) (auto simp: sys_run_ok_def)
qed simp

lemma init_inv:
  assumes init: "system_init env clock create config = Inr s" and cfg: "valid_config config"
    and W: "\<And>sc runner st. create config = Inr (runner, st) \<Longrightarrow> sc_running sc = [] \<Longrightarrow> sc_waiting sc = [] \<Longrightarrow>
      sched_inv sc \<Longrightarrow> sc_config sc = config \<Longrightarrow>
      create_tokenizer env (model_path config) (tokenizer_path config) = Inr (sc_tokenizer sc) \<Longrightarrow>
      W sc \<lparr>wk_rank = 0, wk_config = config, wk_runner = runner, wk_state = st,
        wk_graph_manager = \<lparr>cd_mode = cudagraph_mode config, cd_capture_sizes = worker_capture_sizes config\<rparr>\<rparr>"
  shows "inv s"
proof -
  from init obtain co runner st where co: "engine_core_init env clock config = Inr co"
    and cr: "create config = Inr (runner, st)" and s: "sy_core s = (co, AtHead)" "sy_alive s"
      "sy_worker s = \<lparr>wk_rank = 0, wk_config = config, wk_runner = runner, wk_state = st,
        wk_graph_manager = \<lparr>cd_mode = cudagraph_mode config, cd_capture_sizes = worker_capture_sizes config\<rparr>\<rparr>"
    by (auto simp: system_init_def worker_init_def split: sum.splits)
  from co obtain sc tk where
    f: "scheduler_init env config = Inr sc" "create_tokenizer env (model_path config) (tokenizer_path config) = Inr tk"
      "co_scheduler co = sc" "co_tokenizer co = tk" "co_config co = config" "co_batch_id co = 0"
      "co_worker_queues co = replicate (nat (data_parallel_size config)) []" "co_result_queue co = []"
      "co_command_queue co = []"
    unfolding engine_core_init_def by (auto split: sum.splits)
  have ci: "core_inv (co, AtHead)" by (rule engine_core_init_inv(1) [OF co cfg])
  then have "sched_inv sc" "sc_config sc = config" "sc_tokenizer sc = tk" using f by (simp_all add: core_base_def)
  moreover have "sc_running sc = []" "sc_waiting sc = []" using f(1) by (auto simp: scheduler_init_def split: sum.splits)
  ultimately have "W sc (sy_worker s)" unfolding s(3) using f(2) by (intro W [OF cr]) simp_all
  moreover have "hd (replicate (nat (data_parallel_size config)) []) = ([] :: worker_command list)"
    using cfg by (simp add: valid_config_def)
  ultimately show ?thesis using ci s(1,2) f by (simp add: inv_def base_def)
qed

text \<open>What holds of a state that satisfies the invariant.\<close>

lemma inv_running:
  assumes "inv s" and "sy_core s = (co, ph)" and "ph = AtHead \<or> (\<exists>out results. ph = Collecting out results)"
  shows "W (co_scheduler co) (sy_worker s)" and "sched_inv (co_scheduler co)" and "core_base co"
  using assms by (auto simp: inv_def base_def)

lemma inv_results:
  assumes "inv s" and "sy_core s = (co, ph)" and "w \<in> set (co_result_queue co)"
  obtains out results where "ph = Collecting out results" and "wr_batch_id w = co_batch_id co"
    and "A (co_scheduler co) (sy_worker s) (schedule_items out) w" and "items_ok (co_scheduler co) (schedule_items out)"
proof -
  have at: "core_inv (co, ph)" "inv_at (co, ph) (sy_worker s) (sy_alive s)" using assms(1,2) by (simp_all add: inv_def)
  show ?thesis
  proof (cases ph)
    case (Collecting out results)
    then show ?thesis using at assms(3) by (intro that [OF Collecting])
      (auto simp: sent_ok_def answered_def collecting_ok_def)
  qed (use at assms(3) in \<open>auto simp: idle_def\<close>)
qed

lemma inv_failed: "inv s \<Longrightarrow> sy_core s = (co, Failed) \<Longrightarrow> \<exists>e. F e"
  by (simp add: inv_def)

end

end
