(* ===== verification/System.thy ===== *)
theory System
  imports Serving EngineWorker
begin

text \<open>
  An engine core together with its reference worker, in any interleaving: the contract of
  \<open>engine_worker\<close> holds with the coherence of the worker's key/value cache and with exact answers, and
  no exception is raised.
\<close>

section \<open>The contract\<close>

definition bootstrap_served :: "scheduler \<Rightarrow> ref_runtime worker \<Rightarrow> bool" where
  "bootstrap_served sc wk \<longleftrightarrow> sc_tokenizer sc = character_tokenizer \<and>
     wk_runner wk = bootstrap_runner reference_kernel \<and> wk_config wk = sc_config sc \<and>
     wk_rank wk = 0 \<and> 0 < rt_head_dim (wk_state wk) \<and> served.all_R (wk_state wk) sc"

text \<open>The worker's exact answer to a batch.\<close>

definition exact_answer :: "worker_item list \<Rightarrow> worker_result \<Rightarrow> bool" where
  "exact_answer its w \<longleftrightarrow> wr_error w = None \<and> wr_sampled_token_ids w =
     map (\<lambda>it. (wi_request_id it, bootstrap_token (wi_generated_count it))) (filter wi_should_sample its)"

definition bootstrap_answer :: "scheduler \<Rightarrow> ref_runtime worker \<Rightarrow> worker_item list \<Rightarrow> worker_result \<Rightarrow> bool" where
  "bootstrap_answer sc wk its w \<longleftrightarrow> exact_answer its w \<and> items_coherent sc (wk_state wk) its"

lemma exact_answer_facts:
  assumes "exact_answer its w"
  shows "trusted its w"
    and "distinct (map wi_request_id its) \<Longrightarrow> \<forall>it\<in>set its. map_of (wr_sampled_token_ids w) (wi_request_id it) =
      (if wi_should_sample it then Some (bootstrap_token (wi_generated_count it)) else None)"
proof -
  let ?its = "filter wi_should_sample its"
  let ?out = "map (\<lambda>it. (wi_request_id it, bootstrap_token (wi_generated_count it))) ?its"
  have out: "wr_sampled_token_ids w = ?out" using assms by (simp add: exact_answer_def)
  show "trusted its w" by (auto simp: trusted_def out wanted_def)
  have keys: "map fst ?out = map wi_request_id ?its" by simp
  assume d: "distinct (map wi_request_id its)"
  then have dist: "distinct (map fst ?out)" using keys distinct_map_filter by metis
  show "\<forall>it\<in>set its. map_of (wr_sampled_token_ids w) (wi_request_id it) =
      (if wi_should_sample it then Some (bootstrap_token (wi_generated_count it)) else None)"
  proof
    fix it
    assume it: "it \<in> set its"
    show "map_of (wr_sampled_token_ids w) (wi_request_id it) =
      (if wi_should_sample it then Some (bootstrap_token (wi_generated_count it)) else None)"
    proof (cases "wi_should_sample it")
      case True
      then have "(wi_request_id it, bootstrap_token (wi_generated_count it)) \<in> set ?out" using it by auto
      then show ?thesis using map_of_is_SomeI [OF dist] True out by simp
    next
      case False
      have "wi_request_id it \<notin> set (map wi_request_id ?its)"
        using False it d by (auto dest: inj_onD simp: distinct_map)
      then show ?thesis using False unfolding out keys [symmetric] by (auto simp: map_of_eq_None_iff)
    qed
  qed
qed

lemma bootstrap_process:
  assumes W: "bootstrap_served (co_scheduler co) wk" and inv: "sched_inv (co_scheduler co)"
    and tk: "co_tokenizer co = sc_tokenizer (co_scheduler co)" and its: "items_ok (co_scheduler co) its"
    and ne: "its \<noteq> []" and a: "bootstrap_answer (co_scheduler co) wk its w" "wr_rank w = 0"
  obtains co' where "process_result (schedule_of its) w co = (Inr (), co')"
    and "served.all_R (wk_state wk) (co_scheduler co')"
proof -
  have ex: "exact_answer its w" and coh: "items_coherent (co_scheduler co) (wk_state wk) its"
    using a(1) by (simp_all add: bootstrap_answer_def)
  have dist: "distinct (map wi_request_id its)" using its by (simp add: items_ok_def)
  note E = exact_answer_facts(1) [OF ex] exact_answer_facts(2) [OF ex dist]
  note F = items_ok_facts [OF its refl E(1)]
  let ?co1 = "case wr_metrics w of None \<Rightarrow> co | Some bm \<Rightarrow> put_output co (EvMetrics bm)"
  have co1: "co_scheduler ?co1 = co_scheduler co" "co_tokenizer ?co1 = co_tokenizer co"
    by (simp_all add: put_output_def split: option.split)
  have tk1: "co_tokenizer ?co1 = character_tokenizer" "sc_tokenizer (co_scheduler ?co1) = character_tokenizer"
    unfolding co1 using W tk by (simp_all add: bootstrap_served_def)
  have all: "served.all_R (wk_state wk) (co_scheduler co)" using W by (simp add: bootstrap_served_def)
  have "\<exists>co'. process_items (schedule_of its) w its ?co1 = (Inr (), co') \<and> served.all_R (wk_state wk) (co_scheduler co')"
    by (rule process_items_served [OF _ _ dist F(4) E(2) tk1])
      (use inv F(3) all coh in \<open>simp_all add: co1\<close>)
  then obtain co' where p: "process_items (schedule_of its) w its ?co1 = (Inr (), co')"
    and all': "served.all_R (wk_state wk) (co_scheduler co')" by blast
  have "by_rank (schedule_of its) = [(Some 0, its)]" using ne by (simp add: schedule_of_def)
  then have "process_result (schedule_of its) w co = (Inr (), co')"
    using p a(2) ex by (simp add: process_result_def exact_answer_def Let_def)
  then show ?thesis using all' by (rule that)
qed

interpretation bootstrap_pair: engine_worker bootstrap_served string_params bootstrap_answer "\<lambda>_. False"
proof
  fix co co' wk cs
  assume W: "bootstrap_served (co_scheduler co) wk" and inv: "sched_inv (co_scheduler co)"
    and cs: "\<forall>c\<in>set cs. valid_command c" "\<forall>c\<in>set cs. string_params c" and d: "drain_loop cs co = (Inr (), co')"
    and same: "same_setup (co_scheduler co) (co_scheduler co')"
  have "served.all_R (wk_state wk) (co_scheduler co')"
    using served.all_R_drain [OF _ inv cs(1) d] W cs(2) by (simp add: bootstrap_served_def)
  then show "bootstrap_served (co_scheduler co') wk" using W same by (simp add: bootstrap_served_def same_setup_def)
next
  fix sc sc' wk out
  assume W: "bootstrap_served sc wk" and "sched_inv sc" "schedule sc = (Inr out, sc')" "same_setup sc sc'"
  then show "bootstrap_served sc' wk"
    using served.all_R_schedule [of "wk_state wk" sc out sc'] by (simp add: bootstrap_served_def same_setup_def)
next
  fix sc wk its bid t
  assume W: "bootstrap_served sc wk" and inv: "sched_inv sc" and its: "items_ok sc its" "its \<noteq> []"
  have coh: "cache_coherent sc (wk_state wk)"
    using served_coherent [OF inv] W by (simp add: bootstrap_served_def)
  have wk: "0 < rt_head_dim (wk_state wk)" "wk_runner wk = bootstrap_runner reference_kernel" "wk_config wk = sc_config sc"
    using W by (simp_all add: bootstrap_served_def)
  from worker_round [OF inv its coh wk, of bid t] obtain w wk' where
    x: "worker_execute wk \<lparr>wb_batch_id = bid, wb_items = its\<rparr> t = (w, wk')"
    and w: "wr_error w = None" "wr_rank w = wk_rank wk" "wr_batch_id w = bid"
      "wr_sampled_token_ids w = map (\<lambda>it. (wi_request_id it, bootstrap_token (wi_generated_count it)))
        (filter wi_should_sample its)"
    and wk': "cache_coherent sc (wk_state wk')" "items_coherent sc (wk_state wk') its"
      "rt_head_dim (wk_state wk') = rt_head_dim (wk_state wk)" .
  have ex: "exact_answer its w" using w by (simp add: exact_answer_def)
  have "bootstrap_served sc wk'"
    using W wk'(3) worker_execute_config [of wk "\<lparr>wb_batch_id = bid, wb_items = its\<rparr>" t, unfolded x snd_conv]
      coherent_served [OF inv wk'(1), of "wk_state wk"]
    by (simp add: bootstrap_served_def)
  moreover have "bootstrap_answer sc wk' its w" using ex wk'(2) by (simp add: bootstrap_answer_def)
  moreover have "wr_rank w = 0" using w(2) W by (simp add: bootstrap_served_def)
  ultimately show "\<exists>w wk'. worker_execute wk \<lparr>wb_batch_id = bid, wb_items = its\<rparr> t = (w, wk') \<and>
      bootstrap_served sc wk' \<and> bootstrap_answer sc wk' its w \<and> wr_batch_id w = bid \<and> wr_rank w = 0 \<and> trusted its w"
    using x w(3) exact_answer_facts(1) [OF ex] by blast
next
  fix co co' wk its w res
  assume a: "bootstrap_served (co_scheduler co) wk" "sched_inv (co_scheduler co)"
    "co_tokenizer co = sc_tokenizer (co_scheduler co)" "items_ok (co_scheduler co) its" "its \<noteq> []"
    "bootstrap_answer (co_scheduler co) wk its w" "wr_rank w = 0"
    and run: "process_result (schedule_of its) w co = (res, co')"
    and same: "same_setup (co_scheduler co) (co_scheduler co')"
  from bootstrap_process [OF a] obtain co2 where
    "process_result (schedule_of its) w co = (Inr (), co2)" "served.all_R (wk_state wk) (co_scheduler co2)" .
  then show "(res = Inr () \<and> bootstrap_served (co_scheduler co') wk) \<or> (\<exists>e. res = Inl e \<and> False)"
    using run a(1) same by (simp add: bootstrap_served_def same_setup_def)
qed

section \<open>Runs\<close>

text \<open>An engine core and its reference worker, started from one configuration.\<close>

definition sys_init :: "hf_env \<Rightarrow> (nat \<Rightarrow> real) \<Rightarrow> nat \<Rightarrow> engine_config \<Rightarrow> exn + ref_runtime system" where
  "sys_init env clock hdim config =
     system_init env clock (\<lambda>_. Inr (bootstrap_runner reference_kernel, ref_runtime_init hdim)) config"

lemma sys_run_inv:
  assumes init: "sys_init env clock hdim config = Inr s0" and cfg: "valid_config config"
    and "0 < hdim" and "model_path config = None" "tokenizer_path config = None" and run: "sys_run_ok string_params es"
  shows "bootstrap_pair.inv (fold sys_step es s0)"
proof (rule bootstrap_pair.sys.fold_inv [OF _ bootstrap_pair.run_admissible [OF run]])
  show "bootstrap_pair.inv s0"
    by (rule bootstrap_pair.init_inv [OF init [unfolded sys_init_def] cfg])
      (use assms(3-5) in \<open>auto simp: bootstrap_served_def ref_runtime_init_def served.all_R_def create_tokenizer_def\<close>)
qed

lemma running_served:
  assumes inv: "bootstrap_pair.inv s" and s: "sy_core s = (co, ph)" "ph \<noteq> Stopped"
    and rs: "map_of (sc_running (co_scheduler co)) r = Some rs"
  obtains bl where "kv_tbl (sc_cache_manager (co_scheduler co)) r = Some bl"
    and "served (wk_state (sy_worker s)) (nat (block_size (co_config co))) bl rs"
    and "req_ok (co_config co) (sc_cache_manager (co_scheduler co)) rs"
    and "sc_tokenizer (co_scheduler co) = character_tokenizer"
proof -
  have "ph = AtHead \<or> (\<exists>out results. ph = Collecting out results)"
    using inv s bootstrap_pair.inv_failed by (cases ph) auto
  then have f: "sched_inv (co_scheduler co)" "sc_config (co_scheduler co) = co_config co"
    "sc_tokenizer (co_scheduler co) = character_tokenizer"
    "served.all_R (wk_state (sy_worker s)) (co_scheduler co)"
    using bootstrap_pair.inv_running [OF inv s(1)] by (simp_all add: core_base_def bootstrap_served_def)
  from sched_inv_cases_run [OF f(1) map_of_Some_in_keys [OF rs]] obtain bl where
    bl: "kv_tbl (sc_cache_manager (co_scheduler co)) r = Some bl" .
  show ?thesis
    using that [OF bl] served.all_RD [OF f(4) rs bl] f(2,3) sched_inv_butD(3) [OF f(1)]
      sched_inv_butD(12) [OF f(1) rs] by simp
qed

text \<open>
  C3. The bootstrap engine never fails.  Start an engine core and its worker from one valid
  configuration without model and tokenizer paths, and let commands whose stop values are strings
  arrive and the two processes take turns in any interleaving: the core never reaches its exception handler, the worker never
  reports an error, and every result in the queue answers the batch the core is waiting for.
\<close>

theorem bootstrap_engine_never_fails:
  assumes "sys_init env clock hdim config = Inr s0" and "valid_config config" and "0 < hdim"
    and "model_path config = None" and "tokenizer_path config = None" and "sys_run_ok string_params es"
    and "sy_core (fold sys_step es s0) = (co, ph)"
  shows "ph \<noteq> Failed \<and>
    (\<forall>w\<in>set (co_result_queue co). wr_error w = None \<and> wr_batch_id w = co_batch_id co)"
proof -
  note I = sys_run_inv [OF assms(1-6)]
  show ?thesis
  proof (intro conjI ballI)
    show "ph \<noteq> Failed" using bootstrap_pair.inv_failed [OF I] assms(7) by auto
    show "wr_batch_id w = co_batch_id co" "wr_error w = None" if "w \<in> set (co_result_queue co)" for w
      using bootstrap_pair.inv_results [OF I assms(7) that] by (auto simp: bootstrap_answer_def exact_answer_def)
  qed
qed

text \<open>A small engine with one request, taken through a full round and into the next one.\<close>

definition tiny_events :: "sys_event list" where
  "tiny_events = [Submit (add_command ''a'' [10, 11]), CoreTurn, WorkerTurn 1, CoreTurn, CoreTurn, CoreTurn]"

definition tiny_system :: "ref_runtime system" where
  "tiny_system = (case sys_init no_hf (\<lambda>_. 0) 2 tiny_config of Inr s \<Rightarrow> s)"

lemma tiny_system_run:
  "sys_init no_hf (\<lambda>_. 0) 2 tiny_config = Inr tiny_system"
  "model_path tiny_config = None" "tokenizer_path tiny_config = None" "sys_run_ok string_params tiny_events"
  "sy_core tiny_system = (tiny_core, AtHead)"
proof -
  show "sys_init no_hf (\<lambda>_. 0) 2 tiny_config = Inr tiny_system" "sy_core tiny_system = (tiny_core, AtHead)"
    by (simp_all add: tiny_system_def sys_init_def system_init_def tiny_core_init worker_init_def)
  have "string_params (add_command ''a'' [10, 11])"
    by (simp add: string_params_def add_command_def default_sampling_params_def string_stops_def tiny_request_def)
  then show "sys_run_ok string_params tiny_events" by (simp add: sys_run_ok_def tiny_events_def add_command_valid)
qed (simp_all add: tiny_config_def default_engine_config_def)

text \<open>After two events the request runs.\<close>

lemma tiny_admitted:
  obtains co ph rs where "sy_core (fold sys_step (take 2 tiny_events) tiny_system) = (co, ph)"
    and "ph \<noteq> Stopped" and "map_of (sc_running (co_scheduler co)) ''a'' = Some rs"
    and "sys_run_ok string_params (take 2 tiny_events)"
proof -
  let ?s = "core_turn (core_step (Arrive (add_command ''a'' [10, 11])) (tiny_core, AtHead))"
  obtain co ph where s: "?s = (co, ph)" by fastforce
  have "case ?s of (co, ph) \<Rightarrow> (case ph of Stopped \<Rightarrow> False | _ \<Rightarrow> True) \<and>
      (case map_of (sc_running (co_scheduler co)) ''a'' of None \<Rightarrow> False | Some _ \<Rightarrow> True)"
    by code_simp
  then obtain rs where "ph \<noteq> Stopped" "map_of (sc_running (co_scheduler co)) ''a'' = Some rs"
    using s by (auto split: option.splits core_phase.splits)
  moreover have "sy_core (fold sys_step (take 2 tiny_events) tiny_system) = ?s"
    by (simp add: tiny_events_def tiny_system_run(5))
  moreover have "sys_run_ok string_params (take 2 tiny_events)"
    using tiny_system_run(4) by (auto simp: sys_run_ok_def dest: in_set_takeD)
  ultimately show ?thesis using that s by simp
qed

theorem bootstrap_engine_never_fails_witness:
  "snd (sy_core (fold sys_step tiny_events tiny_system)) \<noteq> Failed"
proof -
  obtain co ph where run: "sy_core (fold sys_step tiny_events tiny_system) = (co, ph)" by fastforce
  from bootstrap_engine_never_fails [OF tiny_system_run(1) tiny_config_valid _ tiny_system_run(2-4) run] run
  show ?thesis by simp
qed

text \<open>
  C2. The key/value cache is coherent with the block tables.  In every state of every run of the
  bootstrap engine before it stops: each running request owns blocks for its computed tokens, and
  the worker's cache holds, at the slot the block table gives to each computed position, the key
  and the value vector of the token at that position.  So across any number of rounds no block
  is shared, reused too early or mapped to wrong slots.
\<close>

theorem engine_cache_coherent:
  assumes "sys_init env clock hdim config = Inr s0" and "valid_config config" and "0 < hdim"
    and "model_path config = None" and "tokenizer_path config = None" and "sys_run_ok string_params es"
    and "sy_core (fold sys_step es s0) = (co, ph)" and "ph \<noteq> Stopped"
    and "map_of (sc_running (co_scheduler co)) r = Some rs"
  shows "let rt = wk_state (sy_worker (fold sys_step es s0)); b = nat (block_size (co_config co)) in
    \<exists>bl. kv_tbl (sc_cache_manager (co_scheduler co)) r = Some bl \<and>
      rs_num_computed_tokens rs \<le> length bl * b \<and>
      (\<forall>p<rs_num_computed_tokens rs. p < length (all_token_ids rs) \<and>
         rt_k_cache rt (int (slot_of b bl p)) =
           Some (kv_vector (rt_head_dim rt) (all_token_ids rs ! p) k_phase) \<and>
         rt_v_cache rt (int (slot_of b bl p)) =
           Some (kv_vector (rt_head_dim rt) (all_token_ids rs ! p) v_phase))"
proof -
  from running_served [OF sys_run_inv [OF assms(1-6)] assms(7-9)] show ?thesis
    unfolding served_def holds_def Let_def by metis
qed

text \<open>After the first round the prompt of the request is in the cache.\<close>

theorem engine_cache_coherent_witness:
  "case sy_core (fold sys_step (take 2 tiny_events) tiny_system) of (co, ph) \<Rightarrow>
     \<exists>rs bl. map_of (sc_running (co_scheduler co)) ''a'' = Some rs \<and>
       kv_tbl (sc_cache_manager (co_scheduler co)) ''a'' = Some bl \<and>
       rs_num_computed_tokens rs \<le> length bl * nat (block_size (co_config co))"
proof -
  obtain co ph rs where run: "sy_core (fold sys_step (take 2 tiny_events) tiny_system) = (co, ph)"
    and st: "ph \<noteq> Stopped" "map_of (sc_running (co_scheduler co)) ''a'' = Some rs"
    and ok: "sys_run_ok string_params (take 2 tiny_events)" by (rule tiny_admitted)
  from engine_cache_coherent [OF tiny_system_run(1) tiny_config_valid _ tiny_system_run(2,3) ok run st]
  show ?thesis using run st(2) by (auto simp: Let_def)
qed

text \<open>
  What the bootstrap engine says.  In every state of every run before it stops, the tokens
  generated for a running request are the first tokens of the runner's fixed answer, their text
  is a beginning of that answer, and there are fewer of them than the request's \<open>max_tokens\<close>.
\<close>

theorem engine_output_prefix:
  assumes "sys_init env clock hdim config = Inr s0" and "valid_config config" and "0 < hdim"
    and "model_path config = None" and "tokenizer_path config = None" and "sys_run_ok string_params es"
    and "sy_core (fold sys_step es s0) = (co, ph)" and "ph \<noteq> Stopped"
    and "map_of (sc_running (co_scheduler co)) r = Some rs"
  shows "prefix (rs_output_token_ids rs) response_tokens \<and>
    int (length (rs_output_token_ids rs)) < sp_max_tokens (rs_sampling_params rs) \<and>
    output_text (co_scheduler co) r = Inr (take (length (rs_output_token_ids rs)) response_text)"
proof -
  from running_served [OF sys_run_inv [OF assms(1-6)] assms(7-9)] obtain bl where
    s: "served (wk_state (sy_worker (fold sys_step es s0))) (nat (block_size (co_config co))) bl rs"
      "req_ok (co_config co) (sc_cache_manager (co_scheduler co)) rs"
      "sc_tokenizer (co_scheduler co) = character_tokenizer" by blast
  let ?n = "length (rs_output_token_ids rs)"
  have out: "rs_output_token_ids rs = take ?n response_tokens"
    using s(1) by (simp add: served_def resp_ok_def)
  have "char_decode (rs_output_token_ids rs) = Inr (take ?n response_text)"
    using response_decodes [of ?n] out by simp
  then have "output_text (co_scheduler co) r = Inr (take ?n response_text)"
    using assms(9) s(3) by (simp add: output_text_def character_tokenizer_def)
  moreover have "prefix (rs_output_token_ids rs) response_tokens" using out take_is_prefix by metis
  ultimately show ?thesis using s(2) by (simp add: req_ok_def)
qed

theorem engine_output_prefix_witness:
  "case sy_core (fold sys_step (take 2 tiny_events) tiny_system) of (co, ph) \<Rightarrow>
     \<exists>rs. map_of (sc_running (co_scheduler co)) ''a'' = Some rs \<and>
       prefix (rs_output_token_ids rs) response_tokens"
proof -
  obtain co ph rs where run: "sy_core (fold sys_step (take 2 tiny_events) tiny_system) = (co, ph)"
    and st: "ph \<noteq> Stopped" "map_of (sc_running (co_scheduler co)) ''a'' = Some rs"
    and ok: "sys_run_ok string_params (take 2 tiny_events)" by (rule tiny_admitted)
  from engine_output_prefix [OF tiny_system_run(1) tiny_config_valid _ tiny_system_run(2,3) ok run st]
  show ?thesis using run st(2) by auto
qed

end
