(* ===== verification/EngineClient.thy ===== *)
theory EngineClient
  imports EngineCore_Props
begin

text \<open>
  \<open>minivllm/engine/client.py\<close>: the client side of the engine process.  A request's stream is a
  queue object that its consumer keeps after the dictionary entry is gone, so the queue objects
  live in a store (\<open>cl_queues\<close>) and the dictionary \<open>_streams\<close> maps ids to their addresses.  The
  command queue is everything put so far.  The interleavings of the client's threads are sequences
  of the operations below; \<open>submit\<close> is one of them, since nothing can be routed to the new id
  before its add command is put.
  \<open>uuid.uuid4().hex\<close> is a parameter, indexed by the number of ids drawn; starting, joining and
  terminating the engine process is not part of the state.
\<close>

section \<open>State\<close>

text \<open>The process the client starts.\<close>

datatype process_target = DPCoordinatorMain | EngineCoreMain

record client =
  cl_config :: engine_config
  cl_tokenizer :: tokenizer
  cl_command_queue :: "engine_command list"
  cl_streams :: "(string, nat) dict"
  cl_queues :: "request_output list list"
  cl_seen_batches :: "(int \<times> int) list"
  cl_total_batches :: nat
  cl_total_scheduled_tokens :: nat
  cl_total_prefill_tokens :: int
  cl_total_decode_tokens :: int
  cl_total_worker_execute_time_s :: real
  cl_closed :: bool
  cl_process :: process_target
  cl_uuids :: nat

definition client_init :: "hf_env \<Rightarrow> engine_config \<Rightarrow> exn + client" where
  "client_init env config =
     (case create_tokenizer env (model_path config) (tokenizer_path config) of
        Inl e \<Rightarrow> Inl e
      | Inr tk \<Rightarrow> Inr \<lparr>
          cl_config = config, cl_tokenizer = tk, cl_command_queue = [], cl_streams = [], cl_queues = [],
          cl_seen_batches = [], cl_total_batches = 0, cl_total_scheduled_tokens = 0,
          cl_total_prefill_tokens = 0, cl_total_decode_tokens = 0, cl_total_worker_execute_time_s = 0,
          cl_closed = False,
          cl_process = (if data_parallel_size config > 1 then DPCoordinatorMain else EngineCoreMain),
          cl_uuids = 0\<rparr>)"

section \<open>Routing outputs\<close>

fun event_metrics :: "out_event \<Rightarrow> batch_metrics option" where
  "event_metrics (EvMetrics m) = Some m"
| "event_metrics (EvOutput out) = ro_metrics out"

definition count_metrics :: "client \<Rightarrow> batch_metrics \<Rightarrow> client" where
  "count_metrics cl metrics =
     (let key = (bm_rank metrics, bm_batch_id metrics) in
      if key \<in> set (cl_seen_batches cl) then cl
      else cl\<lparr>cl_seen_batches := key # cl_seen_batches cl,
              cl_total_batches := cl_total_batches cl + 1,
              cl_total_scheduled_tokens := cl_total_scheduled_tokens cl + bm_num_scheduled_tokens metrics,
              cl_total_prefill_tokens := cl_total_prefill_tokens cl + bm_num_prefill_tokens metrics,
              cl_total_decode_tokens := cl_total_decode_tokens cl + bm_num_decode_tokens metrics,
              cl_total_worker_execute_time_s :=
                cl_total_worker_execute_time_s cl + bm_execute_time_s metrics\<rparr>)"

text \<open>\<open>stream.put\<close> on the queue object at an address.\<close>

definition stream_put :: "client \<Rightarrow> nat \<Rightarrow> request_output \<Rightarrow> client" where
  "stream_put cl a output = cl\<lparr>cl_queues := (cl_queues cl)[a := cl_queues cl ! a @ [output]]\<rparr>"

text \<open>The body of the loop of \<open>_route_outputs\<close>.\<close>

definition route_event :: "client \<Rightarrow> out_event \<Rightarrow> client" where
  "route_event cl ev =
     (let cl1 = (case event_metrics ev of None \<Rightarrow> cl | Some metrics \<Rightarrow> count_metrics cl metrics)
      in (case ev of
            EvMetrics _ \<Rightarrow> cl1
          | EvOutput output \<Rightarrow>
              (case map_of (cl_streams cl1) (ro_request_id output) of
                 None \<Rightarrow> cl1
               | Some a \<Rightarrow> stream_put cl1 a output)))"

section \<open>Requests\<close>

text \<open>\<open>request_id or uuid.uuid4().hex\<close>: an empty id counts as none.\<close>

definition submit_id :: "(nat \<Rightarrow> string) \<Rightarrow> client \<Rightarrow> string option \<Rightarrow> string" where
  "submit_id uuid cl rid = (if rid = None \<or> rid = Some [] then uuid (cl_uuids cl) else the rid)"

definition client_submit ::
    "(nat \<Rightarrow> string) \<Rightarrow> client \<Rightarrow> pyobj \<Rightarrow> sampling_params \<Rightarrow> string option \<Rightarrow>
       (exn + string \<times> nat) \<times> client" where
  "client_submit uuid cl prompt sampling_params request_id =
     (if cl_closed cl then (Inl (RuntimeError ''engine is closed''), cl)
      else
        let r = submit_id uuid cl request_id;
            cl1 = cl\<lparr>cl_uuids := cl_uuids cl + (if request_id = None \<or> request_id = Some [] then 1 else 0)\<rparr>;
            a = length (cl_queues cl1);
            cl2 = cl1\<lparr>cl_queues := cl_queues cl1 @ [[]]\<rparr>
        in if r \<in> set (dict_keys (cl_streams cl2))
           then (Inl (ValueError (''duplicate request id: '' @ r)), cl2)
           else
             let cl3 = cl2\<lparr>cl_streams := AList.update r a (cl_streams cl2)\<rparr>
             in (case tok_encode (cl_tokenizer cl3) prompt of
                   Inl e \<Rightarrow> (Inl e, cl3)
                 | Inr ids \<Rightarrow>
                     let request = \<lparr>
                           er_request_id = r,
                           er_prompt = (case prompt of PyStr t \<Rightarrow> t | PyOther _ _ \<Rightarrow> []),
                           er_prompt_token_ids = (if ids = [] then [bos_token_id (cl_tokenizer cl3)] else ids),
                           er_sampling_params = sampling_params\<rparr>
                     in (Inr (r, a),
                         cl3\<lparr>cl_command_queue := cl_command_queue cl3 @
                           [\<lparr>ec_type = ADD, ec_request = Some request, ec_request_id = None\<rparr>]\<rparr>)))"

definition finish_stream :: "client \<Rightarrow> string \<Rightarrow> client" where
  "finish_stream cl r = cl\<lparr>cl_streams := AList.delete r (cl_streams cl)\<rparr>"

definition client_abort :: "client \<Rightarrow> string \<Rightarrow> client" where
  "client_abort cl r =
     (if cl_closed cl then cl
      else cl\<lparr>cl_command_queue := cl_command_queue cl @
             [\<lparr>ec_type = ABORT_CMD, ec_request = None, ec_request_id = Some r\<rparr>]\<rparr>)"

definition client_metrics :: "client \<Rightarrow> engine_metrics_snapshot" where
  "client_metrics cl = \<lparr>
     total_batches = cl_total_batches cl,
     total_scheduled_tokens = cl_total_scheduled_tokens cl,
     total_prefill_tokens = cl_total_prefill_tokens cl,
     total_decode_tokens = cl_total_decode_tokens cl,
     total_worker_execute_time_s = cl_total_worker_execute_time_s cl\<rparr>"

definition client_close :: "client \<Rightarrow> client" where
  "client_close cl =
     (if cl_closed cl then cl
      else cl\<lparr>cl_closed := True, cl_command_queue := cl_command_queue cl @
             [\<lparr>ec_type = SHUTDOWN, ec_request = None, ec_request_id = None\<rparr>]\<rparr>)"

section \<open>Metrics\<close>

definition metrics_key :: "batch_metrics \<Rightarrow> int \<times> int" where
  "metrics_key m = (bm_rank m, bm_batch_id m)"

definition routed_metrics :: "out_event list \<Rightarrow> batch_metrics set" where
  "routed_metrics evs = {m. \<exists>ev\<in>set evs. event_metrics ev = Some m}"

text \<open>The totals of a set of batches.\<close>

definition snapshot_of :: "batch_metrics set \<Rightarrow> engine_metrics_snapshot" where
  "snapshot_of B = \<lparr>
     total_batches = card B,
     total_scheduled_tokens = (\<Sum>m\<in>B. bm_num_scheduled_tokens m),
     total_prefill_tokens = (\<Sum>m\<in>B. bm_num_prefill_tokens m),
     total_decode_tokens = (\<Sum>m\<in>B. bm_num_decode_tokens m),
     total_worker_execute_time_s = (\<Sum>m\<in>B. bm_execute_time_s m)\<rparr>"

lemma stream_put_sel [simp]:
  "client_metrics (stream_put cl a out) = client_metrics cl"
  "cl_seen_batches (stream_put cl a out) = cl_seen_batches cl"
  "cl_streams (stream_put cl a out) = cl_streams cl"
  "cl_queues (stream_put cl a out) = (cl_queues cl)[a := cl_queues cl ! a @ [out]]"
  "cl_command_queue (stream_put cl a out) = cl_command_queue cl"
  "cl_closed (stream_put cl a out) = cl_closed cl"
  by (simp_all add: stream_put_def client_metrics_def)

lemma count_metrics_sel [simp]:
  "cl_streams (count_metrics cl m) = cl_streams cl"
  "cl_queues (count_metrics cl m) = cl_queues cl"
  "cl_command_queue (count_metrics cl m) = cl_command_queue cl"
  "cl_closed (count_metrics cl m) = cl_closed cl"
  by (simp_all add: count_metrics_def Let_def)

lemma route_event_metrics:
  "client_metrics (route_event cl ev) =
     (case event_metrics ev of None \<Rightarrow> client_metrics cl | Some m \<Rightarrow> client_metrics (count_metrics cl m))"
  "cl_seen_batches (route_event cl ev) =
     (case event_metrics ev of None \<Rightarrow> cl_seen_batches cl | Some m \<Rightarrow> cl_seen_batches (count_metrics cl m))"
  by (cases ev; simp add: route_event_def Let_def split: option.split)+

lemma route_metrics_gen:
  assumes "inj_on metrics_key (B \<union> routed_metrics evs)" and "finite B"
    and "set (cl_seen_batches cl) = metrics_key ` B" and "client_metrics cl = snapshot_of B"
  shows "client_metrics (fold (\<lambda>ev cl. route_event cl ev) evs cl) = snapshot_of (B \<union> routed_metrics evs)"
  using assms
proof (induction evs arbitrary: cl B)
  case Nil
  then show ?case by (simp add: routed_metrics_def)
next
  case (Cons ev evs)
  show ?case
  proof (cases "event_metrics ev")
    case None
    then have "routed_metrics (ev # evs) = routed_metrics evs" by (auto simp: routed_metrics_def)
    then show ?thesis using Cons None by (simp add: route_event_metrics)
  next
    case (Some m)
    have all: "routed_metrics (ev # evs) = insert m (routed_metrics evs)"
      using Some by (auto simp: routed_metrics_def)
    have un: "insert m B \<union> routed_metrics evs = B \<union> routed_metrics (ev # evs)" using all by blast
    have key: "metrics_key m \<in> metrics_key ` B \<longleftrightarrow> m \<in> B"
      using Cons.prems(1) all by (auto simp: inj_on_def)
    have "client_metrics (count_metrics cl m) = snapshot_of (insert m B)"
    proof (cases "m \<in> B")
      case True
      then have "count_metrics cl m = cl"
        using key Cons.prems(3) by (simp add: count_metrics_def metrics_key_def Let_def)
      then show ?thesis using True Cons.prems(4) by (simp add: insert_absorb)
    next
      case False
      then have "metrics_key m \<notin> set (cl_seen_batches cl)" using key Cons.prems(3) by simp
      then show ?thesis
        using False Cons.prems(2,4)
        by (simp add: count_metrics_def metrics_key_def Let_def client_metrics_def snapshot_of_def)
    qed
    moreover have "set (cl_seen_batches (count_metrics cl m)) = metrics_key ` insert m B"
      using Cons.prems(3) by (auto simp: count_metrics_def metrics_key_def Let_def)
    ultimately have "client_metrics (fold (\<lambda>ev cl. route_event cl ev) evs (route_event cl ev)) =
        snapshot_of (insert m B \<union> routed_metrics evs)"
      using Cons.prems(1,2) un Some by (intro Cons.IH) (simp_all add: route_event_metrics)
    then show ?thesis using un by simp
  qed
qed

text \<open>
  C33. Every batch is counted once.  A batch's metrics reach the client with its own event and again
  with every output of the batch, in any order and mixed with other ranks' events; if the
  pair of rank and batch id identifies the metrics, the client's totals after any sequence of
  events are the number of different batches among them and the sums over these.
\<close>

theorem client_counts_batches_once:
  assumes "client_init env config = Inr cl0" and "inj_on metrics_key (routed_metrics evs)"
  shows "client_metrics (fold (\<lambda>ev cl. route_event cl ev) evs cl0) = snapshot_of (routed_metrics evs)"
proof -
  have "cl_seen_batches cl0 = []" "client_metrics cl0 = snapshot_of {}"
    using assms(1) by (auto simp: client_init_def client_metrics_def snapshot_of_def split: sum.splits)
  then show ?thesis using route_metrics_gen [of "{}" evs cl0] assms(2) by simp
qed


text \<open>Two batches; the first one's metrics arrive three times.\<close>

definition demo_metrics :: "int \<Rightarrow> batch_metrics" where
  "demo_metrics bid = \<lparr>bm_batch_id = bid, bm_rank = 0, bm_num_requests = 1, bm_num_scheduled_tokens = 3,
     bm_num_prefill_tokens = 2, bm_num_decode_tokens = 1, bm_execute_time_s = 1, bm_execution_mode = ''eager''\<rparr>"

definition demo_output :: "string \<Rightarrow> bool \<Rightarrow> request_output" where
  "demo_output r fin = \<lparr>ro_request_id = r, ro_token_ids = [], ro_text = [], ro_finished = fin,
     ro_finish_reason = None, ro_error = None, ro_metrics = Some (demo_metrics 1), ro_request_metrics = None\<rparr>"

definition tiny_client :: client where
  "tiny_client = (case client_init no_hf tiny_config of Inr cl \<Rightarrow> cl)"

lemma tiny_client_init: "client_init no_hf tiny_config = Inr tiny_client"
proof -
  have "create_tokenizer no_hf (model_path tiny_config) (tokenizer_path tiny_config) = Inr character_tokenizer"
    by (simp add: create_tokenizer_def tiny_config_def default_engine_config_def)
  then show ?thesis by (simp add: tiny_client_def client_init_def)
qed

theorem client_counts_batches_once_witness:
  "client_metrics (fold (\<lambda>ev cl. route_event cl ev)
       [EvMetrics (demo_metrics 1), EvOutput (demo_output ''a'' False), EvOutput (demo_output ''b'' True),
        EvMetrics (demo_metrics 2)] tiny_client) = snapshot_of {demo_metrics 1, demo_metrics 2}"
proof -
  let ?evs = "[EvMetrics (demo_metrics 1), EvOutput (demo_output ''a'' False), EvOutput (demo_output ''b'' True),
        EvMetrics (demo_metrics 2)]"
  have m: "routed_metrics ?evs = {demo_metrics 1, demo_metrics 2}"
    by (auto simp: routed_metrics_def demo_output_def)
  then have "inj_on metrics_key (routed_metrics ?evs)" by (simp add: inj_on_def metrics_key_def demo_metrics_def)
  from client_counts_batches_once [OF tiny_client_init this] m show ?thesis by simp
qed

section \<open>Streams\<close>

text \<open>What other threads do to the client between two looks at a stream.\<close>

datatype client_op =
    Route out_event
  | SubmitOp pyobj sampling_params "string option"
  | FinishStream string
  | AbortOp string
  | TakeOp nat
  | CloseOp

text \<open>\<open>stream.get()\<close> on a queue that is not empty; on an empty queue the caller waits.\<close>

definition stream_get :: "client \<Rightarrow> nat \<Rightarrow> request_output option \<times> client" where
  "stream_get cl a =
     (case cl_queues cl ! a of
        [] \<Rightarrow> (None, cl)
      | output # rest \<Rightarrow> (Some output, cl\<lparr>cl_queues := (cl_queues cl)[a := rest]\<rparr>))"

fun client_step :: "(nat \<Rightarrow> string) \<Rightarrow> client_op \<Rightarrow> client \<Rightarrow> client" where
  "client_step uuid (Route ev) cl = route_event cl ev"
| "client_step uuid (SubmitOp prompt params rid) cl = snd (client_submit uuid cl prompt params rid)"
| "client_step uuid (FinishStream r) cl = finish_stream cl r"
| "client_step uuid (AbortOp r) cl = client_abort cl r"
| "client_step uuid (TakeOp a) cl = snd (stream_get cl a)"
| "client_step uuid CloseOp cl = client_close cl"

text \<open>Every registered id has its own queue object.\<close>

definition client_inv :: "client \<Rightarrow> bool" where
  "client_inv cl \<longleftrightarrow> distinct (dict_keys (cl_streams cl)) \<and> distinct (dict_vals (cl_streams cl)) \<and>
     (\<forall>a\<in>set (dict_vals (cl_streams cl)). a < length (cl_queues cl))"

lemma client_invD:
  assumes "client_inv cl" and "map_of (cl_streams cl) r = Some a"
  shows "a < length (cl_queues cl)" and "map_of (cl_streams cl) q = Some a \<Longrightarrow> q = r"
proof -
  have in_d: "(r, a) \<in> set (cl_streams cl)" using assms(2) by (rule map_of_SomeD)
  then show "a < length (cl_queues cl)" using assms(1) unfolding client_inv_def by force
  assume "map_of (cl_streams cl) q = Some a"
  then have "(q, a) \<in> set (cl_streams cl)" by (rule map_of_SomeD)
  moreover have "inj_on snd (set (cl_streams cl))" using assms(1) by (simp add: client_inv_def distinct_map)
  ultimately have "(q, a) = (r, a)" using in_d by (metis inj_onD snd_conv)
  then show "q = r" by simp
qed

text \<open>The branches of \<open>submit\<close>.\<close>

lemma client_submit_cases:
  obtains (closed) "cl_closed cl" "client_submit uuid cl prompt params rid =
      (Inl (RuntimeError ''engine is closed''), cl)"
  | (duplicate) cl' where "\<not> cl_closed cl" "submit_id uuid cl rid \<in> set (dict_keys (cl_streams cl))"
      "client_submit uuid cl prompt params rid =
        (Inl (ValueError (''duplicate request id: '' @ submit_id uuid cl rid)), cl')"
      "cl_streams cl' = cl_streams cl" "cl_queues cl' = cl_queues cl @ [[]]"
      "cl_command_queue cl' = cl_command_queue cl" "cl_closed cl' = cl_closed cl"
  | (encode) e cl' where "\<not> cl_closed cl" "submit_id uuid cl rid \<notin> set (dict_keys (cl_streams cl))"
      "tok_encode (cl_tokenizer cl) prompt = Inl e" "client_submit uuid cl prompt params rid = (Inl e, cl')"
      "cl_streams cl' = AList.update (submit_id uuid cl rid) (length (cl_queues cl)) (cl_streams cl)"
      "cl_queues cl' = cl_queues cl @ [[]]"
      "cl_command_queue cl' = cl_command_queue cl" "cl_closed cl' = cl_closed cl"
  | (accepted) ids cl' where "\<not> cl_closed cl" "submit_id uuid cl rid \<notin> set (dict_keys (cl_streams cl))"
      "tok_encode (cl_tokenizer cl) prompt = Inr ids"
      "client_submit uuid cl prompt params rid = (Inr (submit_id uuid cl rid, length (cl_queues cl)), cl')"
      "cl_streams cl' = AList.update (submit_id uuid cl rid) (length (cl_queues cl)) (cl_streams cl)"
      "cl_queues cl' = cl_queues cl @ [[]]" "cl_closed cl' = cl_closed cl"
      "cl_command_queue cl' = cl_command_queue cl @ [\<lparr>ec_type = ADD, ec_request = Some \<lparr>
         er_request_id = submit_id uuid cl rid,
         er_prompt = (case prompt of PyStr t \<Rightarrow> t | PyOther _ _ \<Rightarrow> []),
         er_prompt_token_ids = (if ids = [] then [bos_token_id (cl_tokenizer cl)] else ids),
         er_sampling_params = params\<rparr>, ec_request_id = None\<rparr>]"
proof (cases "cl_closed cl")
  case True
  then show ?thesis using closed by (simp add: client_submit_def)
next
  case open_: False
  let ?r = "submit_id uuid cl rid"
  let ?cl1 = "cl\<lparr>cl_uuids := cl_uuids cl + (if rid = None \<or> rid = Some [] then 1 else 0)\<rparr>"
  let ?cl2 = "?cl1\<lparr>cl_queues := cl_queues ?cl1 @ [[]]\<rparr>"
  let ?cl3 = "?cl2\<lparr>cl_streams := AList.update ?r (length (cl_queues ?cl1)) (cl_streams ?cl2)\<rparr>"
  show ?thesis
  proof (cases "?r \<in> set (dict_keys (cl_streams cl))")
    case True
    then have "client_submit uuid cl prompt params rid = (Inl (ValueError (''duplicate request id: '' @ ?r)), ?cl2)"
      using open_ by (simp add: client_submit_def Let_def)
    then show ?thesis using open_ True by (intro duplicate [of ?cl2]) simp_all
  next
    case False
    show ?thesis
    proof (cases "tok_encode (cl_tokenizer cl) prompt")
      case (Inl e)
      then have "client_submit uuid cl prompt params rid = (Inl e, ?cl3)"
        using open_ False by (simp add: client_submit_def Let_def)
      then show ?thesis using open_ False Inl by (intro encode [of e ?cl3]) simp_all
    next
      case (Inr ids)
      let ?cl4 = "?cl3\<lparr>cl_command_queue := cl_command_queue ?cl3 @ [\<lparr>ec_type = ADD, ec_request = Some \<lparr>
         er_request_id = ?r, er_prompt = (case prompt of PyStr t \<Rightarrow> t | PyOther _ _ \<Rightarrow> []),
         er_prompt_token_ids = (if ids = [] then [bos_token_id (cl_tokenizer cl)] else ids),
         er_sampling_params = params\<rparr>, ec_request_id = None\<rparr>]\<rparr>"
      have "client_submit uuid cl prompt params rid = (Inr (?r, length (cl_queues cl)), ?cl4)"
        using open_ False Inr by (simp add: client_submit_def Let_def)
      then show ?thesis using open_ False Inr by (intro accepted [of ids ?cl4]) simp_all
    qed
  qed
qed


lemma client_inv_init: "client_init env config = Inr cl \<Longrightarrow> client_inv cl"
  by (auto simp: client_init_def client_inv_def split: sum.splits)

lemma client_inv_register:
  assumes inv: "client_inv cl" and r: "r \<notin> set (dict_keys (cl_streams cl))"
    and cl': "cl_streams cl' = AList.update r (length (cl_queues cl)) (cl_streams cl)"
      "cl_queues cl' = cl_queues cl @ [[]]"
  shows "client_inv cl'"
proof -
  have "cl_streams cl' = cl_streams cl @ [(r, length (cl_queues cl))]"
    using cl'(1) update_fresh [OF r] by simp
  then show ?thesis using inv r unfolding client_inv_def cl'(2) by (auto simp: image_iff)
qed

fun routed_to :: "string \<Rightarrow> client_op \<Rightarrow> request_output list" where
  "routed_to r (Route (EvOutput out)) = (if ro_request_id out = r then [out] else [])"
| "routed_to r _ = []"

lemma route_event_streams [simp]:
  "cl_streams (route_event cl ev) = cl_streams cl"
  "length (cl_queues (route_event cl ev)) = length (cl_queues cl)"
  by (cases ev; simp add: route_event_def Let_def split: option.split)+

lemma route_event_queue:
  assumes "client_inv cl" and "map_of (cl_streams cl) r = Some a"
  shows "cl_queues (route_event cl ev) ! a = cl_queues cl ! a @ routed_to r (Route ev)"
proof (cases ev)
  case (EvOutput out)
  note D = client_invD [OF assms]
  show ?thesis
  proof (cases "map_of (cl_streams cl) (ro_request_id out)")
    case None
    then have "ro_request_id out \<noteq> r" using assms(2) by auto
    then show ?thesis using EvOutput None by (simp add: route_event_def Let_def split: option.split)
  next
    case (Some b)
    have q: "cl_queues (route_event cl ev) = (cl_queues cl)[b := cl_queues cl ! b @ [out]]"
      using EvOutput Some by (simp add: route_event_def Let_def split: option.split)
    have "b = a \<longleftrightarrow> ro_request_id out = r" using D(2) Some assms(2) by (metis option.inject)
    then show ?thesis unfolding q using EvOutput D(1) by (cases "b = a") simp_all
  qed
qed (simp add: route_event_def split: option.split)

lemma stream_get_sel:
  "cl_streams (snd (stream_get cl b)) = cl_streams cl"
  "length (cl_queues (snd (stream_get cl b))) = length (cl_queues cl)"
  "a \<noteq> b \<Longrightarrow> cl_queues (snd (stream_get cl b)) ! a = cl_queues cl ! a"
  by (auto simp: stream_get_def split: list.split)

lemma client_inv_same:
  assumes "client_inv cl" and "cl_streams cl' = cl_streams cl" and "length (cl_queues cl) \<le> length (cl_queues cl')"
  shows "client_inv cl'"
  using assms by (auto simp: client_inv_def)

lemma client_step_inv:
  assumes inv: "client_inv cl"
  shows "client_inv (client_step uuid op cl)"
proof (cases op)
  case (SubmitOp prompt params rid)
  show ?thesis
  proof (cases rule: client_submit_cases [of cl uuid prompt params rid])
    case closed
    then show ?thesis using inv SubmitOp by simp
  next
    case (duplicate cl')
    then show ?thesis using client_inv_same [OF inv, of cl'] SubmitOp by simp
  next
    case (encode e cl')
    then show ?thesis using client_inv_register [OF inv encode(2,5,6)] SubmitOp by simp
  next
    case (accepted ids cl')
    then show ?thesis using client_inv_register [OF inv accepted(2,5,6)] SubmitOp by simp
  qed
next
  case (FinishStream r)
  let ?d = "AList.delete r (cl_streams cl)"
  have sub: "set ?d \<subseteq> set (cl_streams cl)" by (auto simp: AList.delete_eq)
  have "distinct (dict_vals ?d)" "distinct (dict_keys ?d)"
    using inv by (simp_all add: client_inv_def AList.delete_eq distinct_map_filter)
  moreover have "\<forall>a\<in>set (dict_vals ?d). a < length (cl_queues cl)"
    using inv sub by (auto simp: client_inv_def)
  ultimately show ?thesis using FinishStream by (simp add: client_inv_def finish_stream_def)
qed (use inv client_inv_same [OF inv] stream_get_sel in \<open>simp_all add: client_abort_def client_close_def\<close>)

lemma client_step_stream:
  assumes inv: "client_inv cl" and r: "map_of (cl_streams cl) r = Some a"
    and op: "op \<noteq> FinishStream r" "op \<noteq> TakeOp a"
  shows "map_of (cl_streams (client_step uuid op cl)) r = Some a"
    and "cl_queues (client_step uuid op cl) ! a = cl_queues cl ! a @ routed_to r op"
proof -
  have a: "a < length (cl_queues cl)" by (rule client_invD(1) [OF inv r])
  have key: "r \<in> set (dict_keys (cl_streams cl))" using r by (rule map_of_Some_in_keys)
  have "map_of (cl_streams (client_step uuid op cl)) r = Some a \<and>
      cl_queues (client_step uuid op cl) ! a = cl_queues cl ! a @ routed_to r op"
  proof (cases op)
    case (Route ev)
    then show ?thesis using route_event_queue [OF inv r] r by simp
  next
    case (SubmitOp prompt params rid)
    show ?thesis
    proof (cases rule: client_submit_cases [of cl uuid prompt params rid])
      case closed
      then show ?thesis using r SubmitOp by simp
    next
      case (duplicate cl')
      then show ?thesis using r a SubmitOp by (simp add: nth_append)
    next
      case (encode e cl')
      moreover from encode(2) key have "submit_id uuid cl rid \<noteq> r" by blast
      ultimately show ?thesis using r a SubmitOp by (simp add: nth_append update_conv')
    next
      case (accepted ids cl')
      moreover from accepted(2) key have "submit_id uuid cl rid \<noteq> r" by blast
      ultimately show ?thesis using r a SubmitOp by (simp add: nth_append update_conv')
    qed
  next
    case (FinishStream q)
    then show ?thesis using r op(1) by (simp add: finish_stream_def delete_conv')
  next
    case (TakeOp b)
    then show ?thesis using r op(2) stream_get_sel by simp
  qed (use r in \<open>simp_all add: client_abort_def client_close_def\<close>)
  then show "map_of (cl_streams (client_step uuid op cl)) r = Some a"
    and "cl_queues (client_step uuid op cl) ! a = cl_queues cl ! a @ routed_to r op" by blast+
qed

interpretation clients: invariant_system "client_step uuid" "\<lambda>_ _. True" client_inv for uuid
  by unfold_locales (rule client_step_inv)

lemma always_admissible: "clients.admissible uuid ops cl"
  by (induction ops arbitrary: cl) simp_all

lemma stream_run:
  assumes "client_inv cl" and "map_of (cl_streams cl) r = Some a"
    and "FinishStream r \<notin> set ops" "TakeOp a \<notin> set ops"
  shows "map_of (cl_streams (fold (client_step uuid) ops cl)) r = Some a \<and>
    cl_queues (fold (client_step uuid) ops cl) ! a = cl_queues cl ! a @ concat (map (routed_to r) ops)"
  using assms
proof (induction ops arbitrary: cl)
  case (Cons op ops)
  then have op: "op \<noteq> FinishStream r" "op \<noteq> TakeOp a" by auto
  note S = client_step_stream [OF Cons.prems(1,2) op]
  show ?case using Cons.IH [OF client_step_inv [OF Cons.prems(1)] S(1)] S(2) Cons.prems(3,4) by simp
qed simp

text \<open>
  C34. A stream receives exactly its request's outputs.  Take any reachable state of the client and
  a submission that is accepted; whatever the threads of the process do afterwards (routing
  events, submitting, aborting, finishing and reading other streams, closing), as long as this
  stream is neither finished nor read, its queue holds the outputs routed for its id since
  then, all of them, in order, and no others.
\<close>

theorem stream_receives_exactly:
  assumes "client_init env config = Inr cl0" and "fold (client_step uuid) before cl0 = cl"
    and "client_submit uuid cl prompt params rid = (Inr (r, a), cl1)"
    and "FinishStream r \<notin> set ops" and "TakeOp a \<notin> set ops"
  shows "cl_queues (fold (client_step uuid) ops cl1) ! a = concat (map (routed_to r) ops)"
proof -
  have inv: "client_inv cl"
    using clients.fold_inv [OF client_inv_init [OF assms(1)] always_admissible] assms(2) by metis
  from client_step_inv [OF this, of uuid "SubmitOp prompt params rid"] have inv1: "client_inv cl1"
    using assms(3) by simp
  show ?thesis
  proof (cases rule: client_submit_cases [of cl uuid prompt params rid])
    case (accepted ids cl')
    then have "map_of (cl_streams cl1) r = Some a" "cl_queues cl1 ! a = []"
      using assms(3) by (auto simp: update_conv' nth_append)
    then show ?thesis using stream_run [OF inv1 _ assms(4,5)] by simp
  qed (use assms(3) in simp_all)
qed


definition hello :: pyobj where
  "hello = PyStr [104, 105]"

definition demo_uuid :: "nat \<Rightarrow> string" where
  "demo_uuid n = replicate (Suc n) CHR ''u''"

theorem stream_receives_exactly_witness:
  "case client_submit demo_uuid tiny_client hello default_sampling_params (Some ''a'') of
     (Inr (r, a), cl1) \<Rightarrow> cl_queues (fold (client_step demo_uuid)
         [Route (EvOutput (demo_output ''a'' False)), Route (EvOutput (demo_output ''b'' False)),
          FinishStream ''b'', Route (EvOutput (demo_output ''a'' True))] cl1) ! a =
       [demo_output ''a'' False, demo_output ''a'' True]
   | _ \<Rightarrow> False"
proof -
  let ?p = "client_submit demo_uuid tiny_client hello default_sampling_params (Some ''a'')"
  have "case ?p of (Inr (r, a), cl1) \<Rightarrow> r = ''a'' | _ \<Rightarrow> False" by code_simp
  then obtain a cl1 where p: "?p = (Inr (''a'', a), cl1)" by (auto split: prod.splits sum.splits)
  have none: "fold (client_step demo_uuid) [] tiny_client = tiny_client" by simp
  let ?ops = "[Route (EvOutput (demo_output ''a'' False)), Route (EvOutput (demo_output ''b'' False)),
          FinishStream ''b'', Route (EvOutput (demo_output ''a'' True))]"
  from stream_receives_exactly [OF tiny_client_init none p, of ?ops] p show ?thesis
    by (simp add: demo_output_def)
qed

text \<open>
  C35. Every outcome of a submission.  In every reachable state of the client: a closed client
  refuses; an id that is in use is refused and nobody's stream or command is touched;
  otherwise, when the tokenizer accepts the prompt, exactly one add command is put, with the
  chosen id and at least one prompt token, and the new stream is empty and nobody else's.  When
  the tokenizer refuses the prompt, no command is put, but the id stays registered: every later
  submission under it is refused as a duplicate until \<open>finish_stream\<close> is called.
\<close>

theorem client_submit_outcomes:
  assumes "client_init env config = Inr cl0" and "fold (client_step uuid) before cl0 = cl"
    and "\<forall>n. uuid n \<noteq> []"
  shows "let r = submit_id uuid cl rid; old = set (dict_keys (cl_streams cl)) in
    case client_submit uuid cl prompt params rid of
      (Inr (r', a), cl') \<Rightarrow> r' = r \<and> r \<notin> old \<and> \<not> cl_closed cl \<and>
        a \<notin> set (dict_vals (cl_streams cl)) \<and> map_of (cl_streams cl') r = Some a \<and> cl_queues cl' ! a = [] \<and>
        (\<exists>q. cl_command_queue cl' = cl_command_queue cl @
             [\<lparr>ec_type = ADD, ec_request = Some q, ec_request_id = None\<rparr>] \<and>
           er_request_id q = r \<and> er_prompt_token_ids q \<noteq> [] \<and> er_sampling_params q = params)
    | (Inl e, cl') \<Rightarrow> cl_command_queue cl' = cl_command_queue cl \<and>
        (cl_closed cl \<and> e = RuntimeError ''engine is closed'' \<and> cl' = cl \<or>
         r \<in> old \<and> e = ValueError (''duplicate request id: '' @ r) \<and> cl_streams cl' = cl_streams cl \<or>
         r \<notin> old \<and> tok_encode (cl_tokenizer cl) prompt = Inl e \<and>
           fst (client_submit uuid cl' prompt' params' (Some r)) =
             Inl (ValueError (''duplicate request id: '' @ r)))"
proof -
  have inv: "client_inv cl"
    using clients.fold_inv [OF client_inv_init [OF assms(1)] always_admissible] assms(2) by metis
  let ?r = "submit_id uuid cl rid"
  show ?thesis
  proof (cases rule: client_submit_cases [of cl uuid prompt params rid])
    case closed
    then show ?thesis by simp
  next
    case (duplicate cl')
    then show ?thesis by simp
  next
    case (encode e cl')
    have reg: "?r \<in> set (dict_keys (cl_streams cl'))" using encode(5) by (simp add: keys_update)
    have "?r \<noteq> []" using assms(3) by (cases rid) (simp_all add: submit_id_def)
    then have "fst (client_submit uuid cl' prompt' params' (Some ?r)) =
        Inl (ValueError (''duplicate request id: '' @ ?r))"
      using reg encode(1,8) submit_id_def [of uuid cl' "Some ?r"] by (simp add: client_submit_def Let_def)
    then show ?thesis using encode by (auto simp: Let_def)
  next
    case (accepted ids cl')
    have "length (cl_queues cl) \<notin> set (dict_vals (cl_streams cl))" using inv by (auto simp: client_inv_def)
    then show ?thesis using accepted by (simp add: Let_def update_conv' nth_append)
  qed
qed


theorem client_submit_outcomes_witness:
  "let p = client_submit demo_uuid tiny_client hello default_sampling_params (Some ''a'') in
     \<exists>q. cl_command_queue (snd p) = [\<lparr>ec_type = ADD, ec_request = Some q, ec_request_id = None\<rparr>] \<and>
       er_prompt_token_ids q \<noteq> []"
proof -
  let ?p = "client_submit demo_uuid tiny_client hello default_sampling_params (Some ''a'')"
  have "(case ?p of (Inr (r, a), cl1) \<Rightarrow> True | _ \<Rightarrow> False) \<and> length (cl_command_queue tiny_client) = 0"
    by code_simp
  then obtain r a cl1 where p: "?p = (Inr (r, a), cl1)" "cl_command_queue tiny_client = []"
    by (auto split: prod.splits sum.splits)
  have none: "fold (client_step demo_uuid) [] tiny_client = tiny_client" by simp
  have "\<forall>n. demo_uuid n \<noteq> []" by (simp add: demo_uuid_def)
  from client_submit_outcomes [OF tiny_client_init none this, where rid = "Some ''a''" and prompt = hello
      and params = default_sampling_params] p
  show ?thesis by (auto simp: Let_def)
qed

end
