(* ===== verification/LLMEngine.thy ===== *)
theory LLMEngine
  imports EngineClient
begin

text \<open>
  \<open>minivllm/engine/llm_engine.py\<close> and \<open>async_engine.py\<close>: the generator \<open>generate\<close>, whose body is
  the same in both classes.  A generator is a state machine: its first \<open>next()\<close> submits the request
  and then reads the stream; every resumption reads one output or, after the final one, leaves the
  loop and runs the \<open>finally\<close> block; closing it at a \<open>yield\<close> runs the \<open>finally\<close> block at once.
\<close>

section \<open>generate\<close>

record generation =
  ge_request_id :: string
  ge_stream :: nat
  ge_finished :: bool
  ge_ended :: bool

datatype gen_outcome = Waits | Yields request_output | Stops

definition generate_start ::
    "(nat \<Rightarrow> string) \<Rightarrow> client \<Rightarrow> pyobj \<Rightarrow> sampling_params option \<Rightarrow> string option \<Rightarrow>
       (exn + generation) \<times> client" where
  "generate_start uuid cl prompt params rid =
     (case client_submit uuid cl prompt
             (case params of None \<Rightarrow> default_sampling_params | Some p \<Rightarrow> p) rid of
        (Inl e, cl') \<Rightarrow> (Inl e, cl')
      | (Inr (r, a), cl') \<Rightarrow>
          (Inr \<lparr>ge_request_id = r, ge_stream = a, ge_finished = False, ge_ended = False\<rparr>, cl'))"

text \<open>The \<open>finally\<close> block.\<close>

definition generate_finally :: "generation \<Rightarrow> client \<Rightarrow> client" where
  "generate_finally g cl =
     finish_stream (if ge_finished g then cl else client_abort cl (ge_request_id g)) (ge_request_id g)"

definition generate_resume :: "generation \<Rightarrow> client \<Rightarrow> gen_outcome \<times> generation \<times> client" where
  "generate_resume g cl =
     (if ge_ended g then (Stops, g, cl)
      else if ge_finished g then (Stops, g\<lparr>ge_ended := True\<rparr>, generate_finally g cl)
      else (case stream_get cl (ge_stream g) of
              (None, cl') \<Rightarrow> (Waits, g, cl')
            | (Some output, cl') \<Rightarrow> (Yields output, g\<lparr>ge_finished := ro_finished output\<rparr>, cl')))"

definition generate_close :: "generation \<Rightarrow> client \<Rightarrow> generation \<times> client" where
  "generate_close g cl =
     (if ge_ended g then (g, cl) else (g\<lparr>ge_ended := True\<rparr>, generate_finally g cl))"

text \<open>Resuming until the generator waits or stops, at most \<open>n\<close> times.\<close>

fun generate_collect :: "nat \<Rightarrow> generation \<Rightarrow> client \<Rightarrow> request_output list \<times> generation \<times> client" where
  "generate_collect 0 g cl = ([], g, cl)"
| "generate_collect (Suc n) g cl =
     (case generate_resume g cl of
        (Yields output, g', cl') \<Rightarrow>
          (case generate_collect n g' cl' of (outs, g'', cl'') \<Rightarrow> (output # outs, g'', cl''))
      | (_, g', cl') \<Rightarrow> ([], g', cl'))"

section \<open>The engine object\<close>

text \<open>
  The constructor builds a default configuration when none is given; the other methods forward to the client, and
  leaving a \<open>with\<close> block closes the engine.
\<close>

definition engine_start :: "hf_env \<Rightarrow> engine_config option \<Rightarrow> exn + client" where
  "engine_start env config =
     (case config of
        Some c \<Rightarrow> client_init env c
      | None \<Rightarrow> (case engine_config_post_init default_engine_config of
                   Inl e \<Rightarrow> Inl e
                 | Inr c \<Rightarrow> client_init env c))"

definition engine_abort :: "client \<Rightarrow> string \<Rightarrow> client" where
  "engine_abort cl r = client_abort cl r"

definition engine_metrics :: "client \<Rightarrow> engine_metrics_snapshot" where
  "engine_metrics cl = client_metrics cl"

definition engine_close :: "client \<Rightarrow> client" where
  "engine_close cl = client_close cl"

definition engine_exit :: "client \<Rightarrow> client" where
  "engine_exit cl = engine_close cl"

text \<open>Without a configuration the engine starts, and a block closed inside sends one shutdown command.\<close>

lemma engine_start_default: "\<exists>cl. engine_start env None = Inr cl \<and> client_init env default_engine_config = Inr cl"
proof -
  have "engine_config_post_init default_engine_config = Inr default_engine_config"
    by (simp add: engine_config_post_init_def config_positive_def default_engine_config_def)
  then show ?thesis
    by (simp add: engine_start_def client_init_def create_tokenizer_def default_engine_config_def)
qed

lemma engine_exit_closed: "engine_exit (engine_close cl) = engine_close cl"
  by (simp add: engine_exit_def engine_close_def client_close_def)

section \<open>A complete generation\<close>

lemma collect_all:
  assumes "cl_queues cl ! ge_stream g = outs @ [fin]" and "ge_stream g < length (cl_queues cl)"
    and "\<forall>out\<in>set outs. \<not> ro_finished out" and "ro_finished fin" and "\<not> ge_finished g" "\<not> ge_ended g"
  shows "\<exists>g' cl'. generate_collect (length outs + 2) g cl = (outs @ [fin], g', cl') \<and> ge_ended g' \<and>
    cl_command_queue cl' = cl_command_queue cl \<and>
    cl_streams cl' = AList.delete (ge_request_id g) (cl_streams cl)"
  using assms
proof (induction outs arbitrary: g cl)
  case Nil
  then show ?case
    by (simp add: generate_resume_def stream_get_def generate_finally_def finish_stream_def numeral_2_eq_2)
next
  case (Cons out outs)
  let ?cl = "cl\<lparr>cl_queues := (cl_queues cl)[ge_stream g := outs @ [fin]]\<rparr>"
  let ?g = "g\<lparr>ge_finished := False\<rparr>"
  have "generate_resume g cl = (Yields out, ?g, ?cl)"
    using Cons.prems by (simp add: generate_resume_def stream_get_def)
  moreover from Cons.IH [of ?cl ?g] Cons.prems obtain g' cl' where
    "generate_collect (length outs + 2) ?g ?cl = (outs @ [fin], g', cl')" "ge_ended g'"
    "cl_command_queue cl' = cl_command_queue cl"
    "cl_streams cl' = AList.delete (ge_request_id g) (cl_streams cl)" by auto
  ultimately show ?case by simp
qed

lemma generation_runs:
  assumes "client_init env config = Inr cl0" and "fold (client_step uuid) before cl0 = cl"
    and "generate_start uuid cl prompt params rid = (Inr g, cl1)"
    and "FinishStream (ge_request_id g) \<notin> set ops" and "TakeOp (ge_stream g) \<notin> set ops"
    and "concat (map (routed_to (ge_request_id g)) ops) = outs @ [fin]"
    and "\<forall>out\<in>set outs. \<not> ro_finished out" and "ro_finished fin"
  shows "\<exists>g' cl'. generate_collect (length outs + 2) g (fold (client_step uuid) ops cl1) = (outs @ [fin], g', cl') \<and>
    ge_ended g' \<and> ge_request_id g \<notin> set (dict_keys (cl_streams cl')) \<and>
    cl_command_queue cl' = cl_command_queue (fold (client_step uuid) ops cl1)"
proof -
  let ?ps = "case params of None \<Rightarrow> default_sampling_params | Some p \<Rightarrow> p"
  from assms(3) have sub: "client_submit uuid cl prompt ?ps rid = (Inr (ge_request_id g, ge_stream g), cl1)"
    and g: "\<not> ge_finished g" "\<not> ge_ended g"
    by (auto simp: generate_start_def split: sum.splits prod.splits)
  have inv: "client_inv cl"
    using clients.fold_inv [OF client_inv_init [OF assms(1)] always_admissible] assms(2) by metis
  from client_step_inv [OF this, of uuid "SubmitOp prompt ?ps rid"] have inv1: "client_inv cl1"
    using sub by simp
  have reg: "map_of (cl_streams cl1) (ge_request_id g) = Some (ge_stream g)" "cl_queues cl1 ! ge_stream g = []"
    by (cases rule: client_submit_cases [of cl uuid prompt ?ps rid];
        use sub in \<open>auto simp: update_conv' nth_append\<close>)+
  let ?cl = "fold (client_step uuid) ops cl1"
  have inv2: "client_inv ?cl" by (rule clients.fold_inv [OF inv1 always_admissible])
  note R = stream_run [OF inv1 reg(1) assms(4,5), of uuid]
  have len: "ge_stream g < length (cl_queues ?cl)" using client_invD(1) [OF inv2] R by blast
  have q: "cl_queues ?cl ! ge_stream g = outs @ [fin]" using R reg(2) assms(6) by simp
  have "ge_request_id g \<notin> set (dict_keys (AList.delete (ge_request_id g) d))" for d :: "(string, nat) dict"
    unfolding keys_delete by simp
  with collect_all [OF q len assms(7,8) g] show ?thesis by metis
qed

text \<open>
  A generation that runs to its end is complete and leaves nothing behind.  Start \<open>generate\<close>
  in any reachable state of the client and let the other threads do what they like; once the
  outputs routed for its id end with a final one, resuming the generator yields exactly these
  outputs in order and then stops, its id is free again, and no abort command is sent.
\<close>

theorem generation_complete:
  assumes "client_init env config = Inr cl0" and "fold (client_step uuid) before cl0 = cl"
    and "generate_start uuid cl prompt params rid = (Inr g, cl1)"
    and "FinishStream (ge_request_id g) \<notin> set ops" and "TakeOp (ge_stream g) \<notin> set ops"
    and "concat (map (routed_to (ge_request_id g)) ops) = outs @ [fin]"
    and "\<forall>out\<in>set outs. \<not> ro_finished out" and "ro_finished fin"
  shows "\<exists>g' cl'. generate_collect (length outs + 2) g (fold (client_step uuid) ops cl1) = (outs @ [fin], g', cl') \<and>
    ge_ended g' \<and> ge_request_id g \<notin> set (dict_keys (cl_streams cl')) \<and>
    cl_command_queue cl' = cl_command_queue (fold (client_step uuid) ops cl1)"
  using generation_runs [OF assms] .

theorem generation_complete_witness:
  "case generate_start demo_uuid tiny_client hello None (Some ''a'') of
     (Inr g, cl1) \<Rightarrow> fst (generate_collect 3 g (fold (client_step demo_uuid)
         [Route (EvOutput (demo_output ''a'' False)), Route (EvOutput (demo_output ''b'' True)),
          Route (EvOutput (demo_output ''a'' True))] cl1)) = [demo_output ''a'' False, demo_output ''a'' True]
   | _ \<Rightarrow> False"
proof -
  let ?p = "generate_start demo_uuid tiny_client hello None (Some ''a'')"
  have "case ?p of (Inr g, cl1) \<Rightarrow> ge_request_id g = ''a'' | _ \<Rightarrow> False" by code_simp
  then obtain g cl1 where p: "?p = (Inr g, cl1)" "ge_request_id g = ''a''" by (auto split: prod.splits sum.splits)
  have none: "fold (client_step demo_uuid) [] tiny_client = tiny_client" by simp
  let ?ops = "[Route (EvOutput (demo_output ''a'' False)), Route (EvOutput (demo_output ''b'' True)),
          Route (EvOutput (demo_output ''a'' True))]"
  have "concat (map (routed_to (ge_request_id g)) ?ops) = [demo_output ''a'' False] @ [demo_output ''a'' True]"
    using p(2) by (simp add: demo_output_def)
  moreover have "FinishStream (ge_request_id g) \<notin> set ?ops" "TakeOp (ge_stream g) \<notin> set ?ops" by simp_all
  moreover have "\<not> ro_finished (demo_output ''a'' False)" "ro_finished (demo_output ''a'' True)"
    by (simp_all add: demo_output_def)
  ultimately have "\<exists>g' cl'. generate_collect (length [demo_output ''a'' False] + 2) g (fold (client_step demo_uuid) ?ops cl1) =
      ([demo_output ''a'' False] @ [demo_output ''a'' True], g', cl')"
    using generation_complete [OF tiny_client_init none p(1), of ?ops "[demo_output ''a'' False]" "demo_output ''a'' True"]
    by auto
  then show ?thesis unfolding p(1) by (auto simp: numeral_3_eq_3 simp del: generate_collect.simps)
qed

section \<open>Giving up early\<close>

text \<open>
  Closing a generator before its final output asks the engine to stop: exactly one abort command
  with its id is put (unless the client is closed), the id is freed, and closing again does nothing.
  Closing it after the final output sends nothing.
\<close>

theorem generation_closed:
  assumes "\<not> ge_ended g" and "generate_close g cl = (g', cl')"
  shows "ge_ended g' \<and> ge_request_id g \<notin> set (dict_keys (cl_streams cl')) \<and>
    (\<forall>q. q \<noteq> ge_request_id g \<longrightarrow> map_of (cl_streams cl') q = map_of (cl_streams cl) q) \<and>
    cl_command_queue cl' = cl_command_queue cl @
      (if ge_finished g \<or> cl_closed cl then []
       else [\<lparr>ec_type = ABORT_CMD, ec_request = None, ec_request_id = Some (ge_request_id g)\<rparr>]) \<and>
    generate_close g' cl' = (g', cl')"
proof -
  have g: "g' = g\<lparr>ge_ended := True\<rparr>" and cl': "cl' = generate_finally g cl"
    using assms by (simp_all add: generate_close_def)
  have s: "cl_streams cl' = AList.delete (ge_request_id g) (cl_streams cl)"
    by (simp add: cl' generate_finally_def finish_stream_def client_abort_def)
  have "ge_request_id g \<notin> set (dict_keys (cl_streams cl'))" unfolding s keys_delete by simp
  moreover have "\<forall>q. q \<noteq> ge_request_id g \<longrightarrow> map_of (cl_streams cl') q = map_of (cl_streams cl) q"
    unfolding s by (simp add: delete_conv')
  moreover have "cl_command_queue cl' = cl_command_queue cl @
      (if ge_finished g \<or> cl_closed cl then []
       else [\<lparr>ec_type = ABORT_CMD, ec_request = None, ec_request_id = Some (ge_request_id g)\<rparr>])"
    by (simp add: cl' generate_finally_def finish_stream_def client_abort_def)
  ultimately show ?thesis by (simp add: g generate_close_def)
qed

definition demo_generation :: "generation \<times> client" where
  "demo_generation = (case generate_start demo_uuid tiny_client hello None (Some ''a'') of
     (Inr g, cl) \<Rightarrow> (g, cl))"

theorem generation_closed_witness:
  "let (g, cl) = demo_generation; (g', cl') = generate_close g cl in
     length (cl_command_queue cl') = Suc (length (cl_command_queue cl))"
proof -
  obtain g cl where d: "demo_generation = (g, cl)" by fastforce
  obtain g' cl' where c: "generate_close g cl = (g', cl')" by fastforce
  have "case demo_generation of (g, cl) \<Rightarrow> \<not> ge_ended g \<and> \<not> ge_finished g \<and> \<not> cl_closed cl" by code_simp
  then have "\<not> ge_ended g" "\<not> ge_finished g" "\<not> cl_closed cl" unfolding d prod.case by blast+
  with generation_closed [OF _ c] show ?thesis by (simp add: d c)
qed

text \<open>
  \<open>AsyncLLMEngine.generate\<close> awaits \<open>stream.get\<close> in another thread; a task cancelled there leaves the loop
  through the \<open>finally\<close> block, as one closed at a \<open>yield\<close> before the final output does.
\<close>

definition generate_cancel :: "generation \<Rightarrow> client \<Rightarrow> generation \<times> client" where
  "generate_cancel g cl =
     (if ge_ended g \<or> ge_finished g then (g, cl) else (g\<lparr>ge_ended := True\<rparr>, generate_finally g cl))"

lemma generate_cancel_close: "\<not> ge_finished g \<Longrightarrow> generate_cancel g cl = generate_close g cl"
  by (simp add: generate_cancel_def generate_close_def)

text \<open>A generation is given up, its id used again, and the engine's answer to the abort arrives.\<close>

definition stale_answer :: "string \<Rightarrow> out_event" where
  "stale_answer r = EvOutput (final_output r ABORT None)"

definition reuse_run :: "request_output list \<times> generation \<times> client" where
  "reuse_run = (case demo_generation of (g, cl) \<Rightarrow>
     (case generate_close g cl of (_, cl1) \<Rightarrow>
       (case generate_start demo_uuid cl1 hello None (Some ''a'') of
          (Inr g2, cl2) \<Rightarrow> generate_collect 3 g2 (route_event cl2 (stale_answer ''a'')))))"


end
