(* ===== verification/EngineCore_Answers.thy ===== *)
theory EngineCore_Answers
  imports EngineCore_Stream
begin

text \<open>
  The answers an engine core gives (\<open>minivllm/engine/core.py\<close>, \<open>append_token\<close> in \<open>minivllm/scheduler.py\<close>): what
  the outputs of a finished request carry, and why the answer ends where it does.  Two properties
  of the core are carried through its runs by \<open>core_property\<close>: every final output ends a whole answer, and
  nothing is sent under an id nobody has asked for.
\<close>

section \<open>What an answer is\<close>

text \<open>
  Generation goes on after the tokens \<open>ts\<close> if their text does not end with a stop string and neither the
  request's own limit nor the context limit is reached.
\<close>

definition goes_on :: "engine_config \<Rightarrow> engine_request \<Rightarrow> int list \<Rightarrow> bool" where
  "goes_on config q ts \<longleftrightarrow>
     (\<exists>tx. char_decode ts = Inr tx \<and> any_endswith tx (sp_stop (er_sampling_params q)) = Inr False) \<and>
     int (length ts) < sp_max_tokens (er_sampling_params q) \<and>
     int (length (er_prompt_token_ids q) + length ts) < context_limit config"

text \<open>
  Each token is one that \<open>T\<close> allows after those before it and not the end-of-sequence token 1, and
  generation went on after it.
\<close>

definition grown :: "(int list \<Rightarrow> int \<Rightarrow> bool) \<Rightarrow> engine_config \<Rightarrow> engine_request \<Rightarrow> int list \<Rightarrow> bool" where
  "grown T config q ts \<longleftrightarrow> (\<forall>n<length ts. T (take n ts) (ts ! n) \<and> ts ! n \<noteq> 1 \<and> goes_on config q (take (Suc n) ts))"

text \<open>
  The tokens and the text of the whole answer, and why it ends: with the end-of-sequence token, which is
  not sent, or because generation does not go on after its last token.
\<close>

definition whole_answer ::
    "(int list \<Rightarrow> int \<Rightarrow> bool) \<Rightarrow> engine_config \<Rightarrow> engine_request \<Rightarrow> request_output list \<Rightarrow> request_output \<Rightarrow> bool" where
  "whole_answer T config q outs fin \<longleftrightarrow>
     (let ts = concat (map ro_token_ids outs); tx = concat (map ro_text (outs @ [fin])) in
      char_decode (ts @ ro_token_ids fin) = Inr tx \<and> grown T config q ts \<and>
      (if ro_token_ids fin = [] then ro_finish_reason fin = Some STOP \<and> T ts 1
       else \<exists>t. ro_token_ids fin = [t] \<and> T ts t \<and> t \<noteq> 1 \<and> \<not> goes_on config q (ts @ [t]) \<and>
         ro_finish_reason fin = Some
           (if any_endswith tx (sp_stop (er_sampling_params q)) = Inr True then STOP else LENGTH)))"

lemma goes_on_text: "goes_on config q ts \<Longrightarrow> \<exists>tx. char_decode ts = Inr tx"
  by (auto simp: goes_on_def)

lemma grown_Nil [simp]: "grown T config q []"
  by (simp add: grown_def)

lemma grown_snoc:
  "grown T config q ts \<Longrightarrow> T ts t \<Longrightarrow> t \<noteq> 1 \<Longrightarrow> goes_on config q (ts @ [t]) \<Longrightarrow> grown T config q (ts @ [t])"
  by (simp add: grown_def nth_append less_Suc_eq)

section \<open>Requests known by their ids\<close>

text \<open>\<open>req\<close> gives the request that an id stands for.\<close>

definition matches :: "engine_request \<Rightarrow> request_state \<Rightarrow> bool" where
  "matches q rs \<longleftrightarrow> rs_prompt_token_ids rs = er_prompt_token_ids q \<and> rs_sampling_params rs = er_sampling_params q"

definition identified :: "(string \<Rightarrow> engine_request) \<Rightarrow> engine_command \<Rightarrow> bool" where
  "identified req c \<longleftrightarrow> (case ec_request c of None \<Rightarrow> True | Some q \<Rightarrow> q = req (er_request_id q))"

definition request_grown ::
    "(string \<Rightarrow> engine_request) \<Rightarrow> (string \<Rightarrow> int list \<Rightarrow> int \<Rightarrow> bool) \<Rightarrow> engine_config \<Rightarrow> string \<Rightarrow> request_state \<Rightarrow> bool" where
  "request_grown req T config r rs \<longleftrightarrow> matches (req r) rs \<and> grown (T r) config (req r) (rs_output_token_ids rs)"

definition requests_grown ::
    "(string \<Rightarrow> engine_request) \<Rightarrow> (string \<Rightarrow> int list \<Rightarrow> int \<Rightarrow> bool) \<Rightarrow> engine_config \<Rightarrow> scheduler \<Rightarrow> bool" where
  "requests_grown req T config sc \<longleftrightarrow> sc_config sc = config \<and>
     (\<forall>w\<in>set (sc_waiting sc). matches (req (rs_request_id w)) w) \<and>
     (\<forall>r rs. map_of (sc_running sc) r = Some rs \<longrightarrow> request_grown req T config r rs)"

text \<open>Every final output that ends an answer ends a whole one.\<close>

definition ends_answer :: "request_output \<Rightarrow> bool" where
  "ends_answer ro \<longleftrightarrow> ro_finished ro \<and> ro_finish_reason ro \<in> {Some STOP, Some LENGTH}"

definition finals_ok ::
    "(string \<Rightarrow> engine_request) \<Rightarrow> (string \<Rightarrow> int list \<Rightarrow> int \<Rightarrow> bool) \<Rightarrow> engine_config \<Rightarrow> out_event list \<Rightarrow> bool" where
  "finals_ok req T config evs \<longleftrightarrow> (\<forall>pre ro post. evs = pre @ EvOutput ro # post \<longrightarrow> ends_answer ro \<longrightarrow>
     whole_answer (T (ro_request_id ro)) config (req (ro_request_id ro)) (open_stream (ro_request_id ro) pre) ro)"

lemma finals_ok_Nil [simp]: "finals_ok req T config []"
  by (simp add: finals_ok_def)

lemma finals_okD:
  "finals_ok req T config evs \<Longrightarrow> evs = pre @ EvOutput ro # post \<Longrightarrow> ends_answer ro \<Longrightarrow>
     whole_answer (T (ro_request_id ro)) config (req (ro_request_id ro)) (open_stream (ro_request_id ro) pre) ro"
  by (simp add: finals_ok_def)

lemma finals_ok_snoc:
  assumes "finals_ok req T config evs"
    and "\<And>ro. ev = EvOutput ro \<Longrightarrow> ends_answer ro \<Longrightarrow>
      whole_answer (T (ro_request_id ro)) config (req (ro_request_id ro)) (open_stream (ro_request_id ro) evs) ro"
  shows "finals_ok req T config (evs @ [ev])"
  unfolding finals_ok_def
proof (intro allI impI)
  fix pre ro post
  assume e: "evs @ [ev] = pre @ EvOutput ro # post" and fin: "ends_answer ro"
  show "whole_answer (T (ro_request_id ro)) config (req (ro_request_id ro)) (open_stream (ro_request_id ro) pre) ro"
  proof (cases post rule: rev_cases)
    case Nil
    then show ?thesis using e fin assms(2) by simp
  next
    case (snoc post' x)
    then have "evs = pre @ EvOutput ro # post'" using e by simp
    then show ?thesis using finals_okD [OF assms(1) _ fin] by blast
  qed
qed

definition answers_ok ::
    "(string \<Rightarrow> engine_request) \<Rightarrow> (string \<Rightarrow> int list \<Rightarrow> int \<Rightarrow> bool) \<Rightarrow> engine_config \<Rightarrow> engine_core \<Rightarrow> bool" where
  "answers_ok req T config co \<longleftrightarrow> stream_ok co \<and> requests_grown req T config (co_scheduler co) \<and>
     finals_ok req T config (co_output_queue co)"

section \<open>The elementary changes\<close>

lemma requests_grown_one:
  assumes all: "requests_grown req T config sc" and same: "others_same r sc sc'" and cfg: "sc_config sc' = sc_config sc"
    and one: "\<And>rs. map_of (sc_running sc') r = Some rs \<Longrightarrow> request_grown req T config r rs"
  shows "requests_grown req T config sc'"
  unfolding requests_grown_def
proof (intro conjI ballI allI impI)
  show "sc_config sc' = config" using all cfg by (simp add: requests_grown_def)
  show "matches (req (rs_request_id w)) w" if "w \<in> set (sc_waiting sc')" for w
    using that all same by (auto simp: requests_grown_def others_same_def)
  show "request_grown req T config q rs" if "map_of (sc_running sc') q = Some rs" for q rs
    using that all same one by (cases "q = r") (auto simp: requests_grown_def others_same_def)
qed

lemma requests_grown_schedule:
  assumes all: "requests_grown req T config sc" and inv: "sched_inv sc" and run: "schedule sc = (Inr out, sc')"
  shows "requests_grown req T config sc'"
  unfolding requests_grown_def
proof (intro conjI ballI allI impI)
  show "sc_config sc' = config" using all schedule_ok [OF inv] run unfolding requests_grown_def by (metis Pair_inject)
  show "matches (req (rs_request_id w)) w" if "w \<in> set (sc_waiting sc')" for w
    using that all schedule_waiting [OF run] by (auto simp: requests_grown_def)
next
  fix r rs
  assume rs: "map_of (sc_running sc') r = Some rs"
  from schedule_new [OF inv run rs] show "request_grown req T config r rs"
  proof
    assume "map_of (sc_running sc) r = Some rs"
    then show ?thesis using all by (simp add: requests_grown_def)
  next
    assume new: "map_of (sc_running sc) r = None \<and> rs_output_token_ids rs = [] \<and> rs_num_computed_tokens rs = 0 \<and>
      (\<exists>q\<in>set (sc_waiting sc). rs = q\<lparr>rs_rank := Some 0\<rparr>)"
    then obtain w where w: "w \<in> set (sc_waiting sc)" "rs = w\<lparr>rs_rank := Some 0\<rparr>" by blast
    have inv': "sched_inv sc'" using schedule_ok [OF inv] run by (metis Pair_inject)
    have "rs_request_id w = r" using sched_inv_butD(11) [OF inv' rs] w(2) by simp
    then have "matches (req r) rs" using all w by (auto simp: requests_grown_def matches_def)
    then show ?thesis using new by (simp add: request_grown_def)
  qed
qed

lemma handle_command_answers:
  assumes ok: "answers_ok req T config co" and inv: "sched_inv (co_scheduler co)" and c: "identified req c"
    and new: "\<And>r. is_add r c \<Longrightarrow> r \<notin> set (active_ids (co_scheduler co))"
    and run: "core_handle_command co c = (Inr (), co')"
  shows "answers_ok req T config co'"
proof -
  have st: "stream_ok co'" using handle_command_stream [OF _ inv new run] ok by (simp add: answers_ok_def)
  have all: "requests_grown req T config (co_scheduler co)" and fin: "finals_ok req T config (co_output_queue co)"
    using ok by (simp_all add: answers_ok_def)
  have quiet: "finals_ok req T config (co_output_queue co @ [EvOutput (final_output r reason err)])"
    if "reason \<in> {ABORT, ERROR}" for r reason err
    by (rule finals_ok_snoc [OF fin]) (use that in \<open>auto simp: ends_answer_def final_output_def\<close>)
  show ?thesis
  proof (cases "\<exists>r. ec_type c = ABORT_CMD \<and> ec_request_id c = Some r")
    case True
    then obtain r where r: "ec_type c = ABORT_CMD" "ec_request_id c = Some r" by blast
    obtain res sc where a: "abort (co_scheduler co) r = (res, sc)" by fastforce
    note A = abort_others [OF inv a]
    have "requests_grown req T config sc" by (rule requests_grown_one [OF all A(1,5)]) (simp add: A(2))
    moreover have "co_scheduler co' = sc"
      "co_output_queue co' \<in> {co_output_queue co, co_output_queue co @ [EvOutput (final_output r ABORT None)]}"
      using run r a A(3) by (auto simp: core_handle_command_def put_output_def split: if_splits)
    ultimately show ?thesis using st fin quiet [of ABORT] by (auto simp: answers_ok_def)
  next
    case False
    then have "requests_grown req T config (co_scheduler co')"
      using run c all
      by (auto simp: core_handle_command_def add_request_def emit_error_def put_output_def tick_def
        identified_def requests_grown_def matches_def split: command_type.splits option.splits if_splits)
    moreover have "finals_ok req T config (co_output_queue co')"
      using run False fin quiet [of ERROR]
      by (auto simp: core_handle_command_def emit_error_def put_output_def tick_def
        split: command_type.splits option.splits prod.splits sum.splits)
    ultimately show ?thesis using st by (simp add: answers_ok_def)
  qed
qed

text \<open>Why a token is the last one.\<close>

lemma append_token_reason:
  assumes "append_token sc r t tm = (Inr reason, sc')" and rs: "map_of (sc_running sc) r = Some rs"
    and tk: "sc_tokenizer sc = character_tokenizer" and full: "rs_num_computed_tokens rs = length (all_token_ids rs)"
    and t: "t \<noteq> 1" and q: "matches q rs"
  obtains tx where "char_decode (rs_output_token_ids rs @ [t]) = Inr tx"
    and "reason = (if goes_on (sc_config sc) q (rs_output_token_ids rs @ [t]) then None
      else Some (if any_endswith tx (sp_stop (er_sampling_params q)) = Inr True then STOP else LENGTH))"
    and "map_of (sc_running sc') r = Some rs' \<Longrightarrow> rs_output_token_ids rs' = rs_output_token_ids rs @ [t] \<and> matches q rs'"
proof -
  have sel: "eos_token_id character_tokenizer = 1" "tok_decode character_tokenizer = char_decode"
    by (simp_all add: character_tokenizer_def)
  let ?ts = "rs_output_token_ids rs @ [t]"
  from assms(1) rs tk t obtain tx stopped where
    tx: "char_decode ?ts = Inr tx" "any_endswith tx (sp_stop (rs_sampling_params rs)) = Inr stopped"
    and reason: "reason = (if stopped then Some STOP
        else if sp_max_tokens (rs_sampling_params rs) \<le> int (length ?ts) then Some LENGTH
        else if context_limit (sc_config sc) \<le> int (rs_num_computed_tokens rs) + 1 then Some LENGTH else None)"
    by (auto simp: append_token_def Let_def stamp_token_def sel split: sum.splits)
  have "goes_on (sc_config sc) q ?ts \<longleftrightarrow> \<not> stopped \<and> int (length ?ts) < sp_max_tokens (rs_sampling_params rs) \<and>
      int (rs_num_computed_tokens rs) + 1 < context_limit (sc_config sc)"
    using tx q full unfolding goes_on_def matches_def all_token_ids_def by auto
  then have "reason = (if goes_on (sc_config sc) q ?ts then None
      else Some (if any_endswith tx (sp_stop (er_sampling_params q)) = Inr True then STOP else LENGTH))"
    using reason tx(2) q unfolding matches_def by (auto split: if_splits)
  moreover have "rs_output_token_ids rs' = ?ts \<and> matches q rs'" if "map_of (sc_running sc') r = Some rs'"
    using that assms(1) rs tk t q
    by (auto simp: append_token_def Let_def stamp_token_def sel set_running_def update_conv' matches_def
      split: sum.splits)
  ultimately show ?thesis using that tx(1) by blast
qed

lemma append_eos:
  assumes "append_token sc r t tm = (res, sc')" and "map_of (sc_running sc) r = Some rs"
    and "sc_tokenizer sc = character_tokenizer" and "t = 1"
  shows "res = Inr (Some STOP)" and "generated sc' r = generated sc r"
  using assms
  by (auto simp: append_token_def Let_def stamp_token_def generated_def set_running_def update_conv' character_tokenizer_def)

lemma accept_token_answers:
  assumes ok: "answers_ok req T config co" and inv: "sched_inv (co_scheduler co)"
    and rs: "map_of (sc_running (co_scheduler co)) r = Some rs"
    and full: "rs_num_computed_tokens rs = length (all_token_ids rs)"
    and T: "T r (rs_output_token_ids rs) t"
    and run: "accept_token res r t co = (Inr (), co')"
  shows "answers_ok req T config co'"
proof -
  let ?sc = "co_scheduler co" and ?ts = "rs_output_token_ids rs"
  have st: "stream_ok co" and all: "requests_grown req T config ?sc" and fin: "finals_ok req T config (co_output_queue co)"
    using ok by (simp_all add: answers_ok_def)
  have tk: "co_tokenizer co = character_tokenizer" "sc_tokenizer ?sc = character_tokenizer"
    using st by (simp_all add: stream_ok_def)
  have eos: "eos_token_id character_tokenizer = 1" by (simp add: character_tokenizer_def)
  have q: "matches (req r) rs" and g: "grown (T r) config (req r) ?ts" and cfg: "sc_config ?sc = config"
    using all rs by (simp_all add: requests_grown_def request_grown_def)
  have at: "stream_tokens r (co_output_queue co) = ?ts" "char_decode ?ts = Inr (stream_text r (co_output_queue co))"
  proof -
    have "stream_ok_at co r" using st by (simp add: stream_ok_def)
    then show "stream_tokens r (co_output_queue co) = ?ts" "char_decode ?ts = Inr (stream_text r (co_output_queue co))"
      using rs by (simp_all add: stream_ok_at_def generated_def)
  qed
  obtain ares sc1 where ap: "append_token ?sc r t (now co) = (ares, sc1)" by fastforce
  note A = accept_token_ok [OF inv rs full run]
  have same: "others_same r ?sc (co_scheduler co')" "sc_config (co_scheduler co') = sc_config ?sc"
    using A(3,4) by (simp_all add: core_frame_def)
  from append_token_form [OF ap rs] obtain rs1 where sc1: "sc1 = set_running ?sc r rs1" .
  have rs1: "map_of (sc_running sc1) r = Some rs1" and tk1: "sc_tokenizer sc1 = character_tokenizer"
    using tk(2) by (simp_all add: sc1 set_running_def update_conv')
  have "requests_grown req T config (co_scheduler co') \<and> finals_ok req T config (co_output_queue co')"
    using run ap
  proof (cases rule: accept_token_cases)
    case (streamed ro)
    note go = append_token_generated [OF ap [unfolded streamed(2)] rs]
    have t: "t \<noteq> 1" using go(1) tk(2) eos by simp
    from append_token_reason [OF ap [unfolded streamed(2)] rs tk(2) full t q] obtain tx where
      re: "None = (if goes_on (sc_config ?sc) (req r) (?ts @ [t]) then None
        else Some (if any_endswith tx (sp_stop (er_sampling_params (req r))) = Inr True then STOP else LENGTH))"
      and rs1': "rs_output_token_ids rs1 = ?ts @ [t] \<and> matches (req r) rs1" using rs1 by metis
    have "goes_on config (req r) (?ts @ [t])" using re cfg by (simp split: if_splits)
    then have "request_grown req T config r rs1" using grown_snoc [OF g T t] rs1' by (simp add: request_grown_def)
    then have "requests_grown req T config (co_scheduler co')"
      using rs1 streamed(3) by (intro requests_grown_one [OF all same]) simp
    moreover have "finals_ok req T config (co_output_queue co')"
      unfolding streamed(4) by (rule finals_ok_snoc [OF fin]) (use streamed(6) in \<open>simp add: ends_answer_def\<close>)
    ultimately show ?thesis ..
  next
    case (finished ro reason fres)
    from finished(5) obtain prev cur where
      ro: "ro_request_id ro = r" "ro_token_ids ro = (if t = 1 then [] else [t])"
      and o1: "output_text ?sc r = Inr prev" "output_text sc1 r = Inr cur"
        "streamed_text (co_tokenizer co) t prev cur = Inr (ro_text ro)"
      using tk eos by (auto simp: token_output_def)
    have dec: "char_decode ?ts = Inr prev" "char_decode (generated sc1 r) = Inr cur"
      using output_text_generated [OF tk(2) o1(1)] output_text_generated [OF tk1 o1(2)] rs by (simp_all add: generated_def)
    have prev: "prev = stream_text r (co_output_queue co)" using dec(1) at(2) by simp
    have "map_of (sc_running (co_scheduler co')) r = None"
    proof -
      from finish_form [OF append_token_inv(1) [OF inv rs full ap] rs1] finished(2)
      show ?thesis using removed_running [OF append_token_inv(1) [OF inv rs full ap]] by (metis Pair_inject)
    qed
    then have "requests_grown req T config (co_scheduler co')" by (intro requests_grown_one [OF all same]) simp
    moreover have "whole_answer (T r) config (req r) (open_stream r (co_output_queue co)) ro"
    proof (cases "t = 1")
      case True
      have cur: "cur = prev" using append_eos(2) [OF ap rs tk(2) True] dec rs by (simp add: generated_def)
      then have "ro_text ro = []" using o1(3) by (simp add: streamed_text_def startswith_def)
      then show ?thesis
        using True ro g T at dec prev finished(1,8) append_eos(1) [OF ap rs tk(2) True]
        by (simp add: whole_answer_def Let_def stream_tokens_def stream_text_def)
    next
      case False
      from append_token_reason [OF ap [unfolded finished(1)] rs tk(2) full False q] obtain tx where
        tx: "char_decode (?ts @ [t]) = Inr tx"
        and re: "Some reason = (if goes_on (sc_config ?sc) (req r) (?ts @ [t]) then None
          else Some (if any_endswith tx (sp_stop (er_sampling_params (req r))) = Inr True then STOP else LENGTH))"
        and out: "rs_output_token_ids rs1 = ?ts @ [t]" using rs1 by metis
      have "char_decode (?ts @ [t]) = Inr cur" using dec(2) out rs1 by (simp add: generated_def)
      with streamed_text_char [OF dec(1) this o1(3)] tx prev have
        "tx = stream_text r (co_output_queue co) @ ro_text ro" by simp
      then show ?thesis
        using False ro g T at tx re cfg finished(8)
        by (auto simp: whole_answer_def Let_def stream_tokens_def stream_text_def split: if_splits)
    qed
    then have "finals_ok req T config (co_output_queue co')"
      unfolding finished(4) using ro(1) by (intro finals_ok_snoc [OF fin]) simp
    ultimately show ?thesis ..
  qed simp
  then show ?thesis using accept_token_stream [OF st inv rs full run] by (simp add: answers_ok_def)
qed

interpretation answers: core_property "answers_ok req T config" "identified req" T for req T config
proof
  fix co :: engine_core and bm
  assume ok: "answers_ok req T config co"
  have "stream_ok (put_output co (EvMetrics bm))" using ok sent.I_metrics by (simp add: answers_ok_def)
  moreover have "finals_ok req T config (co_output_queue co @ [EvMetrics bm])"
    by (rule finals_ok_snoc) (use ok in \<open>simp_all add: answers_ok_def\<close>)
  ultimately show "answers_ok req T config (put_output co (EvMetrics bm))"
    using ok by (simp add: answers_ok_def put_output_def)
next
  fix co out sc
  assume ok: "answers_ok req T config co" and inv: "sched_inv (co_scheduler co)"
    and run: "schedule (co_scheduler co) = (Inr out, sc)"
  show "answers_ok req T config (co\<lparr>co_scheduler := sc\<rparr>)"
    using ok sent.I_schedule [OF _ inv run] requests_grown_schedule [OF _ inv run] by (simp add: answers_ok_def)
next
  fix co r rs n
  assume ok: "answers_ok req T config co" and rs: "map_of (sc_running (co_scheduler co)) r = Some rs"
  let ?sc = "set_running (co_scheduler co) r (rs\<lparr>rs_num_computed_tokens := n\<rparr>)"
  have "requests_grown req T config ?sc"
  proof (rule requests_grown_one [of req T config "co_scheduler co" r])
    show "request_grown req T config r rs'" if "map_of (sc_running ?sc) r = Some rs'" for rs'
      using that ok rs
      by (auto simp: answers_ok_def requests_grown_def request_grown_def matches_def set_running_def update_conv')
  qed (use ok in \<open>simp_all add: answers_ok_def others_same_set_running\<close>, simp add: set_running_def)
  then show "answers_ok req T config (co\<lparr>co_scheduler := ?sc\<rparr>)"
    using ok sent.I_computed [OF _ rs] by (simp add: answers_ok_def)
next
  fix co co' :: engine_core and r rs t res
  assume "answers_ok req T config co" "sched_inv (co_scheduler co)" "map_of (sc_running (co_scheduler co)) r = Some rs"
    "rs_num_computed_tokens rs = length (all_token_ids rs)" "T r (rs_output_token_ids rs) t"
    "accept_token res r t co = (Inr (), co')"
  then show "answers_ok req T config co'" by (rule accept_token_answers)
next
  fix co co' :: engine_core and r err
  assume ok: "answers_ok req T config co" and f: "core_frame co co'"
    and s: "others_same r (co_scheduler co) (co_scheduler co')" and none: "map_of (sc_running (co_scheduler co')) r = None"
    and ids: "active_ids (co_scheduler co') = remove1 r (active_ids (co_scheduler co))"
    and o: "co_output_queue co' = co_output_queue co @ [EvOutput (final_output r ERROR (Some err))]"
  have "finals_ok req T config (co_output_queue co')"
    unfolding o by (rule finals_ok_snoc) (use ok in \<open>auto simp: answers_ok_def ends_answer_def final_output_def\<close>)
  moreover have "requests_grown req T config (co_scheduler co')"
    by (rule requests_grown_one [OF _ s]) (use ok f none in \<open>simp_all add: answers_ok_def core_frame_def\<close>)
  ultimately show "answers_ok req T config co'"
    using ok sent.I_removed [OF _ f s none ids o] by (simp add: answers_ok_def)
next
  fix co co' :: engine_core and c
  assume "answers_ok req T config co" "sched_inv (co_scheduler co)" "identified req c"
    "\<And>r. is_add r c \<Longrightarrow> r \<notin> set (active_ids (co_scheduler co))" "core_handle_command co c = (Inr (), co')"
  then show "answers_ok req T config co'" by (rule handle_command_answers)
next
  fix co co' :: engine_core
  assume "answers_ok req T config co" "co_scheduler co' = co_scheduler co" "co_output_queue co' = co_output_queue co"
    "co_tokenizer co' = co_tokenizer co"
  then show "answers_ok req T config co'" using sent.I_cong [of co co'] by (simp add: answers_ok_def)
qed

text \<open>Nothing is sent under an id nobody has asked for.\<close>

definition asked :: "engine_core \<Rightarrow> string \<Rightarrow> nat" where
  "asked co r = final_count r (co_output_queue co) + count_list (active_ids (co_scheduler co)) r"

definition outputs_asked :: "engine_core \<Rightarrow> bool" where
  "outputs_asked co \<longleftrightarrow> (\<forall>ro. EvOutput ro \<in> set (co_output_queue co) \<longrightarrow> 0 < asked co (ro_request_id ro))"

lemma balance_asked: "balance co r = add_count r (co_command_queue co) + asked co r"
  by (simp add: balance_def asked_def)

lemma outputs_asked_more:
  assumes "outputs_asked co" and "\<And>r. asked co r \<le> asked co' r"
    and "\<And>ro. EvOutput ro \<in> set (co_output_queue co') \<Longrightarrow> EvOutput ro \<in> set (co_output_queue co) \<or> 0 < asked co' (ro_request_id ro)"
  shows "outputs_asked co'"
  using assms unfolding outputs_asked_def by (meson less_le_trans)

interpretation known: core_property outputs_asked "\<lambda>_. True" "\<lambda>_ _ _. True"
proof
  fix co co' :: engine_core
  assume "outputs_asked co" "co_scheduler co' = co_scheduler co" "co_output_queue co' = co_output_queue co"
  then show "outputs_asked co'" by (simp add: outputs_asked_def asked_def)
next
  fix co :: engine_core and bm
  assume "outputs_asked co"
  then show "outputs_asked (put_output co (EvMetrics bm))"
    by (auto simp: outputs_asked_def asked_def put_output_def)
next
  fix co co' :: engine_core and c
  assume ok: "outputs_asked co" and pre: "sched_inv (co_scheduler co)" "valid_command c"
    and run: "core_handle_command co c = (Inr (), co')"
  from handle_command_ok [OF pre] run have fr: "core_frame co co'"
    and b: "\<And>r. balance co' r = balance co r + (if is_add r c then 1 else 0)" by (metis Pair_inject)+
  have more: "asked co r \<le> asked co' r" for r
    using b [of r] fr by (simp add: balance_asked core_frame_def split: if_splits)
  show "outputs_asked co'"
  proof (rule outputs_asked_more [OF ok more])
    fix ro
    assume ro: "EvOutput ro \<in> set (co_output_queue co')"
    have "EvOutput ro \<in> set (co_output_queue co) \<or> ro_finished ro"
      using ro run
      by (auto simp: core_handle_command_def emit_error_def put_output_def tick_def final_output_def
        split: command_type.splits option.splits prod.splits sum.splits if_splits)
    then show "EvOutput ro \<in> set (co_output_queue co) \<or> 0 < asked co' (ro_request_id ro)"
      using ro by (force simp: asked_def filter_empty_conv)
  qed
next
  fix co out sc
  assume ok: "outputs_asked co" and inv: "sched_inv (co_scheduler co)" and run: "schedule (co_scheduler co) = (Inr out, sc)"
  have "mset (active_ids sc) = mset (active_ids (co_scheduler co))" using inv run by (rule schedule_itemsE)
  then have "count_list (active_ids sc) r = count_list (active_ids (co_scheduler co)) r" for r
    by (metis count_mset)
  then show "outputs_asked (co\<lparr>co_scheduler := sc\<rparr>)" using ok by (simp add: outputs_asked_def asked_def)
next
  fix co r rs n
  assume ok: "outputs_asked co" and rs: "map_of (sc_running (co_scheduler co)) r = Some rs"
  show "outputs_asked (co\<lparr>co_scheduler := set_running (co_scheduler co) r (rs\<lparr>rs_num_computed_tokens := n\<rparr>)\<rparr>)"
    using ok active_ids_set_running [OF map_of_Some_in_keys [OF rs]] by (simp add: outputs_asked_def asked_def)
next
  fix co co' :: engine_core and r rs t res
  assume ok: "outputs_asked co" and inv: "sched_inv (co_scheduler co)" and rs: "map_of (sc_running (co_scheduler co)) r = Some rs"
    and full: "rs_num_computed_tokens rs = length (all_token_ids rs)" and run: "accept_token res r t co = (Inr (), co')"
  note A = accept_token_ok [OF inv rs full run]
  have same: "asked co' q = asked co q" for q
    using A(5) [of q] A(3) by (simp add: balance_asked core_frame_def)
  have act: "0 < asked co r" using count_active_running [OF inv rs] by (simp add: asked_def)
  obtain ares sc1 where ap: "append_token (co_scheduler co) r t (now co) = (ares, sc1)" by fastforce
  from run ap show "outputs_asked co'"
  proof (cases rule: accept_token_cases)
    case (streamed ro)
    then show ?thesis using same act by (intro outputs_asked_more [OF ok]) (auto simp: token_output_def)
  next
    case (finished ro reason fres)
    then show ?thesis using same act by (intro outputs_asked_more [OF ok]) (auto simp: token_output_def)
  qed simp
next
  fix co co' :: engine_core and r err
  assume ok: "outputs_asked co" and ids: "active_ids (co_scheduler co') = remove1 r (active_ids (co_scheduler co))"
    and o: "co_output_queue co' = co_output_queue co @ [EvOutput (final_output r ERROR (Some err))]"
  have "asked co q \<le> asked co' q" for q
    unfolding asked_def ids o by (simp add: count_list_remove1 final_output_def) arith
  moreover have "0 < asked co' r" by (simp add: asked_def o final_output_def)
  ultimately show "outputs_asked co'"
    by (intro outputs_asked_more [OF ok]) (auto simp: o final_output_def)
qed

section \<open>Answers of runs\<close>

fun identified_event :: "(string \<Rightarrow> engine_request) \<Rightarrow> core_event \<Rightarrow> bool" where
  "identified_event req (Arrive c) = identified req c"
| "identified_event req _ = True"

abbreviation any_token :: "string \<Rightarrow> int list \<Rightarrow> int \<Rightarrow> bool" where
  "any_token \<equiv> \<lambda>_ _ _. True"

lemma answers_step:
  assumes inv: "answers.holds_in req any_token config s" and ok: "core_event_ok e s" and fresh: "fresh_event e s"
    and id: "identified_event req e"
  shows "answers.holds_in req any_token config (core_step e s)"
proof (cases e)
  case Turn
  then show ?thesis using answers.turn_keeps [of req any_token config "fst s" "snd s"] inv by (simp add: answers.takes_def)
next
  case (Deliver w)
  then show ?thesis using answers.deliver_keeps [OF inv] ok by simp
next
  case (Arrive c)
  then show ?thesis using answers.arrive_keeps [OF inv] ok fresh id by simp
qed

lemma answers_run:
  "answers.holds_in req any_token config s \<Longrightarrow> streams.admissible es s \<Longrightarrow> \<forall>c\<in>set (arrived es). identified req c \<Longrightarrow>
     answers.holds_in req any_token config (fold core_step es s)"
proof (induction es arbitrary: s)
  case (Cons e es)
  have "identified_event req e" using Cons.prems(3) by (cases e) simp_all
  then have "answers.holds_in req any_token config (core_step e s)" using answers_step [OF Cons.prems(1)] Cons.prems(2) by simp
  moreover have "\<forall>c\<in>set (arrived es). identified req c" using Cons.prems(3) by (cases e) simp_all
  ultimately show ?case using Cons.IH Cons.prems(2) by simp
qed simp

lemma engine_core_init_answers:
  assumes "engine_core_init env clock config = Inr co" and "valid_config config"
    and "co_tokenizer co = character_tokenizer"
  shows "answers.holds_in req T config (co, AtHead)" and "known.holds_in (co, AtHead)"
proof -
  have inv: "core_inv (co, AtHead)" "\<And>r. balance co r = 0"
    using engine_core_init_inv [OF assms(1,2)] by simp_all
  have co: "sc_running (co_scheduler co) = []" "sc_waiting (co_scheduler co) = []" "sc_config (co_scheduler co) = config"
    "co_output_queue co = []" "co_command_queue co = []"
    using assms(1) by (auto simp: engine_core_init_def scheduler_init_def split: sum.splits)
  have "stream_ok co" using engine_core_init_stream [OF assms] by (simp add: sent.holds_in_def)
  then have "answers_ok req T config co" using co by (simp add: answers_ok_def requests_grown_def)
  then show "answers.holds_in req T config (co, AtHead)" by (rule answers.init_holds [OF inv _ co(5)])
  show "known.holds_in (co, AtHead)"
    by (rule known.init_holds [OF inv _ co(5)]) (simp add: outputs_asked_def co)
qed

text \<open>
  C10. Every answer is whole.  In every run of an engine core that has not failed, with the
  character tokenizer, whatever the worker samples, if no id is reused while in use and \<open>req\<close> tells which
  request an id stands for: when a final output with finish reason stop or length is sent, the outputs of its
  stream carry all tokens of the answer and their texts concatenate to its decoding; generation went on
  after every proper beginning, that is, none ended with a stop string or reached \<open>max_tokens\<close> or the context
  limit; and the answer ends with an end-of-sequence token or a stop string, for the reason stop, or
  at one of the limits, for the reason length.
\<close>

theorem answers_whole:
  assumes "engine_core_init env clock config = Inr co0" and "valid_config config"
    and "co_tokenizer co0 = character_tokenizer" and "stream_run_ok co0 es"
    and "\<forall>c\<in>set (arrived es). identified req c"
    and "core_run co0 es = (co, ph)" and "ph \<noteq> Failed"
    and "co_output_queue co = pre @ EvOutput fin # post" and "ends_answer fin"
  shows "whole_answer (\<lambda>ts t. True) config (req (ro_request_id fin)) (open_stream (ro_request_id fin) pre) fin"
proof -
  have "answers.holds_in req any_token config (core_run co0 es)"
    using answers_run [OF engine_core_init_answers(1) [OF assms(1-3)]] assms(4,5)
    by (simp add: core_run_def stream_run_ok_def)
  then have "finals_ok req any_token config (co_output_queue co)"
    using assms(6,7) by (simp add: answers.holds_in_def answers_ok_def)
  from finals_okD [OF this assms(8,9)] show ?thesis .
qed

text \<open>A token and then the end-of-sequence token.\<close>

definition two_tokens :: "core_event list" where
  "two_tokens = one_token @ [Turn, Deliver \<lparr>wr_batch_id = 2, wr_rank = 0, wr_sampled_token_ids = [(''a'', 1)],
       wr_error = None, wr_metrics = None\<rparr>, Turn, Turn]"

theorem answers_whole_witness:
  "case core_run tiny_core two_tokens of (co, ph) \<Rightarrow>
     (case last (co_output_queue co) of EvOutput fin \<Rightarrow>
        ro_finish_reason fin = Some STOP \<and>
        whole_answer (\<lambda>ts t. True) tiny_config (tiny_request ''a'' [10, 11])
          (open_stream ''a'' (butlast (co_output_queue co))) fin
      | _ \<Rightarrow> False)"
proof -
  have a: "(case core_run tiny_core [Arrive (add_command ''a'' [10, 11]), Turn] of (co, ph) \<Rightarrow>
      co_batch_id co = 1 \<and> (case ph of Collecting out _ \<Rightarrow> ''a'' \<in> wanted (schedule_items out) | _ \<Rightarrow> False))"
    by code_simp
  have b: "(case core_run tiny_core (one_token @ [Turn]) of (co, ph) \<Rightarrow>
      co_batch_id co = 2 \<and> (case ph of Collecting out _ \<Rightarrow> ''a'' \<in> wanted (schedule_items out) | _ \<Rightarrow> False))"
    by code_simp
  have c: "(case core_run tiny_core two_tokens of (co, ph) \<Rightarrow>
      (case ph of Failed \<Rightarrow> False | _ \<Rightarrow> True) \<and> co_output_queue co \<noteq> [] \<and>
      (case last (co_output_queue co) of EvOutput fin \<Rightarrow> ro_request_id fin = ''a'' \<and> ro_finished fin \<and>
        (case ro_finish_reason fin of Some STOP \<Rightarrow> True | _ \<Rightarrow> False) | _ \<Rightarrow> False))"
    by code_simp
  have ok1: "stream_run_ok tiny_core one_token"
    using a add_command_valid [of "''a''" "[10, 11]"]
    unfolding stream_run_ok_def one_token_def core_run_def
    by (auto simp: trusted_def add_command_def tiny_core_def tiny_empty_def active_ids_def
        split: prod.splits core_phase.splits simp del: core_turn.simps)
  have ok: "stream_run_ok tiny_core two_tokens"
    using ok1 b unfolding stream_run_ok_def two_tokens_def core_run_def streams.admissible_append
    by (auto simp: trusted_def split: prod.splits core_phase.splits simp del: core_turn.simps)
  have id: "\<forall>c\<in>set (arrived two_tokens). identified (\<lambda>_. tiny_request ''a'' [10, 11]) c"
    by (simp add: two_tokens_def one_token_def identified_def add_command_def)
  obtain co ph where run: "core_run tiny_core two_tokens = (co, ph)" by fastforce
  obtain fin where fin: "last (co_output_queue co) = EvOutput fin" "ro_request_id fin = ''a''"
      "ro_finish_reason fin = Some STOP" "ro_finished fin" and ne: "co_output_queue co \<noteq> []"
    using c run by (auto split: out_event.splits option.splits finish_reason.splits)
  have st: "ph \<noteq> Failed" using c run by auto
  have q: "co_output_queue co = butlast (co_output_queue co) @ EvOutput fin # []"
    using fin(1) ne by (metis append_butlast_last_id)
  have "co_tokenizer tiny_core = character_tokenizer" by (simp add: tiny_core_def)
  from answers_whole [OF tiny_core_init tiny_config_valid this ok id run st q] fin run show ?thesis
    by (simp add: ends_answer_def)
qed

end
