(* ===== verification/Service.thy ===== *)
theory Service
  imports System LLMEngine EngineCore_Answers
begin

text \<open>
  The service from end to end: the client of \<open>engine/client.py\<close> and the generators over it, the engine core
  and its bootstrap worker.  A step is a call of the client's process, its router thread taking one event, a
  turn of the core or a turn of the worker, in any interleaving.  \<open>service_inv\<close> carries the
  invariants of the three parts and the answers the core has given; \<open>stream_holds\<close> says what the stream
  of a call holds, and \<open>service_answers\<close> what its caller reads.
\<close>

section \<open>Answers of the bootstrap pair\<close>

definition bootstrap_next :: "string \<Rightarrow> int list \<Rightarrow> int \<Rightarrow> bool" where
  "bootstrap_next r ts t \<longleftrightarrow> t = bootstrap_token (int (length ts))"

lemma bootstrap_takes:
  assumes inv: "sched_inv sc" and its: "items_ok sc its" and ex: "exact_answer its w"
  shows "answers.takes bootstrap_next sc its w"
  unfolding answers.takes_def
proof (intro ballI allI impI)
  fix it rs t
  assume it: "it \<in> set its" and rs: "map_of (sc_running sc) (wi_request_id it) = Some rs"
    and t: "map_of (wr_sampled_token_ids w) (wi_request_id it) = Some t"
  have dist: "distinct (map wi_request_id its)" using its by (simp add: items_ok_def)
  have "item_for (sc_cache_manager sc) rs it"
    using items_ok_facts(3) [OF its refl exact_answer_facts(1) [OF ex]] it rs by (simp add: item_live_def)
  then have "wi_generated_count it = int (length (rs_output_token_ids rs))"
    by (elim item_forE) (simp add: make_item_def)
  moreover have "map_of (wr_sampled_token_ids w) (wi_request_id it) =
      (if wi_should_sample it then Some (bootstrap_token (wi_generated_count it)) else None)"
    using exact_answer_facts(2) [OF ex dist] it by blast
  ultimately show "bootstrap_next (wi_request_id it) (rs_output_token_ids rs) t"
    using t by (simp add: bootstrap_next_def split: if_splits)
qed

abbreviation pair_answers :: "(string \<Rightarrow> engine_request) \<Rightarrow> engine_config \<Rightarrow> core_state \<Rightarrow> bool" where
  "pair_answers req config s \<equiv> answers.holds_in req bootstrap_next config s \<and> known.holds_in s"

lemma pair_core_turn:
  assumes inv: "bootstrap_pair.inv s" and ok: "pair_answers req config (sy_core s)"
  shows "pair_answers req config (core_turn (sy_core s))"
proof -
  obtain co ph where s: "sy_core s = (co, ph)" by (cases "sy_core s")
  have "answers.takes bootstrap_next (co_scheduler co) (schedule_items out) w"
    if c: "ph = Collecting out results" "w \<in> set (dict_vals results)" for out results w
  proof (rule bootstrap_takes)
    have at: "core_inv (co, ph)" "bootstrap_pair.inv_at (co, ph) (sy_worker s) (sy_alive s)"
      using inv s by (simp_all add: bootstrap_pair.inv_def)
    show "sched_inv (co_scheduler co)" "items_ok (co_scheduler co) (schedule_items out)"
      using at(1) c(1) by (simp_all add: collecting_ok_def)
    show "exact_answer (schedule_items out) w"
      using at(2) c by (auto simp: bootstrap_pair.sent_ok_def bootstrap_pair.answered_def bootstrap_answer_def)
  qed
  then show ?thesis using ok answers.turn_keeps [of req bootstrap_next config co ph] known.turn_keeps [of co ph] s
    by (simp add: known.takes_def)
qed

lemma worker_turn_core:
  assumes s: "sy_core s = (co, ph)"
  shows "\<exists>qs rs. sy_core (worker_turn t s) = (co\<lparr>co_worker_queues := qs, co_result_queue := rs\<rparr>, ph)"
proof (cases "\<exists>c q qs. co_worker_queues co = (c # q) # qs \<and> sy_alive s")
  case False
  then have "worker_turn t s = s" using s by (auto simp: worker_turn_def split: list.splits)
  then have "sy_core (worker_turn t s) = (co\<lparr>co_worker_queues := co_worker_queues co,
      co_result_queue := co_result_queue co\<rparr>, ph)" using s by simp
  then show ?thesis by blast
next
  case True
  then obtain c q qs where q: "co_worker_queues co = (c # q) # qs" "sy_alive s" by blast
  obtain results wk alive where "worker_loop (sy_worker s) [(c, t)] = (results, wk, alive)" by (metis prod.collapse)
  then have "sy_core (worker_turn t s) = (co\<lparr>co_worker_queues := q # qs,
      co_result_queue := co_result_queue co @ results\<rparr>, ph)"
    using q s by (simp add: worker_turn_def)
  then show ?thesis by blast
qed

lemma pair_worker_turn:
  assumes inv: "bootstrap_pair.inv s" and ok: "pair_answers req config (sy_core s)"
  shows "pair_answers req config (sy_core (worker_turn t s))"
proof -
  have core: "core_inv (sy_core (worker_turn t s))"
    using bootstrap_pair.worker [OF inv] by (simp add: bootstrap_pair.inv_def)
  obtain co ph where s: "sy_core s = (co, ph)" by (cases "sy_core s")
  from worker_turn_core [OF s] obtain qs rs where
    w: "sy_core (worker_turn t s) = (co\<lparr>co_worker_queues := qs, co_result_queue := rs\<rparr>, ph)" by blast
  show ?thesis
    using ok core answers.queues_keep [of req bootstrap_next config co ph "co\<lparr>co_worker_queues := qs, co_result_queue := rs\<rparr>"]
      known.queues_keep [of co ph "co\<lparr>co_worker_queues := qs, co_result_queue := rs\<rparr>"]
    unfolding w s by simp
qed

lemma pair_submit:
  assumes "pair_answers req config (sy_core s)" and "valid_command c" and "identified req c"
    and "fresh_event (Arrive c) (sy_core s)"
  shows "pair_answers req config (sy_core (sys_step (Submit c) s))"
  using answers.arrive_keeps [OF _ assms(2-4)] known.arrive_keeps [OF _ assms(2) _ assms(4)] assms(1) by simp

text \<open>The commands accounted for do not change while the engine works.\<close>

lemma pair_owed:
  assumes inv: "bootstrap_pair.inv s"
  shows "owed (core_turn (sy_core s)) r = owed (sy_core s) r"
    and "owed (sy_core (worker_turn t s)) r = owed (sy_core s) r"
    and "owed (sy_core (sys_step (Submit c) s)) r = owed (sy_core s) r + add_count r [c]"
proof -
  have core: "core_inv (sy_core s)" using inv by (simp add: bootstrap_pair.inv_def)
  show "owed (core_turn (sy_core s)) r = owed (sy_core s) r" using owed_step [OF core, of Turn r] by simp
  show "owed (sy_core (sys_step (Submit c) s)) r = owed (sy_core s) r + add_count r [c]"
    using owed_step [OF core, of "Arrive c" r] by simp
  obtain co ph where s: "sy_core s = (co, ph)" by (cases "sy_core s")
  from worker_turn_core [OF s] obtain qs rs where
    w: "sy_core (worker_turn t s) = (co\<lparr>co_worker_queues := qs, co_result_queue := rs\<rparr>, ph)" by blast
  show "owed (sy_core (worker_turn t s)) r = owed (sy_core s) r"
    unfolding w s by (cases ph) (simp_all add: balance_def)
qed

section \<open>Client and engine\<close>

text \<open>
  The client's process with the engine's: commands the client puts on its queue arrive at the core, and the
  router thread takes the outputs off the core's queue, one at a time and in order.
\<close>

record 's service =
  sv_client :: client
  sv_system :: "'s system"
  sv_routed :: nat

datatype service_event = Calls client_op | Routes | EngineTurn | WorkTurn real

abbreviation sv_log :: "'s service \<Rightarrow> out_event list" where
  "sv_log sv \<equiv> co_output_queue (fst (sy_core (sv_system sv)))"

definition sent_commands :: "(nat \<Rightarrow> string) \<Rightarrow> client_op \<Rightarrow> client \<Rightarrow> engine_command list" where
  "sent_commands uuid op cl = drop (length (cl_command_queue cl)) (cl_command_queue (client_step uuid op cl))"

fun service_step :: "(nat \<Rightarrow> string) \<Rightarrow> service_event \<Rightarrow> 's service \<Rightarrow> 's service" where
  "service_step uuid (Calls op) sv = sv\<lparr>sv_client := client_step uuid op (sv_client sv),
     sv_system := fold (\<lambda>c. sys_step (Submit c)) (sent_commands uuid op (sv_client sv)) (sv_system sv)\<rparr>"
| "service_step uuid Routes sv =
     (if sv_routed sv < length (sv_log sv)
      then sv\<lparr>sv_client := route_event (sv_client sv) (sv_log sv ! sv_routed sv), sv_routed := Suc (sv_routed sv)\<rparr>
      else sv)"
| "service_step uuid EngineTurn sv = sv\<lparr>sv_system := sys_step CoreTurn (sv_system sv)\<rparr>"
| "service_step uuid (WorkTurn t) sv = sv\<lparr>sv_system := sys_step (WorkerTurn t) (sv_system sv)\<rparr>"

text \<open>Callers pass validated parameters with string stops; only the router routes.\<close>

fun service_event_ok :: "service_event \<Rightarrow> bool" where
  "service_event_ok (Calls (Route ev)) = False"
| "service_event_ok (Calls (SubmitOp prompt params rid)) = (0 < sp_max_tokens params \<and> string_stops params)"
| "service_event_ok _ = True"

definition service_init ::
    "hf_env \<Rightarrow> (nat \<Rightarrow> real) \<Rightarrow> nat \<Rightarrow> engine_config \<Rightarrow> exn + ref_runtime service" where
  "service_init env clock hdim config =
     (case client_init env config of Inl e \<Rightarrow> Inl e
      | Inr cl \<Rightarrow>
     (if cl_process cl \<noteq> EngineCoreMain then Inl (RuntimeError ''several ranks'')
      else case sys_init env clock hdim config of Inl e \<Rightarrow> Inl e
      | Inr s \<Rightarrow> Inr \<lparr>sv_client = cl, sv_system = s, sv_routed = 0\<rparr>))"

text \<open>What a call sends.\<close>

lemma client_step_commands:
  "cl_command_queue (client_step uuid op cl) = cl_command_queue cl @ sent_commands uuid op cl"
  and sent_commands_request: "c \<in> set (sent_commands uuid op cl) \<Longrightarrow> ec_request c = Some q \<Longrightarrow>
    \<exists>prompt params rid. op = SubmitOp prompt params rid \<and> ec_type c = ADD \<and> er_sampling_params q = params"
  and sent_commands_one: "length (sent_commands uuid op cl) \<le> 1"
proof -
  have q: "cl_command_queue (client_step uuid op cl) = cl_command_queue cl @ sent_commands uuid op cl \<and>
    (c \<in> set (sent_commands uuid op cl) \<longrightarrow> ec_request c = Some q \<longrightarrow>
      (\<exists>prompt params rid. op = SubmitOp prompt params rid \<and> ec_type c = ADD \<and> er_sampling_params q = params)) \<and>
    length (sent_commands uuid op cl) \<le> 1" for c q
  proof (cases op)
    case (Route ev)
    then show ?thesis
      by (auto simp: sent_commands_def route_event_def Let_def count_metrics_def stream_put_def
        split: option.splits out_event.splits)
  next
    case (SubmitOp prompt params rid)
    show ?thesis
      by (cases rule: client_submit_cases [of cl uuid prompt params rid]) (auto simp: SubmitOp sent_commands_def)
  next
    case (TakeOp a)
    then show ?thesis by (auto simp: sent_commands_def stream_get_def split: list.splits)
  qed (auto simp: sent_commands_def finish_stream_def client_abort_def client_close_def)
  show "cl_command_queue (client_step uuid op cl) = cl_command_queue cl @ sent_commands uuid op cl"
    "length (sent_commands uuid op cl) \<le> 1" using q [THEN conjunct1] q [THEN conjunct2, THEN conjunct2] .
  show "c \<in> set (sent_commands uuid op cl) \<Longrightarrow> ec_request c = Some q \<Longrightarrow>
    \<exists>prompt params rid. op = SubmitOp prompt params rid \<and> ec_type c = ADD \<and> er_sampling_params q = params"
    using q by blast
qed

section \<open>What holds in every state of the service\<close>

definition service_inv ::
    "(string \<Rightarrow> engine_request) \<Rightarrow> engine_config \<Rightarrow> ref_runtime service \<Rightarrow> bool" where
  "service_inv req config sv \<longleftrightarrow> bootstrap_pair.inv (sv_system sv) \<and> pair_answers req config (sy_core (sv_system sv)) \<and>
     client_inv (sv_client sv) \<and> sv_routed sv \<le> length (sv_log sv) \<and>
     (\<forall>r. owed (sy_core (sv_system sv)) r = add_count r (cl_command_queue (sv_client sv)))"

text \<open>No id is used twice, and \<open>req\<close> knows the requests.\<close>

definition commands_ok :: "(string \<Rightarrow> engine_request) \<Rightarrow> engine_command list \<Rightarrow> bool" where
  "commands_ok req cmds \<longleftrightarrow> (\<forall>r. add_count r cmds \<le> 1) \<and> (\<forall>c\<in>set cmds. identified req c)"

lemma commands_ok_prefix: "commands_ok req (cmds @ cmds') \<Longrightarrow> commands_ok req cmds"
  unfolding commands_ok_def by (metis Un_iff filter_append le_add1 le_trans length_append set_append)

text \<open>The first time an id is asked for, nothing has been sent under it.\<close>

lemma not_asked:
  assumes inv: "service_inv req config sv" and none: "add_count r (cl_command_queue (sv_client sv)) = 0"
    and s: "sy_core (sv_system sv) = (co, ph)"
  shows "add_count r (co_command_queue co) = 0" and "asked co r = 0"
proof -
  have "bootstrap_pair.inv (sv_system sv)" using inv by (simp add: service_inv_def)
  then have ph: "ph \<noteq> Failed" using bootstrap_pair.inv_failed s by metis
  moreover have "owed (co, ph) r = 0" using inv none s unfolding service_inv_def by metis
  ultimately have "balance co r = 0" by (cases ph) simp_all
  then show "add_count r (co_command_queue co) = 0" "asked co r = 0" by (simp_all add: balance_asked)
qed

lemma fresh_command:
  assumes inv: "service_inv req config sv"
    and cs: "commands_ok req (cl_command_queue (sv_client sv) @ [c])"
    and add: "\<And>q. ec_request c = Some q \<Longrightarrow> ec_type c = ADD"
  shows "fresh_event (Arrive c) (sy_core (sv_system sv))"
proof -
  obtain co ph where s: "sy_core (sv_system sv) = (co, ph)" by (cases "sy_core (sv_system sv)")
  show ?thesis
  proof (cases "ec_request c")
    case (Some q)
    then have "is_add (er_request_id q) c" using add by (simp add: is_add_def)
    moreover have "add_count (er_request_id q) (cl_command_queue (sv_client sv) @ [c]) \<le> 1"
      using cs unfolding commands_ok_def by blast
    ultimately have "add_count (er_request_id q) (cl_command_queue (sv_client sv)) = 0" by simp
    from not_asked [OF inv this s] show ?thesis using Some s by (simp add: asked_def count_list_0_iff)
  qed (simp add: s)
qed

lemma service_inv_call:
  assumes inv: "service_inv req config sv" and ok: "service_event_ok (Calls op)"
    and cs: "commands_ok req (cl_command_queue (sv_client (service_step uuid (Calls op) sv)))"
  shows "service_inv req config (service_step uuid (Calls op) sv)"
    and "sv_log (service_step uuid (Calls op) sv) = sv_log sv"
proof -
  let ?cl = "sv_client sv" and ?s = "sv_system sv"
  let ?new = "sent_commands uuid op ?cl"
  obtain co ph where s: "sy_core ?s = (co, ph)" by (cases "sy_core ?s")
  have q: "cl_command_queue (client_step uuid op ?cl) = cl_command_queue ?cl @ ?new" by (rule client_step_commands)
  have cl: "client_inv (client_step uuid op ?cl)" using inv client_step_inv by (simp add: service_inv_def)
  have "?new = [] \<or> (\<exists>c. ?new = [c])"
    using sent_commands_one [of uuid op ?cl] by (cases ?new) auto
  then have "service_inv req config (service_step uuid (Calls op) sv) \<and> sv_log (service_step uuid (Calls op) sv) = sv_log sv"
  proof
    assume "?new = []"
    then show ?thesis using inv cl q by (simp add: service_inv_def)
  next
    assume "\<exists>c. ?new = [c]"
    then obtain c where new: "?new = [c]" ..
    have req: "\<exists>prompt params rid. op = SubmitOp prompt params rid \<and> ec_type c = ADD \<and> er_sampling_params q = params"
      if "ec_request c = Some q" for q
      using sent_commands_request [of c uuid op ?cl q] new that by simp
    have valid: "valid_command c" "string_params c"
      using req ok by (auto simp: valid_command_def string_params_def split: option.split)
    have "commands_ok req (cl_command_queue ?cl @ [c])" using cs q new by simp
    moreover from this have id: "identified req c" by (simp add: commands_ok_def)
    ultimately have fresh: "fresh_event (Arrive c) (sy_core ?s)" using fresh_command [OF inv] req by blast
    have pi: "bootstrap_pair.inv ?s" and pa: "pair_answers req config (sy_core ?s)"
      and ow: "owed (sy_core ?s) r = add_count r (cl_command_queue ?cl)" for r
      using inv by (simp_all add: service_inv_def)
    have "bootstrap_pair.inv (sys_step (Submit c) ?s)" by (rule bootstrap_pair.submit [OF pi valid])
    moreover have "pair_answers req config (sy_core (sys_step (Submit c) ?s))"
      by (rule pair_submit [OF pa valid(1) id fresh])
    moreover have "owed (sy_core (sys_step (Submit c) ?s)) r = add_count r (cl_command_queue (client_step uuid op ?cl))" for r
      using pair_owed(3) [OF pi, of c r] ow [of r] q new by simp
    moreover have log: "co_output_queue (fst (sy_core (sys_step (Submit c) ?s))) = co_output_queue (fst (sy_core ?s))"
      using s by simp
    ultimately show ?thesis using inv cl new unfolding service_inv_def by (simp del: sys_step.simps)
  qed
  then show "service_inv req config (service_step uuid (Calls op) sv)"
    "sv_log (service_step uuid (Calls op) sv) = sv_log sv" by blast+
qed

lemma service_inv_step:
  assumes inv: "service_inv req config sv" and ok: "service_event_ok e"
    and cs: "commands_ok req (cl_command_queue (sv_client (service_step uuid e sv)))"
  shows "service_inv req config (service_step uuid e sv)"
    and "prefix (sv_log sv) (sv_log (service_step uuid e sv))"
proof -
  let ?s = "sv_system sv"
  have pi: "bootstrap_pair.inv ?s" and pa: "pair_answers req config (sy_core ?s)"
    and ow: "owed (sy_core ?s) r = add_count r (cl_command_queue (sv_client sv))"
    and cl: "client_inv (sv_client sv)" and rt: "sv_routed sv \<le> length (sv_log sv)" for r
    using inv by (simp_all add: service_inv_def)
  obtain co ph where s: "sy_core ?s = (co, ph)" by (cases "sy_core ?s")
  have "service_inv req config (service_step uuid e sv) \<and> prefix (sv_log sv) (sv_log (service_step uuid e sv))"
  proof (cases e)
    case (Calls op)
    then show ?thesis using service_inv_call [OF inv, of op uuid] ok cs by simp
  next
    case Routes
    have "client_inv (route_event (sv_client sv) ev)" for ev
      using client_step_inv [OF cl, of uuid "Route ev"] by simp
    moreover have "cl_command_queue (route_event (sv_client sv) ev) = cl_command_queue (sv_client sv)" for ev
      by (auto simp: route_event_def Let_def count_metrics_def stream_put_def split: option.splits out_event.splits)
    ultimately show ?thesis using Routes inv by (auto simp: service_inv_def)
  next
    case EngineTurn
    let ?s' = "?s\<lparr>sy_core := core_turn (sy_core ?s)\<rparr>"
    have pi': "bootstrap_pair.inv ?s'" using bootstrap_pair.sys_step_inv [OF pi, of CoreTurn] by simp
    obtain co' ph' where t: "core_turn (co, ph) = (co', ph')" by fastforce
    have ph': "ph' \<noteq> Failed" using bootstrap_pair.inv_failed [OF pi', of co'] s t by auto
    have pre: "prefix (co_output_queue co) (co_output_queue co')"
      using known.turn_grows [OF _ _ t ph'] pa s by (simp add: known.takes_def)
    then have "length (co_output_queue co) \<le> length (co_output_queue co')" by (rule prefix_length_le)
    then have "service_inv req config (sv\<lparr>sv_system := ?s'\<rparr>)"
      using pi' pair_core_turn [OF pi pa] pair_owed(1) [OF pi] ow cl rt s t by (simp add: service_inv_def)
    then show ?thesis using EngineTurn pre s t by simp
  next
    case (WorkTurn t)
    let ?s' = "worker_turn t ?s"
    from worker_turn_core [OF s] obtain qs rs where
      w: "sy_core ?s' = (co\<lparr>co_worker_queues := qs, co_result_queue := rs\<rparr>, ph)" by blast
    have "service_inv req config (sv\<lparr>sv_system := ?s'\<rparr>)"
      using bootstrap_pair.worker [OF pi, of t] pair_worker_turn [OF pi pa, of t, unfolded w]
        pair_owed(2) [OF pi, of t, unfolded w] ow cl rt s w by (simp add: service_inv_def)
    then show ?thesis using WorkTurn s w by simp
  qed
  then show "service_inv req config (service_step uuid e sv)"
    "prefix (sv_log sv) (sv_log (service_step uuid e sv))" by blast+
qed

text \<open>Commands are only added.\<close>

lemma service_commands_grow:
  "prefix (cl_command_queue (sv_client sv)) (cl_command_queue (sv_client (service_step uuid e sv)))"
proof (cases e)
  case (Calls op)
  then show ?thesis using client_step_commands [of uuid op "sv_client sv"] by simp
next
  case Routes
  have "cl_command_queue (route_event (sv_client sv) ev) = cl_command_queue (sv_client sv)" for ev
    by (auto simp: route_event_def Let_def count_metrics_def stream_put_def split: option.splits out_event.splits)
  then show ?thesis using Routes by simp
qed simp_all

lemma service_commands_run:
  "prefix (cl_command_queue (sv_client sv)) (cl_command_queue (sv_client (fold (service_step uuid) es sv)))"
proof (induction es arbitrary: sv)
  case (Cons e es)
  then show ?case using service_commands_grow [of sv uuid e] by (auto intro: prefix_order.trans)
qed simp

lemma commands_ok_before:
  assumes "commands_ok req (cl_command_queue (sv_client (fold (service_step uuid) es sv)))"
  shows "commands_ok req (cl_command_queue (sv_client sv))"
proof -
  from service_commands_run [of sv uuid es] obtain zs where
    "cl_command_queue (sv_client (fold (service_step uuid) es sv)) = cl_command_queue (sv_client sv) @ zs"
    by (rule prefixE)
  then show ?thesis using assms commands_ok_prefix by simp
qed

lemma service_inv_run:
  "service_inv req config sv \<Longrightarrow> \<forall>e\<in>set es. service_event_ok e \<Longrightarrow>
     commands_ok req (cl_command_queue (sv_client (fold (service_step uuid) es sv))) \<Longrightarrow>
     service_inv req config (fold (service_step uuid) es sv)"
proof (induction es arbitrary: sv)
  case (Cons e es)
  have "commands_ok req (cl_command_queue (sv_client (service_step uuid e sv)))"
    using commands_ok_before [of req uuid es "service_step uuid e sv"] Cons.prems(3) by simp
  then have "service_inv req config (service_step uuid e sv)" using service_inv_step(1) [OF Cons.prems(1)] Cons.prems(2) by simp
  then show ?case using Cons.IH Cons.prems(2,3) by simp
qed simp

lemma service_init_inv:
  assumes "service_init env clock hdim config = Inr sv" and cfg: "valid_config config" and "0 < hdim"
    and "model_path config = None" and "tokenizer_path config = None"
  shows "service_inv req config sv" and "cl_command_queue (sv_client sv) = []"
proof -
  from assms(1) obtain cl s where cl: "client_init env config = Inr cl" and s: "sys_init env clock hdim config = Inr s"
    and sv: "sv = \<lparr>sv_client = cl, sv_system = s, sv_routed = 0\<rparr>"
    by (auto simp: service_init_def split: sum.splits if_splits)
  obtain co where co: "engine_core_init env clock config = Inr co" "sy_core s = (co, AtHead)"
    using s by (auto simp: sys_init_def system_init_def split: sum.splits)
  have "co_tokenizer co = character_tokenizer"
    using co(1) assms(4,5) by (auto simp: engine_core_init_def create_tokenizer_def split: sum.splits)
  note A = engine_core_init_answers [OF co(1) cfg this]
  have "sys_run_ok string_params []" by (simp add: sys_run_ok_def)
  from sys_run_inv [OF s cfg assms(3-5) this] have pi: "bootstrap_pair.inv s" by simp
  show q: "cl_command_queue (sv_client sv) = []"
    using cl sv by (auto simp: client_init_def split: sum.splits)
  show "service_inv req config sv"
    using pi A co client_inv_init [OF cl] engine_core_init_inv(2) [OF co(1) cfg] q
    by (simp add: service_inv_def sv)
qed

section \<open>Streams of the service\<close>

definition outputs_of :: "string \<Rightarrow> out_event list \<Rightarrow> request_output list" where
  "outputs_of r evs = concat (map (\<lambda>ev. routed_to r (Route ev)) evs)"

lemma outputs_of_simps [simp]:
  "outputs_of r [] = []" "outputs_of r (xs @ ys) = outputs_of r xs @ outputs_of r ys"
  "outputs_of r (ev # evs) = routed_to r (Route ev) @ outputs_of r evs"
  by (simp_all add: outputs_of_def)

lemma outputs_of_none:
  "(\<And>ro. EvOutput ro \<in> set evs \<Longrightarrow> ro_request_id ro \<noteq> r) \<Longrightarrow> outputs_of r evs = []"
proof (induction evs)
  case (Cons ev evs)
  have "routed_to r (Route ev) = []" using Cons.prems by (cases ev) auto
  then show ?case using Cons by simp
qed simp

text \<open>The last output of a stream, in the log.\<close>

lemma outputs_of_last:
  "outputs_of r evs = outs @ [fin] \<Longrightarrow>
     \<exists>pre post. evs = pre @ EvOutput fin # post \<and> outputs_of r pre = outs \<and> ro_request_id fin = r"
proof (induction evs rule: rev_induct)
  case (snoc ev evs)
  show ?case
  proof (cases "routed_to r (Route ev) = []")
    case True
    then obtain pre post where "evs = pre @ EvOutput fin # post" "outputs_of r pre = outs" "ro_request_id fin = r"
      using snoc by auto
    then show ?thesis by (intro exI [of _ pre] exI [of _ "post @ [ev]"]) simp
  next
    case False
    then obtain out where "ev = EvOutput out" "ro_request_id out = r" by (cases ev) (auto split: if_splits)
    then show ?thesis using snoc.prems by (intro exI [of _ evs] exI [of _ "[]"]) auto
  qed
qed simp

lemma open_stream_outputs:
  "\<forall>out\<in>set (outputs_of r evs). \<not> ro_finished out \<Longrightarrow> open_stream r evs = outputs_of r evs"
proof (induction evs rule: rev_induct)
  case (snoc ev evs)
  then show ?case by (cases ev) (auto simp: open_stream_snoc)
qed (simp add: open_stream_def)

text \<open>The stream \<open>a\<close> of \<open>r\<close> holds what has been routed for \<open>r\<close>.\<close>

definition stream_holds :: "string \<Rightarrow> nat \<Rightarrow> 's service \<Rightarrow> bool" where
  "stream_holds r a sv \<longleftrightarrow> map_of (cl_streams (sv_client sv)) r = Some a \<and>
     cl_queues (sv_client sv) ! a = outputs_of r (take (sv_routed sv) (sv_log sv))"

lemma stream_holds_step:
  assumes inv: "service_inv req config sv" and ok: "service_event_ok e"
    and cs: "commands_ok req (cl_command_queue (sv_client (service_step uuid e sv)))"
    and st: "stream_holds r a sv" and ops: "e \<noteq> Calls (FinishStream r)" "e \<noteq> Calls (TakeOp a)"
  shows "stream_holds r a (service_step uuid e sv)"
proof -
  have cl: "client_inv (sv_client sv)" and rt: "sv_routed sv \<le> length (sv_log sv)"
    using inv by (simp_all add: service_inv_def)
  have reg: "map_of (cl_streams (sv_client sv)) r = Some a"
    and q: "cl_queues (sv_client sv) ! a = outputs_of r (take (sv_routed sv) (sv_log sv))"
    using st by (simp_all add: stream_holds_def)
  note S = client_step_stream [OF cl reg, of _ uuid]
  have log: "take (sv_routed sv) (sv_log (service_step uuid e sv)) = take (sv_routed sv) (sv_log sv)"
    using service_inv_step(2) [OF inv ok cs] rt by (auto simp: prefix_def)
  show ?thesis
  proof (cases e)
    case (Calls op)
    have "routed_to r op = []" using ok Calls by (cases op) simp_all
    then show ?thesis using S [of op] ops Calls q log by (simp add: stream_holds_def)
  next
    case Routes
    show ?thesis
    proof (cases "sv_routed sv < length (sv_log sv)")
      case True
      then have "take (Suc (sv_routed sv)) (sv_log sv) = take (sv_routed sv) (sv_log sv) @ [sv_log sv ! sv_routed sv]"
        by (rule take_Suc_conv_app_nth)
      then show ?thesis using S [of "Route (sv_log sv ! sv_routed sv)"] q True Routes by (simp add: stream_holds_def)
    qed (use Routes st in simp)
  qed (use reg q log in \<open>simp_all add: stream_holds_def\<close>)
qed

lemma stream_holds_run:
  "service_inv req config sv \<Longrightarrow> \<forall>e\<in>set es. service_event_ok e \<Longrightarrow>
     commands_ok req (cl_command_queue (sv_client (fold (service_step uuid) es sv))) \<Longrightarrow> stream_holds r a sv \<Longrightarrow>
     Calls (FinishStream r) \<notin> set es \<Longrightarrow> Calls (TakeOp a) \<notin> set es \<Longrightarrow>
     stream_holds r a (fold (service_step uuid) es sv)"
proof (induction es arbitrary: sv)
  case (Cons e es)
  have cs: "commands_ok req (cl_command_queue (sv_client (service_step uuid e sv)))"
    using commands_ok_before [of req uuid es "service_step uuid e sv"] Cons.prems(3) by simp
  have e: "service_event_ok e" "e \<noteq> Calls (FinishStream r)" "e \<noteq> Calls (TakeOp a)" using Cons.prems(2,5,6) by auto
  have "stream_holds r a (service_step uuid e sv)" by (rule stream_holds_step [OF Cons.prems(1) e(1) cs Cons.prems(4) e(2,3)])
  then show ?case
    using Cons.IH [OF service_inv_step(1) [OF Cons.prems(1) e(1) cs]] Cons.prems(2,3,5,6) by simp
qed simp

text \<open>The requests of a list of commands under which no id is used twice.\<close>

definition request_of :: "engine_command list \<Rightarrow> string \<Rightarrow> engine_request" where
  "request_of cmds r = (case find (is_add r) cmds of None \<Rightarrow> tiny_request r [] | Some c \<Rightarrow> the (ec_request c))"

lemma find_unique: "length (filter P xs) \<le> 1 \<Longrightarrow> x \<in> set xs \<Longrightarrow> P x \<Longrightarrow> find P xs = Some x"
proof (induction xs)
  case (Cons y ys)
  then show ?case by (cases "P y") (auto simp: filter_empty_conv)
qed simp

lemma request_of_unique:
  assumes "add_count r cmds \<le> 1" and "c \<in> set cmds" and "is_add r c" and "ec_request c = Some q"
  shows "request_of cmds r = q"
  using find_unique [OF assms(1-3)] assms(4) by (simp add: request_of_def)

lemma commands_identified:
  assumes "\<forall>r. add_count r cmds \<le> 1" and "\<forall>c\<in>set cmds. ec_request c \<noteq> None \<longrightarrow> ec_type c = ADD"
  shows "commands_ok (request_of cmds) cmds"
  unfolding commands_ok_def identified_def
proof (intro conjI ballI)
  fix c
  assume c: "c \<in> set cmds"
  show "case ec_request c of None \<Rightarrow> True | Some q \<Rightarrow> q = request_of cmds (er_request_id q)"
  proof (cases "ec_request c")
    case (Some q)
    then have "is_add (er_request_id q) c" using assms(2) c by (simp add: is_add_def)
    with request_of_unique [OF _ c this Some] assms(1) show ?thesis by (simp add: Some)
  qed simp
qed (use assms(1) in simp)

lemma service_commands_add:
  "\<forall>c\<in>set (cl_command_queue (sv_client sv)). ec_request c \<noteq> None \<longrightarrow> ec_type c = ADD \<Longrightarrow>
     \<forall>c\<in>set (cl_command_queue (sv_client (fold (service_step uuid) es sv))). ec_request c \<noteq> None \<longrightarrow> ec_type c = ADD"
proof (induction es arbitrary: sv)
  case (Cons e es)
  have "\<forall>c\<in>set (cl_command_queue (sv_client (service_step uuid e sv))). ec_request c \<noteq> None \<longrightarrow> ec_type c = ADD"
  proof (cases e)
    case (Calls op)
    have "ec_type c = ADD" if "c \<in> set (sent_commands uuid op (sv_client sv))" "ec_request c \<noteq> None" for c
      using sent_commands_request [OF that(1)] that(2) by blast
    then show ?thesis using Cons.prems Calls client_step_commands [of uuid op "sv_client sv"] by auto
  next
    case Routes
    have "cl_command_queue (route_event (sv_client sv) ev) = cl_command_queue (sv_client sv)" for ev
      by (auto simp: route_event_def Let_def count_metrics_def stream_put_def split: option.splits out_event.splits)
    then show ?thesis using Routes Cons.prems by simp
  qed (use Cons.prems in simp_all)
  then show ?case using Cons.IH by simp
qed simp

section \<open>What the bootstrap engine answers\<close>

lemma bootstrap_token_next:
  "bootstrap_token (int n) \<noteq> 1 \<longleftrightarrow> n < length response_tokens"
  "n < length response_tokens \<Longrightarrow> bootstrap_token (int n) = response_tokens ! n"
proof -
  have tokens: "\<forall>t\<in>set response_tokens. t \<noteq> 1"
    by (simp add: response_tokens_def response_text_def char_offset_def)
  show "n < length response_tokens \<Longrightarrow> bootstrap_token (int n) = response_tokens ! n"
    by (simp add: bootstrap_token_def)
  show "bootstrap_token (int n) \<noteq> 1 \<longleftrightarrow> n < length response_tokens"
    using tokens by (auto simp: bootstrap_token_def character_tokenizer_def)
qed

lemma grown_response:
  assumes "grown (bootstrap_next r) config q ts"
  shows "length ts \<le> length response_tokens" and "ts = take (length ts) response_tokens"
    and "0 < sp_max_tokens (er_sampling_params q) \<Longrightarrow> int (length ts) < sp_max_tokens (er_sampling_params q)"
proof -
  have nth: "ts ! n = bootstrap_token (int n) \<and> ts ! n \<noteq> 1" if "n < length ts" for n
  proof -
    have "bootstrap_next r (take n ts) (ts ! n)" "ts ! n \<noteq> 1" using assms that unfolding grown_def by blast+
    then show ?thesis using that by (simp add: bootstrap_next_def)
  qed
  then have less: "n < length response_tokens" if "n < length ts" for n
    using that bootstrap_token_next(1) by metis
  then show len: "length ts \<le> length response_tokens" by (meson leI less_irrefl)
  show "ts = take (length ts) response_tokens"
    by (rule nth_equalityI) (use len nth less bootstrap_token_next(2) in auto)
  show "int (length ts) < sp_max_tokens (er_sampling_params q)" if "0 < sp_max_tokens (er_sampling_params q)"
  proof (cases "length ts")
    case (Suc k)
    then have "goes_on config q ts" using assms unfolding grown_def by (metis lessI take_all order_refl)
    then show ?thesis by (simp add: goes_on_def)
  qed (use that in simp)
qed

text \<open>Without stop strings, and with room for the whole text.\<close>

lemma whole_bootstrap_answer:
  assumes w: "whole_answer (bootstrap_next r) config q outs fin" and m: "0 < sp_max_tokens (er_sampling_params q)"
    and stop: "sp_stop (er_sampling_params q) = []"
    and room: "int (length (er_prompt_token_ids q) + length response_text) < context_limit config"
  shows "concat (map ro_text (outs @ [fin])) = take (nat (sp_max_tokens (er_sampling_params q))) response_text"
    and "ro_finish_reason fin =
      Some (if sp_max_tokens (er_sampling_params q) \<le> int (length response_text) then LENGTH else STOP)"
proof -
  let ?ts = "concat (map ro_token_ids outs)" and ?tx = "concat (map ro_text (outs @ [fin]))"
  let ?m = "sp_max_tokens (er_sampling_params q)"
  have len: "length response_tokens = length response_text" by (simp add: response_tokens_def)
  have g: "grown (bootstrap_next r) config q ?ts" and dec: "char_decode (?ts @ ro_token_ids fin) = Inr ?tx"
    using w by (simp_all add: whole_answer_def Let_def)
  note G = grown_response [OF g]
  have below: "int (length ?ts) < ?m" by (rule G(3) [OF m])
  have "?tx = take (nat ?m) response_text \<and> ro_finish_reason fin = Some (if ?m \<le> int (length response_text) then LENGTH else STOP)"
  proof (cases "ro_token_ids fin = []")
    case True
    then have "bootstrap_token (int (length ?ts)) = 1" and re: "ro_finish_reason fin = Some STOP"
      using w by (simp_all add: whole_answer_def Let_def bootstrap_next_def)
    then have full: "length ?ts = length response_text"
      using bootstrap_token_next(1) [of "length ?ts"] G(1) len by linarith
    then have "?ts = response_tokens" using G(2) len by simp
    then have "?tx = response_text"
      using dec True response_decodes [of "length response_text"] len by simp
    then show ?thesis using below full re by simp
  next
    case False
    then obtain t where t: "ro_token_ids fin = [t]" "t = bootstrap_token (int (length ?ts))" "t \<noteq> 1"
      and stop': "\<not> goes_on config q (?ts @ [t])" and re: "ro_finish_reason fin = Some LENGTH"
      using w stop by (auto simp: whole_answer_def Let_def bootstrap_next_def)
    have less: "length ?ts < length response_tokens" using t(2,3) bootstrap_token_next(1) by metis
    have "?ts @ [t] = take (Suc (length ?ts)) response_tokens"
      using G(2) t(2) bootstrap_token_next(2) [OF less] less by (simp add: take_Suc_conv_app_nth)
    then have dec': "char_decode (?ts @ [t]) = Inr (take (Suc (length ?ts)) response_text)"
      using response_decodes [of "Suc (length ?ts)"] by simp
    have "?m \<le> int (Suc (length ?ts))"
      using stop' dec' stop room less len unfolding goes_on_def by auto
    then have "nat ?m = Suc (length ?ts)" using below by linarith
    then show ?thesis using dec dec' t(1) re less len below by simp
  qed
  then show "?tx = take (nat ?m) response_text"
    "ro_finish_reason fin = Some (if ?m \<le> int (length response_text) then LENGTH else STOP)" by blast+
qed

lemma client_step_tokenizer: "cl_tokenizer (client_step uuid op cl) = cl_tokenizer cl"
proof (cases op)
  case (Route ev)
  then show ?thesis
    by (auto simp: route_event_def Let_def count_metrics_def stream_put_def split: option.splits out_event.splits)
next
  case (SubmitOp prompt params rid)
  then show ?thesis by (auto simp: client_submit_def Let_def split: sum.splits)
next
  case (TakeOp a)
  then show ?thesis by (auto simp: stream_get_def split: list.splits)
qed (simp_all add: finish_stream_def client_abort_def client_close_def)

lemma service_tokenizer: "cl_tokenizer (sv_client (fold (service_step uuid) es sv)) = cl_tokenizer (sv_client sv)"
proof (induction es arbitrary: sv)
  case (Cons e es)
  have "cl_tokenizer (sv_client (service_step uuid e sv)) = cl_tokenizer (sv_client sv)"
    using client_step_tokenizer [of uuid "Route ev" "sv_client sv" for ev] client_step_tokenizer [of uuid _ "sv_client sv"]
    by (cases e) simp_all
  then show ?case using Cons.IH by simp
qed simp

text \<open>An accepted submission: the command it sends, and its stream.\<close>

lemma accepted_call:
  assumes "client_submit uuid cl prompt params rid = (Inr (r, a), cl1)"
  obtains ids where "tok_encode (cl_tokenizer cl) prompt = Inr ids" and "map_of (cl_streams cl1) r = Some a"
    and "cl_queues cl1 ! a = []" and "cl_command_queue cl1 = cl_command_queue cl @ [\<lparr>ec_type = ADD, ec_request = Some \<lparr>
         er_request_id = r, er_prompt = (case prompt of PyStr t \<Rightarrow> t | PyOther _ _ \<Rightarrow> []),
         er_prompt_token_ids = (if ids = [] then [bos_token_id (cl_tokenizer cl)] else ids),
         er_sampling_params = params\<rparr>, ec_request_id = None\<rparr>]"
proof (cases rule: client_submit_cases [of cl uuid prompt params rid])
  case (accepted ids cl')
  have eq: "r = submit_id uuid cl rid" "a = length (cl_queues cl)" "cl1 = cl'" using assms accepted(4) by simp_all
  show thesis by (rule that [of ids]) (simp_all add: eq accepted(3,5,6,8) update_conv')
qed (use assms in simp_all)

lemma service_init_tokenizer:
  assumes "service_init env clock hdim config = Inr sv" and "model_path config = None" and "tokenizer_path config = None"
  shows "cl_tokenizer (sv_client sv) = character_tokenizer"
  using assms by (auto simp: service_init_def client_init_def create_tokenizer_def split: sum.splits if_splits)

text \<open>The request of an accepted submission, among all the commands.\<close>

lemma call_request:
  assumes sub: "client_submit uuid cl (PyStr tx) params rid = (Inr (r, a), cl1)"
    and tk: "cl_tokenizer cl = character_tokenizer" and once: "add_count r cmds \<le> 1"
    and pre: "prefix (cl_command_queue cl1) cmds"
  shows "er_sampling_params (request_of cmds r) = params"
    and "length (er_prompt_token_ids (request_of cmds r)) = max 1 (length tx)"
proof -
  from accepted_call [OF sub] obtain ids where ids: "tok_encode (cl_tokenizer cl) (PyStr tx) = Inr ids"
    and new: "cl_command_queue cl1 = cl_command_queue cl @ [\<lparr>ec_type = ADD, ec_request = Some \<lparr>
         er_request_id = r, er_prompt = tx,
         er_prompt_token_ids = (if ids = [] then [bos_token_id (cl_tokenizer cl)] else ids),
         er_sampling_params = params\<rparr>, ec_request_id = None\<rparr>]" by auto
  let ?q = "\<lparr>er_request_id = r, er_prompt = tx,
         er_prompt_token_ids = (if ids = [] then [bos_token_id (cl_tokenizer cl)] else ids), er_sampling_params = params\<rparr>"
  have "\<lparr>ec_type = ADD, ec_request = Some ?q, ec_request_id = None\<rparr> \<in> set cmds"
    using new set_mono_prefix [OF pre] by auto
  with request_of_unique [OF once this] have req: "request_of cmds r = ?q" by (simp add: is_add_def)
  have "length ids = length tx" using ids tk by (auto simp: character_tokenizer_def)
  then show "er_sampling_params (request_of cmds r) = params"
    "length (er_prompt_token_ids (request_of cmds r)) = max 1 (length tx)"
    unfolding req by (cases tx; auto)+
qed

lemma call_starts:
  fixes sv :: "ref_runtime service"
  defines "sv1 \<equiv> \<lambda>uuid prompt params rid. service_step uuid (Calls (SubmitOp prompt params rid)) sv"
  assumes inv: "service_inv req config sv" and ok: "service_event_ok (Calls (SubmitOp prompt params rid))"
    and cs: "commands_ok req (cl_command_queue (sv_client (sv1 uuid prompt params rid)))"
    and sub: "client_submit uuid (sv_client sv) prompt params rid = (Inr (r, a), cl1)"
  shows "stream_holds r a (sv1 uuid prompt params rid)"
proof -
  let ?sv1 = "sv1 uuid prompt params rid"
  have cl1: "sv_client ?sv1 = cl1" using sub by (simp add: sv1_def)
  have "\<exists>c. map_of (cl_streams cl1) r = Some a \<and> cl_queues cl1 ! a = [] \<and>
      cl_command_queue cl1 = cl_command_queue (sv_client sv) @ [c] \<and> is_add r c"
  proof (rule accepted_call [OF sub], intro exI conjI, assumption, assumption, assumption)
  qed (simp add: is_add_def)
  then obtain c where
    new: "map_of (cl_streams cl1) r = Some a" "cl_queues cl1 ! a = []"
      "cl_command_queue cl1 = cl_command_queue (sv_client sv) @ [c]" "is_add r c" by blast
  obtain co ph where s: "sy_core (sv_system sv) = (co, ph)" by (cases "sy_core (sv_system sv)")
  have pi: "bootstrap_pair.inv (sv_system sv)" and kn: "known.holds_in (co, ph)"
    using inv s by (simp_all add: service_inv_def)
  have "ph \<noteq> Failed" using bootstrap_pair.inv_failed [OF pi] s by metis
  then have asked: "outputs_asked co" using kn by (simp add: known.holds_in_def)
  have "add_count r (cl_command_queue cl1) \<le> 1" using cs cl1 by (simp add: commands_ok_def)
  then have "add_count r (cl_command_queue (sv_client sv)) = 0" using new(4) unfolding new(3) by simp
  from not_asked(2) [OF inv this s] have "asked co r = 0" .
  then have none: "ro_request_id ro \<noteq> r" if "EvOutput ro \<in> set (co_output_queue co)" for ro
    using asked that unfolding outputs_asked_def by (metis less_irrefl)
  have "outputs_of r (take (sv_routed ?sv1) (sv_log ?sv1)) = []"
  proof (rule outputs_of_none)
    fix ro
    assume "EvOutput ro \<in> set (take (sv_routed ?sv1) (sv_log ?sv1))"
    then have "EvOutput ro \<in> set (sv_log sv)"
      using service_inv_call(2) [OF inv ok cs [unfolded sv1_def]] unfolding sv1_def by (metis in_set_takeD)
    then show "ro_request_id ro \<noteq> r" using none s by simp
  qed
  then show ?thesis using new(1,2) cl1 unfolding stream_holds_def by simp
qed

text \<open>The last output of the stream ends a whole answer.\<close>

lemma stream_whole:
  assumes inv: "service_inv req config sv" and holds: "stream_holds r a sv"
    and queue: "cl_queues (sv_client sv) ! a = outs @ [fin]" "\<forall>out\<in>set outs. \<not> ro_finished out" "ends_answer fin"
  shows "whole_answer (bootstrap_next r) config (req r) outs fin"
proof -
  have outs: "outputs_of r (take (sv_routed sv) (sv_log sv)) = outs @ [fin]"
    using holds queue(1) by (simp add: stream_holds_def)
  from outputs_of_last [OF outs] obtain pre post where
    log: "take (sv_routed sv) (sv_log sv) = pre @ EvOutput fin # post" "outputs_of r pre = outs" "ro_request_id fin = r"
    by blast
  have op: "open_stream r pre = outs" using open_stream_outputs [of r pre] log(2) queue(2) by simp
  obtain co ph where s: "sy_core (sv_system sv) = (co, ph)" by (cases "sy_core (sv_system sv)")
  have pi: "bootstrap_pair.inv (sv_system sv)" and an: "answers.holds_in req bootstrap_next config (co, ph)"
    using inv s by (simp_all add: service_inv_def)
  have "ph \<noteq> Failed" using bootstrap_pair.inv_failed [OF pi] s by metis
  then have fin: "finals_ok req bootstrap_next config (co_output_queue co)"
    using an by (simp add: answers.holds_in_def answers_ok_def)
  have "co_output_queue co = pre @ EvOutput fin # (post @ drop (sv_routed sv) (sv_log sv))"
    using log(1) s append_take_drop_id [of "sv_routed sv" "sv_log sv"] by simp
  from finals_okD [OF fin this queue(3)] show ?thesis using log(3) op by simp
qed

section \<open>From the caller to the model and back\<close>

text \<open>
  C4. A request is answered from end to end.  Client, engine core and bootstrap worker run
  in any interleaving, whatever other calls are made, with no id used twice.  A generation is started with a
  prompt that leaves room for the whole answer and no stop strings; nobody else reads or
  unregisters its stream.  Once its stream holds a final output that ends an answer, reading the generator
  yields the stream and stops, and the texts concatenate to the first \<open>max_tokens\<close> characters of the
  runner's text: the whole of it with reason stop if the limit is above its length, and length otherwise.
\<close>

theorem service_answers:
  assumes init: "service_init env clock hdim config = Inr sv0" and cfg: "valid_config config" and "0 < hdim"
    and "model_path config = None" and "tokenizer_path config = None"
    and before: "fold (service_step uuid) before sv0 = sv"
    and start: "generate_start uuid (sv_client sv) (PyStr tx) (Some params) rid = (Inr g, cl1)"
    and after: "fold (service_step uuid) (Calls (SubmitOp (PyStr tx) params rid) # after) sv = sv'"
    and ok: "\<forall>e\<in>set (before @ Calls (SubmitOp (PyStr tx) params rid) # after). service_event_ok e"
    and mine: "Calls (FinishStream (ge_request_id g)) \<notin> set after" "Calls (TakeOp (ge_stream g)) \<notin> set after"
    and once: "\<forall>r. length (filter (is_add r) (cl_command_queue (sv_client sv'))) \<le> 1"
    and stops: "sp_stop params = []" and room: "int (max 1 (length tx) + length response_text) < context_limit config"
    and queue: "cl_queues (sv_client sv') ! ge_stream g = outs @ [fin]" "\<forall>out\<in>set outs. \<not> ro_finished out"
      "ends_answer fin"
  shows "\<exists>g' cl'. generate_collect (length outs + 2) g (sv_client sv') = (outs @ [fin], g', cl') \<and> ge_ended g' \<and>
    concat (map ro_text (outs @ [fin])) = take (nat (sp_max_tokens params)) response_text \<and>
    ro_finish_reason fin = Some (if sp_max_tokens params \<le> int (length response_text) then LENGTH else STOP)"
proof -
  let ?r = "ge_request_id g" and ?a = "ge_stream g" and ?op = "SubmitOp (PyStr tx) params rid"
  let ?sv1 = "service_step uuid (Calls ?op) sv" and ?cmds = "cl_command_queue (sv_client sv')"
  let ?req = "request_of ?cmds"
  note I0 = service_init_inv [OF init cfg assms(3-5)]
  have sv': "sv' = fold (service_step uuid) after ?sv1" using after by simp
  have all: "sv' = fold (service_step uuid) (before @ Calls ?op # after) sv0" using before after by simp
  have "\<forall>c\<in>set ?cmds. ec_request c \<noteq> None \<longrightarrow> ec_type c = ADD"
    unfolding all by (rule service_commands_add) (simp add: I0(2))
  then have cs': "commands_ok ?req ?cmds" by (rule commands_identified [OF once])
  then have cs: "commands_ok ?req (cl_command_queue (sv_client ?sv1))" "commands_ok ?req (cl_command_queue (sv_client sv))"
    using commands_ok_before [of ?req uuid after ?sv1] commands_ok_before [of ?req uuid "Calls ?op # after" sv] sv' by simp_all
  have e: "\<forall>e\<in>set before. service_event_ok e" "service_event_ok (Calls ?op)" "\<forall>e\<in>set after. service_event_ok e"
    using ok by auto
  have inv: "service_inv ?req config sv"
    using service_inv_run [OF I0(1) e(1)] cs(2) before by blast
  note inv1 = service_inv_step(1) [OF inv e(2) cs(1)]
  have inv': "service_inv ?req config sv'" using service_inv_run [OF inv1 e(3)] cs' sv' by simp
  have sub: "client_submit uuid (sv_client sv) (PyStr tx) params rid = (Inr (?r, ?a), cl1)"
    and g: "\<not> ge_finished g" "\<not> ge_ended g"
    using start by (auto simp: generate_start_def split: sum.splits prod.splits)
  have tk: "cl_tokenizer (sv_client sv) = character_tokenizer"
    using service_init_tokenizer [OF init assms(4,5)] service_tokenizer [of uuid before sv0] before by simp
  have "prefix (cl_command_queue cl1) ?cmds" using service_commands_run [of ?sv1 uuid after] sub sv' by simp
  note Q = call_request [OF sub tk _ this]
  let ?q = "?req ?r"
  have q: "er_sampling_params ?q = params" "length (er_prompt_token_ids ?q) = max 1 (length tx)"
    using Q once by blast+
  have holds: "stream_holds ?r ?a sv'"
    using stream_holds_run [OF inv1 e(3) _ call_starts [OF inv e(2) cs(1) sub] mine] cs' sv' by simp
  then have reg: "map_of (cl_streams (sv_client sv')) ?r = Some ?a" by (simp add: stream_holds_def)
  from stream_whole [OF inv' holds queue] have whole: "whole_answer (bootstrap_next ?r) config ?q outs fin" .
  have m: "0 < sp_max_tokens (er_sampling_params ?q)" and st: "sp_stop (er_sampling_params ?q) = []"
    using e(2) stops q(1) by simp_all
  have rm: "int (length (er_prompt_token_ids ?q) + length response_text) < context_limit config" using room q(2) by simp
  note B = whole_bootstrap_answer [OF whole m st rm]
  have "client_inv (sv_client sv')" using inv' by (simp add: service_inv_def)
  from client_invD(1) [OF this reg] have "?a < length (cl_queues (sv_client sv'))" .
  from collect_all [OF queue(1) this queue(2) _ g] queue(3) obtain g' cl' where
    "generate_collect (length outs + 2) g (sv_client sv') = (outs @ [fin], g', cl')" "ge_ended g'"
    by (auto simp: ends_answer_def)
  then show ?thesis using B unfolding q(1) by simp
qed

text \<open>
  A request for one token.  The worker is left symbolic in the evaluation: its answer is known from the
  invariant, up to the metrics.
\<close>

definition wide_config :: engine_config where
  "wide_config = tiny_config\<lparr>num_gpu_blocks := 16\<rparr>"

definition wide_client :: client where
  "wide_client = (case client_init no_hf wide_config of Inr cl \<Rightarrow> cl)"

definition wide_core :: engine_core where
  "wide_core = tiny_core\<lparr>co_config := wide_config,
     co_scheduler := tiny_empty\<lparr>sc_config := wide_config, sc_cache_manager := kv_init 16 2\<rparr>\<rparr>"

definition wide_parts :: "'s worker \<Rightarrow> 's service" where
  "wide_parts wk = \<lparr>sv_client = wide_client,
     sv_system = \<lparr>sy_core = (wide_core, AtHead), sy_worker = wk, sy_alive = True\<rparr>, sv_routed = 0\<rparr>"

definition one_token_params :: sampling_params where
  "one_token_params = default_sampling_params\<lparr>sp_max_tokens := 1\<rparr>"

abbreviation one_call :: service_event where
  "one_call \<equiv> Calls (SubmitOp (PyStr [104, 105]) one_token_params (Some ''a''))"

definition answer_events :: "service_event list" where
  "answer_events = [EngineTurn, WorkTurn 1, EngineTurn, EngineTurn, Routes, Routes]"

lemma wide_init: "\<exists>wk. service_init no_hf (\<lambda>_. 0) 1 wide_config = Inr (wide_parts wk)"
proof -
  have tk: "create_tokenizer no_hf (model_path wide_config) (tokenizer_path wide_config) = Inr character_tokenizer"
    and one: "data_parallel_size wide_config = 1"
    by (simp_all add: create_tokenizer_def wide_config_def tiny_config_def default_engine_config_def)
  have "client_init no_hf wide_config = Inr wide_client" "cl_process wide_client = EngineCoreMain"
    using tk one by (simp_all add: client_init_def wide_client_def)
  moreover have "scheduler_init no_hf wide_config = Inr (tiny_empty\<lparr>sc_config := wide_config, sc_cache_manager := kv_init 16 2\<rparr>)"
    using tk by (simp add: scheduler_init_def tiny_empty_def) (simp add: wide_config_def tiny_config_def default_engine_config_def)
  then have "engine_core_init no_hf (\<lambda>_. 0) wide_config = Inr wide_core"
    using tk one by (simp add: engine_core_init_def wide_core_def tiny_core_def)
  ultimately show ?thesis
    by (auto simp: service_init_def sys_init_def system_init_def worker_init_def wide_parts_def)
qed

text \<open>The core after the call and its turn, and with the answer of its worker.\<close>

definition called_core :: core_state where
  "called_core = core_turn (fst (core_step (Arrive (\<lparr>ec_type = ADD, ec_request = Some \<lparr>er_request_id = ''a'',
     er_prompt = [104, 105], er_prompt_token_ids = [107, 108], er_sampling_params = one_token_params\<rparr>,
     ec_request_id = None\<rparr>)) (wide_core, AtHead)), AtHead)"

definition answered_core :: "batch_metrics option \<Rightarrow> core_state" where
  "answered_core m = (case called_core of (co, ph) \<Rightarrow> (co\<lparr>co_worker_queues := [[]], co_result_queue :=
     [\<lparr>wr_batch_id = 1, wr_rank = 0, wr_sampled_token_ids = [(''a'', bootstrap_token 0)], wr_error = None,
       wr_metrics = m\<rparr>]\<rparr>, ph))"

lemma called_core_facts:
  obtains co c out where "called_core = (co, Collecting out [])"
    and "co_worker_queues co = [[c]]" and "co_result_queue co = []" and "co_batch_id co = 1"
    and "map (\<lambda>it. (wi_request_id it, wi_generated_count it)) (filter wi_should_sample (schedule_items out)) = [(''a'', 0)]"
proof -
  have "case called_core of (co, ph) \<Rightarrow>
      (case co_worker_queues co of [[c]] \<Rightarrow> True | _ \<Rightarrow> False) \<and> (case co_result_queue co of [] \<Rightarrow> True | _ \<Rightarrow> False) \<and>
      co_batch_id co = 1 \<and> (case ph of Collecting out [] \<Rightarrow>
        map (\<lambda>it. (wi_request_id it, wi_generated_count it)) (filter wi_should_sample (schedule_items out)) = [(''a'', 0)]
      | _ \<Rightarrow> False)"
    by code_simp
  then show ?thesis using that by (auto split: prod.splits list.splits core_phase.splits)
qed

definition final_one :: "request_output \<Rightarrow> bool" where
  "final_one fin \<longleftrightarrow> ro_request_id fin = ''a'' \<and> ro_finished fin \<and> ro_finish_reason fin = Some LENGTH"

lemma answered_log:
  obtains fin log where "co_output_queue (fst (core_turn (core_turn (answered_core m)))) = log"
    and "length log \<le> 2" and "outputs_of ''a'' log = [fin]" and "final_one fin"
proof (cases m)
  case None
  let ?log = "co_output_queue (fst (core_turn (core_turn (answered_core None))))"
  have "length ?log = 1 \<and> (case ?log ! 0 of EvOutput fin \<Rightarrow> final_one fin | _ \<Rightarrow> False)"
    by code_simp
  moreover from this obtain ev where log: "?log = [ev]" by (auto simp: length_Suc_conv)
  ultimately obtain fin where "?log = [EvOutput fin]" "final_one fin" by (cases ev) auto
  then show ?thesis using None by (intro that [OF refl]) (auto simp: final_one_def)
next
  case (Some b)
  let ?log = "co_output_queue (fst (core_turn (core_turn (answered_core (Some b)))))"
  have "length ?log = 2 \<and> (case ?log ! 0 of EvMetrics bm \<Rightarrow> True | _ \<Rightarrow> False) \<and>
      (case ?log ! 1 of EvOutput fin \<Rightarrow> final_one fin | _ \<Rightarrow> False)"
    by code_simp
  moreover from this obtain e1 e2 where log: "?log = [e1, e2]" by (auto simp: length_Suc_conv numeral_2_eq_2)
  ultimately obtain bm fin where "?log = [EvMetrics bm, EvOutput fin]" "final_one fin"
    by (cases e1; cases e2) auto
  then show ?thesis using Some by (intro that [OF refl]) (auto simp: final_one_def)
qed

lemma wide_called:
  "service_step demo_uuid EngineTurn (service_step demo_uuid one_call (wide_parts wk)) =
     \<lparr>sv_client = client_step demo_uuid (SubmitOp (PyStr [104, 105]) one_token_params (Some ''a'')) wide_client,
       sv_system = \<lparr>sy_core = called_core, sy_worker = wk, sy_alive = True\<rparr>, sv_routed = 0\<rparr>"
proof -
  have "cl_command_queue wide_client = []" "\<not> cl_closed wide_client" "cl_streams wide_client = []"
      "cl_tokenizer wide_client = character_tokenizer"
    by (simp_all add: wide_client_def client_init_def create_tokenizer_def wide_config_def tiny_config_def
        default_engine_config_def)
  then have "sent_commands demo_uuid (SubmitOp (PyStr [104, 105]) one_token_params (Some ''a'')) wide_client =
      [\<lparr>ec_type = ADD, ec_request = Some \<lparr>er_request_id = ''a'', er_prompt = [104, 105],
        er_prompt_token_ids = [107, 108], er_sampling_params = one_token_params\<rparr>, ec_request_id = None\<rparr>]"
    by (simp add: sent_commands_def client_submit_def submit_id_def Let_def character_tokenizer_def char_offset_def)
  then show ?thesis by (simp add: wide_parts_def called_core_def)
qed

text \<open>The worker's answer, up to its metrics, is known from the invariant.\<close>

lemma worker_answers:
  assumes inv: "bootstrap_pair.inv \<lparr>sy_core = called_core, sy_worker = wk, sy_alive = True\<rparr>"
  shows "\<exists>m wk' alive. worker_turn t \<lparr>sy_core = called_core, sy_worker = wk, sy_alive = True\<rparr> =
    \<lparr>sy_core = answered_core m, sy_worker = wk', sy_alive = alive\<rparr>"
proof -
  from called_core_facts obtain co c out where co: "called_core = (co, Collecting out [])"
    "co_worker_queues co = [[c]]" "co_result_queue co = []" "co_batch_id co = 1"
    "map (\<lambda>it. (wi_request_id it, wi_generated_count it)) (filter wi_should_sample (schedule_items out)) = [(''a'', 0)]" .
  obtain results wk' alive where loop: "worker_loop wk [(c, t)] = (results, wk', alive)" by (metis prod.collapse)
  let ?co = "co\<lparr>co_worker_queues := [[]], co_result_queue := results\<rparr>"
  have turn: "worker_turn t \<lparr>sy_core = called_core, sy_worker = wk, sy_alive = True\<rparr> =
      \<lparr>sy_core = (?co, Collecting out []), sy_worker = wk', sy_alive = alive\<rparr>"
    by (simp add: worker_turn_def co(1-3) loop del: worker_loop.simps)
  have "bootstrap_pair.inv_at (?co, Collecting out []) wk' alive"
    using bootstrap_pair.worker [OF inv, of t] unfolding turn by (simp add: bootstrap_pair.inv_def)
  then obtain w where w: "results = [w]" "wr_batch_id w = 1" "wr_rank w = 0" "exact_answer (schedule_items out) w"
    using co(4) by (auto simp: bootstrap_pair.sent_ok_def bootstrap_pair.answered_def bootstrap_answer_def)
  have "map (\<lambda>it. (wi_request_id it, bootstrap_token (wi_generated_count it))) (filter wi_should_sample (schedule_items out)) =
      map (map_prod id bootstrap_token)
        (map (\<lambda>it. (wi_request_id it, wi_generated_count it)) (filter wi_should_sample (schedule_items out)))" by simp
  then have eq: "w = \<lparr>wr_batch_id = 1, wr_rank = 0, wr_sampled_token_ids = [(''a'', bootstrap_token 0)], wr_error = None,
      wr_metrics = wr_metrics w\<rparr>"
    using w(2-4) unfolding co(5) by (intro worker_result.equality) (simp_all add: exact_answer_def)
  have "(?co, Collecting out []) = answered_core (wr_metrics w)"
    by (simp add: answered_core_def co(1) w(1) eq [symmetric])
  then show ?thesis unfolding turn by auto
qed

lemma quiet_commands:
  "\<forall>op. Calls op \<notin> set es \<Longrightarrow>
     cl_command_queue (sv_client (fold (service_step uuid) es sv)) = cl_command_queue (sv_client sv)"
proof (induction es arbitrary: sv)
  case (Cons e es)
  have "cl_command_queue (route_event (sv_client sv) ev) = cl_command_queue (sv_client sv)" for ev
    by (auto simp: route_event_def Let_def count_metrics_def stream_put_def split: option.splits out_event.splits)
  then have "cl_command_queue (sv_client (service_step uuid e sv)) = cl_command_queue (sv_client sv)"
    using Cons.prems by (cases e) auto
  then show ?case using Cons by simp
qed simp

lemma wide_facts:
  "valid_config wide_config" "model_path wide_config = None" "tokenizer_path wide_config = None"
  "context_limit wide_config = 32" "length response_text = 10"
  by (simp_all add: wide_config_def tiny_config_def default_engine_config_def context_limit_def response_text_def
      valid_config_def capture_sizes_ok_def)

lemma wide_start:
  obtains g cl1 where "generate_start demo_uuid wide_client (PyStr [104, 105]) (Some one_token_params) (Some ''a'') = (Inr g, cl1)"
    and "ge_request_id g = ''a''" and "ge_stream g = 0"
    and "client_submit demo_uuid wide_client (PyStr [104, 105]) one_token_params (Some ''a'') = (Inr (''a'', 0), cl1)"
    and "length (cl_command_queue cl1) = 1"
proof -
  let ?call = "generate_start demo_uuid wide_client (PyStr [104, 105]) (Some one_token_params) (Some ''a'')"
  have "case ?call of (Inr g, cl1) \<Rightarrow> ge_request_id g = ''a'' \<and> ge_stream g = 0 \<and> length (cl_command_queue cl1) = 1
      | _ \<Rightarrow> False" by code_simp
  then obtain g cl1 where g: "?call = (Inr g, cl1)" "ge_request_id g = ''a''" "ge_stream g = 0"
    "length (cl_command_queue cl1) = 1" by (auto split: prod.splits sum.splits)
  moreover have "client_submit demo_uuid wide_client (PyStr [104, 105]) one_token_params (Some ''a'') =
      (Inr (ge_request_id g, ge_stream g), cl1)"
    using g(1) by (auto simp: generate_start_def split: sum.splits prod.splits)
  ultimately show ?thesis using that by simp
qed

lemma routes_all:
  assumes "length (sv_log sv) \<le> 2" and "sv_routed sv = 0"
  shows "sv_log (fold (service_step uuid) [Routes, Routes] sv) = sv_log sv"
    and "sv_routed (fold (service_step uuid) [Routes, Routes] sv) = length (sv_log sv)"
  using assms by (auto simp: not_less le_Suc_eq)

lemma wide_run:
  obtains wk fin where "service_init no_hf (\<lambda>_. 0) 1 wide_config = Inr (wide_parts wk)"
    and "cl_queues (sv_client (fold (service_step demo_uuid) (one_call # answer_events) (wide_parts wk))) ! 0 = [fin]"
    and "final_one fin"
    and "length (cl_command_queue (sv_client (fold (service_step demo_uuid) (one_call # answer_events) (wide_parts wk)))) = 1"
proof -
  obtain wk where init: "service_init no_hf (\<lambda>_. 0) 1 wide_config = Inr (wide_parts wk)" using wide_init by blast
  from wide_start obtain cl1 where sub:
    "client_submit demo_uuid wide_client (PyStr [104, 105]) one_token_params (Some ''a'') = (Inr (''a'', 0), cl1)"
    and one: "length (cl_command_queue cl1) = 1" by metis
  let ?sv1 = "service_step demo_uuid one_call (wide_parts wk)" and ?cmds = "cl_command_queue cl1"
  let ?req = "request_of ?cmds" and ?sv' = "fold (service_step demo_uuid) (one_call # answer_events) (wide_parts wk)"
  note I0 = service_init_inv [OF init wide_facts(1) zero_less_one wide_facts(2,3)]
  have cl: "sv_client (wide_parts wk) = wide_client" by (simp add: wide_parts_def)
  have cl1: "sv_client ?sv1 = cl1" using sub cl by simp
  have "\<forall>c\<in>set (cl_command_queue (sv_client (fold (service_step demo_uuid) [one_call] (wide_parts wk)))).
      ec_request c \<noteq> None \<longrightarrow> ec_type c = ADD"
    by (rule service_commands_add) (simp add: I0(2))
  then have "\<forall>c\<in>set ?cmds. ec_request c \<noteq> None \<longrightarrow> ec_type c = ADD" using cl1 by simp
  moreover have "\<forall>r. add_count r ?cmds \<le> 1" using one length_filter_le [of _ ?cmds] by metis
  ultimately have cs: "commands_ok ?req ?cmds" by (intro commands_identified)
  have e: "service_event_ok one_call" "\<forall>e\<in>set answer_events. service_event_ok e" "\<forall>op. Calls op \<notin> set answer_events"
    by (simp_all add: one_token_params_def default_sampling_params_def string_stops_def answer_events_def)
  have cs1: "commands_ok ?req (cl_command_queue (sv_client ?sv1))" using cs cl1 by simp
  note inv1 = service_inv_step(1) [OF I0(1) e(1) cs1]
  have still: "cl_command_queue (sv_client ?sv') = ?cmds" using quiet_commands [OF e(3), of demo_uuid ?sv1] cl1 by simp
  have "stream_holds ''a'' 0 ?sv1"
    by (rule call_starts [OF I0(1) e(1) cs1]) (use sub cl in simp)
  then have holds: "stream_holds ''a'' 0 ?sv'"
    using stream_holds_run [OF inv1 e(2), of demo_uuid "''a''" 0] e(3) still cs by simp
  let ?sv2 = "service_step demo_uuid EngineTurn ?sv1"
  have "service_inv ?req wide_config ?sv2"
    by (rule service_inv_step(1) [OF inv1]) (use cs cl1 in simp_all)
  then have "bootstrap_pair.inv (sv_system ?sv2)" unfolding service_inv_def by blast
  then have "bootstrap_pair.inv \<lparr>sy_core = called_core, sy_worker = wk, sy_alive = True\<rparr>"
    unfolding wide_called by simp
  from worker_answers [OF this, of 1] obtain m wk' alive where
    w: "worker_turn 1 \<lparr>sy_core = called_core, sy_worker = wk, sy_alive = True\<rparr> =
      \<lparr>sy_core = answered_core m, sy_worker = wk', sy_alive = alive\<rparr>" by blast
  let ?sv3 = "fold (service_step demo_uuid) [WorkTurn 1, EngineTurn, EngineTurn] ?sv2"
  have sv3: "sv_log ?sv3 = co_output_queue (fst (core_turn (core_turn (answered_core m))))" "sv_routed ?sv3 = 0"
    unfolding wide_called by (simp_all add: w)
  from answered_log obtain fin log where log: "sv_log ?sv3 = log" "length log \<le> 2" "outputs_of ''a'' log = [fin]"
    "final_one fin" unfolding sv3 by metis
  have sv': "?sv' = fold (service_step demo_uuid) [Routes, Routes] ?sv3" by (simp add: answer_events_def)
  have "take (sv_routed ?sv') (sv_log ?sv') = log"
    using routes_all [OF _ sv3(2), of demo_uuid] log(1,2) unfolding sv' by simp
  then have "cl_queues (sv_client ?sv') ! 0 = [fin]" using holds log(3) by (simp add: stream_holds_def)
  then show ?thesis using that init log(4) still one by simp
qed

theorem service_answers_witness:
  "\<exists>sv g cl1 fin. service_init no_hf (\<lambda>_. 0) 1 wide_config = Inr sv \<and>
     generate_start demo_uuid (sv_client sv) (PyStr [104, 105]) (Some one_token_params) (Some ''a'') = (Inr g, cl1) \<and>
     (\<exists>g' cl'. generate_collect 2 g (sv_client (fold (service_step demo_uuid) (one_call # answer_events) sv)) =
        ([fin], g', cl') \<and> ge_ended g') \<and>
     ro_text fin = take 1 response_text \<and> ro_finish_reason fin = Some LENGTH"
proof -
  from wide_run obtain wk fin where W: "service_init no_hf (\<lambda>_. 0) 1 wide_config = Inr (wide_parts wk)"
    "cl_queues (sv_client (fold (service_step demo_uuid) (one_call # answer_events) (wide_parts wk))) ! 0 = [fin]"
    "final_one fin"
    "length (cl_command_queue (sv_client (fold (service_step demo_uuid) (one_call # answer_events) (wide_parts wk)))) = 1" .
  from wide_start obtain g cl1 where G: "ge_request_id g = ''a''" "ge_stream g = 0"
    "generate_start demo_uuid wide_client (PyStr [104, 105]) (Some one_token_params) (Some ''a'') = (Inr g, cl1)" by metis
  have cl: "sv_client (wide_parts wk) = wide_client" by (simp add: wide_parts_def)
  have start: "generate_start demo_uuid (sv_client (wide_parts wk)) (PyStr [104, 105]) (Some one_token_params) (Some ''a'') =
      (Inr g, cl1)" using G(3) cl by simp
  let ?sv' = "fold (service_step demo_uuid) (one_call # answer_events) (wide_parts wk)"
  have none: "fold (service_step demo_uuid) [] (wide_parts wk) = wide_parts wk" by simp
  have ok: "\<forall>e\<in>set ([] @ one_call # answer_events). service_event_ok e"
    and mine: "Calls (FinishStream (ge_request_id g)) \<notin> set answer_events" "Calls (TakeOp (ge_stream g)) \<notin> set answer_events"
    by (simp_all add: one_token_params_def default_sampling_params_def string_stops_def answer_events_def)
  have once: "\<forall>r. length (filter (is_add r) (cl_command_queue (sv_client ?sv'))) \<le> 1"
    using W(4) length_filter_le by metis
  have stops: "sp_stop one_token_params = []" "sp_max_tokens one_token_params = 1"
    by (simp_all add: one_token_params_def default_sampling_params_def)
  have room: "int (max 1 (length [104 :: int, 105]) + length response_text) < context_limit wide_config"
    by (simp add: wide_facts)
  have queue: "cl_queues (sv_client ?sv') ! ge_stream g = [] @ [fin]" "\<forall>out\<in>set []. \<not> ro_finished out" "ends_answer fin"
    using W(2,3) G(2) by (simp_all add: final_one_def ends_answer_def)
  from service_answers [OF W(1) wide_facts(1) zero_less_one wide_facts(2,3) none start refl ok mine once stops(1) room queue]
  obtain g' cl' where A: "generate_collect 2 g (sv_client ?sv') = ([fin], g', cl')" "ge_ended g'"
    "ro_text fin = take 1 response_text" "ro_finish_reason fin = Some LENGTH"
    unfolding stops(2) wide_facts by (auto simp: numeral_2_eq_2 simp del: service_step.simps generate_collect.simps)
  show ?thesis
    by (intro exI [of _ "wide_parts wk"] exI [of _ g] exI [of _ cl1] exI [of _ fin] conjI exI [of _ g'] exI [of _ cl']
        W(1) start A)
qed

end
