(* ===== verification/DPCoordinator.thy ===== *)
theory DPCoordinator
  imports EngineCore_Props
begin

text \<open>
  \<open>minivllm/engine/dp_coordinator.py\<close>: the process that spreads requests over one engine core
  per data-parallel rank.  The queues from and to the ranks are lists; \<open>dp_rank_command_queues\<close>
  holds everything put so far, in order, since only the ranks read them.  What a rank may put on
  its output queue is what an engine core does (it answers every add command once): for each id at most
  as many final outputs as add commands.

  The size of the coordinator is positive (the configuration is validated), so \<open>min\<close> over the
  ranks is never applied to an empty range.
\<close>

section \<open>State\<close>

record dp_coordinator =
  dp_config :: engine_config
  dp_command_queue :: "engine_command list"
  dp_output_queue :: "out_event list"
  dp_rank_command_queues :: "engine_command list list"
  dp_rank_output_queues :: "out_event list list"
  dp_engine_cores :: "engine_config list"
  dp_request_ranks :: "(string, nat) dict"
  dp_rank_load :: "int list"
  dp_shutdown :: bool

text \<open>\<open>replace(config, data_parallel_size=1, data_parallel_rank=rank)\<close>, which validates again.\<close>

definition rank_config :: "engine_config \<Rightarrow> nat \<Rightarrow> exn + engine_config" where
  "rank_config config rank =
     engine_config_post_init (config\<lparr>data_parallel_size := 1, data_parallel_rank := int rank\<rparr>)"

fun rank_configs :: "engine_config \<Rightarrow> nat list \<Rightarrow> exn + engine_config list" where
  "rank_configs config [] = Inr []"
| "rank_configs config (rank # ranks) =
     (case rank_config config rank of
        Inl e \<Rightarrow> Inl e
      | Inr c \<Rightarrow> (case rank_configs config ranks of Inl e \<Rightarrow> Inl e | Inr cs \<Rightarrow> Inr (c # cs)))"

definition dp_coordinator_init :: "engine_config \<Rightarrow> exn + dp_coordinator" where
  "dp_coordinator_init config =
     (case rank_configs config [0..<nat (data_parallel_size config)] of
        Inl e \<Rightarrow> Inl e
      | Inr cores \<Rightarrow> Inr \<lparr>
          dp_config = config, dp_command_queue = [], dp_output_queue = [],
          dp_rank_command_queues = replicate (nat (data_parallel_size config)) [],
          dp_rank_output_queues = replicate (nat (data_parallel_size config)) [],
          dp_engine_cores = cores,
          dp_request_ranks = [],
          dp_rank_load = replicate (nat (data_parallel_size config)) 0,
          dp_shutdown = False\<rparr>)"

section \<open>Commands\<close>

text \<open>\<open>min(ranks, key=load)\<close>: the first of the minimal elements.\<close>

fun min_by :: "('a \<Rightarrow> int) \<Rightarrow> 'a \<Rightarrow> 'a list \<Rightarrow> 'a" where
  "min_by key best [] = best"
| "min_by key best (x # xs) = min_by key (if key x < key best then x else best) xs"

definition least_loaded :: "dp_coordinator \<Rightarrow> nat" where
  "least_loaded dp = min_by (\<lambda>rank. dp_rank_load dp ! rank) 0
     [1..<nat (data_parallel_size (dp_config dp))]"

definition rank_put :: "nat \<Rightarrow> engine_command \<Rightarrow> dp_coordinator \<Rightarrow> dp_coordinator" where
  "rank_put rank command dp = dp\<lparr>dp_rank_command_queues :=
     (dp_rank_command_queues dp)[rank := dp_rank_command_queues dp ! rank @ [command]]\<rparr>"

definition dp_handle_command :: "dp_coordinator \<Rightarrow> engine_command \<Rightarrow> dp_coordinator" where
  "dp_handle_command dp command =
     (case ec_type command of
        SHUTDOWN \<Rightarrow> dp\<lparr>dp_shutdown := True\<rparr>
      | ADD \<Rightarrow>
          (case ec_request command of
             None \<Rightarrow> dp
           | Some request \<Rightarrow>
               let rank = least_loaded dp in
               rank_put rank command (dp\<lparr>
                 dp_request_ranks := AList.update (er_request_id request) rank (dp_request_ranks dp),
                 dp_rank_load := (dp_rank_load dp)[rank := dp_rank_load dp ! rank + 1]\<rparr>))
      | ABORT_CMD \<Rightarrow>
          (case ec_request_id command of
             None \<Rightarrow> dp
           | Some r \<Rightarrow>
               (case map_of (dp_request_ranks dp) r of
                  None \<Rightarrow> dp
                | Some rank \<Rightarrow> rank_put rank command dp)))"

text \<open>One blocking read (with a timeout), then everything that is in the queue.\<close>

fun dp_drain_loop :: "engine_command list \<Rightarrow> dp_coordinator \<Rightarrow> dp_coordinator" where
  "dp_drain_loop [] dp = dp\<lparr>dp_command_queue := []\<rparr>"
| "dp_drain_loop (command # commands) dp =
     dp_drain_loop commands (dp_handle_command (dp\<lparr>dp_command_queue := commands\<rparr>) command)"

definition drain_parent_commands :: "dp_coordinator \<Rightarrow> dp_coordinator" where
  "drain_parent_commands dp =
     (case dp_command_queue dp of
        [] \<Rightarrow> dp
      | command # commands \<Rightarrow>
          let dp1 = dp_handle_command (dp\<lparr>dp_command_queue := commands\<rparr>) command
          in dp_drain_loop (dp_command_queue dp1) dp1)"

section \<open>Outputs\<close>

definition forward_output :: "nat \<Rightarrow> out_event \<Rightarrow> dp_coordinator \<Rightarrow> dp_coordinator" where
  "forward_output rank ev dp =
     (let dp1 = dp\<lparr>dp_output_queue := dp_output_queue dp @ [ev]\<rparr>
      in (case ev of
            EvMetrics _ \<Rightarrow> dp1
          | EvOutput output \<Rightarrow>
              if ro_finished output
              then dp1\<lparr>dp_request_ranks := AList.delete (ro_request_id output) (dp_request_ranks dp1),
                       dp_rank_load := (dp_rank_load dp1)[rank := max 0 (dp_rank_load dp1 ! rank - 1)]\<rparr>
              else dp1))"

definition drain_rank :: "nat \<Rightarrow> dp_coordinator \<Rightarrow> dp_coordinator" where
  "drain_rank rank dp =
     fold (forward_output rank) (dp_rank_output_queues dp ! rank)
       (dp\<lparr>dp_rank_output_queues := (dp_rank_output_queues dp)[rank := []]\<rparr>)"

definition drain_rank_outputs :: "dp_coordinator \<Rightarrow> dp_coordinator" where
  "drain_rank_outputs dp = fold drain_rank [0..<length (dp_rank_output_queues dp)] dp"

section \<open>The loop\<close>

datatype dp_phase = DPRunning | DPStopped

definition dp_finally :: "dp_coordinator \<Rightarrow> dp_coordinator" where
  "dp_finally dp = dp\<lparr>dp_rank_command_queues :=
     map (\<lambda>q. q @ [\<lparr>ec_type = SHUTDOWN, ec_request = None, ec_request_id = None\<rparr>])
       (dp_rank_command_queues dp)\<rparr>"

fun dp_turn :: "dp_coordinator \<times> dp_phase \<Rightarrow> dp_coordinator \<times> dp_phase" where
  "dp_turn (dp, DPRunning) =
     (if dp_shutdown dp then (dp_finally dp, DPStopped)
      else (drain_rank_outputs (drain_parent_commands dp), DPRunning))"
| "dp_turn (dp, DPStopped) = (dp, DPStopped)"


lemma rank_put_sel [simp]:
  "dp_config (rank_put k c dp) = dp_config dp"
  "dp_command_queue (rank_put k c dp) = dp_command_queue dp"
  "dp_output_queue (rank_put k c dp) = dp_output_queue dp"
  "dp_rank_output_queues (rank_put k c dp) = dp_rank_output_queues dp"
  "dp_request_ranks (rank_put k c dp) = dp_request_ranks dp"
  "dp_rank_load (rank_put k c dp) = dp_rank_load dp"
  "dp_rank_command_queues (rank_put k c dp) =
     (dp_rank_command_queues dp)[k := dp_rank_command_queues dp ! k @ [c]]"
  by (simp_all add: rank_put_def)

section \<open>Runs\<close>

lemma mset_concat_snoc:
  "k < length xss \<Longrightarrow> mset (concat (xss[k := xss ! k @ [x]])) = add_mset x (mset (concat xss))"
proof (induction xss arbitrary: k)
  case (Cons xs xss)
  then show ?case by (cases k) simp_all
qed simp

lemma filter_concat_snoc:
  assumes "k < length xss"
  shows "length (filter P (concat (xss[k := xss ! k @ [x]]))) =
    length (filter P (concat xss)) + (if P x then 1 else 0)"
proof -
  have "size (filter_mset P (mset (concat (xss[k := xss ! k @ [x]])))) =
      size (filter_mset P (add_mset x (mset (concat xss))))"
    by (simp only: mset_concat_snoc [OF assms])
  then show ?thesis by (simp only: mset_filter [symmetric] size_mset) (simp add: mset_filter [symmetric] del: mset_filter)
qed

text \<open>Commands and outputs of any request.\<close>

definition any_add :: "engine_command \<Rightarrow> bool" where
  "any_add c \<longleftrightarrow> ec_type c = ADD \<and> ec_request c \<noteq> None"

fun any_final :: "out_event \<Rightarrow> bool" where
  "any_final (EvOutput out) = ro_finished out"
| "any_final (EvMetrics bm) = False"

text \<open>A client that puts commands, rank processes that put outputs, and turns of the coordinator.
  \<open>ds_received\<close> and \<open>ds_produced\<close> record what was put.\<close>

record dp_state =
  ds_dp :: dp_coordinator
  ds_phase :: dp_phase
  ds_received :: "engine_command list"
  ds_produced :: "out_event list list"

datatype dp_event = DPArrive engine_command | DPProduce nat out_event | DPTurn

fun dp_step :: "dp_event \<Rightarrow> dp_state \<Rightarrow> dp_state" where
  "dp_step (DPArrive c) s = s\<lparr>
     ds_dp := (ds_dp s)\<lparr>dp_command_queue := dp_command_queue (ds_dp s) @ [c]\<rparr>,
     ds_received := ds_received s @ [c]\<rparr>"
| "dp_step (DPProduce k ev) s = s\<lparr>
     ds_dp := (ds_dp s)\<lparr>dp_rank_output_queues := (dp_rank_output_queues (ds_dp s))
       [k := dp_rank_output_queues (ds_dp s) ! k @ [ev]]\<rparr>,
     ds_produced := (ds_produced s)[k := ds_produced s ! k @ [ev]]\<rparr>"
| "dp_step DPTurn s = (case dp_turn (ds_dp s, ds_phase s) of (dp, ph) \<Rightarrow>
     s\<lparr>ds_dp := dp, ds_phase := ph\<rparr>)"

text \<open>A rank answers at most the add commands it was sent, as every engine core does.\<close>

fun dp_event_ok :: "dp_event \<Rightarrow> dp_state \<Rightarrow> bool" where
  "dp_event_ok (DPProduce k ev) s \<longleftrightarrow> k < length (ds_produced s) \<and>
     (\<forall>r. final_count r (ds_produced s ! k @ [ev]) \<le>
        add_count r (dp_rank_command_queues (ds_dp s) ! k))"
| "dp_event_ok _ s \<longleftrightarrow> True"

section \<open>The invariant\<close>

text \<open>\<open>fw\<close> are the outputs forwarded from each rank so far.\<close>

definition dp_ok :: "out_event list list \<Rightarrow> dp_coordinator \<Rightarrow> bool" where
  "dp_ok fw dp \<longleftrightarrow> (let n = nat (data_parallel_size (dp_config dp)) in
     0 < n \<and> length (dp_rank_command_queues dp) = n \<and> length (dp_rank_output_queues dp) = n \<and>
     length fw = n \<and> length (dp_rank_load dp) = n \<and>
     mset (dp_output_queue dp) = mset (concat fw) \<and>
     (\<forall>k<n. dp_rank_load dp ! k = int (length (filter any_add (dp_rank_command_queues dp ! k))) -
        int (length (filter any_final (fw ! k)))))"

definition ranks_ok :: "out_event list list \<Rightarrow> dp_coordinator \<Rightarrow> bool" where
  "ranks_ok fw dp \<longleftrightarrow>
     (\<forall>r k. map_of (dp_request_ranks dp) r = Some k \<longrightarrow>
        k < length fw \<and> 0 < add_count r (dp_rank_command_queues dp ! k)) \<and>
     ((\<forall>r. add_count r (concat (dp_rank_command_queues dp)) \<le> 1) \<longrightarrow>
        (\<forall>r k. k < length fw \<and> 0 < add_count r (dp_rank_command_queues dp ! k) \<and>
           final_count r (fw ! k) = 0 \<longrightarrow> map_of (dp_request_ranks dp) r = Some k))"

definition honest :: "out_event list list \<Rightarrow> dp_coordinator \<Rightarrow> bool" where
  "honest fw dp \<longleftrightarrow> (\<forall>k<length fw. \<forall>r.
     final_count r (fw ! k) \<le> add_count r (dp_rank_command_queues dp ! k))"

text \<open>Fewer final outputs than add commands for each id, so fewer in all.\<close>

lemma finals_le_adds:
  assumes "\<And>r. final_count r evs \<le> add_count r cs"
  shows "length (filter any_final evs) \<le> length (filter any_add cs)"
proof -
  let ?fid = "\<lambda>ev. case ev of EvOutput out \<Rightarrow> ro_request_id out | EvMetrics bm \<Rightarrow> []"
  let ?aid = "\<lambda>c. case ec_request c of None \<Rightarrow> [] | Some q \<Rightarrow> er_request_id q"
  have f: "count_list (map ?fid (filter any_final xs)) r = final_count r xs" for xs r
  proof (induction xs)
    case (Cons x xs)
    then show ?case by (cases x) auto
  qed simp
  have a: "count_list (map ?aid (filter any_add xs)) r = add_count r xs" for xs r
    by (induction xs) (auto simp: any_add_def is_add_def split: option.splits)
  have "mset (map ?fid (filter any_final evs)) \<subseteq># mset (map ?aid (filter any_add cs))"
    unfolding subseteq_mset_def count_mset f a using assms by blast
  from size_mset_mono [OF this] show ?thesis by (simp only: size_mset length_map)
qed


lemma length_filter_concat:
  "length (filter P (concat xss)) = (\<Sum>k<length xss. length (filter P (xss ! k)))"
  by (induction xss) (simp_all add: sum.lessThan_Suc_shift del: sum.lessThan_Suc)

lemma one_of_concat: "k < length xss \<Longrightarrow> length (filter P (xss ! k)) \<le> length (filter P (concat xss))"
  unfolding length_filter_concat by (rule member_le_sum) simp_all

lemma two_of_concat:
  assumes "j < length xss" "k < length xss" "j \<noteq> k"
  shows "length (filter P (xss ! j)) + length (filter P (xss ! k)) \<le> length (filter P (concat xss))"
proof -
  have "(\<Sum>i\<in>{j, k}. length (filter P (xss ! i))) \<le> (\<Sum>i<length xss. length (filter P (xss ! i)))"
    by (rule sum_mono2) (use assms in auto)
  then show ?thesis using assms(3) by (simp add: length_filter_concat)
qed

lemma min_by_minimal: "\<forall>x\<in>set (best # xs). key (min_by key best xs) \<le> key x"
  and min_by_member: "min_by key best xs \<in> set (best # xs)"
proof (induction xs arbitrary: best)
  case (Cons x xs)
  { case 1 show ?case using Cons(1) [of "if key x < key best then x else best"] by force
  next
    case 2 show ?case using Cons(2) [of "if key x < key best then x else best"] by auto }
qed simp_all

lemma least_loaded_minimal:
  assumes "dp_ok fw dp"
  shows "least_loaded dp < length fw"
    and "\<forall>k<length fw. dp_rank_load dp ! least_loaded dp \<le> dp_rank_load dp ! k"
proof -
  let ?n = "nat (data_parallel_size (dp_config dp))"
  have n: "length fw = ?n" "0 < ?n" using assms by (simp_all add: dp_ok_def Let_def)
  have set: "set (0 # [1..<?n]) = {..<?n}" using n(2) by auto
  note M = min_by_minimal [of 0 "[1..<?n]" "\<lambda>rank. dp_rank_load dp ! rank"]
    min_by_member [of "\<lambda>rank. dp_rank_load dp ! rank" 0 "[1..<?n]"]
  show "least_loaded dp < length fw"
    using M(2) unfolding set least_loaded_def [symmetric] n(1) by simp
  show "\<forall>k<length fw. dp_rank_load dp ! least_loaded dp \<le> dp_rank_load dp ! k"
    using M(1) unfolding set least_loaded_def [symmetric] n(1) by simp
qed

lemma filter_snoc_mono:
  "length (filter P (xss ! k)) \<le> length (filter P (xss[i := xss ! i @ [x]] ! k))"
  by (cases "i < length xss"; cases "k = i") (simp_all add: list_update_beyond)

lemma dp_add_ok:
  assumes ok: "dp_ok fw dp" and rk: "ranks_ok fw dp" and add: "is_add r0 c"
    and k: "k < length fw"
  defines "dp' \<equiv> rank_put k c (dp\<lparr>dp_request_ranks := AList.update r0 k (dp_request_ranks dp),
       dp_rank_load := (dp_rank_load dp)[k := dp_rank_load dp ! k + 1]\<rparr>)"
  shows "dp_ok fw dp'" and "ranks_ok fw dp'"
proof -
  let ?q = "dp_rank_command_queues dp" and ?q' = "(dp_rank_command_queues dp)[k := dp_rank_command_queues dp ! k @ [c]]"
  have len: "length ?q = length fw" "length (dp_rank_load dp) = length fw"
    using ok by (simp_all add: dp_ok_def Let_def)
  have any: "any_add c" using add by (auto simp: is_add_def any_add_def split: option.splits)
  show "dp_ok fw dp'"
    using ok k len any by (auto simp: dp_ok_def dp'_def rank_put_def Let_def nth_list_update)
  have cnt: "add_count r (?q' ! j) = add_count r (?q ! j) + (if j = k \<and> r = r0 then 1 else 0)"
    if "j < length fw" for r j
    using that k len add by (auto simp: nth_list_update is_add_def split: option.splits)
  have tot: "add_count r (concat ?q') = add_count r (concat ?q) + (if r = r0 then 1 else 0)" for r
    using filter_concat_snoc [of k ?q "is_add r" c] k len add by (auto simp: is_add_def split: option.splits)
  have here: "j = k" if "j < length fw" "0 < add_count r0 (?q' ! j)" "add_count r0 (concat ?q') \<le> 1" for j
  proof (rule ccontr)
    assume "j \<noteq> k"
    then have "add_count r0 (?q' ! j) + add_count r0 (?q' ! k) \<le> add_count r0 (concat ?q')"
      using that(1) k len by (intro two_of_concat) simp_all
    moreover have "0 < add_count r0 (?q' ! k)" unfolding cnt [OF k] by simp
    ultimately show False using that(2,3) by linarith
  qed
  have A: "map_of (dp_request_ranks dp') r = Some j"
    if u: "\<forall>r. add_count r (concat ?q') \<le> 1"
      and j: "j < length fw" "0 < add_count r (?q' ! j)" "final_count r (fw ! j) = 0" for r j
  proof (cases "r = r0")
    case True
    then show ?thesis using here [OF j(1)] j(2) u by (simp add: dp'_def rank_put_def update_conv')
  next
    case False
    have "\<forall>r. add_count r (concat ?q) \<le> 1" using u tot by (metis add_leD1)
    moreover have "0 < add_count r (?q ! j)" using j(2) False unfolding cnt [OF j(1)] by simp
    ultimately have "map_of (dp_request_ranks dp) r = Some j"
      using rk j(1,3) unfolding ranks_ok_def by blast
    then show ?thesis using False by (simp add: dp'_def rank_put_def update_conv')
  qed
  have B: "j < length fw \<and> 0 < add_count r (?q' ! j)"
    if "map_of (dp_request_ranks dp') r = Some j" for r j
  proof (cases "r = r0")
    case True
    then show ?thesis using that k cnt [OF k, of r0] by (simp add: dp'_def rank_put_def update_conv')
  next
    case False
    then have "map_of (dp_request_ranks dp) r = Some j"
      using that by (simp add: dp'_def rank_put_def update_conv')
    then have "j < length fw" "0 < add_count r (?q ! j)" using rk by (auto simp: ranks_ok_def)
    then show ?thesis using cnt [of j r] by simp
  qed
  have "dp_rank_command_queues dp' = ?q'" by (simp add: dp'_def rank_put_def)
  then show "ranks_ok fw dp'" unfolding ranks_ok_def using A B by (simp only:) blast
qed

lemma rank_put_other:
  assumes ok: "dp_ok fw dp" and rk: "ranks_ok fw dp" and k: "k < length fw" and c: "\<not> any_add c"
  shows "dp_ok fw (rank_put k c dp)" and "ranks_ok fw (rank_put k c dp)"
proof -
  let ?q = "dp_rank_command_queues dp" and ?q' = "(dp_rank_command_queues dp)[k := dp_rank_command_queues dp ! k @ [c]]"
  have len: "length ?q = length fw" using ok by (simp add: dp_ok_def Let_def)
  have no: "\<not> is_add r c" for r using c by (auto simp: is_add_def any_add_def split: option.splits)
  have cnt: "add_count r (?q' ! j) = add_count r (?q ! j)"
    "length (filter any_add (?q' ! j)) = length (filter any_add (?q ! j))" if "j < length fw" for r j
    using that k len no c by (auto simp: nth_list_update)
  have tot: "add_count r (concat ?q') = add_count r (concat ?q)" for r
    using filter_concat_snoc [of k ?q "is_add r" c] k len no by simp
  have q': "dp_rank_command_queues (rank_put k c dp) = ?q'" by (simp add: rank_put_def)
  have n: "length fw = nat (data_parallel_size (dp_config dp))" using ok by (simp add: dp_ok_def Let_def)
  show "dp_ok fw (rank_put k c dp)"
    using ok cnt(2) by (simp add: dp_ok_def Let_def del: nth_list_update_eq filter_append)
  have "(k < length fw \<and> 0 < add_count r (?q' ! k)) = (k < length fw \<and> 0 < add_count r (?q ! k))" for k r
    using cnt(1) by metis
  with rk tot show "ranks_ok fw (rank_put k c dp)"
    unfolding ranks_ok_def q' rank_put_sel by metis
qed

lemma dp_handle_ok:
  assumes ok: "dp_ok fw dp" and rk: "ranks_ok fw dp"
  shows "dp_ok fw (dp_handle_command dp c)" and "ranks_ok fw (dp_handle_command dp c)"
    and "add_count r (concat (dp_rank_command_queues (dp_handle_command dp c))) =
      add_count r (concat (dp_rank_command_queues dp)) + (if is_add r c then 1 else 0)"
    and "\<forall>k<length fw. add_count r (dp_rank_command_queues dp ! k) \<le>
      add_count r (dp_rank_command_queues (dp_handle_command dp c) ! k)"
    and "dp_command_queue (dp_handle_command dp c) = dp_command_queue dp"
    and "dp_rank_output_queues (dp_handle_command dp c) = dp_rank_output_queues dp"
proof -
  let ?n = "length fw" and ?q = "dp_rank_command_queues dp"
  have len: "length (dp_rank_command_queues dp) = ?n" using ok by (simp add: dp_ok_def Let_def)
  note add = filter_concat_snoc [of _ "dp_rank_command_queues dp" "is_add r" c, unfolded len]
  consider (put) r0 where "is_add r0 c" "dp_handle_command dp c = rank_put (least_loaded dp) c
        (dp\<lparr>dp_request_ranks := AList.update r0 (least_loaded dp) (dp_request_ranks dp),
         dp_rank_load := (dp_rank_load dp)[least_loaded dp := dp_rank_load dp ! least_loaded dp + 1]\<rparr>)"
    | (abort) k where "\<not> any_add c" "k < ?n" "dp_handle_command dp c = rank_put k c dp"
    | (skip) "\<not> any_add c" "dp_handle_command dp c = dp \<or> dp_handle_command dp c = dp\<lparr>dp_shutdown := True\<rparr>"
  proof (cases "ec_type c")
    case ADD
    then show ?thesis using put skip
      by (cases "ec_request c") (simp_all add: dp_handle_command_def is_add_def any_add_def Let_def)
  next
    case ABORT_CMD
    show ?thesis
    proof (cases "\<exists>q k. ec_request_id c = Some q \<and> map_of (dp_request_ranks dp) q = Some k")
      case True
      then obtain q k where q: "ec_request_id c = Some q" "map_of (dp_request_ranks dp) q = Some k" by blast
      then have "k < ?n" using rk by (simp add: ranks_ok_def)
      moreover have "dp_handle_command dp c = rank_put k c dp"
        using ABORT_CMD q by (simp add: dp_handle_command_def)
      ultimately show ?thesis using abort ABORT_CMD by (simp add: any_add_def)
    next
      case False
      then have "dp_handle_command dp c = dp"
        using ABORT_CMD by (simp add: dp_handle_command_def split: option.split)
      then show ?thesis using skip ABORT_CMD by (simp add: any_add_def)
    qed
  next
    case SHUTDOWN
    then show ?thesis using skip by (simp add: dp_handle_command_def any_add_def)
  qed
  then have "dp_ok fw (dp_handle_command dp c) \<and> ranks_ok fw (dp_handle_command dp c) \<and>
    add_count r (concat (dp_rank_command_queues (dp_handle_command dp c))) =
      add_count r (concat (dp_rank_command_queues dp)) + (if is_add r c then 1 else 0) \<and>
    (\<forall>k<length fw. add_count r (dp_rank_command_queues dp ! k) \<le>
      add_count r (dp_rank_command_queues (dp_handle_command dp c) ! k)) \<and>
    dp_command_queue (dp_handle_command dp c) = dp_command_queue dp \<and>
    dp_rank_output_queues (dp_handle_command dp c) = dp_rank_output_queues dp"
  proof cases
    case (put r0)
    note L = least_loaded_minimal(1) [OF ok]
    note A = dp_add_ok [OF ok rk put(1) L, folded put(2)]
    have "\<forall>k<?n. add_count r (?q ! k) \<le> add_count r (?q[least_loaded dp := ?q ! least_loaded dp @ [c]] ! k)"
      by (intro allI impI filter_snoc_mono)
    then show ?thesis using A add [OF L] by (simp add: put(2))
  next
    case (abort k)
    note A = rank_put_other [OF ok rk abort(2,1), folded abort(3)]
    have "\<not> is_add r c" using abort(1) by (auto simp: is_add_def any_add_def split: option.splits)
    moreover have "\<forall>j<?n. add_count r (?q ! j) \<le> add_count r (?q[k := ?q ! k @ [c]] ! j)"
      by (intro allI impI filter_snoc_mono)
    ultimately show ?thesis using A add [OF abort(2)] by (simp add: abort(3))
  next
    case skip
    have "\<not> is_add r c" using skip(1) by (auto simp: is_add_def any_add_def split: option.splits)
    moreover have "dp_ok fw (dp\<lparr>dp_shutdown := True\<rparr>) = dp_ok fw dp"
      "ranks_ok fw (dp\<lparr>dp_shutdown := True\<rparr>) = ranks_ok fw dp"
      by (simp_all add: dp_ok_def ranks_ok_def)
    ultimately show ?thesis using skip(2) ok rk by (elim disjE) simp_all
  qed
  then show "dp_ok fw (dp_handle_command dp c)" "ranks_ok fw (dp_handle_command dp c)"
    "add_count r (concat (dp_rank_command_queues (dp_handle_command dp c))) =
      add_count r (concat (dp_rank_command_queues dp)) + (if is_add r c then 1 else 0)"
    "\<forall>k<length fw. add_count r (dp_rank_command_queues dp ! k) \<le>
      add_count r (dp_rank_command_queues (dp_handle_command dp c) ! k)"
    "dp_command_queue (dp_handle_command dp c) = dp_command_queue dp"
    "dp_rank_output_queues (dp_handle_command dp c) = dp_rank_output_queues dp" by blast+
qed


lemma forward_frame [simp]:
  "dp_config (forward_output k ev dp) = dp_config dp"
  "dp_command_queue (forward_output k ev dp) = dp_command_queue dp"
  "dp_rank_command_queues (forward_output k ev dp) = dp_rank_command_queues dp"
  "dp_rank_output_queues (forward_output k ev dp) = dp_rank_output_queues dp"
  "dp_output_queue (forward_output k ev dp) = dp_output_queue dp @ [ev]"
  by (simp_all add: forward_output_def Let_def split: out_event.split)

lemma is_final_any: "is_final r ev \<Longrightarrow> any_final ev"
  by (cases ev) auto

lemma forward_ok:
  assumes ok: "dp_ok fw dp" and rk: "ranks_ok fw dp" and k: "k < length fw"
    and hon: "honest (fw[k := fw ! k @ [ev]]) dp"
  shows "dp_ok (fw[k := fw ! k @ [ev]]) (forward_output k ev dp)"
    and "ranks_ok (fw[k := fw ! k @ [ev]]) (forward_output k ev dp)"
proof -
  let ?fw = "fw[k := fw ! k @ [ev]]" and ?q = "dp_rank_command_queues dp"
  have len: "length ?q = length fw" "length (dp_rank_load dp) = length fw"
    using ok by (simp_all add: dp_ok_def Let_def)
  have cnt: "final_count r (?fw ! j) = final_count r (fw ! j) + (if j = k \<and> is_final r ev then 1 else 0)"
    if "j < length fw" for r j using that k by (simp add: nth_list_update)
  have hk: "final_count r (?fw ! k) \<le> add_count r (?q ! k)" for r
    using hon k unfolding honest_def length_list_update by blast
  have "length (filter any_final (?fw ! k)) \<le> length (filter any_add (?q ! k))"
    by (rule finals_le_adds) (rule hk)
  then have room: "any_final ev \<Longrightarrow> length (filter any_final (fw ! k)) < length (filter any_add (?q ! k))"
    using k by simp
  have load: "dp_rank_load (forward_output k ev dp) =
      (dp_rank_load dp)[k := dp_rank_load dp ! k - (if any_final ev then 1 else 0)]"
  proof -
    have "dp_rank_load dp ! k = int (length (filter any_add (?q ! k))) - int (length (filter any_final (fw ! k)))"
      using ok k by (simp add: dp_ok_def Let_def)
    then have "any_final ev \<Longrightarrow> max 0 (dp_rank_load dp ! k - 1) = dp_rank_load dp ! k - 1" using room by simp
    then show ?thesis by (cases ev) (simp_all add: forward_output_def Let_def)
  qed
  show "dp_ok ?fw (forward_output k ev dp)"
    using ok k mset_concat_snoc [OF k, of ev]
    by (auto simp: dp_ok_def Let_def load nth_list_update)
  have ranks: "dp_request_ranks (forward_output k ev dp) =
      (if any_final ev then AList.delete (case ev of EvOutput out \<Rightarrow> ro_request_id out | EvMetrics _ \<Rightarrow> [])
         (dp_request_ranks dp) else dp_request_ranks dp)"
    by (cases ev) (simp_all add: forward_output_def Let_def)
  have del: "map_of (dp_request_ranks (forward_output k ev dp)) r =
      (if is_final r ev then None else map_of (dp_request_ranks dp) r)" for r
    unfolding ranks by (cases ev) (auto simp: delete_conv')
  have keep: "map_of (dp_request_ranks (forward_output k ev dp)) r = Some j"
    if u: "\<forall>r. add_count r (concat ?q) \<le> 1"
      and j: "j < length fw" "0 < add_count r (?q ! j)" "final_count r (?fw ! j) = 0" for r j
  proof -
    have "final_count r (fw ! j) = 0" using j(3) cnt [OF j(1)] by (simp only: add_is_0)
    then have old: "map_of (dp_request_ranks dp) r = Some j"
      using rk u j(1,2) unfolding ranks_ok_def by blast
    have "\<not> is_final r ev"
    proof
      assume f: "is_final r ev"
      then have "0 < add_count r (?q ! k)" using hk [of r] unfolding cnt [OF k]
        by (simp del: length_greater_0_conv)
      moreover have "j \<noteq> k" using j(3) f unfolding cnt [OF j(1)] by auto
      ultimately have "1 < add_count r (concat ?q)"
        using two_of_concat [of j ?q k "is_add r"] j(1,2) k unfolding len by linarith
      then show False using u by (metis not_less)
    qed
    then show ?thesis using old del by simp
  qed
  have "j < length fw \<and> 0 < add_count r (?q ! j)"
    if "map_of (dp_request_ranks (forward_output k ev dp)) r = Some j" for r j
    using that rk unfolding del ranks_ok_def by (simp split: if_splits)
  with keep show "ranks_ok ?fw (forward_output k ev dp)"
    unfolding ranks_ok_def forward_frame length_list_update by blast
qed

lemma honest_prefix:
  assumes "honest (fw[k := fw ! k @ xs @ ys]) dp" and "k < length fw"
  shows "honest (fw[k := fw ! k @ xs]) dp"
  unfolding honest_def
proof (intro allI impI)
  fix j r
  assume "j < length (fw[k := fw ! k @ xs])"
  then have j: "j < length fw" by simp
  have "final_count r (fw[k := fw ! k @ xs @ ys] ! j) \<le> add_count r (dp_rank_command_queues dp ! j)"
    using assms(1) j unfolding honest_def by simp
  moreover have "final_count r (fw[k := fw ! k @ xs] ! j) \<le> final_count r (fw[k := fw ! k @ xs @ ys] ! j)"
    using assms(2) j by (simp add: nth_list_update)
  ultimately show "final_count r (fw[k := fw ! k @ xs] ! j) \<le> add_count r (dp_rank_command_queues dp ! j)"
    by (rule le_trans [rotated])
qed

lemma forward_all_ok:
  assumes "dp_ok fw dp" "ranks_ok fw dp" "k < length fw" "honest (fw[k := fw ! k @ evs]) dp"
  shows "dp_ok (fw[k := fw ! k @ evs]) (fold (forward_output k) evs dp) \<and>
    ranks_ok (fw[k := fw ! k @ evs]) (fold (forward_output k) evs dp) \<and>
    dp_command_queue (fold (forward_output k) evs dp) = dp_command_queue dp \<and>
    dp_rank_command_queues (fold (forward_output k) evs dp) = dp_rank_command_queues dp \<and>
    dp_rank_output_queues (fold (forward_output k) evs dp) = dp_rank_output_queues dp"
  using assms
proof (induction evs arbitrary: fw dp)
  case (Cons ev evs)
  let ?fw = "fw[k := fw ! k @ [ev]]" and ?dp = "forward_output k ev dp"
  have "honest (fw[k := fw ! k @ [ev] @ evs]) dp" using Cons.prems(4) by simp
  from honest_prefix [OF this Cons.prems(3)] have h: "honest ?fw dp" .
  note F = forward_ok [OF Cons.prems(1-3) h]
  have eq: "?fw[k := ?fw ! k @ evs] = fw[k := fw ! k @ ev # evs]" using Cons.prems(3) by simp
  have "honest (?fw[k := ?fw ! k @ evs]) ?dp" using Cons.prems(4) unfolding eq by (simp add: honest_def)
  from Cons.IH [OF F _ this] Cons.prems(3) show ?case unfolding eq by simp
qed simp

text \<open>The coordinator against the record of what the ranks produced.\<close>

definition dp_core :: "out_event list list \<Rightarrow> dp_coordinator \<Rightarrow> bool" where
  "dp_core produced dp \<longleftrightarrow> honest produced dp \<and>
     (\<exists>fw. dp_ok fw dp \<and> ranks_ok fw dp \<and> length produced = length fw \<and>
        (\<forall>k<length fw. produced ! k = fw ! k @ dp_rank_output_queues dp ! k))"

lemma drain_rank_ok:
  assumes core: "dp_core produced dp" and k: "k < length produced"
  shows "dp_core produced (drain_rank k dp) \<and>
    dp_command_queue (drain_rank k dp) = dp_command_queue dp \<and>
    dp_rank_command_queues (drain_rank k dp) = dp_rank_command_queues dp \<and>
    dp_rank_output_queues (drain_rank k dp) = (dp_rank_output_queues dp)[k := []]"
proof -
  from core obtain fw where fw: "dp_ok fw dp" "ranks_ok fw dp" "length produced = length fw"
    "\<forall>j<length fw. produced ! j = fw ! j @ dp_rank_output_queues dp ! j" and hon: "honest produced dp"
    unfolding dp_core_def by blast
  let ?dp = "dp\<lparr>dp_rank_output_queues := (dp_rank_output_queues dp)[k := []]\<rparr>"
  let ?evs = "dp_rank_output_queues dp ! k"
  let ?fw = "fw[k := fw ! k @ ?evs]"
  have len: "length (dp_rank_output_queues dp) = length fw" using fw(1) by (simp add: dp_ok_def Let_def)
  have "dp_ok fw ?dp = dp_ok fw dp" "ranks_ok fw ?dp = ranks_ok fw dp"
    by (simp_all add: dp_ok_def ranks_ok_def)
  then have pre: "dp_ok fw ?dp" "ranks_ok fw ?dp" "k < length fw" using fw(1-3) k by simp_all
  have "honest ?fw ?dp"
    unfolding honest_def
  proof (intro allI impI)
    fix j r
    assume "j < length ?fw"
    then have j: "j < length fw" by simp
    have "final_count r (?fw ! j) \<le> final_count r (produced ! j)"
      using fw(4) j pre(3) by (simp add: nth_list_update)
    also have "\<dots> \<le> add_count r (dp_rank_command_queues dp ! j)"
      using hon j fw(3) unfolding honest_def by metis
    finally show "final_count r (?fw ! j) \<le> add_count r (dp_rank_command_queues ?dp ! j)" by simp
  qed
  note F = forward_all_ok [OF pre this]
  have "\<forall>j<length ?fw. produced ! j = ?fw ! j @ (dp_rank_output_queues dp)[k := []] ! j"
    using fw(4) len pre(3) by (simp add: nth_list_update)
  then have "dp_core produced (drain_rank k dp)"
    unfolding dp_core_def drain_rank_def using F hon fw(3)
    by (intro conjI exI [of _ ?fw]) (simp_all add: honest_def)
  then show ?thesis using F by (simp add: drain_rank_def)
qed

lemma drain_ranks_ok:
  assumes "dp_core produced dp" and "\<forall>k\<in>set ks. k < length produced"
  shows "dp_core produced (fold drain_rank ks dp) \<and>
    dp_command_queue (fold drain_rank ks dp) = dp_command_queue dp \<and>
    dp_rank_command_queues (fold drain_rank ks dp) = dp_rank_command_queues dp"
  using assms
proof (induction ks arbitrary: dp)
  case (Cons k ks)
  then show ?case using drain_rank_ok [OF Cons.prems(1), of k] by simp
qed simp


definition dp_inv :: "dp_state \<Rightarrow> bool" where
  "dp_inv s \<longleftrightarrow> dp_core (ds_produced s) (ds_dp s) \<and>
     (\<forall>r. add_count r (ds_received s) = add_count r (dp_command_queue (ds_dp s)) +
        add_count r (concat (dp_rank_command_queues (ds_dp s))))"

lemma honest_mono:
  assumes "honest produced dp"
    and "\<And>r. \<forall>k<length produced. add_count r (dp_rank_command_queues dp ! k) \<le>
      add_count r (dp_rank_command_queues dp' ! k)"
  shows "honest produced dp'"
  unfolding honest_def
proof (intro allI impI)
  fix k r
  assume k: "k < length produced"
  have "final_count r (produced ! k) \<le> add_count r (dp_rank_command_queues dp ! k)"
    using assms(1) k unfolding honest_def by blast
  also have "\<dots> \<le> add_count r (dp_rank_command_queues dp' ! k)" using assms(2) k by blast
  finally show "final_count r (produced ! k) \<le> add_count r (dp_rank_command_queues dp' ! k)" .
qed

lemma dp_core_handle:
  assumes "dp_core produced dp"
  shows "dp_core produced (dp_handle_command dp c)"
    and "add_count r (concat (dp_rank_command_queues (dp_handle_command dp c))) =
      add_count r (concat (dp_rank_command_queues dp)) + (if is_add r c then 1 else 0)"
    and "dp_command_queue (dp_handle_command dp c) = dp_command_queue dp"
proof -
  from assms obtain fw where fw: "dp_ok fw dp" "ranks_ok fw dp" "length produced = length fw"
    "\<forall>j<length fw. produced ! j = fw ! j @ dp_rank_output_queues dp ! j" and hon: "honest produced dp"
    unfolding dp_core_def by blast
  note H = dp_handle_ok [OF fw(1,2), where c = c]
  have "honest produced (dp_handle_command dp c)"
    by (rule honest_mono [OF hon]) (use H(4) fw(3) in simp)
  then show "dp_core produced (dp_handle_command dp c)"
    unfolding dp_core_def using fw(3,4) H(1,2,6) by (intro conjI exI [of _ fw]) simp_all
  show "add_count r (concat (dp_rank_command_queues (dp_handle_command dp c))) =
      add_count r (concat (dp_rank_command_queues dp)) + (if is_add r c then 1 else 0)"
    and "dp_command_queue (dp_handle_command dp c) = dp_command_queue dp" using H(3,5) by blast+
qed

lemma dp_core_queue: "dp_core produced (dp\<lparr>dp_command_queue := cs\<rparr>) = dp_core produced dp"
  by (simp add: dp_core_def dp_ok_def ranks_ok_def honest_def)

lemma dp_drain_loop_ok:
  assumes "dp_core produced dp"
  shows "dp_core produced (dp_drain_loop cs dp) \<and> dp_command_queue (dp_drain_loop cs dp) = [] \<and>
    (\<forall>r. add_count r (concat (dp_rank_command_queues (dp_drain_loop cs dp))) =
      add_count r (concat (dp_rank_command_queues dp)) + add_count r cs)"
  using assms
proof (induction cs arbitrary: dp)
  case Nil
  then show ?case by (simp add: dp_core_queue)
next
  case (Cons c cs)
  let ?dp = "dp\<lparr>dp_command_queue := cs\<rparr>"
  have core: "dp_core produced ?dp" using Cons.prems by (simp add: dp_core_queue)
  note H = dp_core_handle [OF core, where c = c]
  show ?case using Cons.IH [OF H(1)] H(2) by simp
qed

lemma drain_parent_eq:
  assumes "dp_core produced dp"
  shows "drain_parent_commands dp = (if dp_command_queue dp = [] then dp
    else dp_drain_loop (dp_command_queue dp) dp)"
proof (cases "dp_command_queue dp")
  case (Cons c cs)
  have "dp_core produced (dp\<lparr>dp_command_queue := cs\<rparr>)" using assms by (simp add: dp_core_queue)
  from dp_core_handle(3) [OF this] show ?thesis using Cons by (simp add: drain_parent_commands_def Let_def)
qed (simp add: drain_parent_commands_def)

lemma dp_finally_core:
  assumes "dp_core produced dp"
  shows "dp_core produced (dp_finally dp)"
    and "add_count r (concat (dp_rank_command_queues (dp_finally dp))) =
      add_count r (concat (dp_rank_command_queues dp))"
proof -
  let ?sd = "\<lparr>ec_type = SHUTDOWN, ec_request = None, ec_request_id = None\<rparr> :: engine_command"
  let ?q = "dp_rank_command_queues dp"
  have no: "\<not> is_add r ?sd" "\<not> any_add ?sd" for r by (simp_all add: is_add_def any_add_def)
  have q: "dp_rank_command_queues (dp_finally dp) = map (\<lambda>q. q @ [?sd]) ?q" by (simp add: dp_finally_def)
  have cnt: "add_count r (map (\<lambda>q. q @ [?sd]) ?q ! k) = add_count r (?q ! k)"
    "length (filter any_add (map (\<lambda>q. q @ [?sd]) ?q ! k)) = length (filter any_add (?q ! k))"
    if "k < length ?q" for r k using that no by simp_all
  have tot: "add_count r (concat (map (\<lambda>q. q @ [?sd]) qs)) = add_count r (concat qs)" for r qs
    using no by (induction qs) simp_all
  show "add_count r (concat (dp_rank_command_queues (dp_finally dp))) = add_count r (concat ?q)"
    unfolding q by (rule tot)
  from assms obtain fw where fw: "dp_ok fw dp" "ranks_ok fw dp" "length produced = length fw"
    "\<forall>j<length fw. produced ! j = fw ! j @ dp_rank_output_queues dp ! j" and hon: "honest produced dp"
    unfolding dp_core_def by blast
  have len: "length ?q = length fw" "length fw = nat (data_parallel_size (dp_config dp))"
    using fw(1) by (simp_all add: dp_ok_def Let_def)
  have "dp_ok fw (dp_finally dp)"
    using fw(1) cnt(2) len unfolding dp_ok_def Let_def q by (simp add: dp_finally_def)
  moreover have "ranks_ok fw (dp_finally dp)"
  proof -
    have "dp_request_ranks (dp_finally dp) = dp_request_ranks dp" by (simp add: dp_finally_def)
    moreover have "(k < length fw \<and> 0 < add_count r (map (\<lambda>q. q @ [?sd]) ?q ! k)) =
        (k < length fw \<and> 0 < add_count r (?q ! k))" for k r using cnt(1) len(1) by metis
    ultimately show ?thesis using fw(2) tot unfolding ranks_ok_def q by metis
  qed
  moreover have "honest produced (dp_finally dp)"
    by (rule honest_mono [OF hon]) (use cnt(1) len(1) fw(3) in \<open>simp add: q\<close>)
  ultimately show "dp_core produced (dp_finally dp)"
    unfolding dp_core_def using fw(3,4) by (intro conjI exI [of _ fw]) (simp_all add: dp_finally_def)
qed

lemma dp_turn_ok:
  assumes "dp_core produced dp"
  shows "dp_core produced (fst (dp_turn (dp, ph)))"
    and "add_count r (dp_command_queue (fst (dp_turn (dp, ph)))) +
        add_count r (concat (dp_rank_command_queues (fst (dp_turn (dp, ph))))) =
      add_count r (dp_command_queue dp) + add_count r (concat (dp_rank_command_queues dp))"
proof -
  let ?dp1 = "drain_parent_commands dp"
  have one: "dp_core produced ?dp1" "add_count r (dp_command_queue ?dp1) +
      add_count r (concat (dp_rank_command_queues ?dp1)) =
    add_count r (dp_command_queue dp) + add_count r (concat (dp_rank_command_queues dp))"
    using assms dp_drain_loop_ok [OF assms, of "dp_command_queue dp"]
    unfolding drain_parent_eq [OF assms] by simp_all
  have "length (dp_rank_output_queues ?dp1) = length produced"
    using one(1) by (auto simp: dp_core_def dp_ok_def Let_def)
  then have ks: "\<forall>k\<in>set [0..<length (dp_rank_output_queues ?dp1)]. k < length produced" by simp
  note two = drain_ranks_ok [OF one(1) ks, folded drain_rank_outputs_def]
  have fin: "dp_command_queue (dp_finally dp) = dp_command_queue dp" by (simp add: dp_finally_def)
  show "dp_core produced (fst (dp_turn (dp, ph)))"
    using assms two dp_finally_core(1) [OF assms] by (cases ph) simp_all
  show "add_count r (dp_command_queue (fst (dp_turn (dp, ph)))) +
        add_count r (concat (dp_rank_command_queues (fst (dp_turn (dp, ph))))) =
      add_count r (dp_command_queue dp) + add_count r (concat (dp_rank_command_queues dp))"
    using two one(2) dp_finally_core(2) [OF assms, of r] fin by (cases ph) simp_all
qed


lemma honest_produce:
  assumes "honest produced dp" and "k < length produced"
    and "\<forall>r. final_count r (produced ! k @ [ev]) \<le> add_count r (dp_rank_command_queues dp ! k)"
  shows "honest (produced[k := produced ! k @ [ev]]) dp"
  unfolding honest_def
proof (intro allI impI)
  fix j r
  assume "j < length (produced[k := produced ! k @ [ev]])"
  then have j: "j < length produced" by simp
  show "final_count r (produced[k := produced ! k @ [ev]] ! j) \<le> add_count r (dp_rank_command_queues dp ! j)"
  proof (cases "j = k")
    case True
    then show ?thesis using assms(2,3) by (simp only: nth_list_update_eq)
  next
    case False
    then show ?thesis using assms(1) j unfolding honest_def by (metis nth_list_update_neq)
  qed
qed

lemma dp_step_inv:
  assumes inv: "dp_inv s" and ok: "dp_event_ok e s"
  shows "dp_inv (dp_step e s)"
proof (cases e)
  case (DPArrive c)
  then show ?thesis using inv by (simp add: dp_inv_def dp_core_queue)
next
  case (DPProduce k ev)
  let ?dp = "ds_dp s" and ?p = "ds_produced s"
  let ?dp' = "?dp\<lparr>dp_rank_output_queues := (dp_rank_output_queues ?dp)[k := dp_rank_output_queues ?dp ! k @ [ev]]\<rparr>"
  have k: "k < length ?p" using ok DPProduce by simp
  from inv obtain fw where fw: "dp_ok fw ?dp" "ranks_ok fw ?dp" "length ?p = length fw"
    "\<forall>j<length fw. ?p ! j = fw ! j @ dp_rank_output_queues ?dp ! j" and hon: "honest ?p ?dp"
    unfolding dp_inv_def dp_core_def by blast
  have len: "length (dp_rank_output_queues ?dp) = length fw" using fw(1) by (simp add: dp_ok_def Let_def)
  have same: "dp_ok fw ?dp' = dp_ok fw ?dp" "ranks_ok fw ?dp' = ranks_ok fw ?dp"
    "honest P ?dp' = honest P ?dp" for P
    by (simp_all add: dp_ok_def ranks_ok_def honest_def)
  have "honest (?p[k := ?p ! k @ [ev]]) ?dp'"
    unfolding same using honest_produce [OF hon k] ok DPProduce by simp
  moreover have "\<forall>j<length fw. ?p[k := ?p ! k @ [ev]] ! j = fw ! j @ dp_rank_output_queues ?dp' ! j"
    using fw(4) len k fw(3) by (simp add: nth_list_update)
  ultimately have "dp_core (?p[k := ?p ! k @ [ev]]) ?dp'"
    unfolding dp_core_def using fw(1-3) by (intro conjI exI [of _ fw]) (simp_all add: same)
  then show ?thesis using inv DPProduce by (simp add: dp_inv_def)
next
  case DPTurn
  have core: "dp_core (ds_produced s) (ds_dp s)" using inv by (simp add: dp_inv_def)
  show ?thesis using dp_turn_ok [OF core, where ph = "ds_phase s"] inv DPTurn
    by (cases "dp_turn (ds_dp s, ds_phase s)") (simp add: dp_inv_def)
qed

interpretation coordinator: invariant_system dp_step dp_event_ok dp_inv
  by unfold_locales (rule dp_step_inv)

text \<open>The states of a coordinator that starts fresh.\<close>

definition dp_start :: "dp_coordinator \<Rightarrow> dp_state" where
  "dp_start dp = \<lparr>ds_dp = dp, ds_phase = DPRunning, ds_received = [],
     ds_produced = replicate (length (dp_rank_output_queues dp)) []\<rparr>"

definition dp_run :: "dp_coordinator \<Rightarrow> dp_event list \<Rightarrow> dp_state" where
  "dp_run dp es = fold dp_step es (dp_start dp)"

definition dp_run_ok :: "dp_coordinator \<Rightarrow> dp_event list \<Rightarrow> bool" where
  "dp_run_ok dp es \<longleftrightarrow> coordinator.admissible es (dp_start dp)"

lemma dp_start_inv:
  assumes "dp_coordinator_init config = Inr dp" and "valid_config config"
  shows "dp_inv (dp_start dp)"
proof -
  let ?n = "nat (data_parallel_size config)" and ?e = "replicate (nat (data_parallel_size config)) []"
  have n: "0 < ?n" using assms(2) by (simp add: valid_config_def)
  have f: "dp_config dp = config" "dp_command_queue dp = []" "dp_output_queue dp = []"
    "dp_rank_command_queues dp = ?e" "dp_rank_output_queues dp = ?e" "dp_request_ranks dp = []"
    "dp_rank_load dp = replicate ?n 0"
    using assms(1) by (auto simp: dp_coordinator_init_def split: sum.splits)
  have "dp_ok ?e dp" using n by (simp add: dp_ok_def f)
  moreover have "ranks_ok ?e dp" by (simp add: ranks_ok_def f)
  moreover have "honest ?e dp" by (simp add: honest_def f)
  ultimately have "dp_core ?e dp" unfolding dp_core_def by (intro conjI exI [of _ ?e]) (simp_all add: f)
  then show ?thesis by (simp add: dp_inv_def dp_start_def f)
qed

lemma dp_run_inv:
  assumes "dp_coordinator_init config = Inr dp" "valid_config config" "dp_run_ok dp es"
  shows "dp_inv (dp_run dp es)"
  using coordinator.fold_inv [OF dp_start_inv [OF assms(1,2)]] assms(3)
  by (simp add: dp_run_def dp_run_ok_def)

lemma dp_invE:
  assumes "dp_inv s"
  obtains fw where "dp_ok fw (ds_dp s)" "ranks_ok fw (ds_dp s)" "length (ds_produced s) = length fw"
    "\<forall>k<length fw. ds_produced s ! k = fw ! k @ dp_rank_output_queues (ds_dp s) ! k"
    "honest (ds_produced s) (ds_dp s)"
  using assms unfolding dp_inv_def dp_core_def by blast

section \<open>What the coordinator guarantees\<close>



text \<open>Two ranks; a request is sent to the first, then one to the second, then the first answers.\<close>

definition duo_config :: engine_config where
  "duo_config = tiny_config\<lparr>data_parallel_size := 2\<rparr>"

definition duo :: dp_coordinator where
  "duo = (case dp_coordinator_init duo_config of Inr dp \<Rightarrow> dp)"

lemma duo_init: "dp_coordinator_init duo_config = Inr duo" "valid_config duo_config"
proof -
  have "case dp_coordinator_init duo_config of Inl e \<Rightarrow> False | Inr dp \<Rightarrow> True" by code_simp
  then show "dp_coordinator_init duo_config = Inr duo" by (auto simp: duo_def split: sum.splits)
  show "valid_config duo_config"
    using tiny_config_valid by (simp add: valid_config_def duo_config_def)
qed

definition answer :: "string \<Rightarrow> out_event" where
  "answer r = EvOutput (final_output r STOP None)"

definition duo_events :: "dp_event list" where
  "duo_events = [DPArrive (add_command ''a'' [10]), DPArrive (add_command ''b'' [10]), DPTurn,
     DPProduce 0 (answer ''a''), DPTurn]"

lemma duo_run_ok: "dp_run_ok duo duo_events"
proof -
  let ?q = "dp_rank_command_queues (ds_dp (dp_run duo (take 3 duo_events)))"
  have "map (map (\<lambda>c. map_option er_request_id (ec_request c))) ?q = [[Some ''a''], [Some ''b'']] \<and>
      length (ds_produced (dp_run duo (take 3 duo_events))) = 2 \<and>
      map length (ds_produced (dp_run duo (take 3 duo_events))) = [0, 0] \<and>
      map (map ec_type) ?q = [[ADD], [ADD]]" by code_simp
  moreover from this obtain c0 c1 where "?q = [[c0], [c1]]"
    by (auto simp: map_eq_Cons_conv)
  ultimately have "final_count r (ds_produced (dp_run duo (take 3 duo_events)) ! 0 @ [answer ''a'']) \<le> add_count r (?q ! 0)"
    "0 < length (ds_produced (dp_run duo (take 3 duo_events)))" for r
    by (auto simp: answer_def final_output_def is_add_def map_eq_Cons_conv)
  then show ?thesis
    by (simp add: dp_run_ok_def duo_events_def dp_run_def)
qed


text \<open>
  C30. The load counters are exact.  In every run \<open>rank_load[k]\<close> is the number of add commands
  put on rank \<open>k\<close>'s queue minus the final outputs forwarded from it, so it is never negative:
  the \<open>max(0, ...)\<close> of the code never has to correct it.
\<close>

theorem dp_load_is_outstanding:
  assumes "dp_coordinator_init config = Inr dp0" and "valid_config config" and "dp_run_ok dp0 es"
    and "dp_run dp0 es = s" and "k < nat (data_parallel_size (dp_config (ds_dp s)))"
  shows "\<exists>forwarded. ds_produced s ! k = forwarded @ dp_rank_output_queues (ds_dp s) ! k \<and>
    dp_rank_load (ds_dp s) ! k =
      int (length (filter any_add (dp_rank_command_queues (ds_dp s) ! k))) -
      int (length (filter any_final forwarded)) \<and> 0 \<le> dp_rank_load (ds_dp s) ! k"
proof -
  have "dp_inv s" using dp_run_inv [OF assms(1-3)] assms(4) by simp
  then obtain fw where fw: "dp_ok fw (ds_dp s)" "length (ds_produced s) = length fw"
    "\<forall>k<length fw. ds_produced s ! k = fw ! k @ dp_rank_output_queues (ds_dp s) ! k"
    "honest (ds_produced s) (ds_dp s)" by (rule dp_invE)
  have k: "k < length fw" using fw(1) assms(5) by (simp add: dp_ok_def Let_def)
  have load: "dp_rank_load (ds_dp s) ! k =
      int (length (filter any_add (dp_rank_command_queues (ds_dp s) ! k))) -
      int (length (filter any_final (fw ! k)))" using fw(1) assms(5) by (simp add: dp_ok_def Let_def)
  have "length (filter any_final (fw ! k)) \<le> length (filter any_add (dp_rank_command_queues (ds_dp s) ! k))"
  proof (rule finals_le_adds)
    fix r
    have "final_count r (fw ! k) \<le> final_count r (ds_produced s ! k)" using fw(3) k by simp
    also have "\<dots> \<le> add_count r (dp_rank_command_queues (ds_dp s) ! k)"
      using fw(4) k fw(2) unfolding honest_def by metis
    finally show "final_count r (fw ! k) \<le> add_count r (dp_rank_command_queues (ds_dp s) ! k)" .
  qed
  then show ?thesis using load fw(3) k by auto
qed

theorem dp_load_is_outstanding_witness:
  "0 \<le> dp_rank_load (ds_dp (dp_run duo duo_events)) ! 1"
proof -
  have "1 < nat (data_parallel_size (dp_config (ds_dp (dp_run duo duo_events))))" by code_simp
  from dp_load_is_outstanding [OF duo_init duo_run_ok refl this] show ?thesis by blast
qed

text \<open>
  An add command goes to a least loaded rank.  In every reachable state the command of a
  request is put on the queue of one rank, and no rank has a smaller load (that is,
  fewer outstanding requests); the other queues stay as they are, and the rank is
  remembered for the request.
\<close>

theorem dp_add_least_loaded:
  assumes "dp_coordinator_init config = Inr dp0" and "valid_config config" and "dp_run_ok dp0 es"
    and "ds_dp (dp_run dp0 es) = dp" and "ec_type c = ADD" and "ec_request c = Some q"
  shows "\<exists>k<nat (data_parallel_size (dp_config dp)).
    (\<forall>j<nat (data_parallel_size (dp_config dp)). dp_rank_load dp ! k \<le> dp_rank_load dp ! j) \<and>
    dp_rank_command_queues (dp_handle_command dp c) =
      (dp_rank_command_queues dp)[k := dp_rank_command_queues dp ! k @ [c]] \<and>
    dp_rank_load (dp_handle_command dp c) = (dp_rank_load dp)[k := dp_rank_load dp ! k + 1] \<and>
    map_of (dp_request_ranks (dp_handle_command dp c)) (er_request_id q) = Some k"
proof -
  have "dp_inv (dp_run dp0 es)" by (rule dp_run_inv [OF assms(1-3)])
  then obtain fw where fw: "dp_ok fw dp" using assms(4) by (metis dp_invE)
  then have n: "length fw = nat (data_parallel_size (dp_config dp))" by (simp add: dp_ok_def Let_def)
  show ?thesis
    using least_loaded_minimal [OF fw] assms(5,6) unfolding n
    by (intro exI [of _ "least_loaded dp"]) (simp add: dp_handle_command_def Let_def update_conv')
qed

theorem dp_add_least_loaded_witness:
  "\<exists>k<2. dp_rank_command_queues (dp_handle_command (ds_dp (dp_run duo duo_events)) (add_command ''c'' [10])) =
     (dp_rank_command_queues (ds_dp (dp_run duo duo_events)))[k :=
        dp_rank_command_queues (ds_dp (dp_run duo duo_events)) ! k @ [add_command ''c'' [10]]]"
proof -
  have "nat (data_parallel_size (dp_config (ds_dp (dp_run duo duo_events)))) = 2" by code_simp
  moreover have "ec_type (add_command ''c'' [10]) = ADD"
    "ec_request (add_command ''c'' [10]) = Some (tiny_request ''c'' [10])" by (simp_all add: add_command_def)
  ultimately show ?thesis using dp_add_least_loaded [OF duo_init duo_run_ok refl] by metis
qed

text \<open>
  C31. An abort reaches the rank that works on the request, as long as ids are not reused: if every
  id was added at most once, the add command of \<open>r\<close> was put on rank \<open>k\<close>'s queue, and no final
  output for it was forwarded yet, then an abort for \<open>r\<close> is put on rank \<open>k\<close>'s queue, behind the
  add command, and on no other.
\<close>

theorem dp_abort_reaches_owner:
  assumes "dp_coordinator_init config = Inr dp0" and "valid_config config" and "dp_run_ok dp0 es"
    and "dp_run dp0 es = s" and "\<forall>r. add_count r (ds_received s) \<le> 1"
    and "k < nat (data_parallel_size (dp_config (ds_dp s)))"
    and "0 < add_count r (dp_rank_command_queues (ds_dp s) ! k)"
    and "ds_produced s ! k = forwarded @ dp_rank_output_queues (ds_dp s) ! k" and "final_count r forwarded = 0"
    and "ec_type c = ABORT_CMD" and "ec_request_id c = Some r"
  shows "dp_rank_command_queues (dp_handle_command (ds_dp s) c) =
    (dp_rank_command_queues (ds_dp s))[k := dp_rank_command_queues (ds_dp s) ! k @ [c]]"
proof -
  have inv: "dp_inv s" using dp_run_inv [OF assms(1-3)] assms(4) by simp
  then obtain fw where fw: "dp_ok fw (ds_dp s)" "ranks_ok fw (ds_dp s)"
    "\<forall>k<length fw. ds_produced s ! k = fw ! k @ dp_rank_output_queues (ds_dp s) ! k" by (rule dp_invE)
  have k: "k < length fw" using fw(1) assms(6) by (simp add: dp_ok_def Let_def)
  have "\<forall>r. add_count r (concat (dp_rank_command_queues (ds_dp s))) \<le> 1"
    using inv assms(5) unfolding dp_inv_def by (metis add_leD2)
  moreover have "fw ! k = forwarded" using fw(3) k assms(8) by simp
  ultimately have "map_of (dp_request_ranks (ds_dp s)) r = Some k"
    using fw(2) k assms(7,9) unfolding ranks_ok_def by blast
  then show ?thesis using assms(10,11) by (simp add: dp_handle_command_def)
qed

definition abort_command :: "string \<Rightarrow> engine_command" where
  "abort_command r = \<lparr>ec_type = ABORT_CMD, ec_request = None, ec_request_id = Some r\<rparr>"

theorem dp_abort_reaches_owner_witness:
  "dp_rank_command_queues (dp_handle_command (ds_dp (dp_run duo duo_events)) (abort_command ''b'')) ! 1 =
     dp_rank_command_queues (ds_dp (dp_run duo duo_events)) ! 1 @ [abort_command ''b'']"
proof -
  let ?s = "dp_run duo duo_events"
  have e: "1 < nat (data_parallel_size (dp_config (ds_dp ?s))) \<and>
      0 < add_count ''b'' (dp_rank_command_queues (ds_dp ?s) ! 1) \<and>
      length (ds_produced ?s ! 1) = 0 \<and> length (dp_rank_output_queues (ds_dp ?s) ! 1) = 0 \<and>
      length (dp_rank_command_queues (ds_dp ?s)) = 2" by code_simp
  have "ds_received ?s = [add_command ''a'' [10], add_command ''b'' [10]]"
    by (simp add: dp_run_def duo_events_def dp_start_def split: prod.split)
  then have "\<forall>r. add_count r (ds_received ?s) \<le> 1"
    by (auto simp: is_add_def add_command_def tiny_request_def)
  from dp_abort_reaches_owner [OF duo_init duo_run_ok refl this, of 1 "''b''" "[]" "abort_command ''b''"] e
  show ?thesis by (simp add: abort_command_def)
qed


definition reuse_events :: "dp_event list" where
  "reuse_events = [DPArrive (add_command ''a'' [10]), DPTurn,
     DPArrive (abort_command ''a''), DPArrive (add_command ''a'' [10]), DPTurn,
     DPProduce 0 (EvOutput (final_output ''a'' ABORT None)), DPTurn,
     DPArrive (abort_command ''a''), DPTurn]"


end
