(* ===== verification/Attention.thy ===== *)
theory Attention
  imports Rounds
begin

text \<open>
  \<open>minivllm/model_executor/attention.py\<close>: the metadata tensors of a batch, the PyTorch attention backend,
  the CUDA backend with the three kernels of \<open>runtime/torch_attention_cuda.cu\<close> it launches, and the
  choice between them.  PyTorch's numerics are a parameter: \<open>attend\<close> is the attention of one query vector
  over a list of (key, value) pairs, and vectors are an arbitrary type.  What is modelled is the
  indexing: slots, block tables, masks, head groups, in-place writes to the caches, and every error.

  Both backends are shown to meet one contract, the locale \<open>paged_backend\<close>: attention through block
  tables over a shared paged cache is causal attention over each request's own contiguous sequence.
  The PyTorch backend meets it here, the kernels in \<open>Attention_Kernels\<close>.
\<close>

section \<open>Tensors\<close>

text \<open>\<open>torch.tensor(values, dtype=torch.int32)\<close> and \<open>torch.long\<close>: a value outside the range raises.\<close>

definition int_tensor :: "nat \<Rightarrow> int list \<Rightarrow> exn + int list" where
  "int_tensor w xs =
     (if list_all (\<lambda>x. - (2 ^ (w - 1)) \<le> x \<and> x < 2 ^ (w - 1)) xs then Inr xs
      else Inl (RuntimeError ''value cannot be converted without overflow''))"

text \<open>A nested list must be rectangular.\<close>

definition int_matrix :: "nat \<Rightarrow> int list list \<Rightarrow> exn + int list list" where
  "int_matrix w rows =
     (if \<not> list_all (\<lambda>row. length row = length (rows ! 0)) rows
      then Inl (ValueError ''expected sequence of equal length'')
      else case int_tensor w (concat rows) of Inl e \<Rightarrow> Inl e | Inr _ \<Rightarrow> Inr rows)"

text \<open>A tensor of shape \<open>(tokens, heads, head_dim)\<close>: its last two dimensions and its rows, each a list
  of \<open>heads\<close> vectors.\<close>

record 'e tensor3 =
  t3_heads :: nat
  t3_dim :: nat
  t3_rows :: "'e list list"

text \<open>\<open>values[mask]\<close> for a boolean mask over the first dimension.\<close>

definition mask_select :: "bool list \<Rightarrow> 'a list \<Rightarrow> exn + 'a list" where
  "mask_select keep xs =
     (if length keep \<noteq> length xs then Inl IndexError
      else Inr (map snd (filter fst (zip keep xs))))"

text \<open>\<open>cache.index_copy_(0, slots, rows)\<close>: the rows are written one after the other, each index is
  checked, negative ones are refused.\<close>

fun index_copy :: "'a list \<Rightarrow> (int \<times> 'a) list \<Rightarrow> (exn + unit) \<times> 'a list" where
  "index_copy cache [] = (Inr (), cache)"
| "index_copy cache ((slot, row) # rest) =
     (if 0 \<le> slot \<and> slot < int (length cache) then index_copy (cache[nat slot := row]) rest
      else (Inl IndexError, cache))"

text \<open>\<open>values[indices]\<close> for an integer tensor of indices, negative ones counted from the end.\<close>

fun tensor_gather :: "'a list \<Rightarrow> int list \<Rightarrow> exn + 'a list" where
  "tensor_gather xs [] = Inr []"
| "tensor_gather xs (i # is) =
     (case py_get xs i of Inl e \<Rightarrow> Inl e
      | Inr x \<Rightarrow> (case tensor_gather xs is of Inl e \<Rightarrow> Inl e | Inr ys \<Rightarrow> Inr (x # ys)))"

text \<open>\<open>transpose(0, 1)\<close> of a matrix with \<open>n\<close> columns.\<close>

definition transpose01 :: "nat \<Rightarrow> 'a list list \<Rightarrow> 'a list list" where
  "transpose01 n rows = map (\<lambda>h. map (\<lambda>row. row ! h) rows) [0..<n]"

definition repeat_interleave :: "nat \<Rightarrow> 'a list \<Rightarrow> 'a list" where
  "repeat_interleave n xs = concat (map (replicate n) xs)"

section \<open>AttentionMetadata\<close>

record attention_metadata =
  md_positions :: "int list"
  md_slot_mapping :: "int list"
  md_query_start_loc :: "nat list"
  md_seq_lens :: "int list"
  md_block_tables :: "int list list"
  md_request_indices :: "int list"
  md_is_decode :: "bool list"
  md_active_mask :: "bool list"
  md_block_size :: int

fun request_index_loop :: "nat list \<Rightarrow> nat list \<Rightarrow> exn + int list" where
  "request_index_loop locs [] = Inr []"
| "request_index_loop locs (request # rest) =
     (case py_get locs (int request + 1) of Inl e \<Rightarrow> Inl e
      | Inr stop \<Rightarrow>
     (case py_get locs (int request) of Inl e \<Rightarrow> Inl e
      | Inr start \<Rightarrow>
     (case request_index_loop locs rest of Inl e \<Rightarrow> Inl e
      | Inr is \<Rightarrow> Inr (replicate (stop - start) (int request) @ is))))"

definition table_width :: "gpu_input_batch \<Rightarrow> int option \<Rightarrow> exn + int" where
  "table_width b max_blocks =
     (case py_get (block_tables b) 0 of Inl e \<Rightarrow> Inl e
      | Inr table0 \<Rightarrow>
          let width = (case max_blocks of None \<Rightarrow> int (length table0)
                       | Some n \<Rightarrow> if n = 0 then int (length table0) else n)
          in if width < int (length table0)
             then Inl (ValueError ''block table exceeds configured metadata width'')
             else Inr width)"

definition metadata_from_batch :: "gpu_input_batch \<Rightarrow> int \<Rightarrow> int option \<Rightarrow> exn + attention_metadata" where
  "metadata_from_batch b bsize max_blocks =
     (case table_width b max_blocks of Inl e \<Rightarrow> Inl e
      | Inr width \<Rightarrow>
     (let padded_tables = map (\<lambda>table. table @ replicate (nat (width - int (length table))) (- 1))
                            (block_tables b)
      in case request_index_loop (query_start_loc b) [0..<num_requests b] of Inl e \<Rightarrow> Inl e
      | Inr request_indices \<Rightarrow>
     (case int_tensor 32 (positions b) of Inl e \<Rightarrow> Inl e
      | Inr positions_t \<Rightarrow>
     (case int_tensor 32 (slot_mapping b) of Inl e \<Rightarrow> Inl e
      | Inr slot_mapping_t \<Rightarrow>
     (case int_tensor 32 (map int (query_start_loc b)) of Inl e \<Rightarrow> Inl e
      | Inr _ \<Rightarrow>
     (case int_tensor 32 (seq_lens b) of Inl e \<Rightarrow> Inl e
      | Inr seq_lens_t \<Rightarrow>
     (case int_matrix 32 padded_tables of Inl e \<Rightarrow> Inl e
      | Inr block_tables_t \<Rightarrow>
     (case int_tensor 32 request_indices of Inl e \<Rightarrow> Inl e
      | Inr request_indices_t \<Rightarrow>
          Inr \<lparr>md_positions = positions_t, md_slot_mapping = slot_mapping_t,
               md_query_start_loc = query_start_loc b, md_seq_lens = seq_lens_t,
               md_block_tables = block_tables_t, md_request_indices = request_indices_t,
               md_is_decode = is_decode b, md_active_mask = replicate (num_tokens b) True,
               md_block_size = bsize\<rparr>))))))))"

section \<open>TorchAttentionBackend\<close>

text \<open>
  \<open>F.scaled_dot_product_attention\<close> with a boolean mask, on \<open>(heads, tokens)\<close> matrices of vectors:
  \<open>attend\<close> gives the result for one query vector and the (key, value) pairs its mask row admits.
\<close>

type_synonym 'e attend = "'e \<Rightarrow> ('e \<times> 'e) list \<Rightarrow> 'e"

definition sdpa :: "'e attend \<Rightarrow> 'e list list \<Rightarrow> 'e list list \<Rightarrow> 'e list list \<Rightarrow> bool list list \<Rightarrow> 'e list list" where
  "sdpa attend q k v attn_mask =
     map (\<lambda>h. map2 (\<lambda>x admits. attend x (map snd (filter fst (zip admits (zip (k ! h) (v ! h)))))) (q ! h) attn_mask)
       [0..<length q]"

text \<open>The slots of all positions of a request.\<close>

definition table_slots :: "int list \<Rightarrow> int \<Rightarrow> int \<Rightarrow> exn + int list" where
  "table_slots table seq_len bsize =
     (if seq_len < 0 then Inl (RuntimeError ''upper bound and lower bound inconsistent with step sign'')
      else if bsize = 0 \<and> seq_len \<noteq> 0 then Inl (RuntimeError ''ZeroDivisionError'')
      else let ps = [0..seq_len - 1]
           in case tensor_gather table (map (\<lambda>p. p div bsize) ps) of Inl e \<Rightarrow> Inl e
              | Inr blocks \<Rightarrow> Inr (map2 (\<lambda>block p. block * bsize + p mod bsize) blocks ps))"

definition attend_request ::
    "'e attend \<Rightarrow> nat \<Rightarrow> 'e tensor3 \<Rightarrow> 'e list list \<Rightarrow> 'e list list \<Rightarrow> attention_metadata \<Rightarrow>
       nat \<Rightarrow> nat \<Rightarrow> nat \<Rightarrow> 'e list list \<Rightarrow> exn + 'e list list" where
  "attend_request attend groups query kc vc md request query_start query_end outputs =
     (case py_get (md_seq_lens md) (int request) of Inl e \<Rightarrow> Inl e
      | Inr seq_len \<Rightarrow>
     (case py_get (md_block_tables md) (int request) of Inl e \<Rightarrow> Inl e
      | Inr block_table \<Rightarrow>
     (case table_slots block_table seq_len (md_block_size md) of Inl e \<Rightarrow> Inl e
      | Inr slots \<Rightarrow>
     (case tensor_gather kc slots of Inl e \<Rightarrow> Inl e
      | Inr keys \<Rightarrow>
     (case tensor_gather vc slots of Inl e \<Rightarrow> Inl e
      | Inr vals \<Rightarrow>
          let request_key = (if groups > 1 then map (repeat_interleave groups) keys else keys);
              request_value = (if groups > 1 then map (repeat_interleave groups) vals else vals);
              heads = t3_heads query;
              request_query = slice (t3_rows query) query_start query_end;
              causal_mask = map (\<lambda>query_position. map (\<lambda>p. p \<le> query_position) [0..seq_len - 1])
                              (slice (md_positions md) query_start query_end);
              result = sdpa attend (transpose01 heads request_query) (transpose01 heads request_key)
                         (transpose01 heads request_value) causal_mask
          in Inr (take query_start outputs @ transpose01 (length request_query) result @
                  drop query_end outputs))))))"

fun forward_loop ::
    "'e attend \<Rightarrow> nat \<Rightarrow> 'e tensor3 \<Rightarrow> 'e list list \<Rightarrow> 'e list list \<Rightarrow> attention_metadata \<Rightarrow>
       nat list \<Rightarrow> 'e list list \<Rightarrow> exn + 'e list list" where
  "forward_loop attend groups query kc vc md [] outputs = Inr outputs"
| "forward_loop attend groups query kc vc md (request # rest) outputs =
     (case py_get (md_query_start_loc md) (int request) of Inl e \<Rightarrow> Inl e
      | Inr query_start \<Rightarrow>
     (case py_get (md_query_start_loc md) (int request + 1) of Inl e \<Rightarrow> Inl e
      | Inr query_end \<Rightarrow>
        if query_start = query_end \<or> \<not> list_ex id (slice (md_active_mask md) query_start query_end)
        then forward_loop attend groups query kc vc md rest outputs
        else (case attend_request attend groups query kc vc md request query_start query_end outputs of
                Inl e \<Rightarrow> Inl e
              | Inr outputs' \<Rightarrow> forward_loop attend groups query kc vc md rest outputs')))"

text \<open>The two caches of a layer; they are written in place.\<close>

type_synonym 'e kv_caches = "'e list list \<times> 'e list list"

definition torch_forward ::
    "'e attend \<Rightarrow> ('e \<Rightarrow> 'e) \<Rightarrow> 'e tensor3 \<Rightarrow> 'e tensor3 \<Rightarrow> 'e tensor3 \<Rightarrow> attention_metadata \<Rightarrow> 'e kv_caches \<Rightarrow>
       (exn + 'e list list) \<times> 'e kv_caches" where
  "torch_forward attend zeros query key val md caches =
     (case caches of (kc, vc) \<Rightarrow>
     (case mask_select (md_active_mask md) (md_slot_mapping md) of Inl e \<Rightarrow> (Inl e, kc, vc)
      | Inr active_slots \<Rightarrow>
     (case mask_select (md_active_mask md) (t3_rows key) of Inl e \<Rightarrow> (Inl e, kc, vc)
      | Inr active_keys \<Rightarrow>
     (case index_copy kc (zip active_slots active_keys) of (Inl e, kc1) \<Rightarrow> (Inl e, kc1, vc)
      | (Inr _, kc1) \<Rightarrow>
     (case mask_select (md_active_mask md) (t3_rows val) of Inl e \<Rightarrow> (Inl e, kc1, vc)
      | Inr active_values \<Rightarrow>
     (case index_copy vc (zip active_slots active_values) of (Inl e, vc1) \<Rightarrow> (Inl e, kc1, vc1)
      | (Inr _, vc1) \<Rightarrow>
        if t3_heads key = 0 then (Inl ZeroDivisionError, kc1, vc1)
        else if t3_heads query mod t3_heads key \<noteq> 0
        then (Inl (ValueError ''attention heads must be divisible by KV heads''), kc1, vc1)
        else (forward_loop attend (t3_heads query div t3_heads key) query kc1 vc1 md
                [0..<length (md_seq_lens md)]
                (map (map zeros) (t3_rows query)), kc1, vc1)))))))"


section \<open>CudaAttentionBackend\<close>

text \<open>
  The extension module built from \<open>runtime/torch_attention_cuda.cu\<close>, one kernel launch per function; a
  kernel writes each row of its output once, so the order of its threads does not matter.
  \<open>online_paged_attention\<close> computes the same function of the query vector and the (key, value) pairs
  as \<open>scaled_dot_product_attention\<close>, here \<open>attend\<close>.  An access outside an array stops the device.
\<close>

definition mem_read :: "'a list \<Rightarrow> int \<Rightarrow> exn + 'a" where
  "mem_read xs i =
     (if 0 \<le> i \<and> i < int (length xs) then Inr (xs ! nat i)
      else Inl (RuntimeError ''CUDA error: an illegal memory access was encountered''))"

fun append_kv_kernel :: "(bool \<times> int \<times> 'e list \<times> 'e list) list \<Rightarrow> 'e kv_caches \<Rightarrow> (exn + unit) \<times> 'e kv_caches" where
  "append_kv_kernel [] caches = (Inr (), caches)"
| "append_kv_kernel ((active, slot, key_row, value_row) # rest) (kc, vc) =
     (if \<not> active then append_kv_kernel rest (kc, vc)
      else if 0 \<le> slot \<and> slot < int (length kc) \<and> slot < int (length vc)
      then append_kv_kernel rest (kc[nat slot := key_row], vc[nat slot := value_row])
      else (Inl (RuntimeError ''CUDA error: an illegal memory access was encountered''), kc, vc))"

text \<open>The cached rows of the first positions of a request.\<close>

fun paged_context :: "'e kv_caches \<Rightarrow> int list \<Rightarrow> int \<Rightarrow> int list \<Rightarrow> exn + ('e list \<times> 'e list) list" where
  "paged_context caches table bsize [] = Inr []"
| "paged_context caches table bsize (token # rest) =
     (case mem_read table (token div bsize) of Inl e \<Rightarrow> Inl e
      | Inr physical_block \<Rightarrow>
        let slot = physical_block * bsize + token mod bsize
        in (case mem_read (fst caches) slot of Inl e \<Rightarrow> Inl e
            | Inr key_row \<Rightarrow>
           (case mem_read (snd caches) slot of Inl e \<Rightarrow> Inl e
            | Inr value_row \<Rightarrow>
           (case paged_context caches table bsize rest of Inl e \<Rightarrow> Inl e
            | Inr rows \<Rightarrow> Inr ((key_row, value_row) # rows)))))"

definition online_paged_attention ::
    "'e attend \<Rightarrow> nat \<Rightarrow> nat \<Rightarrow> 'e kv_caches \<Rightarrow> int list \<Rightarrow> int \<Rightarrow> int \<Rightarrow> 'e list \<Rightarrow> exn + 'e list" where
  "online_paged_attention attend query_heads groups caches table context_len bsize query_row =
     (case paged_context caches table bsize [0..context_len - 1] of Inl e \<Rightarrow> Inl e
      | Inr rows \<Rightarrow>
          Inr (map (\<lambda>query_head. attend (query_row ! query_head)
                      (map (\<lambda>(k, v). (k ! (query_head div groups), v ! (query_head div groups))) rows))
                 [0..<query_heads]))"

text \<open>The arrays a kernel reads for one token or request, and the row it then writes.\<close>

fun flash_prefill_kernel ::
    "'e attend \<Rightarrow> nat \<Rightarrow> 'e tensor3 \<Rightarrow> 'e kv_caches \<Rightarrow> attention_metadata \<Rightarrow> nat list \<Rightarrow> 'e list list \<Rightarrow> exn + 'e list list" where
  "flash_prefill_kernel attend groups query caches md [] outputs = Inr outputs"
| "flash_prefill_kernel attend groups query caches md (token # rest) outputs =
     (case mem_read (md_active_mask md) (int token) of Inl e \<Rightarrow> Inl e
      | Inr False \<Rightarrow> flash_prefill_kernel attend groups query caches md rest outputs
      | Inr True \<Rightarrow>
     (case mem_read (md_request_indices md) (int token) of Inl e \<Rightarrow> Inl e
      | Inr request \<Rightarrow>
     (case mem_read (md_is_decode md) request of Inl e \<Rightarrow> Inl e
      | Inr True \<Rightarrow> flash_prefill_kernel attend groups query caches md rest outputs
      | Inr False \<Rightarrow>
     (case mem_read (md_block_tables md) request of Inl e \<Rightarrow> Inl e
      | Inr table \<Rightarrow>
     (case mem_read (md_positions md) (int token) of Inl e \<Rightarrow> Inl e
      | Inr position \<Rightarrow>
     (case online_paged_attention attend (t3_heads query) groups caches table (position + 1) (md_block_size md)
             (t3_rows query ! token) of Inl e \<Rightarrow> Inl e
      | Inr row \<Rightarrow> flash_prefill_kernel attend groups query caches md rest (outputs[token := row])))))))"

fun paged_decode_kernel ::
    "'e attend \<Rightarrow> nat \<Rightarrow> 'e tensor3 \<Rightarrow> 'e kv_caches \<Rightarrow> attention_metadata \<Rightarrow> nat list \<Rightarrow> 'e list list \<Rightarrow> exn + 'e list list" where
  "paged_decode_kernel attend groups query caches md [] outputs = Inr outputs"
| "paged_decode_kernel attend groups query caches md (request # rest) outputs =
     (case mem_read (md_is_decode md) (int request) of Inl e \<Rightarrow> Inl e
      | Inr False \<Rightarrow> paged_decode_kernel attend groups query caches md rest outputs
      | Inr True \<Rightarrow>
     (case mem_read (md_query_start_loc md) (int request) of Inl e \<Rightarrow> Inl e
      | Inr query_index \<Rightarrow>
     (case mem_read (md_active_mask md) (int query_index) of Inl e \<Rightarrow> Inl e
      | Inr False \<Rightarrow> paged_decode_kernel attend groups query caches md rest outputs
      | Inr True \<Rightarrow>
     (case mem_read (md_block_tables md) (int request) of Inl e \<Rightarrow> Inl e
      | Inr table \<Rightarrow>
     (case mem_read (md_seq_lens md) (int request) of Inl e \<Rightarrow> Inl e
      | Inr seq_len \<Rightarrow>
     (case online_paged_attention attend (t3_heads query) groups caches table seq_len (md_block_size md)
             (t3_rows query ! query_index) of Inl e \<Rightarrow> Inl e
      | Inr row \<Rightarrow> paged_decode_kernel attend groups query caches md rest (outputs[query_index := row])))))))"

text \<open>\<open>check_common\<close>; devices, types and layouts agree because the runner makes all tensors alike.\<close>

definition check_common :: "'e tensor3 \<Rightarrow> nat \<Rightarrow> exn + unit" where
  "check_common query kv_heads =
     (if t3_dim query > 256 then Inl (RuntimeError ''head_dim must be <= 256'')
      else if kv_heads = 0 then Inl ZeroDivisionError
      else if t3_heads query mod kv_heads \<noteq> 0 then Inl (RuntimeError ''invalid GQA ratio'')
      else Inr ())"

definition cuda_forward ::
    "'e attend \<Rightarrow> ('e \<Rightarrow> 'e) \<Rightarrow> 'e tensor3 \<Rightarrow> 'e tensor3 \<Rightarrow> 'e tensor3 \<Rightarrow> attention_metadata \<Rightarrow> 'e kv_caches \<Rightarrow>
       (exn + 'e list list) \<times> 'e kv_caches" where
  "cuda_forward attend zeros query key val md caches =
     (case append_kv_kernel
             (zip (md_active_mask md) (zip (md_slot_mapping md) (zip (t3_rows key) (t3_rows val)))) caches of
        (Inl e, caches1) \<Rightarrow> (Inl e, caches1)
      | (Inr _, caches1) \<Rightarrow>
     (case check_common query (t3_heads key) of Inl e \<Rightarrow> (Inl e, caches1)
      | Inr _ \<Rightarrow>
        let groups = t3_heads query div t3_heads key; outputs = map (map zeros) (t3_rows query)
        in (case flash_prefill_kernel attend groups query caches1 md [0..<length (t3_rows query)] outputs of
              Inl e \<Rightarrow> (Inl e, caches1)
            | Inr outputs1 \<Rightarrow>
                (paged_decode_kernel attend groups query caches1 md [0..<length (md_seq_lens md)] outputs1,
                 caches1))))"

section \<open>Choosing a backend\<close>

datatype attention_backend = TorchAttention | CudaAttention

definition graph_safe :: "attention_backend \<Rightarrow> bool" where
  "graph_safe backend = (case backend of TorchAttention \<Rightarrow> False | CudaAttention \<Rightarrow> True)"

text \<open>Whether CUDA is available, and what building the extension gives.\<close>

definition cuda_attention_init :: "bool \<Rightarrow> exn + unit \<Rightarrow> exn + attention_backend" where
  "cuda_attention_init cuda_available load_extension =
     (if \<not> cuda_available then Inl (RuntimeError ''custom attention backend requires CUDA PyTorch'')
      else case load_extension of Inl e \<Rightarrow> Inl e | Inr _ \<Rightarrow> Inr CudaAttention)"

definition create_attention_backend ::
    "bool \<Rightarrow> exn + unit \<Rightarrow> string \<Rightarrow> string \<Rightarrow> exn + attention_backend" where
  "create_attention_backend cuda_available load_extension name device_type =
     (if name = ''torch'' then Inr TorchAttention
      else if name = ''custom'' then cuda_attention_init cuda_available load_extension
      else if name = ''auto'' then
        (if device_type = ''cuda'' then cuda_attention_init cuda_available load_extension
         else Inr TorchAttention)
      else Inl (ValueError (''unsupported attention backend: '' @ name)))"

definition backend_forward ::
    "attention_backend \<Rightarrow> 'e attend \<Rightarrow> ('e \<Rightarrow> 'e) \<Rightarrow> 'e tensor3 \<Rightarrow> 'e tensor3 \<Rightarrow> 'e tensor3 \<Rightarrow>
       attention_metadata \<Rightarrow> 'e kv_caches \<Rightarrow> (exn + 'e list list) \<times> 'e kv_caches" where
  "backend_forward backend =
     (case backend of TorchAttention \<Rightarrow> torch_forward | CudaAttention \<Rightarrow> cuda_forward)"

section \<open>Facts on the tensor operations\<close>

lemma mask_select_all [simp]: "length xs = n \<Longrightarrow> mask_select (replicate n True) xs = Inr xs"
proof -
  have "map snd (filter fst (zip (replicate (length xs) True) xs)) = xs" by (induction xs) simp_all
  then show "length xs = n \<Longrightarrow> mask_select (replicate n True) xs = Inr xs" by (auto simp: mask_select_def)
qed

lemma index_copy_length: "length (snd (index_copy cache ps)) = length cache"
  by (induction cache ps rule: index_copy.induct) simp_all

lemma index_copy_ok:
  assumes "\<forall>p\<in>set ps. 0 \<le> fst p \<and> fst p < int (length cache)"
  shows "fst (index_copy cache ps) = Inr ()"
  using assms by (induction cache ps rule: index_copy.induct) simp_all

lemma index_copy_other:
  "int i \<notin> fst ` set ps \<Longrightarrow> snd (index_copy cache ps) ! i = cache ! i"
proof (induction cache ps rule: index_copy.induct)
  case (2 cache slot row rest)
  then have "nat slot \<noteq> i" if "0 \<le> slot" using that by auto
  then show ?case using 2 by auto
qed simp

lemma index_copy_written:
  assumes "\<forall>p\<in>set ps. 0 \<le> fst p \<and> fst p < int (length cache)" and "distinct (map fst ps)"
    and "(int i, row) \<in> set ps"
  shows "snd (index_copy cache ps) ! i = row"
  using assms
proof (induction cache ps rule: index_copy.induct)
  case (2 cache slot x rest)
  have r: "0 \<le> slot \<and> slot < int (length cache)" using 2(2) by simp
  show ?case
  proof (cases "(int i, row) = (slot, x)")
    case True
    then have "int i \<notin> fst ` set rest" using 2(3) by auto
    then show ?thesis using index_copy_other [of i rest "cache[nat slot := x]"] True r by auto
  next
    case False
    then have "(int i, row) \<in> set rest" using 2(4) by auto
    then show ?thesis using 2(1) 2(2,3) r by simp
  qed
qed simp

lemma tensor_gather_nth:
  "\<forall>i\<in>set is. 0 \<le> i \<and> i < int (length xs) \<Longrightarrow> tensor_gather xs is = Inr (map (\<lambda>i. xs ! nat i) is)"
  by (induction xs "is" rule: tensor_gather.induct) (simp_all add: py_get_nonneg)

lemma length_transpose01 [simp]: "length (transpose01 n rows) = n"
  by (simp add: transpose01_def)

lemma repeat_interleave_nth:
  "h < n * length xs \<Longrightarrow> repeat_interleave n xs ! h = xs ! (h div n)"
proof (induction xs arbitrary: h)
  case (Cons x xs)
  then have n: "0 < n" by (cases n) auto
  show ?case
  proof (cases "h < n")
    case True
    then show ?thesis by (simp add: repeat_interleave_def nth_append)
  next
    case False
    then have "h div n = Suc ((h - n) div n)" using n by (simp add: le_div_geq)
    moreover have "h - n < n * length xs" using Cons.prems False by auto
    ultimately show ?thesis using Cons.IH [of "h - n"] False by (simp add: repeat_interleave_def nth_append)
  qed
qed simp

text \<open>The rows of the causal mask admit the positions up to the query's own.\<close>

lemma causal_select:
  assumes "q < length xs"
  shows "map snd (filter fst (zip (map (\<lambda>p. p \<le> int q) [0..int (length xs) - 1]) xs)) = take (Suc q) xs"
  using assms
proof (induction xs rule: rev_induct)
  case (snoc x xs)
  have up: "[0..int (length xs)] = [0..int (length xs) - 1] @ [int (length xs)]"
    by (rule upto_rec2) simp
  have len: "length [0..int (length xs) - 1] = length xs" by simp
  show ?case
  proof (cases "q < length xs")
    case True
    then show ?thesis using snoc.IH by (simp add: up len)
  next
    case False
    then have q: "q = length xs" using snoc.prems by simp
    have "map snd (filter fst (zip (map (\<lambda>p. p \<le> int q) [0..int (length xs) - 1]) xs)) = xs"
    proof -
      have "map (\<lambda>p. p \<le> int q) [0..int (length xs) - 1] = replicate (length xs) True"
        by (rule nth_equalityI) (auto simp: q)
      then show ?thesis using mask_select_all [of xs "length xs"] by (simp add: mask_select_def)
    qed
    then show ?thesis by (simp add: up len q)
  qed
qed simp

section \<open>Attention over contiguous sequences\<close>

text \<open>
  The reference: the query row of position \<open>p\<close> attends, head by head, to the keys and values of the
  positions up to \<open>p\<close>; \<open>groups\<close> query heads share one key head.
\<close>

definition causal_row ::
    "'e attend \<Rightarrow> nat \<Rightarrow> nat \<Rightarrow> (nat \<Rightarrow> 'e list) \<Rightarrow> (nat \<Rightarrow> 'e list) \<Rightarrow> 'e list \<Rightarrow> nat \<Rightarrow> 'e list" where
  "causal_row attend heads groups K V q p =
     map (\<lambda>h. attend (q ! h) (map (\<lambda>j. (K j ! (h div groups), V j ! (h div groups))) [0..<Suc p])) [0..<heads]"

lemma causal_row_cong:
  assumes "\<And>j. j \<le> p \<Longrightarrow> K j = K' j \<and> V j = V' j"
  shows "causal_row attend heads groups K V q p = causal_row attend heads groups K' V' q p"
  unfolding causal_row_def using assms by (auto simp: less_Suc_eq_le intro!: map_cong arg_cong2 [where f = attend])

text \<open>One request's attention: the rows of the positions \<open>s \<dots> s + length qs - 1\<close>.\<close>

lemma sdpa_causal:
  assumes kv: "length keys = n" "length vals = n" and n: "s + length qs \<le> n"
    and heads: "heads = groups * kh" "0 < groups"
    and rows: "\<forall>row\<in>set keys. length row = kh" "\<forall>row\<in>set vals. length row = kh"
    and grp: "keys' = (if groups > 1 then map (repeat_interleave groups) keys else keys)"
      "vals' = (if groups > 1 then map (repeat_interleave groups) vals else vals)"
  shows "transpose01 (length qs) (sdpa attend (transpose01 heads qs) (transpose01 heads keys') (transpose01 heads vals')
      (map (\<lambda>qp. map (\<lambda>p. p \<le> qp) [0..int n - 1]) (map int [s..<s + length qs]))) =
    map (\<lambda>i. causal_row attend heads groups (\<lambda>j. keys ! j) (\<lambda>j. vals ! j) (qs ! i) (s + i)) [0..<length qs]"
    (is "transpose01 _ (sdpa _ ?q ?k ?v ?m) = ?R")
proof -
  have pick: "rows' ! j ! h = rows ! j ! (h div groups)"
    if "rows' = (if groups > 1 then map (repeat_interleave groups) rows else rows)"
      "\<forall>row\<in>set rows. length row = kh" "j < length rows" "h < heads" for rows rows' :: "'a list list" and j h
  proof (cases "groups > 1")
    case True
    then show ?thesis using that heads by (simp add: repeat_interleave_nth)
  next
    case False
    then have "groups = 1" using heads(2) by simp
    then show ?thesis using that by simp
  qed
  have cell: "(map2 (\<lambda>x admits. attend x (map snd (filter fst (zip admits (zip (?k ! h) (?v ! h)))))) (?q ! h) ?m) ! i =
      attend (qs ! i ! h) (map (\<lambda>j. (keys ! j ! (h div groups), vals ! j ! (h div groups))) [0..<Suc (s + i)])"
    if h: "h < heads" and i: "i < length qs" for h i
  proof -
    let ?pairs = "zip (?k ! h) (?v ! h)"
    have len': "length keys' = n" "length vals' = n" using grp kv by simp_all
    then have len: "length ?pairs = n" using h by (simp add: transpose01_def)
    have nth: "?pairs ! j = (keys ! j ! (h div groups), vals ! j ! (h div groups))" if "j < n" for j
      using that h kv len' pick [OF grp(1) rows(1), of j h] pick [OF grp(2) rows(2), of j h]
      by (simp add: transpose01_def)
    have "s + i < length ?pairs" using len i n by linarith
    from causal_select [OF this] have
      "map snd (filter fst (zip (map (\<lambda>p. p \<le> int (s + i)) [0..int n - 1]) ?pairs)) = take (Suc (s + i)) ?pairs"
      unfolding len .
    also have "\<dots> = map (\<lambda>j. (keys ! j ! (h div groups), vals ! j ! (h div groups))) [0..<Suc (s + i)]"
      using len i n nth by (intro nth_equalityI) (simp_all del: upt_Suc)
    finally show ?thesis using h i by (simp add: transpose01_def)
  qed
  define am where "am = ?m"
  show ?thesis
    using cell unfolding am_def [symmetric]
    by (intro nth_equalityI) (simp_all add: sdpa_def transpose01_def [of "length qs"] causal_row_def del: upt_Suc)
qed

section \<open>Items as segments of contiguous sequences\<close>

definition item_start :: "worker_item \<Rightarrow> nat" where
  "item_start it = nat (wi_start_pos it)"

definition item_stop :: "worker_item \<Rightarrow> nat" where
  "item_stop it = nat (wi_seq_len it)"

definition item_slot :: "nat \<Rightarrow> worker_item \<Rightarrow> nat \<Rightarrow> nat" where
  "item_slot b it = slot_of b (map nat (wi_block_table it))"

text \<open>The slots of an item are those of its block table, in a cache of \<open>n\<close> slots.\<close>

definition seg_ok :: "nat \<Rightarrow> nat \<Rightarrow> worker_item \<Rightarrow> bool" where
  "seg_ok b n it \<longleftrightarrow> item_valid (int b) it \<and> (\<forall>x\<in>set (wi_block_table it). 0 \<le> x) \<and>
     wi_slot_mapping it = map (\<lambda>p. int (item_slot b it p)) [item_start it..<item_stop it] \<and>
     (\<forall>p<item_stop it. item_slot b it p < n)"

text \<open>No token of one item is written to a slot another item, or an earlier token, uses.\<close>

definition separate :: "nat \<Rightarrow> worker_item list \<Rightarrow> bool" where
  "separate b its \<longleftrightarrow> (\<forall>it\<in>set its. \<forall>it'\<in>set its. \<forall>p<item_stop it. \<forall>q\<in>{item_start it'..<item_stop it'}.
     item_slot b it p = item_slot b it' q \<longrightarrow> it = it' \<and> p = q)"

lemma separateD:
  "separate b its \<Longrightarrow> it \<in> set its \<Longrightarrow> it' \<in> set its \<Longrightarrow> p < item_stop it \<Longrightarrow> item_start it' \<le> q \<Longrightarrow>
     q < item_stop it' \<Longrightarrow> item_slot b it p = item_slot b it' q \<Longrightarrow> it = it' \<and> p = q"
  unfolding separate_def by simp

text \<open>The rows of the scheduled tokens of all items.\<close>

definition flat_rows :: "(worker_item \<Rightarrow> nat \<Rightarrow> 'r) \<Rightarrow> worker_item list \<Rightarrow> 'r list" where
  "flat_rows f its = concat (map (\<lambda>it. map (f it) [item_start it..<item_stop it]) its)"

lemma seg_okD:
  assumes "seg_ok b n it"
  shows "wi_seq_len it = int (item_stop it)" and "wi_start_pos it = int (item_start it)"
    and "item_start it < item_stop it" and "length (wi_token_ids it) = item_stop it - item_start it"
    and "item_positions it = map int [item_start it..<item_stop it]"
proof -
  have v: "wi_token_ids it \<noteq> []" "0 \<le> wi_start_pos it"
    "wi_seq_len it = wi_start_pos it + int (length (wi_token_ids it))"
    using assms by (simp_all add: seg_ok_def item_valid_def)
  then have l: "0 < length (wi_token_ids it)" by simp
  show "wi_seq_len it = int (item_stop it)" "wi_start_pos it = int (item_start it)"
    using v l by (simp_all add: item_stop_def item_start_def del: length_greater_0_conv)
  show "item_start it < item_stop it" "length (wi_token_ids it) = item_stop it - item_start it"
    using v l by (simp_all add: item_stop_def item_start_def del: length_greater_0_conv)
  show "item_positions it = map int [item_start it..<item_stop it]"
    using v l by (intro nth_equalityI)
      (simp_all add: item_positions_def item_stop_def item_start_def del: length_greater_0_conv)
qed

lemma length_flat_rows:
  "\<forall>it\<in>set its. seg_ok b n it \<Longrightarrow> length (flat_rows f its) = length (concat (map wi_token_ids its))"
  using seg_okD(4) [of b n] by (induction its) (simp_all add: flat_rows_def)

lemma flat_rows_map: "map g (flat_rows f its) = flat_rows (\<lambda>it p. g (f it p)) its"
  by (simp add: flat_rows_def map_concat comp_def)

lemma flat_rows_cong:
  "(\<And>it p. it \<in> set its \<Longrightarrow> item_start it \<le> p \<Longrightarrow> p < item_stop it \<Longrightarrow> f it p = g it p) \<Longrightarrow>
     flat_rows f its = flat_rows g its"
  unfolding flat_rows_def by (intro arg_cong [where f = concat] map_cong refl) auto

lemma flat_rows_zip: "zip (flat_rows f its) (flat_rows g its) = flat_rows (\<lambda>it p. (f it p, g it p)) its"
  unfolding flat_rows_def by (subst zip_concat) (simp_all add: zip_map_map, simp add: zip_same_conv_map comp_def)

lemma set_flat_rows: "set (flat_rows f its) = {f it p | it p. it \<in> set its \<and> item_start it \<le> p \<and> p < item_stop it}"
  unfolding flat_rows_def by (auto, blast)

lemma flat_slot_mapping:
  "\<forall>it\<in>set its. seg_ok b n it \<Longrightarrow> concat (map wi_slot_mapping its) = flat_rows (\<lambda>it p. int (item_slot b it p)) its"
  unfolding flat_rows_def by (intro arg_cong [where f = concat] map_cong refl) (simp add: seg_ok_def)

section \<open>The metadata of a batch\<close>

definition md_for :: "nat \<Rightarrow> worker_item list \<Rightarrow> attention_metadata \<Rightarrow> bool" where
  "md_for b its md \<longleftrightarrow>
     md_positions md = concat (map item_positions its) \<and>
     md_slot_mapping md = concat (map wi_slot_mapping its) \<and>
     md_query_start_loc md = offsets (length \<circ> wi_token_ids) its \<and>
     md_seq_lens md = map wi_seq_len its \<and>
     md_active_mask md = replicate (length (concat (map wi_token_ids its))) True \<and>
     md_request_indices md = concat (map (\<lambda>k. replicate (length (wi_token_ids (its ! k))) (int k)) [0..<length its]) \<and>
     md_is_decode md = map decode_item its \<and>
     md_block_size md = int b \<and> length (md_block_tables md) = length its \<and>
     (\<forall>k<length its. \<exists>pad. md_block_tables md ! k =
        take (nat (required_blocks (int b) (its ! k))) (wi_block_table (its ! k)) @ pad)"

lemma int_tensor_same: "int_tensor w xs = Inr ys \<Longrightarrow> ys = xs"
  by (simp add: int_tensor_def split: if_splits)

lemma int_matrix_same: "int_matrix w xs = Inr ys \<Longrightarrow> ys = xs"
  by (auto simp: int_matrix_def split: if_splits sum.splits)

lemma request_index_loop_offsets:
  assumes "\<forall>k\<in>set ks. k < length xs"
  shows "request_index_loop (offsets f xs) ks = Inr (concat (map (\<lambda>k. replicate (f (xs ! k)) (int k)) ks))"
  using assms
proof (induction ks)
  case (Cons k ks)
  have k: "k < length xs" using Cons.prems by simp
  then have "py_get (offsets f xs) (int k) = Inr (offsets f xs ! k)"
    "py_get (offsets f xs) (int k + 1) = Inr (offsets f xs ! Suc k)"
    using py_get_nonneg [of "int k + 1" "offsets f xs"] by (simp_all add: py_get_nonneg nat_add_distrib)
  then show ?case using Cons offsets_step [OF k, of f] by simp
qed simp

lemma metadata_from_batch_for:
  assumes gb: "from_worker_batch wb (int b) = Inr gb" and md: "metadata_from_batch gb (int b) mb = Inr md"
  shows "md_for b (wb_items wb) md"
proof -
  from gb have f: "gb = padded_form (int b) (wb_batch_id wb) (wb_items wb)" by (auto elim: from_worker_batchE)
  from md obtain w where w: "table_width gb mb = Inr w" by (auto simp: metadata_from_batch_def split: sum.splits)
  have ri: "request_index_loop (query_start_loc gb) [0..<num_requests gb] =
      Inr (concat (map (\<lambda>k. replicate (length (wi_token_ids (wb_items wb ! k))) (int k)) [0..<length (wb_items wb)]))"
    using request_index_loop_offsets [of "[0..<length (wb_items wb)]" "wb_items wb" "length \<circ> wi_token_ids"]
    by (simp add: f padded_form_def Let_def flat_form_def num_requests_def)
  from md w ri have
    "md_request_indices md = concat (map (\<lambda>k. replicate (length (wi_token_ids (wb_items wb ! k))) (int k)) [0..<length (wb_items wb)])"
    "md_is_decode md = is_decode gb"
    "md_positions md = positions gb" "md_slot_mapping md = slot_mapping gb"
    "md_query_start_loc md = query_start_loc gb" "md_seq_lens md = seq_lens gb"
    "md_active_mask md = replicate (num_tokens gb) True" "md_block_size md = int b"
    "md_block_tables md = map (\<lambda>table. table @ replicate (nat (w - int (length table))) (- 1)) (block_tables gb)"
    by (auto simp: metadata_from_batch_def Let_def split: sum.splits dest!: int_tensor_same int_matrix_same)
  then show ?thesis
    by (simp add: md_for_def f padded_form_def Let_def flat_form_def num_tokens_def pad_tables_def)
qed

text \<open>The slots a request attends to are those of its block table.\<close>

lemma table_cell:
  assumes seg: "seg_ok b n it" and b: "0 < b" and p: "p < item_stop it"
    and table: "table = take (nat (required_blocks (int b) it)) (wi_block_table it) @ pad"
  shows "p div b < length table" and "table ! (p div b) * int b + int (p mod b) = int (item_slot b it p)"
proof -
  have v: "required_blocks (int b) it \<le> int (length (wi_block_table it))" "\<forall>x\<in>set (wi_block_table it). 0 \<le> x"
    using seg by (simp_all add: seg_ok_def item_valid_def)
  have rb: "required_blocks (int b) it = int (ceil_div (item_stop it) b)"
    by (rule required_blocks_nat [OF b seg_okD(1) [OF seg]])
  have idx: "p div b < ceil_div (item_stop it) b" by (rule div_less_ceil_div [OF b p])
  then show "p div b < length table" using v(1) by (simp add: table rb)
  have "table ! (p div b) = int (map nat (wi_block_table it) ! (p div b))"
    using idx v by (simp add: table rb nth_append)
  then show "table ! (p div b) * int b + int (p mod b) = int (item_slot b it p)"
    by (simp add: item_slot_def slot_of_def)
qed

lemma table_slots_item:
  assumes seg: "seg_ok b n it" and b: "0 < b"
    and table: "table = take (nat (required_blocks (int b) it)) (wi_block_table it) @ pad"
  shows "table_slots table (wi_seq_len it) (int b) = Inr (map (\<lambda>p. int (item_slot b it p)) [0..<item_stop it])"
proof -
  note C = table_cell [OF seg b _ table]
  have "tensor_gather table (map (\<lambda>p. p div int b) (map int [0..<item_stop it])) =
      Inr (map (\<lambda>i. table ! nat i) (map (\<lambda>p. p div int b) (map int [0..<item_stop it])))"
    by (rule tensor_gather_nth) (use C(1) in \<open>auto simp flip: zdiv_int\<close>)
  moreover have "map2 (\<lambda>block p. block * int b + p mod int b)
      (map (\<lambda>i. table ! nat i) (map (\<lambda>p. p div int b) (map int [0..<item_stop it]))) (map int [0..<item_stop it]) =
    map (\<lambda>p. int (item_slot b it p)) [0..<item_stop it]"
    by (rule nth_equalityI) (use C(2) in \<open>simp_all flip: zdiv_int zmod_int\<close>)
  ultimately show ?thesis using b by (simp add: table_slots_def seg_okD(1) [OF seg] upto_int Let_def del: map_map)
qed

section \<open>Paged attention is contiguous attention\<close>

lemma attend_request_item:
  assumes md: "md_for b its md" and k: "k < length its" and segs: "\<forall>it\<in>set its. seg_ok b n it" and b: "0 < b"
    and len: "length kc = n" "length vc = n"
    and kv: "\<And>p. p < item_stop (its ! k) \<Longrightarrow> kc ! item_slot b (its ! k) p = K p \<and> length (K p) = kh \<and>
      vc ! item_slot b (its ! k) p = V p \<and> length (V p) = kh"
    and heads: "t3_heads query = groups * kh" "0 < groups"
    and loc: "qs = offsets (length \<circ> wi_token_ids) its ! k" "qe = offsets (length \<circ> wi_token_ids) its ! Suc k"
    and q: "slice (t3_rows query) qs qe = map Q [item_start (its ! k)..<item_stop (its ! k)]"
  shows "attend_request attend groups query kc vc md k qs qe outputs =
    Inr (take qs outputs @
      map (\<lambda>p. causal_row attend (t3_heads query) groups K V (Q p) p) [item_start (its ! k)..<item_stop (its ! k)] @
      drop qe outputs)"
proof -
  let ?it = "its ! k"
  let ?s = "item_start ?it" and ?t = "item_stop ?it"
  have seg: "seg_ok b n ?it" using segs k by simp
  note S = seg_okD [OF seg]
  have f: "md_positions md = concat (map item_positions its)" "md_seq_lens md = map wi_seq_len its"
    "md_block_size md = int b" "length (md_block_tables md) = length its"
    using md by (simp_all add: md_for_def)
  from md k obtain pad where
    tab: "md_block_tables md ! k = take (nat (required_blocks (int b) ?it)) (wi_block_table ?it) @ pad"
    unfolding md_for_def by blast
  let ?slots = "map (\<lambda>p. int (item_slot b ?it p)) [0..<?t]"
  have slots: "table_slots (md_block_tables md ! k) (int ?t) (int b) = Inr ?slots"
    using table_slots_item [OF seg b tab] S(1) by simp
  have range: "\<forall>i\<in>set ?slots. 0 \<le> i \<and> i < int n" using seg by (auto simp: seg_ok_def)
  have gk: "tensor_gather kc ?slots = Inr (map K [0..<?t])"
    using tensor_gather_nth [of ?slots kc] range len(1) kv by simp
  have gv: "tensor_gather vc ?slots = Inr (map V [0..<?t])"
    using tensor_gather_nth [of ?slots vc] range len(2) kv by simp
  have pos: "slice (md_positions md) qs qe = map int [?s..<?t]"
  proof -
    have "slice (concat (map item_positions its)) qs qe = item_positions ?it"
      unfolding loc
      by (rule slice_concat [OF k]) (use segs seg_okD(4,5) in fastforce)
    then show ?thesis using S(5) by (simp add: f(1))
  qed
  let ?g = "\<lambda>xs :: 'a list list. if groups > 1 then map (repeat_interleave groups) xs else xs"
  have sd: "transpose01 (length (map Q [?s..<?t])) (sdpa attend (transpose01 (t3_heads query) (map Q [?s..<?t]))
      (transpose01 (t3_heads query) (?g (map K [0..<?t]))) (transpose01 (t3_heads query) (?g (map V [0..<?t])))
      (map (\<lambda>qp. map (\<lambda>p. p \<le> qp) [0..int ?t - 1]) (map int [?s..<?s + length (map Q [?s..<?t])]))) =
    map (\<lambda>i. causal_row attend (t3_heads query) groups (\<lambda>j. map K [0..<?t] ! j) (\<lambda>j. map V [0..<?t] ! j)
      (map Q [?s..<?t] ! i) (?s + i)) [0..<length (map Q [?s..<?t])]"
    by (rule sdpa_causal) (use S(3) heads kv in auto)
  have rows: "\<dots> = map (\<lambda>p. causal_row attend (t3_heads query) groups K V (Q p) p) [?s..<?t]"
    by (rule nth_equalityI) (use S(3) in \<open>auto intro!: causal_row_cong\<close>)
  have st: "?s + length (map Q [?s..<?t]) = ?t" using S(3) by simp
  show ?thesis
    unfolding attend_request_def Let_def f(3) pos q
    using k f(4) slots gk gv sd rows st S(1)
    by (simp add: py_get_nonneg f(2) del: map_map)
qed


lemma offsets_last: "offsets f its ! length its = sum_list (map f its)"
  by (simp add: nth_offsets)

lemma offsets_le: "k \<le> length its \<Longrightarrow> offsets f its ! k \<le> sum_list (map f its)"
  using sum_list_append [of "map f (take k its)" "map f (drop k its)"]
  by (simp add: nth_offsets flip: map_append)

lemma forward_loop_items:
  assumes md: "md_for b its md" and segs: "\<forall>it\<in>set its. seg_ok b n it" and b: "0 < b"
    and len: "length kc = n" "length vc = n"
    and kv: "\<And>it p. it \<in> set its \<Longrightarrow> p < item_stop it \<Longrightarrow> kc ! item_slot b it p = K it p \<and> length (K it p) = kh \<and>
      vc ! item_slot b it p = V it p \<and> length (V it p) = kh"
    and heads: "t3_heads query = groups * kh" "0 < groups" and q: "t3_rows query = flat_rows Q its"
    and R: "R = flat_rows (\<lambda>it p. causal_row attend (t3_heads query) groups (K it) (V it) (Q it p) p) its"
    and "length outputs = length R" and "k \<le> length its"
    and "take (offsets (length \<circ> wi_token_ids) its ! k) outputs = take (offsets (length \<circ> wi_token_ids) its ! k) R"
  shows "forward_loop attend groups query kc vc md [k..<length its] outputs = Inr R"
  using assms(11-)
proof (induction "length its - k" arbitrary: k outputs)
  case 0
  let ?f = "length \<circ> wi_token_ids"
  have k: "k = length its" using 0 by simp
  have "length R = length (concat (map wi_token_ids its))" unfolding R by (rule length_flat_rows [OF segs])
  then have "offsets ?f its ! k = length R" by (simp add: k offsets_last length_concat comp_def)
  then show ?case using 0 k by (simp add: comp_def)
next
  case (Suc j)
  let ?f = "length \<circ> wi_token_ids"
  let ?qs = "offsets ?f its ! k" and ?qe = "offsets ?f its ! Suc k"
  let ?it = "its ! k"
  let ?rows = "map (\<lambda>p. causal_row attend (t3_heads query) groups (K ?it) (V ?it) (Q ?it p) p) [item_start ?it..<item_stop ?it]"
  have k: "k < length its" "?it \<in> set its" using Suc.hyps(2) by simp_all
  note S = seg_okD [OF bspec [OF segs k(2)]]
  have cnt: "?f it = item_stop it - item_start it" if "it \<in> set its" for it
    using that segs seg_okD(4) by fastforce
  have step: "?qe = ?qs + (item_stop ?it - item_start ?it)" using offsets_step [OF k(1), of ?f] cnt [OF k(2)] by simp
  have sl: "slice (flat_rows F its) ?qs ?qe = map (F ?it) [item_start ?it..<item_stop ?it]" for F :: "worker_item \<Rightarrow> nat \<Rightarrow> 'r"
    unfolding flat_rows_def by (rule slice_concat [OF k(1)]) (use cnt in simp)
  have tot: "length R = length (concat (map wi_token_ids its))" unfolding R by (rule length_flat_rows [OF segs])
  have le: "?qe \<le> length R" using offsets_le [of "Suc k" its ?f] k(1) by (simp add: tot length_concat comp_def)
  have "slice (md_active_mask md) ?qs ?qe = replicate (?qe - ?qs) True"
    using md le step by (simp add: md_for_def slice_def tot)
  then have active: "list_ex id (slice (md_active_mask md) ?qs ?qe)" using step S(3) by (simp add: list_ex_iff)
  let ?out = "take ?qs outputs @ ?rows @ drop ?qe outputs"
  have tk: "take ?qe R = take ?qs R @ ?rows"
    using sl [of "\<lambda>it p. causal_row attend (t3_heads query) groups (K it) (V it) (Q it p) p"] step
    by (simp add: R slice_def take_add)
  have at: "attend_request attend groups query kc vc md k ?qs ?qe outputs = Inr ?out"
    by (rule attend_request_item [OF md k(1) segs b len _ heads refl refl])
      (use kv k(2) sl [of Q] q in auto)
  have lq: "length (take ?qs outputs) = ?qs" "length ?rows = ?qe - ?qs" using Suc.prems(1) le step by simp_all
  have "length ?out = length R" using lq Suc.prems(1) le step by simp
  moreover have "take ?qe ?out = take ?qe R" unfolding tk using lq Suc.prems(3) step by simp
  ultimately have IH: "forward_loop attend groups query kc vc md [Suc k..<length its] ?out = Inr R"
    using Suc.hyps(2) k(1) by (intro Suc.hyps(1)) simp_all
  have up: "[k..<length its] = k # [Suc k..<length its]" using k(1) by (rule upt_conv_Cons)
  have loc: "md_query_start_loc md = offsets ?f its" using md by (simp add: md_for_def)
  have "py_get (offsets ?f its) (int k) = Inr ?qs" "py_get (offsets ?f its) (int k + 1) = Inr ?qe"
    using k(1) py_get_nonneg [of "int k + 1" "offsets ?f its"] by (simp_all add: py_get_nonneg nat_add_distrib)
  moreover have "?qs \<noteq> ?qe" using step S(3) by simp
  ultimately show ?case using active at IH by (simp add: up loc)
qed

text \<open>The written cache: new rows at the slots of the scheduled tokens, everything else unchanged.\<close>

lemma index_copy_items:
  assumes segs: "\<forall>it\<in>set its. seg_ok b n it" and sep: "separate b its" and dist: "distinct its"
    and len: "length cache = n"
    and old: "\<And>it p. it \<in> set its \<Longrightarrow> p < item_start it \<Longrightarrow> cache ! item_slot b it p = K it p"
  obtains cache' where
    "index_copy cache (zip (flat_rows (\<lambda>it p. int (item_slot b it p)) its) (flat_rows K its)) = (Inr (), cache')"
    and "length cache' = n"
    and "\<And>it p. it \<in> set its \<Longrightarrow> p < item_stop it \<Longrightarrow> cache' ! item_slot b it p = K it p"
    and "\<And>s. (\<forall>it\<in>set its. \<forall>p\<in>{item_start it..<item_stop it}. item_slot b it p \<noteq> s) \<Longrightarrow> cache' ! s = cache ! s"
proof -
  let ?ps = "zip (flat_rows (\<lambda>it p. int (item_slot b it p)) its) (flat_rows K its)"
  have ps: "?ps = flat_rows (\<lambda>it p. (int (item_slot b it p), K it p)) its" by (rule flat_rows_zip)
  have range: "\<forall>p\<in>set ?ps. 0 \<le> fst p \<and> fst p < int (length cache)"
    unfolding ps set_flat_rows using segs len by (auto simp: seg_ok_def)
  have keys: "map fst ?ps = flat_rows (\<lambda>it p. int (item_slot b it p)) its" unfolding ps flat_rows_map by simp
  have "distinct (flat_rows (\<lambda>it p. int (item_slot b it p)) its)"
    unfolding flat_rows_def
  proof (rule distinct_concat_map [where g = id])
    show "distinct (map id its)" using dist by simp
    show "distinct (map (\<lambda>p. int (item_slot b it p)) [item_start it..<item_stop it])" if "it \<in> set its" for it
      using sep that unfolding separate_def distinct_map inj_on_def by auto
    show "set (map (\<lambda>p. int (item_slot b it p)) [item_start it..<item_stop it]) \<inter>
        set (map (\<lambda>p. int (item_slot b it' p)) [item_start it'..<item_stop it']) = {}"
      if "it \<in> set its" "it' \<in> set its" "id it \<noteq> id it'" for it it'
      using sep that unfolding separate_def by auto
  qed
  then have dk: "distinct (map fst ?ps)" unfolding keys .
  obtain cache' where run: "index_copy cache ?ps = (Inr (), cache')"
    using index_copy_ok [OF range] by (cases "index_copy cache ?ps") auto
  show ?thesis
  proof (rule that [OF run])
    show "length cache' = n" using index_copy_length [of cache ?ps] run len by simp
    have other: "cache' ! s = cache ! s" if "int s \<notin> fst ` set ?ps" for s
      using index_copy_other [OF that, of cache] run by simp
    have ks: "fst ` set ?ps = {int (item_slot b it p) | it p. it \<in> set its \<and> item_start it \<le> p \<and> p < item_stop it}"
      using keys set_flat_rows [of "\<lambda>it p. int (item_slot b it p)" its] by (metis list.set_map)
    show "cache' ! s = cache ! s" if "\<forall>it\<in>set its. \<forall>p\<in>{item_start it..<item_stop it}. item_slot b it p \<noteq> s" for s
      by (rule other) (use that in \<open>auto simp: ks Ball_def\<close>)
    show "cache' ! item_slot b it p = K it p" if it: "it \<in> set its" "p < item_stop it" for it p
    proof (cases "item_start it \<le> p")
      case True
      then have "(int (item_slot b it p), K it p) \<in> set ?ps" unfolding ps set_flat_rows using it by blast
      from index_copy_written [OF range dk this] show ?thesis using run by simp
    next
      case False
      have "int (item_slot b it p) \<notin> fst ` set ?ps"
        unfolding ks using separateD [OF sep it(1) _ it(2)] False by auto
      then show ?thesis using other old [of it p] it False by simp
    qed
  qed
qed

section \<open>The contract of an attention backend\<close>

text \<open>
  What a backend is given: the metadata of a batch whose items use their block tables' slots without
  interference, the query, key and value rows of the scheduled tokens, and caches that hold the keys
  and values \<open>K it p\<close>, \<open>V it p\<close> of the positions before them.
\<close>

definition paged_input ::
    "nat \<Rightarrow> nat \<Rightarrow> worker_item list \<Rightarrow> attention_metadata \<Rightarrow> (worker_item \<Rightarrow> nat \<Rightarrow> 'e list) \<Rightarrow>
       (worker_item \<Rightarrow> nat \<Rightarrow> 'e list) \<Rightarrow> (worker_item \<Rightarrow> nat \<Rightarrow> 'e list) \<Rightarrow>
       'e tensor3 \<Rightarrow> 'e tensor3 \<Rightarrow> 'e tensor3 \<Rightarrow> 'e kv_caches \<Rightarrow> bool" where
  "paged_input b n its md Q K V query key val caches \<longleftrightarrow>
     md_for b its md \<and> (\<forall>it\<in>set its. seg_ok b n it) \<and> separate b its \<and> distinct its \<and> 0 < b \<and>
     length (fst caches) = n \<and> length (snd caches) = n \<and>
     (\<forall>it\<in>set its. \<forall>p<item_start it.
        fst caches ! item_slot b it p = K it p \<and> snd caches ! item_slot b it p = V it p) \<and>
     (\<forall>it\<in>set its. \<forall>p<item_stop it. length (K it p) = t3_heads key \<and> length (V it p) = t3_heads key) \<and>
     t3_rows query = flat_rows Q its \<and> t3_rows key = flat_rows K its \<and> t3_rows val = flat_rows V its \<and>
     0 < t3_heads key \<and> 0 < t3_heads query \<and> t3_heads query mod t3_heads key = 0"

text \<open>What it must leave behind: the new rows at the scheduled slots, all else as it was.\<close>

definition paged_result ::
    "nat \<Rightarrow> nat \<Rightarrow> worker_item list \<Rightarrow> (worker_item \<Rightarrow> nat \<Rightarrow> 'e list) \<Rightarrow> (worker_item \<Rightarrow> nat \<Rightarrow> 'e list) \<Rightarrow>
       'e kv_caches \<Rightarrow> 'e kv_caches \<Rightarrow> bool" where
  "paged_result b n its K V caches caches' \<longleftrightarrow>
     length (fst caches') = n \<and> length (snd caches') = n \<and>
     (\<forall>it\<in>set its. \<forall>p<item_stop it.
        fst caches' ! item_slot b it p = K it p \<and> snd caches' ! item_slot b it p = V it p) \<and>
     (\<forall>s. (\<forall>it\<in>set its. \<forall>p. item_start it \<le> p \<longrightarrow> p < item_stop it \<longrightarrow> item_slot b it p \<noteq> s) \<longrightarrow>
        fst caches' ! s = fst caches ! s \<and> snd caches' ! s = snd caches ! s)"

locale paged_backend =
  fixes forward :: "'e attend \<Rightarrow> ('e \<Rightarrow> 'e) \<Rightarrow> 'e tensor3 \<Rightarrow> 'e tensor3 \<Rightarrow> 'e tensor3 \<Rightarrow>
      attention_metadata \<Rightarrow> 'e kv_caches \<Rightarrow> (exn + 'e list list) \<times> 'e kv_caches"
  assumes paged: "paged_input b n its md Q K V query key val caches \<Longrightarrow> t3_dim query \<le> 256 \<Longrightarrow>
      \<exists>caches'. forward attend zeros query key val md caches =
        (Inr (flat_rows (\<lambda>it p. causal_row attend (t3_heads query) (t3_heads query div t3_heads key)
                 (K it) (V it) (Q it p) p) its), caches') \<and>
        paged_result b n its K V caches caches'"

lemma paged_inputD:
  assumes "paged_input b n its md Q K V query key val caches"
  shows "md_for b its md" and "\<forall>it\<in>set its. seg_ok b n it" and "separate b its" and "distinct its" and "0 < b"
    and "length (fst caches) = n" and "length (snd caches) = n"
    and "\<And>it p. it \<in> set its \<Longrightarrow> p < item_start it \<Longrightarrow> fst caches ! item_slot b it p = K it p"
    and "\<And>it p. it \<in> set its \<Longrightarrow> p < item_start it \<Longrightarrow> snd caches ! item_slot b it p = V it p"
    and "\<And>it p. it \<in> set its \<Longrightarrow> p < item_stop it \<Longrightarrow> length (K it p) = t3_heads key"
    and "\<And>it p. it \<in> set its \<Longrightarrow> p < item_stop it \<Longrightarrow> length (V it p) = t3_heads key"
    and "t3_rows query = flat_rows Q its" and "t3_rows key = flat_rows K its" and "t3_rows val = flat_rows V its"
    and "0 < t3_heads key" and "t3_heads query mod t3_heads key = 0"
    and "t3_heads query = (t3_heads query div t3_heads key) * t3_heads key"
    and "0 < t3_heads query div t3_heads key"
  using assms by (auto simp: paged_input_def div_greater_zero_iff dest!: mod_eq_self_iff_div_eq_0 [THEN iffD2] intro: dvd_imp_le)

text \<open>The two caches after the rows of the batch are written.\<close>

lemma paged_written:
  assumes "paged_input b n its md Q K V query key val caches"
  obtains kc vc where
    "index_copy (fst caches) (zip (flat_rows (\<lambda>it p. int (item_slot b it p)) its) (flat_rows K its)) = (Inr (), kc)"
    and "index_copy (snd caches) (zip (flat_rows (\<lambda>it p. int (item_slot b it p)) its) (flat_rows V its)) = (Inr (), vc)"
    and "paged_result b n its K V caches (kc, vc)"
proof -
  note D = paged_inputD [OF assms]
  from index_copy_items [OF D(2-4,6,8)] obtain kc where
    k: "index_copy (fst caches) (zip (flat_rows (\<lambda>it p. int (item_slot b it p)) its) (flat_rows K its)) = (Inr (), kc)"
      "length kc = n" "\<forall>it\<in>set its. \<forall>p<item_stop it. kc ! item_slot b it p = K it p"
      "\<forall>s. (\<forall>it\<in>set its. \<forall>p\<in>{item_start it..<item_stop it}. item_slot b it p \<noteq> s) \<longrightarrow> kc ! s = fst caches ! s"
    by metis
  from index_copy_items [OF D(2-4,7,9)] obtain vc where
    v: "index_copy (snd caches) (zip (flat_rows (\<lambda>it p. int (item_slot b it p)) its) (flat_rows V its)) = (Inr (), vc)"
      "length vc = n" "\<forall>it\<in>set its. \<forall>p<item_stop it. vc ! item_slot b it p = V it p"
      "\<forall>s. (\<forall>it\<in>set its. \<forall>p\<in>{item_start it..<item_stop it}. item_slot b it p \<noteq> s) \<longrightarrow> vc ! s = snd caches ! s"
    by metis
  show ?thesis using that [OF k(1) v(1)] k(2-4) v(2-4) by (simp add: paged_result_def)
qed

lemma torch_forward_paged:
  assumes inp: "paged_input b n its md Q K V query key val caches"
  shows "\<exists>caches'. torch_forward attend zeros query key val md caches =
      (Inr (flat_rows (\<lambda>it p. causal_row attend (t3_heads query) (t3_heads query div t3_heads key)
               (K it) (V it) (Q it p) p) its), caches') \<and>
      paged_result b n its K V caches caches'"
proof -
  note D = paged_inputD [OF inp]
  let ?slots = "flat_rows (\<lambda>it p. int (item_slot b it p)) its"
  have act: "md_active_mask md = replicate (length (concat (map wi_token_ids its))) True"
    and sm: "md_slot_mapping md = ?slots" and sl: "length (md_seq_lens md) = length its"
    using D(1) flat_slot_mapping [OF D(2)] by (simp_all add: md_for_def)
  have ms: "mask_select (md_active_mask md) (flat_rows f its) = Inr (flat_rows f its)" for f :: "worker_item \<Rightarrow> nat \<Rightarrow> 'a list"
    unfolding act by (rule mask_select_all [OF length_flat_rows [OF D(2)]])
  have ms2: "mask_select (md_active_mask md) (flat_rows f its) = Inr (flat_rows f its)" for f :: "worker_item \<Rightarrow> nat \<Rightarrow> int"
    unfolding act by (rule mask_select_all [OF length_flat_rows [OF D(2)]])
  from paged_written [OF inp] obtain kc vc where
    w: "index_copy (fst caches) (zip ?slots (flat_rows K its)) = (Inr (), kc)"
      "index_copy (snd caches) (zip ?slots (flat_rows V its)) = (Inr (), vc)"
      "paged_result b n its K V caches (kc, vc)" .
  have len: "length kc = n" "length vc = n" using w(3) by (simp_all add: paged_result_def)
  let ?g = "t3_heads query div t3_heads key"
  let ?R = "flat_rows (\<lambda>it p. causal_row attend (t3_heads query) ?g (K it) (V it) (Q it p) p) its"
  have "forward_loop attend ?g query kc vc md [0..<length its] (map (map zeros) (t3_rows query)) = Inr ?R"
  proof (rule forward_loop_items [OF D(1,2,5) len _ D(17,18,12) refl])
    show "length (map (map zeros) (t3_rows query)) = length ?R"
      unfolding D(12) length_map by (simp only: length_flat_rows [OF D(2)])
  qed (use w(3) D(10,11) in \<open>auto simp: nth_offsets paged_result_def\<close>)
  then have "torch_forward attend zeros query key val md caches = (Inr ?R, kc, vc)"
    using D(15,16) w(1,2) by (cases caches) (simp add: torch_forward_def sm D(13,14) ms ms2 sl)
  then show ?thesis using w(3) by blast
qed

interpretation torch: paged_backend torch_forward
  by unfold_locales (rule torch_forward_paged)

end
