(* ===== verification/Json.thy ===== *)
theory Json
  imports Prelude
begin

text \<open>
  JSON values as \<open>json.loads\<close> returns them, and the Python operations the code applies to such values:
  subscription and \<open>get\<close>, \<open>int\<close>, \<open>float\<close>, \<open>bool\<close>, \<open>tuple\<close>, with their exceptions.  How \<open>int\<close> and
  \<open>float\<close> read a string is a parameter.
\<close>

datatype json =
    JNull
  | JBool bool
  | JInt int
  | JFloat pyfloat
  | JStr pystr
  | JList "json list"
  | JObj "(pystr \<times> json) list"

text \<open>The code points of an ASCII literal.\<close>

definition ascii :: "string \<Rightarrow> pystr" where
  "ascii s = map of_char s"

fun type_name :: "json \<Rightarrow> string" where
  "type_name JNull = ''NoneType''"
| "type_name (JBool b) = ''bool''"
| "type_name (JInt i) = ''int''"
| "type_name (JFloat f) = ''float''"
| "type_name (JStr s) = ''str''"
| "type_name (JList xs) = ''list''"
| "type_name (JObj d) = ''dict''"

fun py_bool :: "json \<Rightarrow> bool" where
  "py_bool JNull = False"
| "py_bool (JBool b) = b"
| "py_bool (JInt i) = (i \<noteq> 0)"
| "py_bool (JFloat f) = (f \<noteq> Fin 0)"
| "py_bool (JStr s) = (s \<noteq> [])"
| "py_bool (JList xs) = (xs \<noteq> [])"
| "py_bool (JObj d) = (d \<noteq> [])"

text \<open>A value passed on where the code expects a string.\<close>

fun to_pyobj :: "json \<Rightarrow> pyobj" where
  "to_pyobj (JStr s) = PyStr s"
| "to_pyobj v = PyOther (type_name v) (py_bool v)"

text \<open>\<open>value[key]\<close> and \<open>value.get(key, default)\<close> for a string key.\<close>

fun py_item :: "json \<Rightarrow> string \<Rightarrow> exn + json" where
  "py_item (JObj d) key = (case map_of d (ascii key) of None \<Rightarrow> Inl (KeyError key) | Some v \<Rightarrow> Inr v)"
| "py_item (JList xs) key = Inl (TypeError ''list indices must be integers or slices, not str'')"
| "py_item (JStr s) key = Inl (TypeError ''string indices must be integers, not str'')"
| "py_item v key = Inl (TypeError (quoted (type_name v) @ '' object is not subscriptable''))"

fun py_get_key :: "json \<Rightarrow> string \<Rightarrow> json \<Rightarrow> exn + json" where
  "py_get_key (JObj d) key dflt = Inr (case map_of d (ascii key) of None \<Rightarrow> dflt | Some v \<Rightarrow> v)"
| "py_get_key v key dflt = Inl (AttributeError (quoted (type_name v) @ '' object has no attribute '' @ quoted ''get''))"

text \<open>How \<open>int\<close> and \<open>float\<close> read a string; \<open>None\<close> where they raise \<open>ValueError\<close>.\<close>

record number_reader =
  read_int :: "pystr \<Rightarrow> int option"
  read_float :: "pystr \<Rightarrow> pyfloat option"

definition py_truncate :: "real \<Rightarrow> int" where
  "py_truncate r = (if r < 0 then \<lceil>r\<rceil> else \<lfloor>r\<rfloor>)"

fun py_int :: "number_reader \<Rightarrow> json \<Rightarrow> exn + int" where
  "py_int rd (JInt i) = Inr i"
| "py_int rd (JBool b) = Inr (if b then 1 else 0)"
| "py_int rd (JFloat (Fin r)) = Inr (py_truncate r)"
| "py_int rd (JFloat NaN) = Inl (ValueError ''cannot convert float NaN to integer'')"
| "py_int rd (JFloat PosInf) = Inl (OverflowError ''cannot convert float infinity to integer'')"
| "py_int rd (JFloat NegInf) = Inl (OverflowError ''cannot convert float infinity to integer'')"
| "py_int rd (JStr s) =
     (case read_int rd s of None \<Rightarrow> Inl (ValueError ''invalid literal for int() with base 10'') | Some i \<Rightarrow> Inr i)"
| "py_int rd v = Inl (TypeError (''int() argument must be a string, a bytes-like object or a real number, not '' @
     quoted (type_name v)))"

text \<open>An integer of more than about 309 digits is too large for a double.\<close>

definition float_limit :: int where
  "float_limit = 2 ^ 1024 - 2 ^ 970"

fun py_float :: "number_reader \<Rightarrow> json \<Rightarrow> exn + pyfloat" where
  "py_float rd (JInt i) =
     (if \<bar>i\<bar> < float_limit then Inr (Fin (real_of_int i))
      else Inl (OverflowError ''int too large to convert to float''))"
| "py_float rd (JBool b) = Inr (Fin (if b then 1 else 0))"
| "py_float rd (JFloat f) = Inr f"
| "py_float rd (JStr s) =
     (case read_float rd s of None \<Rightarrow> Inl (ValueError ''could not convert string to float'') | Some f \<Rightarrow> Inr f)"
| "py_float rd v = Inl (TypeError (''float() argument must be a string or a real number, not '' @
     quoted (type_name v)))"

text \<open>\<open>tuple(value)\<close>: the characters of a string, the elements of a list, the keys of an object.\<close>

fun py_tuple :: "json \<Rightarrow> exn + json list" where
  "py_tuple (JList xs) = Inr xs"
| "py_tuple (JObj d) = Inr (map (JStr \<circ> fst) d)"
| "py_tuple (JStr s) = Inr (map (\<lambda>c. JStr [c]) s)"
| "py_tuple v = Inl (TypeError (quoted (type_name v) @ '' object is not iterable''))"

end
