(* ===== verification/Llama.thy ===== *)
theory Llama
  imports Attention Json
begin

text \<open>
  The model of \<open>model_executor/llama.py\<close>: the configuration read from \<open>config.json\<close>, the modules
  (\<open>RMSNorm\<close>, the rotary embedding, \<open>LlamaAttention\<close>, \<open>LlamaMLP\<close>, \<open>LlamaDecoderLayer\<close>, \<open>LlamaModel\<close>,
  \<open>LlamaForCausalLM\<close>) and their forward passes over a batch of rows.  A row of a tensor is a list of
  reals; rounding to the tensor's type is not modelled.  \<open>nn.Linear\<close>, \<open>nn.Embedding\<close>, \<open>F.silu\<close> and the
  attention of one query vector are the parameters \<open>torch_fns\<close>.
\<close>

section \<open>LlamaConfig\<close>

record llama_config =
  lc_vocab_size :: int
  lc_hidden_size :: int
  lc_intermediate_size :: int
  lc_num_hidden_layers :: int
  lc_num_attention_heads :: int
  lc_num_key_value_heads :: int
  lc_max_position_embeddings :: int
  lc_rms_norm_eps :: pyfloat
  lc_rope_theta :: pyfloat
  lc_tie_word_embeddings :: bool
  lc_attention_bias :: bool
  lc_mlp_bias :: bool

definition head_dim :: "llama_config \<Rightarrow> exn + int" where
  "head_dim c =
     (if lc_num_attention_heads c = 0 then Inl ZeroDivisionError
      else if lc_hidden_size c mod lc_num_attention_heads c \<noteq> 0
      then Inl (ValueError ''hidden_size must be divisible by num_attention_heads'')
      else Inr (lc_hidden_size c div lc_num_attention_heads c))"

text \<open>Membership in the set \<open>{"llama", None}\<close>: lists and dictionaries cannot be hashed.\<close>

fun model_type_known :: "json \<Rightarrow> exn + bool" where
  "model_type_known JNull = Inr True"
| "model_type_known (JStr s) = Inr (s = ascii ''llama'')"
| "model_type_known (JList xs) = Inl (TypeError (''unhashable type: '' @ quoted ''list''))"
| "model_type_known (JObj d) = Inl (TypeError (''unhashable type: '' @ quoted ''dict''))"
| "model_type_known v = Inr False"

definition int_field :: "number_reader \<Rightarrow> json \<Rightarrow> string \<Rightarrow> exn + int" where
  "int_field rd raw key = (case py_item raw key of Inl e \<Rightarrow> Inl e | Inr v \<Rightarrow> py_int rd v)"

definition int_field_or :: "number_reader \<Rightarrow> json \<Rightarrow> string \<Rightarrow> int \<Rightarrow> exn + int" where
  "int_field_or rd raw key dflt = (case py_get_key raw key (JInt dflt) of Inl e \<Rightarrow> Inl e | Inr v \<Rightarrow> py_int rd v)"

definition float_field_or :: "number_reader \<Rightarrow> json \<Rightarrow> string \<Rightarrow> real \<Rightarrow> exn + pyfloat" where
  "float_field_or rd raw key dflt =
     (case py_get_key raw key (JFloat (Fin dflt)) of Inl e \<Rightarrow> Inl e | Inr v \<Rightarrow> py_float rd v)"

definition bool_field_or :: "json \<Rightarrow> string \<Rightarrow> exn + bool" where
  "bool_field_or raw key = (case py_get_key raw key (JBool False) of Inl e \<Rightarrow> Inl e | Inr v \<Rightarrow> Inr (py_bool v))"

text \<open>The file \<open>config.json\<close> of a model directory: absent, or what reading and parsing it gives.\<close>

definition llama_config_from_model_dir :: "number_reader \<Rightarrow> (exn + json) option \<Rightarrow> exn + llama_config" where
  "llama_config_from_model_dir rd config_file =
     (case config_file of None \<Rightarrow> Inl (FileNotFoundError ''missing model config'')
      | Some (Inl e) \<Rightarrow> Inl e
      | Some (Inr raw) \<Rightarrow>
     (case py_get_key raw ''model_type'' JNull of Inl e \<Rightarrow> Inl e
      | Inr model_type \<Rightarrow>
     (case model_type_known model_type of Inl e \<Rightarrow> Inl e
      | Inr False \<Rightarrow> Inl (ValueError ''unsupported model_type'')
      | Inr True \<Rightarrow>
     (case py_get_key raw ''rope_scaling'' JNull of Inl e \<Rightarrow> Inl e
      | Inr rope_scaling \<Rightarrow>
        if rope_scaling \<noteq> JNull \<and> rope_scaling \<noteq> JBool False
        then Inl (ValueError ''rope_scaling is not supported by the minimal Llama runner'')
        else
     (case int_field rd raw ''num_attention_heads'' of Inl e \<Rightarrow> Inl e | Inr heads \<Rightarrow>
     (case int_field rd raw ''vocab_size'' of Inl e \<Rightarrow> Inl e | Inr vocab_size \<Rightarrow>
     (case int_field rd raw ''hidden_size'' of Inl e \<Rightarrow> Inl e | Inr hidden_size \<Rightarrow>
     (case int_field rd raw ''intermediate_size'' of Inl e \<Rightarrow> Inl e | Inr intermediate_size \<Rightarrow>
     (case int_field rd raw ''num_hidden_layers'' of Inl e \<Rightarrow> Inl e | Inr num_hidden_layers \<Rightarrow>
     (case int_field_or rd raw ''num_key_value_heads'' heads of Inl e \<Rightarrow> Inl e | Inr kv_heads \<Rightarrow>
     (case int_field_or rd raw ''max_position_embeddings'' 2048 of Inl e \<Rightarrow> Inl e | Inr max_positions \<Rightarrow>
     (case float_field_or rd raw ''rms_norm_eps'' (1 / 10 ^ 6) of Inl e \<Rightarrow> Inl e | Inr eps \<Rightarrow>
     (case float_field_or rd raw ''rope_theta'' 10000 of Inl e \<Rightarrow> Inl e | Inr theta \<Rightarrow>
     (case bool_field_or raw ''tie_word_embeddings'' of Inl e \<Rightarrow> Inl e | Inr tie \<Rightarrow>
     (case bool_field_or raw ''attention_bias'' of Inl e \<Rightarrow> Inl e | Inr attention_bias \<Rightarrow>
     (case bool_field_or raw ''mlp_bias'' of Inl e \<Rightarrow> Inl e | Inr mlp_bias \<Rightarrow>
        Inr \<lparr>lc_vocab_size = vocab_size, lc_hidden_size = hidden_size,
             lc_intermediate_size = intermediate_size, lc_num_hidden_layers = num_hidden_layers,
             lc_num_attention_heads = heads, lc_num_key_value_heads = kv_heads,
             lc_max_position_embeddings = max_positions, lc_rms_norm_eps = eps, lc_rope_theta = theta,
             lc_tie_word_embeddings = tie, lc_attention_bias = attention_bias,
             lc_mlp_bias = mlp_bias\<rparr>))))))))))))))))"

section \<open>The layers\<close>

type_synonym vec = "real list"

text \<open>
  What the layers use of PyTorch: \<open>nn.Linear\<close> with its weight and bias applied to a row,
  \<open>nn.Embedding\<close>, the entries of a one-dimensional parameter, \<open>F.silu\<close>, the attention of one query
  vector.  The weights are of an arbitrary type.
\<close>

record 'w torch_fns =
  tf_linear :: "'w \<Rightarrow> 'w option \<Rightarrow> vec \<Rightarrow> vec"
  tf_embedding :: "'w \<Rightarrow> int \<Rightarrow> exn + vec"
  tf_values :: "'w \<Rightarrow> vec"
  tf_silu :: "real \<Rightarrow> real"
  tf_attend :: "vec attend"

record 'w linear =
  li_weight :: 'w
  li_bias :: "'w option"

definition linear_forward :: "'w torch_fns \<Rightarrow> 'w linear \<Rightarrow> vec \<Rightarrow> vec" where
  "linear_forward T l x = tf_linear T (li_weight l) (li_bias l) x"

record 'w rms_norm =
  rn_weight :: 'w
  rn_eps :: real

definition rms_scale :: "real \<Rightarrow> vec \<Rightarrow> vec \<Rightarrow> vec" where
  "rms_scale eps weight x =
     (let variance = sum_list (map (\<lambda>v. v ^ 2) x) / real (length x)
      in map2 (\<lambda>v w. v * (1 / sqrt (variance + eps)) * w) x weight)"

definition rms_norm_forward :: "'w torch_fns \<Rightarrow> 'w rms_norm \<Rightarrow> vec \<Rightarrow> vec" where
  "rms_norm_forward T n x = rms_scale (rn_eps n) (tf_values T (rn_weight n)) x"

text \<open>\<open>chunk(2, dim=-1)\<close> puts the odd element into the first half.\<close>

definition rotate_half :: "vec \<Rightarrow> vec" where
  "rotate_half values =
     (let n = (length values + 1) div 2; first = take n values; second = drop n values
      in map uminus second @ first)"

definition rotary_angles :: "real \<Rightarrow> nat \<Rightarrow> int \<Rightarrow> vec" where
  "rotary_angles theta hdim position =
     (let frequencies = map (\<lambda>i. real_of_int position * (1 / (theta powr (real (2 * i) / real hdim)))) [0..<hdim div 2]
      in frequencies @ frequencies)"

definition rotate_vector :: "real \<Rightarrow> nat \<Rightarrow> int \<Rightarrow> vec \<Rightarrow> vec" where
  "rotate_vector theta hdim position x =
     (let angles = rotary_angles theta hdim position
      in map2 (+) (map2 (*) x (map cos angles)) (map2 (*) (rotate_half x) (map sin angles)))"

definition apply_rotary_embedding ::
    "vec tensor3 \<Rightarrow> vec tensor3 \<Rightarrow> int list \<Rightarrow> real \<Rightarrow> exn + vec tensor3 \<times> vec tensor3" where
  "apply_rotary_embedding query key pos theta =
     (let hdim = t3_dim query;
          rotate = (\<lambda>rows. map2 (\<lambda>row position. map (rotate_vector theta hdim position) row) rows pos)
      in if hdim mod 2 \<noteq> 0 then Inl (ValueError ''rotary head dimension must be even'')
         else Inr (query\<lparr>t3_rows := rotate (t3_rows query)\<rparr>, key\<lparr>t3_rows := rotate (t3_rows key)\<rparr>))"

record 'w llama_attention =
  la_q_proj :: "'w linear"
  la_k_proj :: "'w linear"
  la_v_proj :: "'w linear"
  la_o_proj :: "'w linear"

text \<open>\<open>view(-1, heads, head_dim)\<close> of a row.\<close>

definition view_heads :: "nat \<Rightarrow> nat \<Rightarrow> vec \<Rightarrow> vec list" where
  "view_heads heads hdim x = map (\<lambda>h. take hdim (drop (h * hdim) x)) [0..<heads]"

definition zeros_like :: "vec \<Rightarrow> vec" where
  "zeros_like x = map (\<lambda>_. 0) x"

text \<open>The values of the configuration the forward pass uses, as checked by the constructor.\<close>

record llama_shape =
  ls_heads :: nat
  ls_kv_heads :: nat
  ls_head_dim :: nat
  ls_theta :: real

definition attention_forward ::
    "'w torch_fns \<Rightarrow> llama_shape \<Rightarrow> attention_backend \<Rightarrow> 'w llama_attention \<Rightarrow> int list \<Rightarrow> attention_metadata \<Rightarrow>
       vec list \<Rightarrow> vec kv_caches \<Rightarrow> (exn + vec list) \<times> vec kv_caches" where
  "attention_forward T sh backend att pos md hidden_states caches =
     (let project = (\<lambda>heads l. \<lparr>t3_heads = heads, t3_dim = ls_head_dim sh,
            t3_rows = map (\<lambda>x. view_heads heads (ls_head_dim sh) (linear_forward T l x)) hidden_states\<rparr>);
          query = project (ls_heads sh) (la_q_proj att); key = project (ls_kv_heads sh) (la_k_proj att);
          val = project (ls_kv_heads sh) (la_v_proj att)
      in case apply_rotary_embedding query key pos (ls_theta sh) of Inl e \<Rightarrow> (Inl e, caches)
         | Inr (query1, key1) \<Rightarrow>
             (case backend_forward backend (tf_attend T) zeros_like query1 key1 val md caches of
                (Inl e, caches1) \<Rightarrow> (Inl e, caches1)
              | (Inr attention, caches1) \<Rightarrow>
                  (Inr (map (\<lambda>row. linear_forward T (la_o_proj att) (concat row)) attention), caches1)))"

record 'w llama_mlp =
  lp_gate_proj :: "'w linear"
  lp_up_proj :: "'w linear"
  lp_down_proj :: "'w linear"

definition mlp_forward :: "'w torch_fns \<Rightarrow> 'w llama_mlp \<Rightarrow> vec \<Rightarrow> vec" where
  "mlp_forward T m x =
     linear_forward T (lp_down_proj m)
       (map2 (*) (map (tf_silu T) (linear_forward T (lp_gate_proj m) x)) (linear_forward T (lp_up_proj m) x))"

record 'w decoder_layer =
  dl_self_attn :: "'w llama_attention"
  dl_mlp :: "'w llama_mlp"
  dl_input_layernorm :: "'w rms_norm"
  dl_post_attention_layernorm :: "'w rms_norm"

definition decoder_layer_forward ::
    "'w torch_fns \<Rightarrow> llama_shape \<Rightarrow> attention_backend \<Rightarrow> int list \<Rightarrow> attention_metadata \<Rightarrow> 'w decoder_layer \<Rightarrow>
       vec list \<Rightarrow> vec kv_caches \<Rightarrow> (exn + vec list) \<times> vec kv_caches" where
  "decoder_layer_forward T sh backend pos md layer hidden_states caches =
     (case attention_forward T sh backend (dl_self_attn layer) pos md
             (map (rms_norm_forward T (dl_input_layernorm layer)) hidden_states) caches of
        (Inl e, caches1) \<Rightarrow> (Inl e, caches1)
      | (Inr attention, caches1) \<Rightarrow>
          let hidden1 = map2 (map2 (+)) hidden_states attention
          in (Inr (map (\<lambda>x. map2 (+) x (mlp_forward T (dl_mlp layer)
                     (rms_norm_forward T (dl_post_attention_layernorm layer) x))) hidden1), caches1))"

record 'w llama_model =
  lm_embed_tokens :: 'w
  lm_layers :: "'w decoder_layer list"
  lm_norm :: "'w rms_norm"
  lm_lm_head :: "'w linear"

fun layers_forward ::
    "'w torch_fns \<Rightarrow> llama_shape \<Rightarrow> attention_backend \<Rightarrow> int list \<Rightarrow> attention_metadata \<Rightarrow> 'w decoder_layer list \<Rightarrow>
       vec list \<Rightarrow> vec kv_caches list \<Rightarrow> (exn + vec list) \<times> vec kv_caches list" where
  "layers_forward T sh backend pos md [] hidden_states caches = (Inr hidden_states, caches)"
| "layers_forward T sh backend pos md (layer # layers) hidden_states [] = (Inl IndexError, [])"
| "layers_forward T sh backend pos md (layer # layers) hidden_states (c # cs) =
     (case decoder_layer_forward T sh backend pos md layer hidden_states c of
        (Inl e, c1) \<Rightarrow> (Inl e, c1 # cs)
      | (Inr hidden1, c1) \<Rightarrow>
          (case layers_forward T sh backend pos md layers hidden1 cs of (res, cs1) \<Rightarrow> (res, c1 # cs1)))"

fun embed_loop :: "'w torch_fns \<Rightarrow> 'w \<Rightarrow> int list \<Rightarrow> exn + vec list" where
  "embed_loop T w [] = Inr []"
| "embed_loop T w (token # rest) =
     (case tf_embedding T w token of Inl e \<Rightarrow> Inl e
      | Inr x \<Rightarrow> (case embed_loop T w rest of Inl e \<Rightarrow> Inl e | Inr xs \<Rightarrow> Inr (x # xs)))"

definition causal_lm_forward ::
    "'w torch_fns \<Rightarrow> llama_shape \<Rightarrow> attention_backend \<Rightarrow> 'w llama_model \<Rightarrow> int list \<Rightarrow> int list \<Rightarrow> attention_metadata \<Rightarrow>
       vec kv_caches list \<Rightarrow> (exn + vec list) \<times> vec kv_caches list" where
  "causal_lm_forward T sh backend model ids pos md caches =
     (case embed_loop T (lm_embed_tokens model) ids of Inl e \<Rightarrow> (Inl e, caches)
      | Inr hidden_states \<Rightarrow>
          (case layers_forward T sh backend pos md (lm_layers model) hidden_states caches of
             (Inl e, caches1) \<Rightarrow> (Inl e, caches1)
           | (Inr hidden1, caches1) \<Rightarrow>
               (Inr (map (\<lambda>x. linear_forward T (lm_lm_head model) (rms_norm_forward T (lm_norm model) x)) hidden1),
                caches1)))"

end
