(* ===== verification/Attention_Kernels.thy ===== *)
theory Attention_Kernels
  imports Attention
begin

text \<open>
  The kernels of \<open>runtime/torch_attention_cuda.cu\<close>, launched by \<open>CudaAttentionBackend.forward\<close>, meet the
  contract of an attention backend: the prefill kernel writes the rows of the requests in prefill, the
  decode kernel those in decode, and together they write every row once with the causal attention of
  its token.
\<close>

section \<open>The CUDA kernels meet the contract\<close>

lemma mem_read_nth [simp]: "0 \<le> i \<Longrightarrow> i < int (length xs) \<Longrightarrow> mem_read xs i = Inr (xs ! nat i)"
  by (simp add: mem_read_def)

lemma append_kv_kernel_copy:
  assumes "length ks = length slots" and "length vs = length slots" and "length kc = length vc"
    and "\<forall>s\<in>set slots. 0 \<le> s \<and> s < int (length kc)"
  shows "append_kv_kernel (zip (replicate (length slots) True) (zip slots (zip ks vs))) (kc, vc) =
    (Inr (), snd (index_copy kc (zip slots ks)), snd (index_copy vc (zip slots vs)))"
  using assms
proof (induction slots arbitrary: ks vs kc vc)
  case (Cons s slots)
  then obtain k ks' v vs' where "ks = k # ks'" "vs = v # vs'"
    by (metis length_Suc_conv)
  then show ?case using Cons by simp
qed simp

lemma paged_context_item:
  assumes seg: "seg_ok b n it" and b: "0 < b" and m: "m \<le> item_stop it"
    and table: "table = take (nat (required_blocks (int b) it)) (wi_block_table it) @ pad"
    and len: "length (fst caches) = n" "length (snd caches) = n"
    and kv: "\<And>p. p < item_stop it \<Longrightarrow> fst caches ! item_slot b it p = K p \<and> snd caches ! item_slot b it p = V p"
  shows "paged_context caches table (int b) [0..int m - 1] = Inr (map (\<lambda>p. (K p, V p)) [0..<m])"
proof -
  have "paged_context caches table (int b) (map int ps) = Inr (map (\<lambda>p. (K p, V p)) ps)"
    if "\<forall>p\<in>set ps. p < item_stop it" for ps
    using that
  proof (induction ps)
    case (Cons p ps)
    have p: "p < item_stop it" using Cons.prems by simp
    have s: "item_slot b it p < n" using seg p by (simp add: seg_ok_def)
    show ?case using Cons table_cell [OF seg b p table] kv [OF p] s len
      by (simp add: Let_def flip: zdiv_int zmod_int)
  qed simp
  from this [of "[0..<m]"] m show ?thesis by (simp add: upto_int)
qed

text \<open>The token at a flat index: its item and its position within the item.\<close>

lemma offsets_find:
  "t < sum_list (map f xs) \<Longrightarrow> \<exists>k<length xs. offsets f xs ! k \<le> t \<and> t < offsets f xs ! Suc k"
proof (induction xs rule: rev_induct)
  case (snoc x xs)
  show ?case
  proof (cases "t < sum_list (map f xs)")
    case True
    then obtain k where "k < length xs" "offsets f xs ! k \<le> t" "t < offsets f xs ! Suc k" using snoc.IH by blast
    then show ?thesis by (intro exI [of _ k]) (simp add: offsets_snoc nth_append)
  next
    case False
    then show ?thesis using snoc.prems
      by (intro exI [of _ "length xs"]) (simp add: offsets_snoc nth_append offsets_last)
  qed
qed simp

lemma concat_at:
  assumes "k < length xs" and "\<And>x. x \<in> set xs \<Longrightarrow> f x = length (g x)" and "i < f (xs ! k)"
  shows "concat (map g xs) ! (offsets f xs ! k + i) = g (xs ! k) ! i"
    and "offsets f xs ! k + i < length (concat (map g xs))"
proof -
  have s: "slice (concat (map g xs)) (offsets f xs ! k) (offsets f xs ! Suc k) = g (xs ! k)"
    by (rule slice_concat [OF assms(1,2)])
  have "sum_list (map f xs) = length (concat (map g xs))"
    using assms(2) by (simp add: length_concat comp_def cong: map_cong)
  then have le: "offsets f xs ! Suc k \<le> length (concat (map g xs))"
    using offsets_le [of "Suc k" xs f] assms(1) by simp
  then show "offsets f xs ! k + i < length (concat (map g xs))"
    using assms(3) offsets_step [OF assms(1), of f] by simp
  show "concat (map g xs) ! (offsets f xs ! k + i) = g (xs ! k) ! i"
    using arg_cong [OF s, of "\<lambda>ys. ys ! i"] assms(3) le offsets_step [OF assms(1), of f] by (simp add: slice_def)
qed

lemma token_cases:
  assumes md: "md_for b its md" and segs: "\<forall>it\<in>set its. seg_ok b n it"
    and t: "t < length (concat (map wi_token_ids its))"
  obtains k p where "k < length its" and "t = offsets (length \<circ> wi_token_ids) its ! k + (p - item_start (its ! k))"
    and "item_start (its ! k) \<le> p" and "p < item_stop (its ! k)"
    and "mem_read (md_active_mask md) (int t) = Inr True"
    and "mem_read (md_request_indices md) (int t) = Inr (int k)"
    and "mem_read (md_positions md) (int t) = Inr (int p)"
proof -
  let ?f = "length \<circ> wi_token_ids"
  have "t < sum_list (map ?f its)" using t by (simp add: length_concat comp_def)
  from offsets_find [OF this] obtain k where k: "k < length its" "offsets ?f its ! k \<le> t" "t < offsets ?f its ! Suc k" by blast
  let ?it = "its ! k" and ?i = "t - offsets ?f its ! k"
  have seg: "seg_ok b n ?it" using segs k(1) by simp
  have i: "?i < ?f ?it" "t = offsets ?f its ! k + ?i" using k offsets_step [OF k(1), of ?f] by simp_all
  have cnt: "?f it = length (item_positions it)" if "it \<in> set its" for it
    using segs that seg_okD(4,5) by fastforce
  have pos: "item_positions ?it ! ?i = int (item_start ?it + ?i)"
    using i(1) seg_okD(4,5) [OF seg] by simp
  have P: "concat (map item_positions its) ! t = int (item_start ?it + ?i)" "t < length (concat (map item_positions its))"
    using concat_at [where g = item_positions and f = ?f, OF k(1) cnt i(1)] pos
    unfolding i(2) [symmetric] by simp_all
  have ri: "md_request_indices md ! t = int k \<and> t < length (md_request_indices md)"
  proof -
    let ?g = "\<lambda>k. replicate (length (wi_token_ids (its ! k))) (int k)"
    have "take k its = map ((!) its) [0..<k]" using k(1) by (intro nth_equalityI) simp_all
    then have off: "offsets ?f its ! k = offsets (\<lambda>k. ?f (its ! k)) [0..<length its] ! k"
      using k(1) by (simp add: nth_offsets comp_def)
    have "concat (map ?g [0..<length its]) ! (offsets (\<lambda>k. ?f (its ! k)) [0..<length its] ! k + ?i) = ?g ([0..<length its] ! k) ! ?i"
      "offsets (\<lambda>k. ?f (its ! k)) [0..<length its] ! k + ?i < length (concat (map ?g [0..<length its]))"
      using concat_at [of k "[0..<length its]" "\<lambda>k. ?f (its ! k)" ?g ?i] k(1) i(1) by simp_all
    moreover have "offsets (\<lambda>k. ?f (its ! k)) [0..<length its] ! k + ?i = t"
      unfolding off [symmetric] using i(2) by (rule sym)
    ultimately have "concat (map ?g [0..<length its]) ! t = ?g ([0..<length its] ! k) ! ?i"
      "t < length (concat (map ?g [0..<length its]))" by (simp_all only:)
    then show ?thesis using md k(1) i(1) by (simp add: md_for_def)
  qed
  show ?thesis
  proof (rule that [of k "item_start ?it + ?i"])
    show "item_start ?it + ?i < item_stop ?it" using i(1) seg_okD(3,4) [OF seg] by simp
    show "mem_read (md_active_mask md) (int t) = Inr True" using md t by (simp add: md_for_def)
    show "mem_read (md_request_indices md) (int t) = Inr (int k)" using ri by simp
    show "mem_read (md_positions md) (int t) = Inr (int (item_start ?it + ?i))"
      using md P by (simp add: md_for_def del: length_concat)
  qed (use k i in simp_all)
qed

lemma flat_rows_at:
  assumes segs: "\<forall>it\<in>set its. seg_ok b n it" and k: "k < length its"
    and p: "item_start (its ! k) \<le> p" "p < item_stop (its ! k)"
  shows "flat_rows F its ! (offsets (length \<circ> wi_token_ids) its ! k + (p - item_start (its ! k))) = F (its ! k) p"
proof -
  have cnt: "(length \<circ> wi_token_ids) it = length (map (F it) [item_start it..<item_stop it])" if "it \<in> set its" for it
    using segs that seg_okD(4) by fastforce
  have "p - item_start (its ! k) < (length \<circ> wi_token_ids) (its ! k)" using cnt [of "its ! k"] k p by simp
  from concat_at(1) [where f = "length \<circ> wi_token_ids" and g = "\<lambda>it. map (F it) [item_start it..<item_stop it]", OF k cnt this]
  show ?thesis using p by (simp add: flat_rows_def)
qed

lemma decode_item_one: "seg_ok b n it \<Longrightarrow> decode_item it \<Longrightarrow> item_stop it = Suc (item_start it)"
  using seg_okD(3,4) [of b n it] unfolding decode_item_def by linarith

text \<open>One row of a kernel: the attention of a token of the batch.\<close>

lemma online_paged_item:
  assumes inp: "paged_input b n its md Q K V query key val caches0"
    and res: "paged_result b n its K V caches0 caches" and k: "k < length its" and p: "p < item_stop (its ! k)"
  shows "online_paged_attention attend heads groups caches (md_block_tables md ! k) (int p + 1) (md_block_size md) q =
    Inr (causal_row attend heads groups (K (its ! k)) (V (its ! k)) q p)"
proof -
  note D = paged_inputD [OF inp]
  let ?it = "its ! k"
  have seg: "seg_ok b n ?it" using D(2) k by simp
  from D(1) k obtain pad where
    tab: "md_block_tables md ! k = take (nat (required_blocks (int b) ?it)) (wi_block_table ?it) @ pad"
    and bs: "md_block_size md = int b" unfolding md_for_def by blast
  have m: "Suc p \<le> item_stop ?it" using p by simp
  have "paged_context caches (md_block_tables md ! k) (int b) [0..int (Suc p) - 1] =
      Inr (map (\<lambda>j. (K ?it j, V ?it j)) [0..<Suc p])"
    by (rule paged_context_item [OF seg D(5) m tab]) (use res k in \<open>simp_all add: paged_result_def\<close>)
  then show ?thesis
    by (simp add: online_paged_attention_def causal_row_def bs comp_def del: upt_Suc)
qed

lemma flash_prefill_items:
  assumes inp: "paged_input b n its md Q K V query key val caches0"
    and res: "paged_result b n its K V caches0 caches"
    and R: "R = flat_rows (\<lambda>it p. causal_row attend (t3_heads query) groups (K it) (V it) (Q it p) p) its"
    and ts: "\<forall>t\<in>set ts. t < length R"
  shows "length outputs = length R \<Longrightarrow>
    \<exists>out. flash_prefill_kernel attend groups query caches md ts outputs = Inr out \<and> length out = length R \<and>
      (\<forall>t<length R. out ! t = (if t \<in> set ts \<and> \<not> md_is_decode md ! nat (md_request_indices md ! t)
         then R ! t else outputs ! t))"
  using ts
proof (induction ts arbitrary: outputs)
  case (Cons t ts)
  note D = paged_inputD [OF inp]
  have len: "length R = length (concat (map wi_token_ids its))" unfolding R by (rule length_flat_rows [OF D(2)])
  have "t < length (concat (map wi_token_ids its))" using Cons.prems len by simp
  from token_cases [OF D(1,2) this] obtain k p where
    k: "k < length its" "t = offsets (length \<circ> wi_token_ids) its ! k + (p - item_start (its ! k))"
      "item_start (its ! k) \<le> p" "p < item_stop (its ! k)" and
    m: "mem_read (md_active_mask md) (int t) = Inr True"
      "mem_read (md_request_indices md) (int t) = Inr (int k)"
      "mem_read (md_positions md) (int t) = Inr (int p)" .
  have ri: "nat (md_request_indices md ! t) = k" using m(2) by (auto simp: mem_read_def split: if_splits)
  have f: "md_is_decode md = map decode_item its" "length (md_block_tables md) = length its"
    using D(1) by (simp_all add: md_for_def)
  have qrow: "t3_rows query ! t = Q (its ! k) p"
    unfolding D(12) k(2) by (rule flat_rows_at [OF D(2) k(1,3,4)])
  have Rt: "R ! t = causal_row attend (t3_heads query) groups (K (its ! k)) (V (its ! k)) (Q (its ! k) p) p"
    unfolding R k(2) by (rule flat_rows_at [OF D(2) k(1,3,4)])
  show ?case
  proof (cases "decode_item (its ! k)")
    case True
    then have "flash_prefill_kernel attend groups query caches md (t # ts) outputs =
        flash_prefill_kernel attend groups query caches md ts outputs" using m f k(1) by simp
    moreover have "md_is_decode md ! nat (md_request_indices md ! t)" using True ri f k(1) by simp
    ultimately show ?thesis using Cons.IH [of outputs] Cons.prems by auto
  next
    case False
    have "online_paged_attention attend (t3_heads query) groups caches (md_block_tables md ! k) (int p + 1) (md_block_size md)
        (t3_rows query ! t) = Inr (R ! t)"
      unfolding qrow Rt by (rule online_paged_item [OF inp res k(1,4)])
    then have "flash_prefill_kernel attend groups query caches md (t # ts) outputs =
        flash_prefill_kernel attend groups query caches md ts (outputs[t := R ! t])"
      using m f k(1) False by simp
    moreover have "\<not> md_is_decode md ! nat (md_request_indices md ! t)" using False ri f k(1) by simp
    ultimately show ?thesis using Cons.IH [of "outputs[t := R ! t]"] Cons.prems by (auto simp: nth_list_update)
  qed
qed simp

lemma paged_decode_items:
  assumes inp: "paged_input b n its md Q K V query key val caches0"
    and res: "paged_result b n its K V caches0 caches"
    and R: "R = flat_rows (\<lambda>it p. causal_row attend (t3_heads query) groups (K it) (V it) (Q it p) p) its"
    and off: "off = offsets (length \<circ> wi_token_ids) its" and ks: "\<forall>k\<in>set ks. k < length its"
  shows "length outputs = length R \<Longrightarrow>
    \<exists>out. paged_decode_kernel attend groups query caches md ks outputs = Inr out \<and> length out = length R \<and>
      (\<forall>t<length R. out ! t =
         (if \<exists>k\<in>set ks. decode_item (its ! k) \<and> t = off ! k
          then R ! t else outputs ! t))"
  using ks
proof (induction ks arbitrary: outputs)
  case (Cons k ks)
  note D = paged_inputD [OF inp]
  let ?it = "its ! k"
  have k: "k < length its" using Cons.prems by simp
  have seg: "seg_ok b n ?it" using D(2) k by simp
  have f: "md_is_decode md = map decode_item its" "length (md_block_tables md) = length its"
    "md_query_start_loc md = off" "md_seq_lens md = map wi_seq_len its"
    "md_active_mask md = replicate (length (concat (map wi_token_ids its))) True"
    using D(1) by (simp_all add: md_for_def off)
  show ?case
  proof (cases "decode_item ?it")
    case False
    then have "paged_decode_kernel attend groups query caches md (k # ks) outputs =
        paged_decode_kernel attend groups query caches md ks outputs" using f k by simp
    then show ?thesis using Cons.IH [of outputs] Cons.prems False by auto
  next
    case True
    let ?p = "item_start ?it" and ?t = "off ! k"
    have one: "item_stop ?it = Suc ?p" by (rule decode_item_one [OF seg True])
    have p: "?p \<le> ?p" "?p < item_stop ?it" using one by simp_all
    have len: "length R = length (concat (map wi_token_ids its))" unfolding R by (rule length_flat_rows [OF D(2)])
    have "wi_token_ids ?it \<noteq> []" using True by (auto simp: decode_item_def)
    then have t: "?t < length R"
      using concat_at(2) [where f = "length \<circ> wi_token_ids" and g = wi_token_ids and i = 0, OF k] len by (simp add: off)
    have qrow: "t3_rows query ! ?t = Q ?it ?p"
      unfolding D(12) using flat_rows_at [OF D(2) k p, of Q] by (simp add: off)
    have Rt: "R ! ?t = causal_row attend (t3_heads query) groups (K ?it) (V ?it) (Q ?it ?p) ?p"
      unfolding R using flat_rows_at [OF D(2) k p,
        of "\<lambda>it p. causal_row attend (t3_heads query) groups (K it) (V it) (Q it p) p"] by (simp add: off)
    have "online_paged_attention attend (t3_heads query) groups caches (md_block_tables md ! k) (int ?p + 1) (md_block_size md)
        (t3_rows query ! ?t) = Inr (R ! ?t)"
      unfolding qrow Rt by (rule online_paged_item [OF inp res k p(2)])
    moreover have "wi_seq_len ?it = int ?p + 1" using seg_okD(1) [OF seg] one by simp
    ultimately have "paged_decode_kernel attend groups query caches md (k # ks) outputs =
        paged_decode_kernel attend groups query caches md ks (outputs[?t := R ! ?t])"
      using f k True t len by (simp add: off)
    moreover from Cons.IH [of "outputs[?t := R ! ?t]"] Cons.prems obtain out where
      "paged_decode_kernel attend groups query caches md ks (outputs[?t := R ! ?t]) = Inr out" "length out = length R"
      "\<forall>t<length R. out ! t = (if \<exists>k\<in>set ks. decode_item (its ! k) \<and> t = off ! k
          then R ! t else outputs[?t := R ! ?t] ! t)" by auto
    ultimately show ?thesis using True t Cons.prems(1)
      by (intro exI [of _ out]) (auto simp: nth_list_update simp del: paged_decode_kernel.simps)
  qed
qed simp

lemma cuda_forward_paged:
  assumes inp: "paged_input b n its md Q K V query key val caches" and dim: "t3_dim query \<le> 256"
  shows "\<exists>caches'. cuda_forward attend zeros query key val md caches =
      (Inr (flat_rows (\<lambda>it p. causal_row attend (t3_heads query) (t3_heads query div t3_heads key)
               (K it) (V it) (Q it p) p) its), caches') \<and>
      paged_result b n its K V caches caches'"
proof -
  note D = paged_inputD [OF inp]
  let ?slots = "flat_rows (\<lambda>it p. int (item_slot b it p)) its" and ?N = "length (concat (map wi_token_ids its))"
  let ?g = "t3_heads query div t3_heads key"
  define R where "R = flat_rows (\<lambda>it p. causal_row attend (t3_heads query) ?g (K it) (V it) (Q it p) p) its"
  have act: "md_active_mask md = replicate ?N True"
    and sm: "md_slot_mapping md = ?slots" and sl: "length (md_seq_lens md) = length its"
    and dec: "md_is_decode md = map decode_item its"
    using D(1) flat_slot_mapping [OF D(2)] by (simp_all add: md_for_def)
  have len: "length (flat_rows f its) = ?N" for f :: "worker_item \<Rightarrow> nat \<Rightarrow> 'a list"
    by (rule length_flat_rows [OF D(2)])
  have slen: "length ?slots = ?N" by (rule length_flat_rows [OF D(2)])
  from paged_written [OF inp] obtain kc vc where
    w: "index_copy (fst caches) (zip ?slots (flat_rows K its)) = (Inr (), kc)"
      "index_copy (snd caches) (zip ?slots (flat_rows V its)) = (Inr (), vc)"
      "paged_result b n its K V caches (kc, vc)" .
  have "append_kv_kernel (zip (replicate (length ?slots) True) (zip ?slots (zip (flat_rows K its) (flat_rows V its))))
      (fst caches, snd caches) =
    (Inr (), snd (index_copy (fst caches) (zip ?slots (flat_rows K its))),
       snd (index_copy (snd caches) (zip ?slots (flat_rows V its))))"
    by (rule append_kv_kernel_copy)
      (use D(2,6,7) in \<open>auto simp: len slen set_flat_rows seg_ok_def simp del: length_concat\<close>)
  then have ap: "append_kv_kernel (zip (md_active_mask md) (zip (md_slot_mapping md) (zip (t3_rows key) (t3_rows val)))) caches =
      (Inr (), kc, vc)"
    using w(1,2) unfolding act sm D(13,14) slen prod.collapse by simp
  let ?zeros = "map (map zeros) (t3_rows query)"
  have zl: "length ?zeros = length R" by (simp add: D(12) len R_def)
  have ts: "\<forall>t\<in>set [0..<length R]. t < length R" by simp
  from flash_prefill_items [OF inp w(3) R_def ts zl] obtain out1 where
    o1: "flash_prefill_kernel attend ?g query (kc, vc) md [0..<length R] ?zeros = Inr out1" "length out1 = length R"
      "\<forall>t<length R. \<not> md_is_decode md ! nat (md_request_indices md ! t) \<longrightarrow> out1 ! t = R ! t"
    by auto
  from paged_decode_items [OF inp w(3) R_def refl, of "[0..<length its]", OF _ o1(2)] obtain out where
    o2: "paged_decode_kernel attend ?g query (kc, vc) md [0..<length its] out1 = Inr out" "length out = length R"
      "\<forall>t<length R. out ! t = (if \<exists>k\<in>set [0..<length its]. decode_item (its ! k) \<and> t = offsets (length \<circ> wi_token_ids) its ! k
          then R ! t else out1 ! t)"
    by auto
  have "out = R"
  proof (rule nth_equalityI [OF o2(2)])
    fix t
    assume "t < length out"
    then have t: "t < length R" "t < ?N" using o2(2) len by (simp_all add: R_def)
    from token_cases [OF D(1,2) t(2)] obtain k p where
      k: "k < length its" "t = offsets (length \<circ> wi_token_ids) its ! k + (p - item_start (its ! k))"
        "item_start (its ! k) \<le> p" "p < item_stop (its ! k)" and
      m: "mem_read (md_request_indices md) (int t) = Inr (int k)" .
    have ri: "nat (md_request_indices md ! t) = k" using m by (auto simp: mem_read_def split: if_splits)
    have seg: "seg_ok b n (its ! k)" using D(2) k(1) by simp
    show "out ! t = R ! t"
    proof (cases "decode_item (its ! k)")
      case True
      then have "item_stop (its ! k) = Suc (item_start (its ! k))" by (rule decode_item_one [OF seg])
      then have "t = offsets (length \<circ> wi_token_ids) its ! k" using k by simp
      then show ?thesis using o2(3) t(1) True k(1) by auto
    next
      case False
      then show ?thesis using o1(3) o2(3) t(1) ri dec k(1) by auto
    qed
  qed
  then have "cuda_forward attend zeros query key val md caches = (Inr R, kc, vc)"
    using ap o1(1) o2(1) D(15,16) dim zl
    by (simp add: cuda_forward_def check_common_def Let_def sl)
  then show ?thesis using w(3) R_def by blast
qed

interpretation cuda: paged_backend cuda_forward
  by unfold_locales (rule cuda_forward_paged)

interpretation backend: paged_backend "backend_forward bk" for bk
  by (cases bk) (simp_all add: backend_forward_def torch.paged_backend_axioms cuda.paged_backend_axioms)

end
