(* ===== verification/CudaRuntime.thy ===== *)
theory CudaRuntime
  imports ModelRunner "HOL-Library.Word"
begin

text \<open>
  The rest of \<open>minivllm/worker/operator_runtime.py\<close>, the ctypes adapter \<open>CudaKernelRuntime\<close> and
  \<open>create_kernel_runtime\<close>, and \<open>create_model_runner\<close> of \<open>model_runner.py\<close>.  The native library
  (\<open>runtime/minivllm_ops.cu\<close>) is a parameter: a record of its C functions over an arbitrary library
  state.  What crosses the boundary is a C \<open>int\<close>: ctypes takes the low 32 bits of a Python integer
  without a range check.
\<close>

unbundle bit_operations_syntax

section \<open>The C interface\<close>

type_synonym c_int = "32 word"

definition c_int :: "int \<Rightarrow> c_int" where
  "c_int x = word_of_int x"

text \<open>\<open>(ctypes.c_int * len(values))(*values)\<close>\<close>

definition c_array :: "int list \<Rightarrow> c_int list" where
  "c_array values = map c_int values"

text \<open>A handle is the address \<open>mvllm_create\<close> returns; a null pointer arrives as \<open>None\<close>.\<close>

type_synonym handle = "int option"

record 'd native_ops =
  mvllm_create :: "c_int \<Rightarrow> c_int \<Rightarrow> c_int \<Rightarrow> c_int \<Rightarrow> c_int \<Rightarrow> c_int \<Rightarrow> 'd \<Rightarrow> handle \<times> 'd"
  mvllm_destroy :: "handle \<Rightarrow> 'd \<Rightarrow> 'd"
  mvllm_append :: "handle \<Rightarrow> c_int list \<Rightarrow> c_int list \<Rightarrow> c_int \<Rightarrow> 'd \<Rightarrow> c_int \<times> 'd"
  mvllm_prefill :: "handle \<Rightarrow> c_int list \<Rightarrow> c_int \<Rightarrow> 'd \<Rightarrow> c_int \<times> 'd"
  mvllm_decode :: "handle \<Rightarrow> c_int list \<Rightarrow> c_int \<Rightarrow> c_int \<Rightarrow> 'd \<Rightarrow> c_int \<times> 'd"
  mvllm_attention_batch :: "handle \<Rightarrow> c_int list \<Rightarrow> c_int list \<Rightarrow> c_int list \<Rightarrow> c_int \<Rightarrow>
     c_int list \<Rightarrow> c_int list \<Rightarrow> c_int \<Rightarrow> 'd \<Rightarrow> c_int \<times> 'd"
  mvllm_execute_decode_graph :: "handle \<Rightarrow> c_int list \<Rightarrow> c_int list \<Rightarrow> c_int list \<Rightarrow> c_int \<Rightarrow>
     c_int list \<Rightarrow> c_int \<Rightarrow> c_int \<Rightarrow> 'd \<Rightarrow> c_int \<times> 'd"

text \<open>The environment of the constructor: the value of \<open>MINIVLLM_OPS_LIBRARY\<close>, the repository
  root, which paths are files, and what loading one gives.\<close>

record 'd native_env =
  ne_configured :: "string option"
  ne_root :: string
  ne_is_file :: "string \<Rightarrow> bool"
  ne_load :: "string \<Rightarrow> exn + 'd native_ops \<times> 'd"

record 'd cuda_runtime =
  cu_lib :: "'d native_ops"
  cu_state :: 'd
  cu_handle :: handle

section \<open>CudaKernelRuntime\<close>

definition library_candidates :: "'d native_env \<Rightarrow> string list" where
  "library_candidates env =
     (case ne_configured env of None \<Rightarrow> [] | Some path \<Rightarrow> if path = [] then [] else [path]) @
     map (\<lambda>name. ne_root env @ ''/bench/bin/'' @ name)
       [''minivllm_ops.dll'', ''libminivllm_ops.so'', ''libminivllm_ops.dylib'']"

definition cuda_runtime_init ::
    "'d native_env \<Rightarrow> int \<Rightarrow> int \<Rightarrow> int \<Rightarrow> int \<Rightarrow> int \<Rightarrow> int \<Rightarrow> exn + 'd cuda_runtime" where
  "cuda_runtime_init env num_blocks block_sz head_dim device_index max_seqs max_len =
     (case find (ne_is_file env) (library_candidates env) of
        None \<Rightarrow> Inl (RuntimeError (''CUDA backend requested, but the miniVLLM operator library is missing; '' @
                  ''build it with `make native` or set MINIVLLM_OPS_LIBRARY''))
      | Some library_path \<Rightarrow>
          (case ne_load env library_path of
             Inl e \<Rightarrow> Inl e
           | Inr (lib, d) \<Rightarrow>
               (case mvllm_create lib (c_int device_index) (c_int num_blocks) (c_int block_sz)
                       (c_int head_dim) (c_int max_seqs) (c_int max_len) d of
                  (None, d') \<Rightarrow> Inl (RuntimeError ''failed to initialize CUDA KV cache'')
                | (Some h, d') \<Rightarrow> Inr \<lparr>cu_lib = lib, cu_state = d', cu_handle = Some h\<rparr>)))"

text \<open>\<open>_check\<close>, applied to the status and library state a native call returns.\<close>

definition cuda_check ::
    "'d cuda_runtime \<Rightarrow> string \<Rightarrow> c_int \<times> 'd \<Rightarrow> (exn + unit) \<times> 'd cuda_runtime" where
  "cuda_check rt operation r =
     (case r of (status, d) \<Rightarrow>
        (if sint status \<noteq> 0
         then Inl (RuntimeError (''CUDA operator '' @ operation @ '' failed with status '' @ show_int (sint status)))
         else Inr (), rt\<lparr>cu_state := d\<rparr>))"

definition cuda_append_kv ::
    "'d cuda_runtime \<Rightarrow> int list \<Rightarrow> int list \<Rightarrow> (exn + unit) \<times> 'd cuda_runtime" where
  "cuda_append_kv rt token_ids slots =
     cuda_check rt ''append''
       (mvllm_append (cu_lib rt) (cu_handle rt) (c_array token_ids) (c_array slots)
          (c_int (int (length token_ids))) (cu_state rt))"

definition cuda_flash_attention_prefill ::
    "'d cuda_runtime \<Rightarrow> int list \<Rightarrow> (exn + unit) \<times> 'd cuda_runtime" where
  "cuda_flash_attention_prefill rt slots =
     cuda_check rt ''prefill''
       (mvllm_prefill (cu_lib rt) (cu_handle rt) (c_array slots) (c_int (int (length slots))) (cu_state rt))"

definition cuda_paged_decode_attention ::
    "'d cuda_runtime \<Rightarrow> int list \<Rightarrow> int \<Rightarrow> int \<Rightarrow> (exn + unit) \<times> 'd cuda_runtime" where
  "cuda_paged_decode_attention rt table seq_len bsize =
     cuda_check rt ''decode''
       (mvllm_decode (cu_lib rt) (cu_handle rt) (c_array table) (c_int (int (length table)))
          (c_int seq_len) (cu_state rt))"

definition cuda_attention_batch ::
    "'d cuda_runtime \<Rightarrow> gpu_input_batch \<Rightarrow> (exn + unit) \<times> 'd cuda_runtime" where
  "cuda_attention_batch rt b =
     (case py_get (block_tables b) 0 of
        Inl e \<Rightarrow> (Inl e, rt)
      | Inr table \<Rightarrow>
          cuda_check rt ''attention batch''
            (mvllm_attention_batch (cu_lib rt) (cu_handle rt) (c_array (context_slot_mapping b))
               (c_array (map int (context_start_loc b))) (c_array (concat (block_tables b)))
               (c_int (int (length table))) (c_array (seq_lens b))
               (c_array (map of_bool (is_decode b))) (c_int (int (num_requests b))) (cu_state rt)))"

definition cuda_execute_decode_graph ::
    "'d cuda_runtime \<Rightarrow> gpu_input_batch \<Rightarrow> int \<Rightarrow> (exn + unit) \<times> 'd cuda_runtime" where
  "cuda_execute_decode_graph rt b capture_sz =
     (if \<not> bd_uniform_decode (descriptor b)
      then (Inl (ValueError ''CUDA Graph execution requires a uniform decode batch''), rt)
      else (case py_get (block_tables b) 0 of
              Inl e \<Rightarrow> (Inl e, rt)
            | Inr table \<Rightarrow>
                cuda_check rt ''decode graph''
                  (mvllm_execute_decode_graph (cu_lib rt) (cu_handle rt) (c_array (input_ids b))
                     (c_array (slot_mapping b)) (c_array (concat (block_tables b)))
                     (c_int (int (length table))) (c_array (seq_lens b)) (c_int (int (num_requests b)))
                     (c_int capture_sz) (cu_state rt))))"

definition cuda_close :: "'d cuda_runtime \<Rightarrow> 'd cuda_runtime" where
  "cuda_close rt =
     (case cu_handle rt of
        None \<Rightarrow> rt
      | Some h \<Rightarrow> rt\<lparr>cu_state := mvllm_destroy (cu_lib rt) (Some h) (cu_state rt), cu_handle := None\<rparr>)"

section \<open>Choosing the runtime and the runner\<close>

datatype 'd any_runtime = ReferenceRT ref_runtime | CudaRT "'d cuda_runtime"

definition create_kernel_runtime ::
    "'d native_env \<Rightarrow> string \<Rightarrow> int \<Rightarrow> int \<Rightarrow> int \<Rightarrow> int \<Rightarrow> int \<Rightarrow> exn + 'd any_runtime" where
  "create_kernel_runtime env backend num_blocks block_sz device_index max_seqs max_len =
     (if backend = ''cuda''
      then (case cuda_runtime_init env num_blocks block_sz 64 device_index max_seqs max_len of
              Inl e \<Rightarrow> Inl e
            | Inr rt \<Rightarrow> Inr (CudaRT rt))
      else Inr (ReferenceRT (ref_runtime_init 8)))"

text \<open>A method call on a runtime object goes to the method of its class.\<close>

fun on_reference :: "(exn + unit) \<times> ref_runtime \<Rightarrow> (exn + unit) \<times> 'd any_runtime" where
  "on_reference (res, rt) = (res, ReferenceRT rt)"

fun on_cuda :: "(exn + unit) \<times> 'd cuda_runtime \<Rightarrow> (exn + unit) \<times> 'd any_runtime" where
  "on_cuda (res, rt) = (res, CudaRT rt)"

definition any_kernel :: "'d any_runtime kernel_runtime" where
  "any_kernel = \<lparr>
     kr_append_kv = (\<lambda>s ids slots. case s of
         ReferenceRT rt \<Rightarrow> on_reference (append_kv rt ids slots)
       | CudaRT rt \<Rightarrow> on_cuda (cuda_append_kv rt ids slots)),
     kr_flash_attention_prefill = (\<lambda>s slots. case s of
         ReferenceRT rt \<Rightarrow> on_reference (flash_attention_prefill rt slots)
       | CudaRT rt \<Rightarrow> on_cuda (cuda_flash_attention_prefill rt slots)),
     kr_paged_decode_attention = (\<lambda>s table n bs. case s of
         ReferenceRT rt \<Rightarrow> on_reference (paged_decode_attention rt table n bs)
       | CudaRT rt \<Rightarrow> on_cuda (cuda_paged_decode_attention rt table n bs)),
     kr_attention_batch = (\<lambda>s b. case s of
         ReferenceRT rt \<Rightarrow> on_reference (attention_batch rt b)
       | CudaRT rt \<Rightarrow> on_cuda (cuda_attention_batch rt b)),
     kr_execute_decode_graph = Some (\<lambda>s b sz. case s of
         ReferenceRT rt \<Rightarrow> (Inl (AttributeError ''execute_decode_graph''), s)
       | CudaRT rt \<Rightarrow> on_cuda (cuda_execute_decode_graph rt b sz)),
     kr_close = Some (\<lambda>s. case s of ReferenceRT rt \<Rightarrow> s | CudaRT rt \<Rightarrow> CudaRT (cuda_close rt))\<rparr>"

text \<open>\<open>create_model_runner\<close>; the constructor of \<open>LlamaModelRunner\<close> is an argument.\<close>

datatype ('d, 'l) created_runner =
    BootstrapRunner "'d any_runtime model_runner" "'d any_runtime"
  | LlamaRunner "'l model_runner" 'l

definition create_model_runner ::
    "'d native_env \<Rightarrow> (string \<Rightarrow> engine_config \<Rightarrow> exn + 'l model_runner \<times> 'l) \<Rightarrow> engine_config \<Rightarrow>
       exn + ('d, 'l) created_runner" where
  "create_model_runner env llama config =
     (case model_path config of
        Some path \<Rightarrow>
          (case llama path config of Inl e \<Rightarrow> Inl e | Inr (runner, s) \<Rightarrow> Inr (LlamaRunner runner s))
      | None \<Rightarrow>
          (case create_kernel_runtime env (worker_backend config) (num_gpu_blocks config)
                  (block_size config) (data_parallel_rank config) (max_num_seqs config)
                  (max_model_len config) of
             Inl e \<Rightarrow> Inl e
           | Inr runtime \<Rightarrow>
               Inr (BootstrapRunner
                 (if worker_backend config = ''cuda'' then cuda_bootstrap_runner any_kernel
                  else bootstrap_runner any_kernel) runtime)))"

section \<open>Integers at the boundary\<close>

definition fits_c_int :: "int \<Rightarrow> bool" where
  "fits_c_int x \<longleftrightarrow> - (2 ^ 31) \<le> x \<and> x < 2 ^ 31"

lemma sint_c_int: "sint (c_int x) = x \<longleftrightarrow> fits_c_int x"
proof -
  have "sint (c_int x) = signed_take_bit 31 x" by (simp add: c_int_def sint_sbintrunc')
  then show ?thesis
    using signed_take_bit_int_eq_self_iff [of 31 x] by (simp add: fits_c_int_def)
qed

lemma c_array_fits: "map sint (c_array xs) = xs \<longleftrightarrow> list_all fits_c_int xs"
  by (induction xs) (simp_all add: c_array_def sint_c_int)

section \<open>The life of a handle\<close>

lemma cuda_close_idem: "cuda_close (cuda_close rt) = cuda_close rt" "cu_handle (cuda_close rt) = None"
  by (simp_all add: cuda_close_def split: option.split)

lemma cuda_check_frame:
  assumes "cuda_check rt op r = (res, rt')"
  shows "cu_handle rt' = cu_handle rt" "cu_lib rt' = cu_lib rt"
    and "res = Inr () \<longleftrightarrow> sint (fst r) = 0"
  using assms by (auto simp: cuda_check_def split: prod.splits if_splits)

text \<open>A call succeeds because the library returned status zero, or raises with the status; it keeps
  the handle.\<close>

lemma cuda_append_checked:
  assumes "mvllm_append (cu_lib rt) (cu_handle rt) (c_array ids) (c_array slots) (c_int (int (length ids)))
      (cu_state rt) = (status, d)"
  shows "cuda_append_kv rt ids slots =
    (if sint status = 0 then Inr ()
     else Inl (RuntimeError (''CUDA operator append failed with status '' @ show_int (sint status))),
     rt\<lparr>cu_state := d\<rparr>)"
  using assms by (simp add: cuda_append_kv_def cuda_check_def)

end
