(* ===== verification/CudaRounds.thy ===== *)
theory CudaRounds
  imports Rounds CudaRuntime
begin

text \<open>
  What the scheduler plans, seen at the C boundary: with a cache of at most \<open>2 ^ 31\<close> slots, every
  index the CUDA adapter passes to the native library arrives as it is.
\<close>

section \<open>Bounds of a scheduled batch\<close>

lemma scheduled_item_bounds:
  assumes inv: "sched_inv sc" and its: "items_ok sc its" and it: "it \<in> set its"
  defines "cap \<equiv> num_gpu_blocks (sc_config sc) * block_size (sc_config sc)"
  shows "\<forall>x\<in>set (wi_slot_mapping it). 0 \<le> x \<and> x < cap"
    and "\<forall>x\<in>set (wi_block_table it). 0 \<le> x \<and> x < cap"
    and "\<forall>x\<in>set (context_slots (block_size (sc_config sc)) it). 0 \<le> x \<and> x < cap"
    and "0 \<le> wi_seq_len it \<and> wi_seq_len it < cap"
proof -
  note D = sched_inv_butD [OF inv]
  let ?m = "sc_cache_manager sc" and ?c = "sc_config sc"
  have pos: "0 < block_size ?c" "0 < num_gpu_blocks ?c" using D(1) by (simp_all add: valid_config_def)
  show "\<forall>x\<in>set (wi_slot_mapping it). 0 \<le> x \<and> x < cap"
    unfolding cap_def using item_slots_bounded [OF its inv it] by blast
  from its it inv show "\<forall>x\<in>set (wi_block_table it). 0 \<le> x \<and> x < cap"
    and "\<forall>x\<in>set (context_slots (block_size ?c) it). 0 \<le> x \<and> x < cap"
    and "0 \<le> wi_seq_len it \<and> wi_seq_len it < cap"
  proof (atomize (full), cases rule: items_okE)
    case (1 rs bl)
    let ?n = "rs_num_computed_tokens rs + item_count it"
    have sel: "wi_block_table it = map int bl" "wi_seq_len it = int ?n" by (subst 1(7), simp)+
    have b: "int (kv_block_size ?m) = block_size ?c" "int (kv_cap ?m) = num_gpu_blocks ?c"
      using D(3,4) pos by simp_all
    then have cap: "cap = int (kv_cap ?m * kv_block_size ?m)" and bpos: "0 < kv_block_size ?m"
      using pos by (simp_all add: cap_def)
    have "x < kv_cap ?m * kv_block_size ?m" if "x \<in> set bl" for x
      using kv_tbl_bound [OF D(2) 1(3) that] bpos
      by (metis One_nat_def Suc_leI less_le_trans mult.right_neutral mult_le_mono2)
    then have tab: "\<forall>x\<in>set (wi_block_table it). 0 \<le> x \<and> x < cap" unfolding sel cap
      by (auto simp del: of_nat_mult)
    have "context_slots (block_size ?c) it = map (\<lambda>p. int (slot_of (kv_block_size ?m) bl p)) [0..<?n]"
      using item_for_context [OF 1(8) bpos] 1(2,3) b(1) by simp
    moreover have "slot_of (kv_block_size ?m) bl p < kv_cap ?m * kv_block_size ?m" if "p < ?n" for p
      using kv.slot_bound [OF D(2) 1(3), of p] that 1(6) by linarith
    ultimately have ctx: "\<forall>x\<in>set (context_slots (block_size ?c) it). 0 \<le> x \<and> x < cap"
      unfolding cap by (auto simp del: of_nat_mult)
    have "int (length (all_token_ids rs)) < context_limit ?c"
      using D(12) [OF 1(1)] by (simp add: req_ok_def)
    then have "int ?n < cap" using 1(5) by (simp add: context_limit_def cap_def)
    then show "(\<forall>x\<in>set (wi_block_table it). 0 \<le> x \<and> x < cap) \<and>
        (\<forall>x\<in>set (context_slots (block_size ?c) it). 0 \<le> x \<and> x < cap) \<and>
        0 \<le> wi_seq_len it \<and> wi_seq_len it < cap"
      using tab ctx sel(2) by simp
  qed
qed

text \<open>
  C39. No index is altered on its way to the CUDA library.  If the cache has at most \<open>2 ^ 31\<close> slots,
  then for every non-empty round the arrays of slots, context slots, block tables (with their
  \<open>-1\<close> padding) and sequence lengths that the adapter converts to C integers arrive with the values
  the scheduler and the batch builder computed.
\<close>

theorem scheduled_indices_cross_unchanged:
  assumes "sched_inv sc" and "schedule sc = (Inr out, sc')"
    and "num_gpu_blocks (sc_config sc) * block_size (sc_config sc) \<le> 2 ^ 31"
    and "from_worker_batch \<lparr>wb_batch_id = bid, wb_items = schedule_items out\<rparr> (block_size (sc_config sc)) = Inr b"
  shows "\<forall>xs\<in>{slot_mapping b, context_slot_mapping b, concat (block_tables b), seq_lens b}.
    map sint (c_array xs) = xs"
  using assms(1,2)
proof (cases rule: schedule_itemsE)
  case 1
  let ?its = "schedule_items out" and ?c = "sc_config sc"
  let ?cap = "num_gpu_blocks ?c * block_size ?c"
  note B = scheduled_item_bounds [OF 1(2,3), unfolded 1(4)]
  have fit: "fits_c_int x" if "0 \<le> x" "x < ?cap" for x using that assms(3) by (simp add: fits_c_int_def)
  have b: "b = padded_form (block_size ?c) bid ?its"
    using assms(4) by (elim from_worker_batchE) simp
  have "list_all fits_c_int (slot_mapping b)"
    using B(1) fit by (auto simp: b padded_form_def Let_def flat_form_def list_all_iff)
  moreover have "list_all fits_c_int (context_slot_mapping b)"
    using B(3) fit by (auto simp: b padded_form_def Let_def flat_form_def list_all_iff)
  moreover have "list_all fits_c_int (seq_lens b)"
    using B(4) fit by (auto simp: b padded_form_def Let_def flat_form_def list_all_iff)
  moreover have "list_all fits_c_int (concat (block_tables b))"
  proof -
    have "fits_c_int (- 1)" by (simp add: fits_c_int_def)
    then show ?thesis
      using B(2) fit by (auto simp: b padded_form_def Let_def flat_form_def pad_tables_def list_all_iff
          dest!: in_set_takeD)
  qed
  ultimately show ?thesis
    unfolding ball_simps by (simp add: c_array_fits)
qed

theorem scheduled_indices_cross_unchanged_witness:
  "case schedule tiny_arrived of (Inr out, sc') \<Rightarrow>
     (case from_worker_batch \<lparr>wb_batch_id = 1, wb_items = schedule_items out\<rparr> 2 of
        Inr b \<Rightarrow> map sint (c_array (slot_mapping b)) = [0, 1, 2, 3]
      | Inl _ \<Rightarrow> False)
   | _ \<Rightarrow> False"
proof -
  from schedule_ok [OF tiny_arrived_inv] obtain its sc' where
    run: "schedule tiny_arrived = (Inr (schedule_of its), sc')" by metis
  have cfg: "block_size (sc_config tiny_arrived) = 2 \<and> num_gpu_blocks (sc_config tiny_arrived) = 2"
    by code_simp
  have "case schedule tiny_arrived of (Inr out, sc') \<Rightarrow>
     (case from_worker_batch \<lparr>wb_batch_id = 1, wb_items = schedule_items out\<rparr> 2 of
        Inr b \<Rightarrow> slot_mapping b = [0, 1, 2, 3] | Inl _ \<Rightarrow> False) | _ \<Rightarrow> False" by code_simp
  then obtain b where b: "from_worker_batch \<lparr>wb_batch_id = 1, wb_items = schedule_items (schedule_of its)\<rparr>
      (block_size (sc_config tiny_arrived)) = Inr b" "slot_mapping b = [0, 1, 2, 3]"
    unfolding run using cfg by (auto split: sum.splits)
  have "num_gpu_blocks (sc_config tiny_arrived) * block_size (sc_config tiny_arrived) \<le> 2 ^ 31" using cfg by simp
  from scheduled_indices_cross_unchanged [OF tiny_arrived_inv run this b(1)] b cfg show ?thesis
    by (simp add: run)
qed

end
