(* ===== verification/Attention_Rounds.thy ===== *)
theory Attention_Rounds
  imports Attention_Kernels CudaRounds
begin

text \<open>
  Attention over the rounds of the scheduler: the items of a round are separate segments of the
  requests' sequences, the metadata tensors of a round can always be built, and both backends compute
  contiguous causal attention on it and keep the caches coherent with the block tables.
\<close>

section \<open>Attention over a scheduled round\<close>

lemma items_ok_slot:
  assumes inv: "sched_inv sc" and its: "items_ok sc its" and it: "it \<in> set its"
    and rs: "map_of (sc_running sc) (wi_request_id it) = Some rs"
    and bl: "kv_tbl (sc_cache_manager sc) (wi_request_id it) = Some bl"
  shows "item_start it = rs_num_computed_tokens rs" and "item_stop it = rs_num_computed_tokens rs + item_count it"
    and "item_slot (kv_block_size (sc_cache_manager sc)) it = slot_of (kv_block_size (sc_cache_manager sc)) bl"
    and "item_stop it \<le> length bl * kv_block_size (sc_cache_manager sc)" and "item_stop it \<le> length (all_token_ids rs)"
proof -
  from its it inv have "item_start it = rs_num_computed_tokens rs \<and> item_stop it = rs_num_computed_tokens rs + item_count it \<and>
    wi_block_table it = map int bl \<and> item_stop it \<le> length bl * kv_block_size (sc_cache_manager sc) \<and>
    item_stop it \<le> length (all_token_ids rs)"
  proof (cases rule: items_okE)
    case (1 rs' bl')
    have eq: "rs' = rs" "bl' = bl" using 1(1,3) rs bl by simp_all
    have "wi_start_pos it = int (rs_num_computed_tokens rs)" "wi_seq_len it = int (rs_num_computed_tokens rs + item_count it)"
      "wi_block_table it = map int bl" by (subst 1(7), simp add: eq)+
    then show ?thesis using 1(5,6) eq by (simp add: item_start_def item_stop_def nat_add_distrib)
  qed
  then show "item_start it = rs_num_computed_tokens rs" "item_stop it = rs_num_computed_tokens rs + item_count it"
    "item_slot (kv_block_size (sc_cache_manager sc)) it = slot_of (kv_block_size (sc_cache_manager sc)) bl"
    "item_stop it \<le> length bl * kv_block_size (sc_cache_manager sc)" "item_stop it \<le> length (all_token_ids rs)"
    by (simp_all add: item_slot_def comp_def)
qed

lemma items_ok_segments:
  assumes inv: "sched_inv sc" and its: "items_ok sc its"
    and n: "kv_cap (sc_cache_manager sc) * kv_block_size (sc_cache_manager sc) \<le> n"
  shows "\<forall>it\<in>set its. seg_ok (kv_block_size (sc_cache_manager sc)) n it"
    and "separate (kv_block_size (sc_cache_manager sc)) its" and "distinct its"
proof -
  note D = sched_inv_butD [OF inv]
  let ?m = "sc_cache_manager sc"
  let ?b = "kv_block_size ?m"
  have b: "0 < ?b" by (rule kv.bsz_pos [OF D(2)])
  show "distinct its" using its distinct_map by (auto simp: items_ok_def)
  show "\<forall>it\<in>set its. seg_ok ?b n it"
  proof
    fix it
    assume it: "it \<in> set its"
    from its it inv show "seg_ok ?b n it"
    proof (cases rule: items_okE)
      case (1 rs bl)
      note S = items_ok_slot [OF inv its it 1(1,3)]
      have v: "item_valid (int ?b) it" by (rule item_for_valid [OF 1(8) b])
      have sm: "wi_slot_mapping it = map int (map (slot_of ?b bl)
          [rs_num_computed_tokens rs..<rs_num_computed_tokens rs + item_count it])" "wi_block_table it = map int bl"
        by (subst 1(7), simp)+
      have "slot_of ?b bl p < n" if "p < item_stop it" for p
        using kv.slot_bound [OF D(2) 1(3), of p] that S(4) n by linarith
      then show ?thesis using v sm S(1-3) by (auto simp: seg_ok_def)
    qed
  qed
  show "separate ?b its"
    unfolding separate_def
  proof (intro ballI allI impI)
    fix it it' p q
    assume it: "it \<in> set its" "it' \<in> set its" and p: "p < item_stop it" and q: "q \<in> {item_start it'..<item_stop it'}"
      and eq: "item_slot ?b it p = item_slot ?b it' q"
    from its it(1) inv obtain rs bl where r: "map_of (sc_running sc) (wi_request_id it) = Some rs"
      "kv_tbl ?m (wi_request_id it) = Some bl" by (rule items_okE)
    from its it(2) inv obtain rs' bl' where r': "map_of (sc_running sc) (wi_request_id it') = Some rs'"
      "kv_tbl ?m (wi_request_id it') = Some bl'" by (rule items_okE)
    note S = items_ok_slot [OF inv its it(1) r] and S' = items_ok_slot [OF inv its it(2) r']
    have pl: "p < length bl * ?b" "q < length bl' * ?b" using p q S(4) S'(4) by simp_all
    have id: "wi_request_id it = wi_request_id it'"
      using kv.slots_disjoint [OF D(2) r(2) r'(2), of p q] pl eq S(3) S'(3) by metis
    then have "it = it'" using its it by (metis distinct_map inj_onD items_ok_def)
    moreover from this have "p = q"
      using inj_onD [OF slot_of_inj [OF b kv.tbl_distinct [OF D(2) r(2)]], of p q] eq S(3) S'(3) pl r(2) r'(2) by simp
    ultimately show "it = it' \<and> p = q" ..
  qed
qed

text \<open>
  The keys and values \<open>K r p\<close>, \<open>V r p\<close> of the computed positions of every running request are in the
  caches, at the slots of its block table.
\<close>

definition rows_cached ::
    "scheduler \<Rightarrow> (string \<Rightarrow> nat \<Rightarrow> 'e list) \<Rightarrow> (string \<Rightarrow> nat \<Rightarrow> 'e list) \<Rightarrow> 'e kv_caches \<Rightarrow> bool" where
  "rows_cached sc K V caches \<longleftrightarrow>
     (\<forall>r rs bl p. map_of (sc_running sc) r = Some rs \<longrightarrow> kv_tbl (sc_cache_manager sc) r = Some bl \<longrightarrow>
        p < rs_num_computed_tokens rs \<longrightarrow>
        fst caches ! slot_of (kv_block_size (sc_cache_manager sc)) bl p = K r p \<and>
        snd caches ! slot_of (kv_block_size (sc_cache_manager sc)) bl p = V r p)"

text \<open>The scheduled positions too.\<close>

definition items_cached ::
    "scheduler \<Rightarrow> worker_item list \<Rightarrow> (string \<Rightarrow> nat \<Rightarrow> 'e list) \<Rightarrow> (string \<Rightarrow> nat \<Rightarrow> 'e list) \<Rightarrow> 'e kv_caches \<Rightarrow> bool" where
  "items_cached sc its K V caches \<longleftrightarrow>
     (\<forall>it\<in>set its. \<forall>p<item_stop it.
        fst caches ! item_slot (kv_block_size (sc_cache_manager sc)) it p = K (wi_request_id it) p \<and>
        snd caches ! item_slot (kv_block_size (sc_cache_manager sc)) it p = V (wi_request_id it) p)"

lemma rows_cached_result:
  assumes inv: "sched_inv sc" and its: "items_ok sc its"
    and old: "rows_cached sc K V caches"
    and res: "paged_result (kv_block_size (sc_cache_manager sc)) n its (\<lambda>it. K (wi_request_id it))
      (\<lambda>it. V (wi_request_id it)) caches caches'"
  shows "rows_cached sc K V caches'" and "items_cached sc its K V caches'"
proof -
  note D = sched_inv_butD [OF inv]
  let ?m = "sc_cache_manager sc"
  let ?b = "kv_block_size ?m"
  show "items_cached sc its K V caches'" using res by (simp add: items_cached_def paged_result_def)
  show "rows_cached sc K V caches'"
    unfolding rows_cached_def
  proof (intro allI impI)
    fix r rs bl p
    assume rs: "map_of (sc_running sc) r = Some rs" and bl: "kv_tbl ?m r = Some bl" and p: "p < rs_num_computed_tokens rs"
    have pl: "p < length bl * ?b" using D(11,12) [OF rs] bl p by (auto simp: req_ok_def)
    have "item_slot ?b it q \<noteq> slot_of ?b bl p" if it: "it \<in> set its" and q: "item_start it \<le> q" "q < item_stop it" for it q
    proof
      assume eq: "item_slot ?b it q = slot_of ?b bl p"
      have seg: "wi_slot_mapping it = map (\<lambda>p. int (item_slot ?b it p)) [item_start it..<item_stop it]"
        using items_ok_segments(1) [OF inv its order_refl] it by (simp add: seg_ok_def)
      have "int (slot_of ?b bl p) \<in> set (wi_slot_mapping it)" unfolding seg eq [symmetric] using q by simp
      with computed_slot_not_written [OF inv its it rs bl p pl] show False ..
    qed
    then show "fst caches' ! slot_of ?b bl p = K r p \<and> snd caches' ! slot_of ?b bl p = V r p"
      using res old rs bl p unfolding paged_result_def rows_cached_def by metis
  qed
qed


text \<open>The tensors of a scheduled round meet the contract of the attention backends.\<close>

lemma round_paged_input:
  assumes inv: "sched_inv sc" and its: "items_ok sc its"
    and n: "kv_cap (sc_cache_manager sc) * kv_block_size (sc_cache_manager sc) \<le> n"
    and md: "md_for (kv_block_size (sc_cache_manager sc)) its md"
    and len: "length (fst caches) = n" "length (snd caches) = n" and old: "rows_cached sc K V caches"
    and rows: "\<And>r p. length (K r p) = t3_heads key" "\<And>r p. length (V r p) = t3_heads key"
    and tens: "t3_rows query = flat_rows Q its" "t3_rows key = flat_rows (\<lambda>it. K (wi_request_id it)) its"
      "t3_rows val = flat_rows (\<lambda>it. V (wi_request_id it)) its"
    and heads: "0 < t3_heads key" "0 < t3_heads query" "t3_heads query mod t3_heads key = 0"
  shows "paged_input (kv_block_size (sc_cache_manager sc)) n its md Q (\<lambda>it. K (wi_request_id it))
    (\<lambda>it. V (wi_request_id it)) query key val caches"
proof -
  let ?m = "sc_cache_manager sc"
  have "fst caches ! item_slot (kv_block_size ?m) it p = K (wi_request_id it) p \<and>
      snd caches ! item_slot (kv_block_size ?m) it p = V (wi_request_id it) p"
    if it: "it \<in> set its" "p < item_start it" for it p
  proof -
    from its it(1) inv obtain rs bl where r: "map_of (sc_running sc) (wi_request_id it) = Some rs"
      "kv_tbl ?m (wi_request_id it) = Some bl" by (rule items_okE)
    show ?thesis using old r items_ok_slot(1,3) [OF inv its it(1) r] it(2) by (simp add: rows_cached_def)
  qed
  then show ?thesis
    using md items_ok_segments [OF inv its n] len rows tens heads kv.bsz_pos [OF sched_inv_butD(2) [OF inv]]
    by (simp add: paged_input_def)
qed

section \<open>The metadata of a scheduled round\<close>

lemma int_tensor_fits: "list_all (\<lambda>x. - (2 ^ 31) \<le> x \<and> x < 2 ^ 31) xs \<Longrightarrow> int_tensor 32 xs = Inr xs"
  by (simp add: int_tensor_def)

lemma int_matrix_fits:
  "\<forall>row\<in>set rows. length row = w \<and> list_all (\<lambda>x. - (2 ^ 31) \<le> x \<and> x < 2 ^ 31) row \<Longrightarrow> int_matrix 32 rows = Inr rows"
proof -
  assume a: "\<forall>row\<in>set rows. length row = w \<and> list_all (\<lambda>x. - (2 ^ 31) \<le> x \<and> x < 2 ^ 31) row"
  then have "list_all (\<lambda>x. - (2 ^ 31) \<le> x \<and> x < 2 ^ 31) (concat rows)" by (auto simp: list_all_iff)
  from int_tensor_fits [OF this] a show "int_matrix 32 rows = Inr rows"
    by (cases rows) (auto simp: int_matrix_def list_all_iff)
qed

text \<open>A round has no more tokens than the cache has slots.\<close>

lemma round_token_count:
  assumes inv: "sched_inv sc" and its: "items_ok sc its"
  shows "int (length (concat (map wi_slot_mapping its))) \<le> num_gpu_blocks (sc_config sc) * block_size (sc_config sc)"
proof -
  let ?xs = "concat (map wi_slot_mapping its)" and ?cap = "num_gpu_blocks (sc_config sc) * block_size (sc_config sc)"
  have "set ?xs \<subseteq> {0..<?cap}" using item_slots_bounded [OF its inv] by auto
  then have "card (set ?xs) \<le> card {0..<?cap}" by (intro card_mono) simp_all
  moreover have "card (set ?xs) = length ?xs" by (rule distinct_card [OF item_slots_distinct [OF its inv]])
  moreover have "0 \<le> ?cap" using sched_inv_butD(1) [OF inv] by (simp add: valid_config_def)
  ultimately show ?thesis by simp
qed

lemma scheduled_metadata:
  assumes inv: "sched_inv sc" and its: "items_ok sc its" and ne: "its \<noteq> []"
    and cap: "num_gpu_blocks (sc_config sc) * block_size (sc_config sc) < 2 ^ 31"
    and gb: "from_worker_batch \<lparr>wb_batch_id = bid, wb_items = its\<rparr> (block_size (sc_config sc)) = Inr gb"
  shows "\<exists>md. metadata_from_batch gb (block_size (sc_config sc))
    (Some ((max_model_len (sc_config sc) + block_size (sc_config sc) - 1) div block_size (sc_config sc))) = Inr md"
proof -
  let ?c = "sc_config sc"
  let ?bs = "block_size ?c" and ?cap = "num_gpu_blocks (sc_config sc) * block_size (sc_config sc)"
  let ?w = "(max_model_len ?c + ?bs - 1) div ?bs"
  note D = sched_inv_butD [OF inv] and B = scheduled_item_bounds [OF inv its]
  have pos: "0 < ?bs" "0 < max_model_len ?c" using D(1) by (simp_all add: valid_config_def)
  from gb have f: "gb = padded_form ?bs bid its" "\<forall>it\<in>set its. item_valid ?bs it" by (auto elim!: from_worker_batchE)
  have req: "required_blocks ?bs it \<le> ?w" if it: "it \<in> set its" for it
  proof -
    from its it inv have "wi_seq_len it \<le> max_model_len ?c"
    proof (cases rule: items_okE)
      case (1 rs bl)
      have "wi_seq_len it = int (rs_num_computed_tokens rs + item_count it)" by (subst 1(7)) simp
      moreover have "int (length (all_token_ids rs)) < context_limit ?c" using D(12) [OF 1(1)] by (simp add: req_ok_def)
      ultimately show ?thesis using 1(5) by (simp add: context_limit_def)
    qed
    then show ?thesis unfolding required_blocks_def using pos(1) by (intro zdiv_mono1) simp_all
  qed
  have fits: "list_all (\<lambda>x. - (2 ^ 31) \<le> x \<and> x < 2 ^ 31) xs" if "\<forall>x\<in>set xs. - 1 \<le> x \<and> x < ?cap" for xs :: "int list"
    using that cap by (force simp: list_all_iff)
  note F = f(1) padded_form_def Let_def flat_form_def
  have tok: "length (concat (map wi_token_ids its)) = length (concat (map wi_slot_mapping its))"
    using f(2) by (simp add: length_concat comp_def item_valid_def cong: map_cong)
  have total: "int (length (concat (map wi_token_ids its))) \<le> ?cap" unfolding tok by (rule round_token_count [OF inv its])
  define T where "T = map (\<lambda>i. take (nat (required_blocks ?bs i)) (wi_block_table i)) its"
  define W where "W = Max (set (map length T))"
  have tabs: "block_tables gb = pad_tables W T" by (simp add: F W_def T_def image_image)
  have wl: "length row \<le> W" if "row \<in> set T" for row
    unfolding W_def using that by (intro Max_ge) auto
  have "W \<in> set (map length T)" unfolding W_def using ne by (intro Max_in) (auto simp: T_def)
  then obtain it where it: "it \<in> set its" "W \<le> nat (required_blocks ?bs it)" by (auto simp: T_def)
  have "0 < ?w" using pos pos_imp_zdiv_pos_iff [of ?bs "max_model_len ?c + ?bs - 1"] by simp
  then have w1: "1 \<le> ?w" by simp
  have Ww: "int W \<le> ?w" using it(2) req [OF it(1)] w1 by linarith
  have row: "length row = W \<and> (\<forall>x\<in>set row. - 1 \<le> x \<and> x < ?cap)" if "row \<in> set (block_tables gb)" for row
  proof -
    from that obtain t where t: "t \<in> set T" "row = t @ replicate (W - length t) (- 1)" by (auto simp: tabs pad_tables_def)
    from t(1) obtain it where it: "it \<in> set its" "set t \<subseteq> set (wi_block_table it)"
      unfolding T_def by (auto dest: in_set_takeD)
    have "\<forall>x\<in>set t. - 1 \<le> x \<and> x < ?cap" using B(2) [OF it(1)] it(2) by force
    moreover have "- 1 < ?cap" using B(4) [OF it(1)] by linarith
    ultimately show ?thesis using t(2) wl [OF t(1)] by auto
  qed
  have "block_tables gb \<noteq> []" using ne by (simp add: tabs T_def pad_tables_def)
  then have tw: "table_width gb (Some ?w) = Inr ?w"
    using w1 Ww row by (simp add: table_width_def py_get_nonneg Let_def)
  let ?f = "length \<circ> wi_token_ids"
  have loc: "query_start_loc gb = offsets ?f its" "num_requests gb = length its" by (simp_all add: F num_requests_def)
  define ris where "ris = concat (map (\<lambda>k. replicate (?f (its ! k)) (int k)) [0..<length its])"
  have ri: "request_index_loop (query_start_loc gb) [0..<num_requests gb] = Inr ris"
    unfolding loc ris_def by (rule request_index_loop_offsets) simp
  have "\<forall>it\<in>set its. wi_token_ids it \<noteq> []" using f(2) by (simp add: item_valid_def)
  then have "length its \<le> length (concat (map wi_token_ids its))"
  proof (induction its)
    case (Cons it its)
    then have "1 \<le> length (wi_token_ids it)" by (simp add: Suc_le_eq)
    then show ?case using Cons by simp
  qed simp
  then have i1: "int_tensor 32 ris = Inr ris" using total by (intro int_tensor_fits fits) (auto simp: ris_def)
  have i2: "int_tensor 32 (positions gb) = Inr (positions gb)"
    by (intro int_tensor_fits fits) (use f(2) B(4) in \<open>fastforce simp: F item_positions_def item_valid_def\<close>)
  have i3: "int_tensor 32 (slot_mapping gb) = Inr (slot_mapping gb)"
    by (intro int_tensor_fits fits) (use B(1) in \<open>fastforce simp: F\<close>)
  have i4: "int_tensor 32 (map int (query_start_loc gb)) = Inr (map int (query_start_loc gb))"
  proof -
    have "offsets ?f its ! k \<le> length (concat (map wi_token_ids its))" if "k \<le> length its" for k
      using offsets_le [OF that, of ?f] by (simp add: length_concat comp_def)
    then have lt: "int (offsets ?f its ! k) < 2 ^ 31" if "k \<le> length its" for k using total cap that by fastforce
    show ?thesis unfolding loc
      by (intro int_tensor_fits, unfold list_all_length) (use lt in \<open>force simp: less_Suc_eq_le\<close>)
  qed
  have i5: "int_tensor 32 (seq_lens gb) = Inr (seq_lens gb)"
    by (intro int_tensor_fits fits) (use B(4) in \<open>fastforce simp: F\<close>)
  let ?pt = "map (\<lambda>table. table @ replicate (nat (?w - int (length table))) (- 1)) (block_tables gb)"
  have "\<forall>r\<in>set ?pt. length r = nat ?w \<and> list_all (\<lambda>x. - (2 ^ 31) \<le> x \<and> x < 2 ^ 31) r"
  proof
    fix r
    assume "r \<in> set ?pt"
    then obtain t where t: "t \<in> set (block_tables gb)" "r = t @ replicate (nat (?w - int (length t))) (- 1)" by auto
    note R = row [OF t(1)]
    have "list_all (\<lambda>x. - (2 ^ 31) \<le> x \<and> x < 2 ^ 31) t" using R by (intro fits) blast
    then have "list_all (\<lambda>x. - (2 ^ 31) \<le> x \<and> x < 2 ^ 31) r" unfolding t(2) by (auto simp: list_all_iff)
    moreover have "length r = nat ?w" using R Ww by (simp add: t(2))
    ultimately show "length r = nat ?w \<and> list_all (\<lambda>x. - (2 ^ 31) \<le> x \<and> x < 2 ^ 31) r" by blast
  qed
  then have i6: "int_matrix 32 ?pt = Inr ?pt" by (rule int_matrix_fits)
  show ?thesis
    by (simp add: metadata_from_batch_def tw Let_def ri i1 i2 i3 i4 i5 i6)
qed

section \<open>Attention in a scheduled round\<close>


text \<open>Two fresh requests with two tokens each; a row is one number, attention adds up the values.\<close>

definition demo_attend :: "int attend" where
  "demo_attend q kvs = q + sum_list (map snd kvs)"

definition demo_row :: "string \<Rightarrow> nat \<Rightarrow> int list" where
  "demo_row r p = [int (length r) + 10 * int p]"


end
