(* ===== verification/Llama_Exact.thy ===== *)
theory Llama_Exact
  imports Llama Attention_Rounds
begin

text \<open>
  The batched forward pass, with paged caches and chunked prompts, computes for every scheduled token
  the logits of a reference that runs the layers over the tokens of the request alone, from position
  zero and without a cache.
\<close>

section \<open>The reference: one request at a time, without a cache\<close>

text \<open>The rows a layer computes from the hidden state \<open>x\<close> of a token at position \<open>p\<close>.\<close>

definition query_row :: "'w torch_fns \<Rightarrow> llama_shape \<Rightarrow> 'w decoder_layer \<Rightarrow> nat \<Rightarrow> vec \<Rightarrow> vec list" where
  "query_row T sh l p x = map (rotate_vector (ls_theta sh) (ls_head_dim sh) (int p))
     (view_heads (ls_heads sh) (ls_head_dim sh) (linear_forward T (la_q_proj (dl_self_attn l))
        (rms_norm_forward T (dl_input_layernorm l) x)))"

definition key_row :: "'w torch_fns \<Rightarrow> llama_shape \<Rightarrow> 'w decoder_layer \<Rightarrow> nat \<Rightarrow> vec \<Rightarrow> vec list" where
  "key_row T sh l p x = map (rotate_vector (ls_theta sh) (ls_head_dim sh) (int p))
     (view_heads (ls_kv_heads sh) (ls_head_dim sh) (linear_forward T (la_k_proj (dl_self_attn l))
        (rms_norm_forward T (dl_input_layernorm l) x)))"

definition value_row :: "'w torch_fns \<Rightarrow> llama_shape \<Rightarrow> 'w decoder_layer \<Rightarrow> vec \<Rightarrow> vec list" where
  "value_row T sh l x = view_heads (ls_kv_heads sh) (ls_head_dim sh) (linear_forward T (la_v_proj (dl_self_attn l))
     (rms_norm_forward T (dl_input_layernorm l) x))"

text \<open>The hidden state of position \<open>p\<close> after a layer, from the hidden states \<open>hs\<close> before it.\<close>

definition layer_state ::
    "'w torch_fns \<Rightarrow> llama_shape \<Rightarrow> 'w decoder_layer \<Rightarrow> (nat \<Rightarrow> vec) \<Rightarrow> nat \<Rightarrow> vec" where
  "layer_state T sh l hs p =
     (let attention = causal_row (tf_attend T) (ls_heads sh) (ls_heads sh div ls_kv_heads sh)
            (\<lambda>j. key_row T sh l j (hs j)) (\<lambda>j. value_row T sh l (hs j)) (query_row T sh l p (hs p)) p;
          hidden1 = map2 (+) (hs p) (linear_forward T (la_o_proj (dl_self_attn l)) (concat attention))
      in map2 (+) hidden1 (mlp_forward T (dl_mlp l) (rms_norm_forward T (dl_post_attention_layernorm l) hidden1)))"

fun layers_state :: "'w torch_fns \<Rightarrow> llama_shape \<Rightarrow> 'w decoder_layer list \<Rightarrow> (nat \<Rightarrow> vec) \<Rightarrow> nat \<Rightarrow> vec" where
  "layers_state T sh [] hs = hs"
| "layers_state T sh (l # ls) hs = layers_state T sh ls (layer_state T sh l hs)"

definition embedded :: "'w torch_fns \<Rightarrow> 'w llama_model \<Rightarrow> int list \<Rightarrow> nat \<Rightarrow> vec" where
  "embedded T model tokens p =
     (case tf_embedding T (lm_embed_tokens model) (tokens ! p) of Inl e \<Rightarrow> [] | Inr x \<Rightarrow> x)"

definition reference_logits :: "'w torch_fns \<Rightarrow> llama_shape \<Rightarrow> 'w llama_model \<Rightarrow> int list \<Rightarrow> nat \<Rightarrow> vec" where
  "reference_logits T sh model tokens p =
     linear_forward T (lm_lm_head model) (rms_norm_forward T (lm_norm model)
       (layers_state T sh (lm_layers model) (embedded T model tokens) p))"

text \<open>A position depends on the earlier ones only.\<close>

lemma layer_state_cong:
  assumes "\<And>j. j \<le> p \<Longrightarrow> hs j = hs' j"
  shows "layer_state T sh l hs p = layer_state T sh l hs' p"
proof -
  have "causal_row a h g (\<lambda>j. key_row T sh l j (hs j)) (\<lambda>j. value_row T sh l (hs j)) q p =
      causal_row a h g (\<lambda>j. key_row T sh l j (hs' j)) (\<lambda>j. value_row T sh l (hs' j)) q p" for a h g q
    by (rule causal_row_cong) (simp add: assms)
  moreover have "hs p = hs' p" by (simp add: assms)
  ultimately show ?thesis by (simp only: layer_state_def)
qed

lemma layers_state_cong:
  "(\<And>j. j \<le> p \<Longrightarrow> hs j = hs' j) \<Longrightarrow> layers_state T sh ls hs p = layers_state T sh ls hs' p"
proof (induction ls arbitrary: hs hs')
  case (Cons l ls)
  have "layer_state T sh l hs j = layer_state T sh l hs' j" if "j \<le> p" for j
    by (rule layer_state_cong) (use that Cons.prems in simp)
  then show ?case unfolding layers_state.simps by (rule Cons.IH)
qed simp

section \<open>One layer over a batch\<close>

text \<open>The shapes the constructor of the runner accepts for the kernels.\<close>

definition shape_ok :: "llama_shape \<Rightarrow> bool" where
  "shape_ok sh \<longleftrightarrow> 0 < ls_kv_heads sh \<and> 0 < ls_heads sh \<and> ls_heads sh mod ls_kv_heads sh = 0 \<and>
     even (ls_head_dim sh) \<and> ls_head_dim sh \<le> 256"

lemma flat_rows_map2: "map2 g (flat_rows f its) (flat_rows h its) = flat_rows (\<lambda>it p. g (f it p) (h it p)) its"
  by (simp add: flat_rows_zip flat_rows_map)

lemma decoder_layer_exact:
  fixes T :: "'w torch_fns" and hs :: "worker_item \<Rightarrow> nat \<Rightarrow> vec"
  assumes sh: "shape_ok sh"
    and inp: "\<And>query key val. t3_heads query = ls_heads sh \<Longrightarrow> t3_heads key = ls_kv_heads sh \<Longrightarrow>
      t3_rows query = flat_rows (\<lambda>it p. query_row T sh l p (hs it p)) its \<Longrightarrow>
      t3_rows key = flat_rows (\<lambda>it p. key_row T sh l p (hs it p)) its \<Longrightarrow>
      t3_rows val = flat_rows (\<lambda>it p. value_row T sh l (hs it p)) its \<Longrightarrow>
      paged_input b n its md (\<lambda>it p. query_row T sh l p (hs it p)) (\<lambda>it p. key_row T sh l p (hs it p))
        (\<lambda>it p. value_row T sh l (hs it p)) query key val caches"
    and pos: "pos = flat_rows (\<lambda>it. int) its"
  shows "\<exists>caches'. decoder_layer_forward T sh backend pos md l (flat_rows hs its) caches =
      (Inr (flat_rows (\<lambda>it. layer_state T sh l (hs it)) its), caches') \<and>
      paged_result b n its (\<lambda>it p. key_row T sh l p (hs it p)) (\<lambda>it p. value_row T sh l (hs it p)) caches caches'"
proof -
  let ?norm = "rms_norm_forward T (dl_input_layernorm l)" and ?att = "dl_self_attn l"
  let ?Q = "\<lambda>it p. query_row T sh l p (hs it p)" and ?K = "\<lambda>it p. key_row T sh l p (hs it p)"
    and ?V = "\<lambda>it p. value_row T sh l (hs it p)"
  let ?q = "\<lparr>t3_heads = ls_heads sh, t3_dim = ls_head_dim sh, t3_rows = flat_rows ?Q its\<rparr>"
    and ?k = "\<lparr>t3_heads = ls_kv_heads sh, t3_dim = ls_head_dim sh, t3_rows = flat_rows ?K its\<rparr>"
    and ?v = "\<lparr>t3_heads = ls_kv_heads sh, t3_dim = ls_head_dim sh, t3_rows = flat_rows ?V its\<rparr>"
  have "paged_input b n its md ?Q ?K ?V ?q ?k ?v caches" by (rule inp) simp_all
  moreover have "t3_dim ?q \<le> 256" using sh by (simp add: shape_ok_def)
  ultimately obtain caches' where
    f: "backend_forward backend (tf_attend T) zeros_like ?q ?k ?v md caches =
      (Inr (flat_rows (\<lambda>it p. causal_row (tf_attend T) (ls_heads sh) (ls_heads sh div ls_kv_heads sh)
         (?K it) (?V it) (?Q it p) p) its), caches')"
    and r: "paged_result b n its ?K ?V caches caches'"
    using backend.paged [of b n its md ?Q ?K ?V ?q ?k ?v caches backend "tf_attend T" zeros_like] by auto
  have rot: "apply_rotary_embedding
      \<lparr>t3_heads = ls_heads sh, t3_dim = ls_head_dim sh, t3_rows = map (\<lambda>x. view_heads (ls_heads sh) (ls_head_dim sh)
         (linear_forward T (la_q_proj ?att) x)) (map ?norm (flat_rows hs its))\<rparr>
      \<lparr>t3_heads = ls_kv_heads sh, t3_dim = ls_head_dim sh, t3_rows = map (\<lambda>x. view_heads (ls_kv_heads sh) (ls_head_dim sh)
         (linear_forward T (la_k_proj ?att) x)) (map ?norm (flat_rows hs its))\<rparr> pos (ls_theta sh) = Inr (?q, ?k)"
    using sh unfolding apply_rotary_embedding_def Let_def pos shape_ok_def
    by (simp add: flat_rows_map flat_rows_map2 query_row_def key_row_def even_iff_mod_2_eq_zero)
  have vrows: "map (\<lambda>x. view_heads (ls_kv_heads sh) (ls_head_dim sh) (linear_forward T (la_v_proj ?att) x))
      (map ?norm (flat_rows hs its)) = flat_rows ?V its"
    by (simp only: flat_rows_map value_row_def)
  have "attention_forward T sh backend ?att pos md (map ?norm (flat_rows hs its)) caches =
      (Inr (flat_rows (\<lambda>it p. linear_forward T (la_o_proj ?att) (concat (causal_row (tf_attend T) (ls_heads sh)
         (ls_heads sh div ls_kv_heads sh) (?K it) (?V it) (?Q it p) p))) its), caches')"
    unfolding attention_forward_def Let_def rot vrows by (simp add: f flat_rows_map)
  then have "decoder_layer_forward T sh backend pos md l (flat_rows hs its) caches =
      (Inr (flat_rows (\<lambda>it. layer_state T sh l (hs it)) its), caches')"
    by (simp add: decoder_layer_forward_def flat_rows_map flat_rows_map2 layer_state_def [abs_def] Let_def)
  then show ?thesis using r by blast
qed

section \<open>All layers over a scheduled round\<close>

text \<open>A property of the keys, the values and the caches of every layer, along the hidden states.\<close>

fun each_layer ::
    "'w torch_fns \<Rightarrow> llama_shape \<Rightarrow>
       ((string \<Rightarrow> nat \<Rightarrow> vec list) \<Rightarrow> (string \<Rightarrow> nat \<Rightarrow> vec list) \<Rightarrow> vec kv_caches \<Rightarrow> bool) \<Rightarrow>
       'w decoder_layer list \<Rightarrow> (string \<Rightarrow> nat \<Rightarrow> vec) \<Rightarrow> vec kv_caches list \<Rightarrow> bool" where
  "each_layer T sh P [] hs cs = True"
| "each_layer T sh P (l # ls) hs [] = False"
| "each_layer T sh P (l # ls) hs (c # cs) =
     (P (\<lambda>r p. key_row T sh l p (hs r p)) (\<lambda>r p. value_row T sh l (hs r p)) c \<and>
      each_layer T sh P ls (\<lambda>r. layer_state T sh l (hs r)) cs)"

definition cached_upto :: "scheduler \<Rightarrow> nat \<Rightarrow> (string \<Rightarrow> nat \<Rightarrow> 'e list) \<Rightarrow> (string \<Rightarrow> nat \<Rightarrow> 'e list) \<Rightarrow> 'e kv_caches \<Rightarrow> bool" where
  "cached_upto sc n K V c \<longleftrightarrow> length (fst c) = n \<and> length (snd c) = n \<and> rows_cached sc K V c"

lemma layers_exact:
  assumes inv: "sched_inv sc" and its: "items_ok sc its"
    and n: "kv_cap (sc_cache_manager sc) * kv_block_size (sc_cache_manager sc) \<le> n"
    and md: "md_for (kv_block_size (sc_cache_manager sc)) its md" and pos: "pos = flat_rows (\<lambda>it. int) its"
    and sh: "shape_ok sh"
  shows "each_layer T sh (cached_upto sc n) ls hs cs \<Longrightarrow>
    \<exists>cs'. layers_forward T sh backend pos md ls (flat_rows (\<lambda>it. hs (wi_request_id it)) its) cs =
        (Inr (flat_rows (\<lambda>it. layers_state T sh ls (hs (wi_request_id it))) its), cs') \<and>
      each_layer T sh (cached_upto sc n) ls hs cs' \<and> each_layer T sh (items_cached sc its) ls hs cs'"
proof (induction ls arbitrary: hs cs)
  case (Cons l ls)
  let ?b = "kv_block_size (sc_cache_manager sc)"
  obtain c cs0 where cs: "cs = c # cs0" using Cons.prems by (cases cs) simp_all
  let ?K = "\<lambda>r p. key_row T sh l p (hs r p)" and ?V = "\<lambda>r p. value_row T sh l (hs r p)"
  have c0: "cached_upto sc n ?K ?V c"
    and rest: "each_layer T sh (cached_upto sc n) ls (\<lambda>r. layer_state T sh l (hs r)) cs0"
    using Cons.prems cs by simp_all
  have c: "length (fst c) = n" "length (snd c) = n" "rows_cached sc ?K ?V c"
    using c0 by (simp_all add: cached_upto_def)
  have "\<exists>c'. decoder_layer_forward T sh backend pos md l (flat_rows (\<lambda>it. hs (wi_request_id it)) its) c =
      (Inr (flat_rows (\<lambda>it. layer_state T sh l (hs (wi_request_id it))) its), c') \<and>
      paged_result ?b n its (\<lambda>it p. key_row T sh l p (hs (wi_request_id it) p))
        (\<lambda>it p. value_row T sh l (hs (wi_request_id it) p)) c c'"
  proof (rule decoder_layer_exact [OF sh _ pos])
    fix query key val :: "vec tensor3"
    assume "t3_heads query = ls_heads sh" "t3_heads key = ls_kv_heads sh"
      "t3_rows query = flat_rows (\<lambda>it p. query_row T sh l p (hs (wi_request_id it) p)) its"
      "t3_rows key = flat_rows (\<lambda>it p. key_row T sh l p (hs (wi_request_id it) p)) its"
      "t3_rows val = flat_rows (\<lambda>it p. value_row T sh l (hs (wi_request_id it) p)) its"
    then show "paged_input ?b n its md (\<lambda>it p. query_row T sh l p (hs (wi_request_id it) p))
        (\<lambda>it p. key_row T sh l p (hs (wi_request_id it) p)) (\<lambda>it p. value_row T sh l (hs (wi_request_id it) p))
        query key val c"
      using sh by (intro round_paged_input [OF inv its n md c])
        (simp_all add: shape_ok_def key_row_def value_row_def view_heads_def)
  qed
  then obtain c' where
    f: "decoder_layer_forward T sh backend pos md l (flat_rows (\<lambda>it. hs (wi_request_id it)) its) c =
      (Inr (flat_rows (\<lambda>it. layer_state T sh l (hs (wi_request_id it))) its), c')"
    and r: "paged_result ?b n its (\<lambda>it p. key_row T sh l p (hs (wi_request_id it) p))
        (\<lambda>it p. value_row T sh l (hs (wi_request_id it) p)) c c'" by blast
  have c': "cached_upto sc n ?K ?V c'" "items_cached sc its ?K ?V c'"
    using rows_cached_result [OF inv its c(3) r] r by (simp_all add: cached_upto_def paged_result_def)
  from Cons.IH [OF rest] obtain cs' where
    "layers_forward T sh backend pos md ls (flat_rows (\<lambda>it. layer_state T sh l (hs (wi_request_id it))) its) cs0 =
        (Inr (flat_rows (\<lambda>it. layers_state T sh ls (layer_state T sh l (hs (wi_request_id it)))) its), cs')"
    "each_layer T sh (cached_upto sc n) ls (\<lambda>r. layer_state T sh l (hs r)) cs'"
    "each_layer T sh (items_cached sc its) ls (\<lambda>r. layer_state T sh l (hs r)) cs'" by blast
  then show ?case using f c' cs by (intro exI [of _ "c' # cs'"]) simp
qed simp

section \<open>The model over a scheduled round\<close>

definition tokens_of :: "scheduler \<Rightarrow> string \<Rightarrow> int list" where
  "tokens_of sc r = (case map_of (sc_running sc) r of None \<Rightarrow> [] | Some rs \<Rightarrow> all_token_ids rs)"

text \<open>Every token fits a 64-bit integer and has an embedding.\<close>

definition known_tokens :: "'w torch_fns \<Rightarrow> 'w llama_model \<Rightarrow> int list \<Rightarrow> bool" where
  "known_tokens T model ts \<longleftrightarrow> (\<forall>t\<in>set ts. - (2 ^ 63) \<le> t \<and> t < 2 ^ 63 \<and>
     (\<exists>x. tf_embedding T (lm_embed_tokens model) t = Inr x))"

lemma embed_loop_map:
  "\<forall>t\<in>set ts. \<exists>x. tf_embedding T w t = Inr x \<Longrightarrow>
     embed_loop T w ts = Inr (map (\<lambda>t. case tf_embedding T w t of Inl e \<Rightarrow> [] | Inr x \<Rightarrow> x) ts)"
  by (induction ts) auto

lemma item_tokens:
  assumes inv: "sched_inv sc" and its: "items_ok sc its" and it: "it \<in> set its"
  shows "wi_token_ids it = map (\<lambda>p. tokens_of sc (wi_request_id it) ! p) [item_start it..<item_stop it]"
    and "item_stop it \<le> length (tokens_of sc (wi_request_id it))"
proof -
  from its it inv obtain rs bl where r: "map_of (sc_running sc) (wi_request_id it) = Some rs"
    "kv_tbl (sc_cache_manager sc) (wi_request_id it) = Some bl"
    "it = make_item rs (rs_num_computed_tokens rs) (rs_num_computed_tokens rs + item_count it)
            (map (slot_of (kv_block_size (sc_cache_manager sc)) bl)
               [rs_num_computed_tokens rs..<rs_num_computed_tokens rs + item_count it]) bl" by (rule items_okE)
  note S = items_ok_slot [OF inv its it r(1,2)]
  show "item_stop it \<le> length (tokens_of sc (wi_request_id it))" using S(5) r(1) by (simp add: tokens_of_def)
  have "wi_token_ids it = take (item_count it) (drop (rs_num_computed_tokens rs) (all_token_ids rs))"
    by (subst r(3)) simp
  moreover have "\<dots> = map (\<lambda>p. all_token_ids rs ! p) [item_start it..<item_stop it]"
    using S(1,2,5) by (intro nth_equalityI) simp_all
  ultimately show "wi_token_ids it = map (\<lambda>p. tokens_of sc (wi_request_id it) ! p) [item_start it..<item_stop it]"
    using r(1) by (simp add: tokens_of_def)
qed

text \<open>The keys and values of the computed tokens are in the caches of every layer.\<close>

definition llama_cached :: "'w torch_fns \<Rightarrow> llama_shape \<Rightarrow> 'w llama_model \<Rightarrow> scheduler \<Rightarrow> nat \<Rightarrow> vec kv_caches list \<Rightarrow> bool" where
  "llama_cached T sh model sc n cs \<longleftrightarrow>
     each_layer T sh (cached_upto sc n) (lm_layers model) (\<lambda>r. embedded T model (tokens_of sc r)) cs"

definition llama_cached_items ::
    "'w torch_fns \<Rightarrow> llama_shape \<Rightarrow> 'w llama_model \<Rightarrow> scheduler \<Rightarrow> worker_item list \<Rightarrow> vec kv_caches list \<Rightarrow> bool" where
  "llama_cached_items T sh model sc its cs \<longleftrightarrow>
     each_layer T sh (items_cached sc its) (lm_layers model) (\<lambda>r. embedded T model (tokens_of sc r)) cs"

lemma causal_lm_exact:
  assumes inv: "sched_inv sc" and its: "items_ok sc its"
    and n: "kv_cap (sc_cache_manager sc) * kv_block_size (sc_cache_manager sc) \<le> n"
    and md: "md_for (kv_block_size (sc_cache_manager sc)) its md"
    and pos: "pos = flat_rows (\<lambda>it. int) its" and ids: "ids = concat (map wi_token_ids its)"
    and sh: "shape_ok sh" and known: "known_tokens T model ids" and cached: "llama_cached T sh model sc n cs"
  shows "\<exists>cs'. causal_lm_forward T sh backend model ids pos md cs =
      (Inr (flat_rows (\<lambda>it. reference_logits T sh model (tokens_of sc (wi_request_id it))) its), cs') \<and>
      llama_cached T sh model sc n cs' \<and> llama_cached_items T sh model sc its cs'"
proof -
  let ?E = "\<lambda>t. case tf_embedding T (lm_embed_tokens model) t of Inl e \<Rightarrow> [] | Inr x \<Rightarrow> x"
  have ids': "ids = flat_rows (\<lambda>it p. tokens_of sc (wi_request_id it) ! p) its"
    unfolding ids flat_rows_def using item_tokens(1) [OF inv its] by (intro arg_cong [where f = concat] map_cong refl)
  have "embed_loop T (lm_embed_tokens model) ids = Inr (map ?E ids)"
    using known by (intro embed_loop_map) (simp add: known_tokens_def)
  also have "map ?E ids = flat_rows (\<lambda>it. embedded T model (tokens_of sc (wi_request_id it))) its"
    by (simp add: ids' flat_rows_map embedded_def [abs_def])
  finally have emb: "embed_loop T (lm_embed_tokens model) ids =
    Inr (flat_rows (\<lambda>it. embedded T model (tokens_of sc (wi_request_id it))) its)" .
  from layers_exact [OF inv its n md pos sh cached [unfolded llama_cached_def], of backend] obtain cs' where
    "layers_forward T sh backend pos md (lm_layers model)
       (flat_rows (\<lambda>it. embedded T model (tokens_of sc (wi_request_id it))) its) cs =
     (Inr (flat_rows (\<lambda>it. layers_state T sh (lm_layers model) (embedded T model (tokens_of sc (wi_request_id it)))) its), cs')"
    "llama_cached T sh model sc n cs'" "llama_cached_items T sh model sc its cs'"
    unfolding llama_cached_def llama_cached_items_def by blast
  then show ?thesis
    by (intro exI [of _ cs']) (simp add: causal_lm_forward_def emb flat_rows_map reference_logits_def [abs_def])
qed

end
