(* ===== verification/LlamaRunner.thy ===== *)
theory LlamaRunner
  imports Llama CudaGraph "HOL-Library.List_Lexorder"
begin

text \<open>
  The model of the second half of \<open>model_executor/llama.py\<close>: the weights (\<open>load_safetensor_weights\<close>),
  devices and types, and \<open>LlamaModelRunner\<close> with its constructor, eager execution, sampling and the
  CUDA graphs over static tensors.  What the constructor finds outside the program (files, devices,
  initial parameters, uninitialised memory) is the parameter \<open>llama_env\<close>; \<open>torch.argmax\<close> and the draw
  from a softmax are the parameter \<open>sampler\<close>.
\<close>

section \<open>The parameters of the module\<close>

text \<open>The names of the parameters, as the constructors of the modules register them.\<close>

definition linear_names :: "string \<Rightarrow> bool \<Rightarrow> string list" where
  "linear_names name bias = (name @ ''.weight'') # (if bias then [name @ ''.bias''] else [])"

definition layer_name :: "nat \<Rightarrow> string" where
  "layer_name i = ''model.layers.'' @ show_nat i"

definition layer_param_names :: "llama_config \<Rightarrow> nat \<Rightarrow> string list" where
  "layer_param_names c i =
     (let sub = (\<lambda>s. layer_name i @ s)
      in linear_names (sub ''.self_attn.q_proj'') (lc_attention_bias c) @
         linear_names (sub ''.self_attn.k_proj'') (lc_attention_bias c) @
         linear_names (sub ''.self_attn.v_proj'') (lc_attention_bias c) @
         linear_names (sub ''.self_attn.o_proj'') (lc_attention_bias c) @
         linear_names (sub ''.mlp.gate_proj'') (lc_mlp_bias c) @
         linear_names (sub ''.mlp.up_proj'') (lc_mlp_bias c) @
         linear_names (sub ''.mlp.down_proj'') (lc_mlp_bias c) @
         [sub ''.input_layernorm.weight'', sub ''.post_attention_layernorm.weight''])"

definition param_names :: "llama_config \<Rightarrow> string list" where
  "param_names c =
     ''model.embed_tokens.weight'' #
     concat (map (layer_param_names c) [0..<nat (lc_num_hidden_layers c)]) @
     [''model.norm.weight'', ''lm_head.weight'']"

text \<open>The modules over their parameters.\<close>

definition linear_of :: "(string \<Rightarrow> 'w) \<Rightarrow> string \<Rightarrow> bool \<Rightarrow> 'w linear" where
  "linear_of P name bias =
     \<lparr>li_weight = P (name @ ''.weight''), li_bias = (if bias then Some (P (name @ ''.bias'')) else None)\<rparr>"

definition norm_of :: "(string \<Rightarrow> 'w) \<Rightarrow> real \<Rightarrow> string \<Rightarrow> 'w rms_norm" where
  "norm_of P eps name = \<lparr>rn_weight = P (name @ ''.weight''), rn_eps = eps\<rparr>"

definition layer_of :: "(string \<Rightarrow> 'w) \<Rightarrow> llama_config \<Rightarrow> real \<Rightarrow> nat \<Rightarrow> 'w decoder_layer" where
  "layer_of P c eps i =
     (let sub = (\<lambda>s. layer_name i @ s); attention = (\<lambda>s. linear_of P (sub s) (lc_attention_bias c));
          mlp = (\<lambda>s. linear_of P (sub s) (lc_mlp_bias c))
      in \<lparr>dl_self_attn = \<lparr>la_q_proj = attention ''.self_attn.q_proj'', la_k_proj = attention ''.self_attn.k_proj'',
            la_v_proj = attention ''.self_attn.v_proj'', la_o_proj = attention ''.self_attn.o_proj''\<rparr>,
          dl_mlp = \<lparr>lp_gate_proj = mlp ''.mlp.gate_proj'', lp_up_proj = mlp ''.mlp.up_proj'',
            lp_down_proj = mlp ''.mlp.down_proj''\<rparr>,
          dl_input_layernorm = norm_of P eps (sub ''.input_layernorm''),
          dl_post_attention_layernorm = norm_of P eps (sub ''.post_attention_layernorm'')\<rparr>)"

definition model_of :: "(string \<Rightarrow> 'w) \<Rightarrow> llama_config \<Rightarrow> real \<Rightarrow> 'w llama_model" where
  "model_of P c eps =
     \<lparr>lm_embed_tokens = P ''model.embed_tokens.weight'',
      lm_layers = map (layer_of P c eps) [0..<nat (lc_num_hidden_layers c)],
      lm_norm = norm_of P eps ''model.norm'', lm_lm_head = linear_of P ''lm_head'' False\<rparr>"

section \<open>Loading the weights\<close>

text \<open>
  The model directory: whether \<open>safetensors\<close> can be imported, the index file (absent, or what reading
  and parsing it gives), the names of the \<open>*.safetensors\<close> files, what loading one gives, and whether a
  tensor has the shape of the parameter of that name.
\<close>

record 'w weight_files =
  wf_available :: bool
  wf_index :: "(exn + json) option"
  wf_glob :: "pystr list"
  wf_load :: "pystr \<Rightarrow> exn + (string, 'w) dict"
  wf_shape_ok :: "string \<Rightarrow> 'w \<Rightarrow> bool"

fun file_names :: "json list \<Rightarrow> exn + pystr list" where
  "file_names [] = Inr []"
| "file_names (JStr s # vs) = (case file_names vs of Inl e \<Rightarrow> Inl e | Inr ss \<Rightarrow> Inr (s # ss))"
| "file_names (v # vs) = Inl (TypeError (''unsupported operand type for a file name: '' @ type_name v))"

definition index_files :: "json \<Rightarrow> exn + pystr list" where
  "index_files index =
     (case py_item index ''weight_map'' of Inl e \<Rightarrow> Inl e
      | Inr (JObj d) \<Rightarrow> (case file_names (map snd d) of Inl e \<Rightarrow> Inl e | Inr names \<Rightarrow> Inr (sort (remdups names)))
      | Inr v \<Rightarrow> Inl (AttributeError (quoted (type_name v) @ '' object has no attribute '' @ quoted ''values'')))"

definition find_weight_files :: "'w weight_files \<Rightarrow> exn + pystr list" where
  "find_weight_files files =
     (case (case wf_index files of None \<Rightarrow> Inr (sort (wf_glob files)) | Some (Inl e) \<Rightarrow> Inl e | Some (Inr index) \<Rightarrow> index_files index) of
        Inl e \<Rightarrow> Inl e
      | Inr [] \<Rightarrow> Inl (FileNotFoundError ''no safetensors weights found'')
      | Inr names \<Rightarrow> Inr names)"

text \<open>\<open>state_dict.update(load_file(...))\<close> over the files in order: a later file overrides an earlier one.\<close>

definition dict_update :: "('k, 'v) dict \<Rightarrow> ('k, 'v) dict \<Rightarrow> ('k, 'v) dict" where
  "dict_update d e = fold (\<lambda>(k, v). AList.update k v) e d"

fun load_files :: "'w weight_files \<Rightarrow> pystr list \<Rightarrow> (string, 'w) dict \<Rightarrow> exn + (string, 'w) dict" where
  "load_files files [] state_dict = Inr state_dict"
| "load_files files (f # fs) state_dict =
     (case wf_load files f of Inl e \<Rightarrow> Inl e | Inr d \<Rightarrow> load_files files fs (dict_update state_dict d))"

text \<open>The parameters after \<open>load_state_dict\<close>; \<open>initial\<close> are the values the constructors gave them.\<close>

definition loaded_param :: "(string \<Rightarrow> 'w) \<Rightarrow> (string, 'w) dict \<Rightarrow> string \<Rightarrow> 'w" where
  "loaded_param initial state_dict name =
     (case map_of state_dict name of None \<Rightarrow> initial name | Some w \<Rightarrow> w)"

definition missing_keys :: "llama_config \<Rightarrow> (string, 'w) dict \<Rightarrow> string list" where
  "missing_keys c state_dict =
     filter (\<lambda>name. \<not> (lc_tie_word_embeddings c \<and> name = ''lm_head.weight''))
       (filter (\<lambda>name. name \<notin> set (dict_keys state_dict)) (param_names c))"

definition unexpected_keys :: "llama_config \<Rightarrow> (string, 'w) dict \<Rightarrow> string list" where
  "unexpected_keys c state_dict =
     filter (\<lambda>name. \<not> endswith name ''rotary_emb.inv_freq'')
       (filter (\<lambda>name. name \<notin> set (param_names c)) (dict_keys state_dict))"

definition load_safetensor_weights ::
    "llama_config \<Rightarrow> 'w weight_files \<Rightarrow> (string \<Rightarrow> 'w) \<Rightarrow> exn + (string \<Rightarrow> 'w)" where
  "load_safetensor_weights c files initial =
     (if \<not> wf_available files
      then Inl (RuntimeError (''Llama weight loading requires the optional '' @ quoted ''model'' @ '' dependencies''))
      else case find_weight_files files of Inl e \<Rightarrow> Inl e
      | Inr weight_files \<Rightarrow>
     (case load_files files weight_files [] of Inl e \<Rightarrow> Inl e
      | Inr state_dict \<Rightarrow>
        if \<not> list_all (\<lambda>(name, w). name \<in> set (param_names c) \<longrightarrow> wf_shape_ok files name w) state_dict
        then Inl (RuntimeError ''size mismatch'')
        else if missing_keys c state_dict \<noteq> [] \<or> unexpected_keys c state_dict \<noteq> []
        then Inl (ValueError ''incompatible Llama weights'')
        else let params = loaded_param initial state_dict
             in Inr (if lc_tie_word_embeddings c
                     then params(''lm_head.weight'' := params ''model.embed_tokens.weight'') else params)))"

section \<open>Devices and types\<close>

text \<open>\<open>torch.device(name)\<close> is a parameter; only the type of a device matters here.\<close>

definition resolve_torch_device :: "bool \<Rightarrow> (string \<Rightarrow> exn + string) \<Rightarrow> string \<Rightarrow> exn + string" where
  "resolve_torch_device cuda_available torch_device name =
     (if name = ''auto'' then Inr (if cuda_available then ''cuda'' else ''cpu'') else torch_device name)"

definition resolve_torch_dtype :: "string \<Rightarrow> string \<Rightarrow> exn + string" where
  "resolve_torch_dtype name device_type =
     (if name = ''auto'' then Inr (if device_type = ''cuda'' then ''float16'' else ''float32'')
      else if name \<in> {''float32'', ''float16'', ''bfloat16''} then Inr name
      else Inl (KeyError name))"

section \<open>LlamaModelRunner\<close>

record llama_graph_state =
  gs_input_ids :: "int list"
  gs_positions :: "int list"
  gs_metadata :: attention_metadata
  gs_graph :: bool
  gs_logits :: "vec list option"

text \<open>\<open>torch.argmax\<close>, and a draw from the softmax at a temperature, which advances the generator.\<close>

record 'g sampler =
  sm_argmax :: "vec \<Rightarrow> int"
  sm_draw :: "pyfloat \<Rightarrow> vec \<Rightarrow> 'g \<Rightarrow> (exn + int) \<times> 'g"

record ('w, 'g) llama_runner =
  lr_config :: llama_config
  lr_shape :: llama_shape
  lr_model :: "'w llama_model"
  lr_device :: string
  lr_backend :: attention_backend
  lr_block_size :: int
  lr_max_num_seqs :: int
  lr_max_blocks :: int
  lr_physical_cache_slots :: int
  lr_caches :: "vec kv_caches list"
  lr_graph_states :: "(int, llama_graph_state) dict"
  lr_rng :: 'g

text \<open>
  What the constructor finds outside: the configuration file, the weight files, PyTorch's devices and
  extension builder, the initial parameters, the uninitialised contents of a new cache row.
\<close>

record 'w llama_env =
  le_reader :: number_reader
  le_config_file :: "(exn + json) option"
  le_weights :: "'w weight_files"
  le_cuda_available :: bool
  le_torch_device :: "string \<Rightarrow> exn + string"
  le_load_extension :: "exn + unit"
  le_initial :: "string \<Rightarrow> 'w"
  le_empty_row :: "nat \<Rightarrow> vec list"

fun flt_real :: "pyfloat \<Rightarrow> real" where
  "flt_real (Fin r) = r"
| "flt_real _ = 0"

definition empty_caches :: "'w llama_env \<Rightarrow> nat \<Rightarrow> vec kv_caches" where
  "empty_caches env n = (map (le_empty_row env) [0..<n], map (le_empty_row env) [0..<n])"

text \<open>
  The constructors of the modules: the size of a head is computed for every layer, and PyTorch refuses a
  parameter with a negative dimension.
\<close>

definition module_init :: "llama_config \<Rightarrow> exn + unit" where
  "module_init c =
     (let refuse = Inl (RuntimeError ''Trying to create tensor with negative dimension'')
      in if lc_vocab_size c < 0 \<or> lc_hidden_size c < 0 then refuse
         else if lc_num_hidden_layers c \<le> 0 then Inr ()
         else case head_dim c of Inl e \<Rightarrow> Inl e
         | Inr hdim \<Rightarrow>
             if lc_num_attention_heads c * hdim < 0 \<or> lc_num_key_value_heads c * hdim < 0 \<or> lc_intermediate_size c < 0
             then refuse else Inr ())"

definition llama_runner_init ::
    "'w llama_env \<Rightarrow> engine_config \<Rightarrow> 'g \<Rightarrow> exn + ('w, 'g) llama_runner" where
  "llama_runner_init env config rng =
     (case llama_config_from_model_dir (le_reader env) (le_config_file env) of Inl e \<Rightarrow> Inl e
      | Inr c \<Rightarrow>
        if max_model_len config > lc_max_position_embeddings c
        then Inl (ValueError (''max_model_len exceeds the model'' @ [CHR 0x27] @ ''s max_position_embeddings''))
        else
     (case resolve_torch_device (le_cuda_available env) (le_torch_device env) (device config) of Inl e \<Rightarrow> Inl e
      | Inr dev \<Rightarrow>
     (case resolve_torch_dtype (dtype config) dev of Inl e \<Rightarrow> Inl e
      | Inr _ \<Rightarrow>
     (case create_attention_backend (le_cuda_available env) (le_load_extension env)
             (Protocol.attention_backend config) dev of Inl e \<Rightarrow> Inl e
      | Inr backend \<Rightarrow>
     (case module_init c of Inl e \<Rightarrow> Inl e
      | Inr _ \<Rightarrow>
     (case load_safetensor_weights c (le_weights env) (le_initial env) of Inl e \<Rightarrow> Inl e
      | Inr params \<Rightarrow>
     (case head_dim c of Inl e \<Rightarrow> Inl e
      | Inr hdim \<Rightarrow>
        let slots = num_gpu_blocks config * block_size config
        in Inr \<lparr>lr_config = c,
             lr_shape = \<lparr>ls_heads = nat (lc_num_attention_heads c), ls_kv_heads = nat (lc_num_key_value_heads c),
               ls_head_dim = nat hdim, ls_theta = flt_real (lc_rope_theta c)\<rparr>,
             lr_model = model_of params c (flt_real (lc_rms_norm_eps c)),
             lr_device = dev, lr_backend = backend, lr_block_size = block_size config,
             lr_max_num_seqs = max_num_seqs config,
             lr_max_blocks = (max_model_len config + block_size config - 1) div block_size config,
             lr_physical_cache_slots = slots,
             lr_caches = replicate (nat (lc_num_hidden_layers c)) (empty_caches env (nat (slots + max_num_seqs config))),
             lr_graph_states = [], lr_rng = rng\<rparr>)))))))"

definition supports_cudagraph :: "('w, 'g) llama_runner \<Rightarrow> bool" where
  "supports_cudagraph s \<longleftrightarrow> lr_device s = ''cuda'' \<and> graph_safe (lr_backend s)"

fun sample_logits_loop ::
    "'g sampler \<Rightarrow> gpu_input_batch \<Rightarrow> vec list \<Rightarrow> (nat \<times> string) list \<Rightarrow> sampled \<Rightarrow> 'g \<Rightarrow> (exn + sampled) \<times> 'g" where
  "sample_logits_loop S b logits [] out g = (Inr out, g)"
| "sample_logits_loop S b logits ((index, r) # rest) out g =
     (case py_get (sample_indices b) (int index) of Inl e \<Rightarrow> (Inl e, g)
      | Inr sample_index \<Rightarrow>
        if sample_index < 0 then sample_logits_loop S b logits rest out g
        else
     (case py_get logits sample_index of Inl e \<Rightarrow> (Inl e, g)
      | Inr request_logits \<Rightarrow>
     (case py_get (temperatures b) (int index) of Inl e \<Rightarrow> (Inl e, g)
      | Inr temperature \<Rightarrow>
        if temperature = Fin 0
        then sample_logits_loop S b logits rest (AList.update r (sm_argmax S request_logits) out) g
        else (case sm_draw S temperature request_logits g of
                (Inl e, g1) \<Rightarrow> (Inl e, g1)
              | (Inr token_id, g1) \<Rightarrow> sample_logits_loop S b logits rest (AList.update r token_id out) g1))))"

definition sample_logits :: "'g sampler \<Rightarrow> gpu_input_batch \<Rightarrow> vec list \<Rightarrow> 'g \<Rightarrow> (exn + sampled) \<times> 'g" where
  "sample_logits S b logits g = sample_logits_loop S b logits (enumerate 0 (request_ids b)) [] g"

definition run_model ::
    "'w torch_fns \<Rightarrow> ('w, 'g) llama_runner \<Rightarrow> int list \<Rightarrow> int list \<Rightarrow> attention_metadata \<Rightarrow>
       (exn + vec list) \<times> ('w, 'g) llama_runner" where
  "run_model T s ids pos md =
     (case causal_lm_forward T (lr_shape s) (lr_backend s) (lr_model s) ids pos md (lr_caches s) of
        (res, caches) \<Rightarrow> (res, s\<lparr>lr_caches := caches\<rparr>))"

definition finish_sampling ::
    "'g sampler \<Rightarrow> gpu_input_batch \<Rightarrow> vec list \<Rightarrow> ('w, 'g) llama_runner \<Rightarrow> (exn + sampled) \<times> ('w, 'g) llama_runner" where
  "finish_sampling S b logits s =
     (case sample_logits S b logits (lr_rng s) of (res, g) \<Rightarrow> (res, s\<lparr>lr_rng := g\<rparr>))"

definition llama_execute_model ::
    "'w torch_fns \<Rightarrow> 'g sampler \<Rightarrow> ('w, 'g) llama_runner \<Rightarrow> gpu_input_batch \<Rightarrow> (exn + sampled) \<times> ('w, 'g) llama_runner" where
  "llama_execute_model T S s b =
     (case int_tensor 64 (input_ids b) of Inl e \<Rightarrow> (Inl e, s)
      | Inr ids \<Rightarrow>
     (case int_tensor 64 (positions b) of Inl e \<Rightarrow> (Inl e, s)
      | Inr pos \<Rightarrow>
     (case metadata_from_batch b (lr_block_size s) (Some (lr_max_blocks s)) of Inl e \<Rightarrow> (Inl e, s)
      | Inr md \<Rightarrow>
     (case run_model T s ids pos md of (Inl e, s1) \<Rightarrow> (Inl e, s1)
      | (Inr logits, s1) \<Rightarrow> finish_sampling S b logits s1))))"

section \<open>CUDA graphs\<close>

text \<open>A state for a capture size; \<open>slots\<close> is the uninitialised slot mapping.\<close>

definition create_graph_state :: "('w, 'g) llama_runner \<Rightarrow> int list \<Rightarrow> int \<Rightarrow> exn + llama_graph_state" where
  "create_graph_state s slots sz =
     (if sz > lr_max_num_seqs s then Inl (ValueError ''capture size exceeds max_num_seqs'')
      else if sz < 0 then Inl (RuntimeError ''Trying to create tensor with negative dimension'')
      else let n = nat sz
           in Inr \<lparr>gs_input_ids = replicate n 0, gs_positions = replicate n 0,
                gs_metadata = \<lparr>md_positions = replicate n 0, md_slot_mapping = take n slots,
                  md_query_start_loc = [0..<n + 1], md_seq_lens = replicate n 1,
                  md_block_tables = replicate n (replicate (nat (lr_max_blocks s)) 0),
                  md_request_indices = map int [0..<n], md_is_decode = replicate n True,
                  md_active_mask = replicate n False, md_block_size = lr_block_size s\<rparr>,
                gs_graph = False, gs_logits = None\<rparr>)"

text \<open>\<open>dst[:count].copy_(torch.tensor(src))\<close>; a single value is broadcast.\<close>

definition prefix_copy :: "nat \<Rightarrow> nat \<Rightarrow> int list \<Rightarrow> int list \<Rightarrow> exn + int list" where
  "prefix_copy w cnt src dst =
     (case int_tensor w src of Inl e \<Rightarrow> Inl e
      | Inr xs \<Rightarrow>
          let n = min cnt (length dst)
          in if length xs = n then Inr (xs @ drop n dst)
             else if length xs = 1 then Inr (replicate n (xs ! 0) @ drop n dst)
             else Inl (RuntimeError ''The size of tensor a must match the size of tensor b''))"

text \<open>\<open>tables[:count, :width].copy_(...)\<close> for a table of \<open>cnt\<close> rows of \<open>width\<close> entries.\<close>

definition table_copy :: "nat \<Rightarrow> nat \<Rightarrow> int list list \<Rightarrow> int list list \<Rightarrow> exn + int list list" where
  "table_copy cnt width src dst =
     (case int_matrix 32 src of Inl e \<Rightarrow> Inl e
      | Inr rows \<Rightarrow>
          let n = min cnt (length dst)
          in if (length rows = n \<or> length rows = 1) \<and> list_all (\<lambda>row. width \<le> length row) dst
          then Inr (map2 (\<lambda>row old. row @ drop width old)
                      (if length rows = n then rows else replicate n (rows ! 0)) (take cnt dst) @ drop cnt dst)
          else Inl (RuntimeError ''The size of tensor a must match the size of tensor b''))"

definition copy_decode_batch ::
    "('w, 'g) llama_runner \<Rightarrow> llama_graph_state \<Rightarrow> gpu_input_batch \<Rightarrow> (exn + unit) \<times> llama_graph_state" where
  "copy_decode_batch s st b =
     (if \<not> bd_uniform_decode (descriptor b)
      then (Inl (ValueError ''Llama CUDA Graph requires a uniform decode batch''), st)
      else
     (let cnt = num_requests b; sz = length (gs_input_ids st)
      in if cnt > sz then (Inl (ValueError ''batch exceeds CUDA Graph capture size''), st)
         else
     (let md0 = (gs_metadata st)\<lparr>md_positions := replicate sz 0, md_seq_lens := replicate sz 1,
                  md_block_tables := map (map (\<lambda>_. 0)) (md_block_tables (gs_metadata st)),
                  md_active_mask := replicate sz False\<rparr>;
          st0 = st\<lparr>gs_input_ids := replicate sz 0, gs_positions := replicate sz 0, gs_metadata := md0\<rparr>
      in case prefix_copy 64 cnt (input_ids b) (gs_input_ids st0) of Inl e \<Rightarrow> (Inl e, st0)
         | Inr ids \<Rightarrow>
     (let st1 = st0\<lparr>gs_input_ids := ids\<rparr>
      in case prefix_copy 64 cnt (positions b) (gs_positions st1) of Inl e \<Rightarrow> (Inl e, st1)
         | Inr pos \<Rightarrow>
     (let st2 = st1\<lparr>gs_positions := pos\<rparr>
      in case prefix_copy 32 cnt (positions b) (md_positions md0) of Inl e \<Rightarrow> (Inl e, st2)
         | Inr mpos \<Rightarrow>
     (let md1 = md0\<lparr>md_positions := mpos\<rparr>; st3 = st2\<lparr>gs_metadata := md1\<rparr>
      in case prefix_copy 32 cnt (slot_mapping b) (md_slot_mapping md1) of Inl e \<Rightarrow> (Inl e, st3)
         | Inr slots \<Rightarrow>
     (let md2 = md1\<lparr>md_slot_mapping := slots\<rparr>; st4 = st3\<lparr>gs_metadata := md2\<rparr>
      in case prefix_copy 32 cnt (seq_lens b) (md_seq_lens md2) of Inl e \<Rightarrow> (Inl e, st4)
         | Inr lens \<Rightarrow>
     (let md3 = md2\<lparr>md_seq_lens := lens\<rparr>; st5 = st4\<lparr>gs_metadata := md3\<rparr>
      in case py_get (block_tables b) 0 of Inl e \<Rightarrow> (Inl e, st5)
         | Inr table0 \<Rightarrow>
     (case table_copy cnt (length table0) (block_tables b) (md_block_tables md3) of Inl e \<Rightarrow> (Inl e, st5)
      | Inr tables \<Rightarrow>
        (Inr (), st5\<lparr>gs_metadata := md3\<lparr>md_block_tables := tables,
           md_active_mask := replicate cnt True @ drop cnt (md_active_mask md3),
           md_slot_mapping := (if cnt < sz
             then take cnt (md_slot_mapping md3) @
                  map (\<lambda>i. lr_physical_cache_slots s + int i) [cnt..<sz]
             else md_slot_mapping md3)\<rparr>\<rparr>))))))))))"

text \<open>
  Executing the model on the tensors of a graph state, eagerly or as the replay of a captured graph.
\<close>

definition run_graph_state ::
    "'w torch_fns \<Rightarrow> ('w, 'g) llama_runner \<Rightarrow> llama_graph_state \<Rightarrow> (exn + vec list) \<times> ('w, 'g) llama_runner" where
  "run_graph_state T s st = run_model T s (gs_input_ids st) (gs_positions st) (gs_metadata st)"

text \<open>
  \<open>_capture_graph\<close>: three warm-up runs, then the capture.  Kernels launched under \<open>torch.cuda.graph\<close>
  are recorded and not executed; the memory the logits will be computed in holds \<open>uninitialised\<close> data.
\<close>

definition capture_graph ::
    "'w torch_fns \<Rightarrow> vec list \<Rightarrow> ('w, 'g) llama_runner \<Rightarrow> llama_graph_state \<Rightarrow>
       (exn + llama_graph_state) \<times> ('w, 'g) llama_runner" where
  "capture_graph T uninitialised s st =
     (case run_graph_state T s st of (Inl e, s1) \<Rightarrow> (Inl e, s1)
      | (Inr _, s1) \<Rightarrow>
     (case run_graph_state T s1 st of (Inl e, s2) \<Rightarrow> (Inl e, s2)
      | (Inr _, s2) \<Rightarrow>
     (case run_graph_state T s2 st of (Inl e, s3) \<Rightarrow> (Inl e, s3)
      | (Inr _, s3) \<Rightarrow> (Inr (st\<lparr>gs_logits := Some uninitialised, gs_graph := True\<rparr>), s3))))"

definition replay_graph ::
    "'w torch_fns \<Rightarrow> ('w, 'g) llama_runner \<Rightarrow> llama_graph_state \<Rightarrow> (exn + llama_graph_state) \<times> ('w, 'g) llama_runner" where
  "replay_graph T s st =
     (case run_graph_state T s st of (Inl e, s1) \<Rightarrow> (Inl e, s1)
      | (Inr logits, s1) \<Rightarrow> (Inr (st\<lparr>gs_logits := Some logits\<rparr>), s1))"

definition llama_execute_cudagraph ::
    "'w torch_fns \<Rightarrow> 'g sampler \<Rightarrow> int list \<Rightarrow> vec list \<Rightarrow> ('w, 'g) llama_runner \<Rightarrow> gpu_input_batch \<Rightarrow> int \<Rightarrow>
       (exn + sampled) \<times> ('w, 'g) llama_runner" where
  "llama_execute_cudagraph T S new_slots uninitialised s b sz =
     (if \<not> supports_cudagraph s then llama_execute_model T S s b
      else case (case map_of (lr_graph_states s) sz of Some st \<Rightarrow> Inr st | None \<Rightarrow> create_graph_state s new_slots sz) of
        Inl e \<Rightarrow> (Inl e, s)
      | Inr st \<Rightarrow>
     (case copy_decode_batch s st b of (res, st1) \<Rightarrow>
      let put = (\<lambda>s st. s\<lparr>lr_graph_states := AList.update sz st (lr_graph_states s)\<rparr>)
      in case res of Inl e \<Rightarrow> (Inl e, put s st1)
      | Inr _ \<Rightarrow>
     (case (if gs_graph st1 then replay_graph T (put s st1) st1 else capture_graph T uninitialised (put s st1) st1) of
        (Inl e, s2) \<Rightarrow> (Inl e, s2)
      | (Inr st2, s2) \<Rightarrow>
     (case gs_logits st2 of None \<Rightarrow> (Inl (RuntimeError ''CUDA Graph did not produce logits''), put s2 st2)
      | Some logits \<Rightarrow> finish_sampling S b logits (put s2 st2)))))"

definition llama_close :: "('w, 'g) llama_runner \<Rightarrow> ('w, 'g) llama_runner" where
  "llama_close s = s\<lparr>lr_caches := [], lr_graph_states := []\<rparr>"

definition llama_model_runner ::
    "'w torch_fns \<Rightarrow> 'g sampler \<Rightarrow> int list \<Rightarrow> vec list \<Rightarrow> ('w, 'g) llama_runner model_runner" where
  "llama_model_runner T S new_slots uninitialised =
     \<lparr>mr_execute_model = llama_execute_model T S,
      mr_execute_cudagraph = Some (llama_execute_cudagraph T S new_slots uninitialised),
      mr_supports_cudagraph = supports_cudagraph, mr_close = llama_close\<rparr>"


end
