(* ===== verification/Llama_Rounds.thy ===== *)
theory Llama_Rounds
  imports Llama_Exact LlamaRunner
begin

text \<open>
  A round of the Llama runner: on the batch built from the items of a scheduler round,
  \<open>LlamaModelRunner.execute_model\<close> either refuses an unknown token before it touches the caches, or
  draws one token for each item to be sampled from the reference logits of its last token, and leaves
  the caches with the keys and values of the scheduled tokens.
\<close>

section \<open>Sampling\<close>

text \<open>One token is drawn for each row, in order: a request, its temperature and its logits.\<close>

fun draw_tokens ::
    "'g sampler \<Rightarrow> (string \<times> pyfloat \<times> vec) list \<Rightarrow> sampled \<Rightarrow> 'g \<Rightarrow> (exn + sampled) \<times> 'g" where
  "draw_tokens S [] out g = (Inr out, g)"
| "draw_tokens S ((r, temperature, logits) # rows) out g =
     (if temperature = Fin 0 then draw_tokens S rows (AList.update r (sm_argmax S logits) out) g
      else case sm_draw S temperature logits g of
        (Inl e, g1) \<Rightarrow> (Inl e, g1)
      | (Inr token_id, g1) \<Rightarrow> draw_tokens S rows (AList.update r token_id out) g1)"

lemma sample_logits_loop_draws:
  assumes "\<forall>(i, r)\<in>set xs. py_get (sample_indices b) (int i) = Inr (si i) \<and>
      py_get (temperatures b) (int i) = Inr (t i) \<and> (0 \<le> si i \<longrightarrow> py_get logits (si i) = Inr (f i))"
  shows "sample_logits_loop S b logits xs out g =
    draw_tokens S (map (\<lambda>(i, r). (r, t i, f i)) (filter (\<lambda>(i, r). 0 \<le> si i) xs)) out g"
  using assms
proof (induction xs arbitrary: out g)
  case (Cons p xs)
  obtain i r where p: "p = (i, r)" by (cases p)
  have "py_get (sample_indices b) (int i) = Inr (si i)" "py_get (temperatures b) (int i) = Inr (t i)"
    "0 \<le> si i \<Longrightarrow> py_get logits (si i) = Inr (f i)" using Cons.prems p by auto
  then show ?case using Cons.IH Cons.prems by (auto simp: p split: prod.split sum.split)
qed simp

text \<open>
  The logits of the last scheduled token of an item, for the items to be sampled; further rows of logits
  have no influence.
\<close>

definition sampled_rows :: "(worker_item \<Rightarrow> nat \<Rightarrow> vec) \<Rightarrow> worker_item list \<Rightarrow> (string \<times> pyfloat \<times> vec) list" where
  "sampled_rows L its = map (\<lambda>it. (wi_request_id it, wi_temperature it, L it (item_stop it - 1)))
     (filter wi_should_sample its)"

lemma py_get_pred: "0 < j \<Longrightarrow> j - 1 < length xs \<Longrightarrow> py_get xs (int j - 1) = Inr (xs ! (j - 1))"
  using py_get_nonneg [of "int j - 1" xs] by (simp add: nat_diff_distrib)

lemma enumerate_items: "enumerate 0 (map f xs) = map (\<lambda>k. (k, f (xs ! k))) [0..<length xs]"
  by (auto simp: enumerate_eq_zip intro: nth_equalityI)

lemma filter_items: "filter P xs = map ((!) xs) (filter (\<lambda>k. P (xs ! k)) [0..<length xs])"
proof -
  have "filter P (map ((!) xs) [0..<length xs]) = map ((!) xs) (filter (P \<circ> (!) xs) [0..<length xs])"
    by (rule filter_map)
  then show ?thesis by (simp add: map_nth comp_def)
qed

lemma sample_logits_batch:
  assumes gb: "from_worker_batch wb (int b) = Inr gb" and segs: "\<forall>it\<in>set (wb_items wb). seg_ok b n it"
  shows "sample_logits S gb (flat_rows L (wb_items wb) @ rest) g = draw_tokens S (sampled_rows L (wb_items wb)) [] g"
proof -
  let ?its = "wb_items wb" and ?f = "length \<circ> wi_token_ids"
  define si where "si = (\<lambda>k. if wi_should_sample (?its ! k) then int (offsets ?f ?its ! Suc k) - 1 else - 1)"
  define l where "l = (\<lambda>k. L (?its ! k) (item_stop (?its ! k) - 1))"
  let ?t = "\<lambda>k. wi_temperature (?its ! k)"
  have f: "gb = padded_form (int b) (wb_batch_id wb) ?its" using gb by (auto elim: from_worker_batchE)
  have F: "request_ids gb = map wi_request_id ?its" "temperatures gb = map wi_temperature ?its"
    "sample_indices gb = map si [0..<length ?its]"
    by (simp_all add: f padded_form_def Let_def flat_form_def si_def)
  let ?xs = "map (\<lambda>k. (k, wi_request_id (?its ! k))) [0..<length ?its]"
  have idx: "(0 \<le> si k) = wi_should_sample (?its ! k) \<and> (0 \<le> si k \<longrightarrow> py_get (flat_rows L ?its @ rest) (si k) = Inr (l k))"
    if k: "k < length ?its" for k
  proof -
    have s: "seg_ok b n (?its ! k)" using segs k by simp
    note D = seg_okD(3,4) [OF s]
    have o: "offsets ?f ?its ! Suc k = offsets ?f ?its ! k + (item_stop (?its ! k) - item_start (?its ! k))"
      using offsets_step [OF k, of ?f] D(2) by simp
    have at: "flat_rows L ?its ! (offsets ?f ?its ! Suc k - 1) = l k"
      using flat_rows_at [OF segs k, of "item_stop (?its ! k) - 1" L] D(1) by (simp add: o l_def)
    have "offsets ?f ?its ! Suc k \<le> sum_list (map ?f ?its)"
    proof -
      have "sum_list (map ?f ?its) = sum_list (map ?f (take (Suc k) ?its)) + sum_list (map ?f (drop (Suc k) ?its))"
        by (metis append_take_drop_id map_append sum_list_append)
      then show ?thesis using k by (simp add: nth_offsets)
    qed
    also have "\<dots> = length (flat_rows L ?its)" using length_flat_rows [OF segs, of L] by (simp add: length_concat comp_def)
    finally have "offsets ?f ?its ! Suc k - 1 < length (flat_rows L ?its)" using o D(1) by simp
    moreover have "0 < offsets ?f ?its ! Suc k" using o D(1) by simp
    ultimately show ?thesis using py_get_pred [of "offsets ?f ?its ! Suc k" "flat_rows L ?its @ rest"] at by (simp add: si_def nth_append)
  qed
  have "sample_logits S gb (flat_rows L ?its @ rest) g =
      draw_tokens S (map (\<lambda>(i, r). (r, ?t i, l i)) (filter (\<lambda>(i, r). 0 \<le> si i) ?xs)) [] g"
    unfolding sample_logits_def F(1) enumerate_items
    by (rule sample_logits_loop_draws) (use idx in \<open>auto simp: F(2,3) py_get_nonneg\<close>)
  also have "filter (\<lambda>(i, r). 0 \<le> si i) ?xs = filter (\<lambda>(i, r). wi_should_sample (?its ! i)) ?xs"
    using idx by (intro filter_cong refl) auto
  also have "map (\<lambda>(i, r). (r, ?t i, l i)) \<dots> = sampled_rows L ?its"
    unfolding sampled_rows_def by (subst (2) filter_items) (simp add: filter_map comp_def l_def)
  finally show ?thesis .
qed

section \<open>A round of the Llama runner\<close>

text \<open>The runner was built for the configuration, with a shape the kernels accept.\<close>

definition runner_for :: "engine_config \<Rightarrow> ('w, 'g) llama_runner \<Rightarrow> bool" where
  "runner_for c s \<longleftrightarrow> lr_block_size s = block_size c \<and>
     lr_max_blocks s = (max_model_len c + block_size c - 1) div block_size c \<and> shape_ok (lr_shape s) \<and>
     num_gpu_blocks c * block_size c < 2 ^ 31"

lemma embed_loop_unknown:
  "t \<in> set ts \<Longrightarrow> tf_embedding T w t = Inl e \<Longrightarrow> \<exists>e. embed_loop T w ts = Inl e"
  by (induction ts) (auto split: sum.split)

lemma not_known_tokens:
  assumes "\<not> known_tokens T model ts" and "int_tensor 64 ts = Inr ts'"
  obtains t e where "t \<in> set ts" and "tf_embedding T (lm_embed_tokens model) t = Inl e"
proof -
  have "\<forall>t\<in>set ts. - (2 ^ 63) \<le> t \<and> t < 2 ^ 63"
    using assms(2) by (simp add: int_tensor_def list_all_iff split: if_splits)
  then obtain t where "t \<in> set ts" "\<nexists>x. tf_embedding T (lm_embed_tokens model) t = Inr x"
    using assms(1) unfolding known_tokens_def by blast
  then show ?thesis using that by (cases "tf_embedding T (lm_embed_tokens model) t") auto
qed

lemma scheduled_positions:
  assumes "sched_inv sc" and "items_ok sc its" and "it \<in> set its"
    and "num_gpu_blocks (sc_config sc) * block_size (sc_config sc) < 2 ^ 31"
  shows "wi_seq_len it < 2 ^ 31" and "0 \<le> wi_start_pos it"
proof -
  note B = scheduled_item_bounds [OF assms(1-3)]
  show "wi_seq_len it < 2 ^ 31" using B(4) assms(4) by simp
  show "0 \<le> wi_start_pos it"
    using items_ok_segments(1) [OF assms(1,2) order_refl] assms(3) by (simp add: seg_ok_def item_valid_def)
qed

lemma llama_execute_exact:
  fixes S :: "'g sampler" and s :: "('w, 'g) llama_runner"
  assumes inv: "sched_inv sc" and its: "items_ok sc its" and ne: "its \<noteq> []"
    and fit: "runner_for (sc_config sc) s"
    and n: "num_gpu_blocks (sc_config sc) * block_size (sc_config sc) \<le> int n"
    and cached: "llama_cached T (lr_shape s) (lr_model s) sc n (lr_caches s)"
    and gb: "from_worker_batch \<lparr>wb_batch_id = bid, wb_items = its\<rparr> (block_size (sc_config sc)) = Inr gb"
  defines "R \<equiv> draw_tokens S (sampled_rows (\<lambda>it. reference_logits T (lr_shape s) (lr_model s)
      (tokens_of sc (wi_request_id it))) its) [] (lr_rng s)"
  shows "known_tokens T (lr_model s) (concat (map wi_token_ids its)) \<Longrightarrow>
    \<exists>cs. llama_execute_model T S s gb = (fst R, s\<lparr>lr_caches := cs, lr_rng := snd R\<rparr>) \<and>
      llama_cached T (lr_shape s) (lr_model s) sc n cs \<and> llama_cached_items T (lr_shape s) (lr_model s) sc its cs"
    and "\<not> known_tokens T (lr_model s) (concat (map wi_token_ids its)) \<Longrightarrow> \<exists>e. llama_execute_model T S s gb = (Inl e, s)"
proof -
  let ?c = "sc_config sc" and ?m = "sc_cache_manager sc"
  let ?b = "kv_block_size ?m" and ?wb = "\<lparr>wb_batch_id = bid, wb_items = its\<rparr>"
  note D = sched_inv_butD [OF inv]
  have pos: "0 < block_size ?c" "0 < num_gpu_blocks ?c" using D(1) by (simp_all add: valid_config_def)
  have b: "block_size ?c = int ?b" "int (kv_cap ?m) = num_gpu_blocks ?c" using D(3,4) pos by simp_all
  have cap: "num_gpu_blocks ?c * block_size ?c < 2 ^ 31" using fit by (simp add: runner_for_def)
  have n': "kv_cap ?m * ?b \<le> n" using n unfolding b(1) b(2) [symmetric] by (metis of_nat_le_iff of_nat_mult)
  from scheduled_metadata [OF inv its ne cap gb] obtain md where
    md: "metadata_from_batch gb (lr_block_size s) (Some (lr_max_blocks s)) = Inr md"
    using fit by (auto simp: runner_for_def)
  have mdf: "md_for ?b its md"
    using metadata_from_batch_for [of ?wb ?b gb "Some (lr_max_blocks s)" md] gb md fit b(1) by (simp add: runner_for_def)
  note S = items_ok_segments(1) [OF inv its n']
  have f: "gb = padded_form (block_size ?c) bid its" using gb by (auto elim: from_worker_batchE)
  have F: "input_ids gb = concat (map wi_token_ids its)" "positions gb = concat (map item_positions its)"
    by (simp_all add: f padded_form_def Let_def flat_form_def)
  have "0 \<le> p \<and> p < 2 ^ 31" if "p \<in> set (positions gb)" for p
    using that scheduled_positions [OF inv its _ cap] by (fastforce simp: F item_positions_def)
  then have "- (2 ^ 63) \<le> p \<and> p < 2 ^ 63" if "p \<in> set (positions gb)" for p using that by fastforce
  then have ps: "int_tensor 64 (positions gb) = Inr (positions gb)" by (simp add: int_tensor_def list_all_iff)
  have flat: "positions gb = flat_rows (\<lambda>it. int) its"
    unfolding F flat_rows_def using seg_okD(5) S by (intro arg_cong [where f = concat] map_cong) auto
  from fit have sh: "shape_ok (lr_shape s)" by (simp add: runner_for_def)
  show "\<exists>cs. llama_execute_model T S s gb = (fst R, s\<lparr>lr_caches := cs, lr_rng := snd R\<rparr>) \<and>
      llama_cached T (lr_shape s) (lr_model s) sc n cs \<and> llama_cached_items T (lr_shape s) (lr_model s) sc its cs"
    if known: "known_tokens T (lr_model s) (concat (map wi_token_ids its))"
  proof -
    from known have ids: "int_tensor 64 (input_ids gb) = Inr (input_ids gb)"
      by (simp add: int_tensor_def list_all_iff known_tokens_def F)
    from causal_lm_exact [OF inv its n' mdf flat F(1) sh known [folded F(1)] cached] obtain cs where
      fw: "causal_lm_forward T (lr_shape s) (lr_backend s) (lr_model s) (input_ids gb) (positions gb) md (lr_caches s) =
        (Inr (flat_rows (\<lambda>it. reference_logits T (lr_shape s) (lr_model s) (tokens_of sc (wi_request_id it))) its), cs)"
      and cs: "llama_cached T (lr_shape s) (lr_model s) sc n cs" "llama_cached_items T (lr_shape s) (lr_model s) sc its cs"
      by blast
    have "sample_logits S gb (flat_rows (\<lambda>it. reference_logits T (lr_shape s) (lr_model s)
        (tokens_of sc (wi_request_id it))) its) (lr_rng s) = R"
      unfolding R_def using sample_logits_batch [of ?wb ?b gb n, where rest = "[]"] gb b(1) S by simp
    then show ?thesis using cs
      by (intro exI [of _ cs])
        (simp add: llama_execute_model_def ids ps md run_model_def fw finish_sampling_def split: prod.split)
  qed
  show "\<exists>e. llama_execute_model T S s gb = (Inl e, s)"
    if "\<not> known_tokens T (lr_model s) (concat (map wi_token_ids its))"
  proof (cases "int_tensor 64 (input_ids gb)")
    case (Inl e)
    then show ?thesis by (simp add: llama_execute_model_def)
  next
    case (Inr ids)
    then have "ids = input_ids gb" by (rule int_tensor_same)
    with not_known_tokens [OF that [folded F(1)] Inr] obtain t e1 where
      "t \<in> set ids" "tf_embedding T (lm_embed_tokens (lr_model s)) t = Inl e1" by blast
    then obtain e where "embed_loop T (lm_embed_tokens (lr_model s)) ids = Inl e"
      using embed_loop_unknown by metis
    then have "llama_execute_model T S s gb = (Inl e, s)"
      by (simp add: llama_execute_model_def Inr ps md run_model_def causal_lm_forward_def)
    then show ?thesis ..
  qed
qed

end
