(* ===== verification/Llama_Serving.thy ===== *)
theory Llama_Serving
  imports Llama_Rounds Serving
begin

text \<open>
  Requests as the Llama engine serves them.  The caches seen request by request; the interpretation of
  \<open>request_property\<close> with \<open>llama_served\<close>: the keys and values of the computed tokens are in the caches of
  every layer at the slots of the block table, and a request at temperature zero has been given the
  maxima of the reference logits.  Processing a round's answer keeps it.
\<close>

section \<open>Keys and values of one request\<close>

text \<open>The rows of the first \<open>n\<close> positions are in the caches of all layers, at the slots \<open>slot\<close>.\<close>

fun rows_hold ::
    "'w torch_fns \<Rightarrow> llama_shape \<Rightarrow> 'w decoder_layer list \<Rightarrow> (nat \<Rightarrow> vec) \<Rightarrow> (nat \<Rightarrow> nat) \<Rightarrow> nat \<Rightarrow> vec kv_caches list \<Rightarrow> bool" where
  "rows_hold T sh [] hs slot n cs = True"
| "rows_hold T sh (l # ls) hs slot n [] = (n = 0)"
| "rows_hold T sh (l # ls) hs slot n (c # cs) =
     ((\<forall>p<n. fst c ! slot p = key_row T sh l p (hs p) \<and> snd c ! slot p = value_row T sh l (hs p)) \<and>
      rows_hold T sh ls (layer_state T sh l hs) slot n cs)"

lemma rows_hold_none [simp]: "rows_hold T sh ls hs slot 0 cs"
  by (induction T sh ls hs slot "0::nat" cs rule: rows_hold.induct) simp_all

lemma rows_hold_slots:
  "(\<And>p. p < n \<Longrightarrow> slot' p = slot p) \<Longrightarrow> rows_hold T sh ls hs slot n cs \<Longrightarrow> rows_hold T sh ls hs slot' n cs"
  by (induction T sh ls hs slot n cs rule: rows_hold.induct) simp_all

lemma rows_hold_cong:
  "(\<And>p. p < n \<Longrightarrow> hs' p = hs p) \<Longrightarrow> rows_hold T sh ls hs slot n cs \<Longrightarrow> rows_hold T sh ls hs' slot n cs"
proof (induction T sh ls hs slot n cs arbitrary: hs' rule: rows_hold.induct)
  case (3 T sh l ls hs slot n c cs)
  have "layer_state T sh l hs' p = layer_state T sh l hs p" if "p < n" for p
    by (rule layer_state_cong) (use that 3(2) in simp)
  then show ?case using 3 by simp
qed simp_all

text \<open>All caches have \<open>n\<close> slots.\<close>

definition caches_shaped :: "nat \<Rightarrow> 'w decoder_layer list \<Rightarrow> vec kv_caches list \<Rightarrow> bool" where
  "caches_shaped n ls cs \<longleftrightarrow> length ls \<le> length cs \<and> (\<forall>c\<in>set (take (length ls) cs). length (fst c) = n \<and> length (snd c) = n)"

text \<open>From a property of every layer to the rows of one request, and back.\<close>

lemma each_layer_shaped:
  "each_layer T sh P ls hs cs \<Longrightarrow> (\<And>K V c. P K V c \<Longrightarrow> length (fst c) = n \<and> length (snd c) = n) \<Longrightarrow>
     caches_shaped n ls cs"
proof (induction ls arbitrary: hs cs)
  case (Cons l ls)
  then show ?case by (cases cs) (auto simp: caches_shaped_def)
qed (simp add: caches_shaped_def)

lemma each_layer_rows:
  "each_layer T sh P ls hs cs \<Longrightarrow>
     (\<And>K V c p. P K V c \<Longrightarrow> p < m \<Longrightarrow> fst c ! slot p = K r p \<and> snd c ! slot p = V r p) \<Longrightarrow>
     rows_hold T sh ls (hs r) slot m cs"
proof (induction ls arbitrary: hs cs)
  case (Cons l ls)
  obtain c cs' where cs: "cs = c # cs'" using Cons.prems(1) by (cases cs) simp_all
  then have "P (\<lambda>r p. key_row T sh l p (hs r p)) (\<lambda>r p. value_row T sh l (hs r p)) c"
    and "each_layer T sh P ls (\<lambda>r. layer_state T sh l (hs r)) cs'" using Cons.prems(1) by simp_all
  then show ?case using Cons.IH [of "\<lambda>r. layer_state T sh l (hs r)" cs'] Cons.prems(2) cs by fastforce
qed simp

lemma each_layer_intro:
  assumes "caches_shaped n ls cs"
    and "\<And>x. I x \<Longrightarrow> rows_hold T sh ls (hs (rid x)) (slot x) (m x) cs"
    and P: "\<And>K V c. length (fst c) = n \<Longrightarrow> length (snd c) = n \<Longrightarrow>
      (\<And>x p. I x \<Longrightarrow> p < m x \<Longrightarrow> fst c ! slot x p = K (rid x) p \<and> snd c ! slot x p = V (rid x) p) \<Longrightarrow> P K V c"
  shows "each_layer T sh P ls hs cs"
  using assms(1,2)
proof (induction ls arbitrary: hs cs)
  case (Cons l ls)
  obtain c cs' where cs: "cs = c # cs'" using Cons.prems(1) by (cases cs) (simp_all add: caches_shaped_def)
  have "P (\<lambda>r p. key_row T sh l p (hs r p)) (\<lambda>r p. value_row T sh l (hs r p)) c"
    using Cons.prems cs by (intro P) (simp_all add: caches_shaped_def)
  moreover have "each_layer T sh P ls (\<lambda>r. layer_state T sh l (hs r)) cs'"
    using Cons.prems cs by (intro Cons.IH) (simp_all add: caches_shaped_def)
  ultimately show ?case by (simp add: cs)
qed simp

section \<open>Served requests\<close>

text \<open>
  A request at temperature zero has been given, token by token, the maximum of the reference logits of
  everything before.
\<close>

definition greedy_output :: "'w torch_fns \<Rightarrow> 'g sampler \<Rightarrow> llama_shape \<Rightarrow> 'w llama_model \<Rightarrow> request_state \<Rightarrow> bool" where
  "greedy_output T S sh M rs \<longleftrightarrow> (sp_temperature (rs_sampling_params rs) = Fin 0 \<longrightarrow>
     (\<forall>k<length (rs_output_token_ids rs). rs_output_token_ids rs ! k =
        sm_argmax S (reference_logits T sh M (rs_prompt_token_ids rs @ take k (rs_output_token_ids rs))
          (length (rs_prompt_token_ids rs) + k - 1))))"

lemma greedy_output_snoc:
  assumes "greedy_output T S sh M rs" and "rs_prompt_token_ids rs' = rs_prompt_token_ids rs"
    and "rs_sampling_params rs' = rs_sampling_params rs" and "rs_output_token_ids rs' = rs_output_token_ids rs @ [t]"
    and "sp_temperature (rs_sampling_params rs) = Fin 0 \<Longrightarrow>
      t = sm_argmax S (reference_logits T sh M (all_token_ids rs) (length (all_token_ids rs) - 1))"
  shows "greedy_output T S sh M rs'"
  unfolding greedy_output_def assms(2-4)
proof (intro impI allI)
  fix k
  assume z: "sp_temperature (rs_sampling_params rs) = Fin 0" and k: "k < length (rs_output_token_ids rs @ [t])"
  show "(rs_output_token_ids rs @ [t]) ! k = sm_argmax S (reference_logits T sh M
      (rs_prompt_token_ids rs @ take k (rs_output_token_ids rs @ [t])) (length (rs_prompt_token_ids rs) + k - 1))"
  proof (cases "k < length (rs_output_token_ids rs)")
    case True
    then show ?thesis using assms(1) z by (simp add: greedy_output_def nth_append)
  next
    case False
    then have "k = length (rs_output_token_ids rs)" using k by simp
    then show ?thesis using assms(5) [OF z] by (simp add: all_token_ids_def)
  qed
qed

definition llama_served ::
    "'w torch_fns \<Rightarrow> 'g sampler \<Rightarrow> llama_shape \<Rightarrow> 'w llama_model \<Rightarrow> vec kv_caches list \<Rightarrow>
       nat \<Rightarrow> nat list \<Rightarrow> request_state \<Rightarrow> bool" where
  "llama_served T S sh M cs b bl rs \<longleftrightarrow> greedy_output T S sh M rs \<and> rs_num_computed_tokens rs \<le> length bl * b \<and>
     rs_num_computed_tokens rs \<le> length (all_token_ids rs) \<and>
     rows_hold T sh (lm_layers M) (embedded T M (all_token_ids rs)) (slot_of b bl) (rs_num_computed_tokens rs) cs"

interpretation lserved: request_property "llama_served T S sh M cs" "\<lambda>_. True"
  for T :: "'w torch_fns" and S :: "'g sampler" and sh :: llama_shape and M :: "'w llama_model" and cs :: "vec kv_caches list"
proof
  fix b bl ext and rs :: request_state
  assume s: "llama_served T S sh M cs b bl rs"
  have "slot_of b (bl @ ext) p = slot_of b bl p" if "p < rs_num_computed_tokens rs" for p
    using that s by (intro slot_of_append) (simp add: llama_served_def)
  then have "rows_hold T sh (lm_layers M) (embedded T M (all_token_ids rs)) (slot_of b (bl @ ext)) (rs_num_computed_tokens rs) cs"
    using s rows_hold_slots [of "rs_num_computed_tokens rs" "slot_of b (bl @ ext)" "slot_of b bl"]
    unfolding llama_served_def by blast
  then show "llama_served T S sh M cs b (bl @ ext) rs" using s by (simp add: llama_served_def add_mult_distrib)
qed (simp add: llama_served_def greedy_output_def)

abbreviation llama_all ::
    "'w torch_fns \<Rightarrow> 'g sampler \<Rightarrow> llama_shape \<Rightarrow> 'w llama_model \<Rightarrow> vec kv_caches list \<Rightarrow> scheduler \<Rightarrow> bool" where
  "llama_all T S sh M cs \<equiv> request_property.all_R (llama_served T S sh M cs) (\<lambda>_. True)"

text \<open>The two views of the caches: by layers, and by requests.\<close>

lemma served_cached:
  assumes all: "llama_all T S sh M cs sc" and shp: "caches_shaped n (lm_layers M) cs"
  shows "llama_cached T sh M sc n cs"
  unfolding llama_cached_def
proof (rule each_layer_intro [OF shp, where rid = fst and m = "\<lambda>x. rs_num_computed_tokens (fst (snd x))"
      and slot = "\<lambda>x. slot_of (kv_block_size (sc_cache_manager sc)) (snd (snd x))"
      and I = "\<lambda>(r, rs, bl). map_of (sc_running sc) r = Some rs \<and> kv_tbl (sc_cache_manager sc) r = Some bl"])
  fix x
  assume x: "case x of (r, rs, bl) \<Rightarrow> map_of (sc_running sc) r = Some rs \<and> kv_tbl (sc_cache_manager sc) r = Some bl"
  obtain r rs bl where "x = (r, rs, bl)" by (cases x)
  with x lserved.all_RD [OF all, of r rs bl]
  show "rows_hold T sh (lm_layers M) (embedded T M (tokens_of sc (fst x)))
      (slot_of (kv_block_size (sc_cache_manager sc)) (snd (snd x))) (rs_num_computed_tokens (fst (snd x))) cs"
    by (simp add: llama_served_def tokens_of_def)
qed (auto simp: cached_upto_def rows_cached_def)

lemma cached_rows:
  assumes "llama_cached T sh M sc n cs" and "map_of (sc_running sc) r = Some rs" and "kv_tbl (sc_cache_manager sc) r = Some bl"
  shows "rows_hold T sh (lm_layers M) (embedded T M (all_token_ids rs)) (slot_of (kv_block_size (sc_cache_manager sc)) bl)
    (rs_num_computed_tokens rs) cs"
proof -
  have "embedded T M (all_token_ids rs) = embedded T M (tokens_of sc r)" using assms(2) by (simp add: tokens_of_def)
  then show ?thesis
    using assms each_layer_rows [OF assms(1) [unfolded llama_cached_def], where r = r] by (simp add: cached_upto_def rows_cached_def)
qed

lemma cached_items_rows:
  assumes "llama_cached_items T sh M sc its cs" and "it \<in> set its"
  shows "rows_hold T sh (lm_layers M) (embedded T M (tokens_of sc (wi_request_id it)))
    (item_slot (kv_block_size (sc_cache_manager sc)) it) (item_stop it) cs"
  using each_layer_rows [OF assms(1) [unfolded llama_cached_items_def], where r = "wi_request_id it"] assms(2)
  by (simp add: items_cached_def)

lemma cached_served:
  assumes cached: "llama_cached T sh M sc n cs'" and all: "llama_all T S sh M cs sc"
  shows "llama_all T S sh M cs' sc" and "caches_shaped n (lm_layers M) cs'"
proof -
  show "caches_shaped n (lm_layers M) cs'"
    using each_layer_shaped [OF cached [unfolded llama_cached_def]] by (simp add: cached_upto_def)
  show "llama_all T S sh M cs' sc"
    unfolding lserved.all_R_def
  proof (intro conjI ballI allI impI)
    fix r rs bl
    assume rs: "map_of (sc_running sc) r = Some rs" and bl: "kv_tbl (sc_cache_manager sc) r = Some bl"
    from cached_rows [OF cached rs bl] lserved.all_RD [OF all rs bl]
    show "llama_served T S sh M cs' (kv_block_size (sc_cache_manager sc)) bl rs" by (simp add: llama_served_def)
  qed simp
qed

section \<open>Drawn tokens\<close>

lemma draw_tokens_keys:
  "draw_tokens S rows out g = (Inr out', g') \<Longrightarrow> set (dict_keys out') = set (dict_keys out) \<union> fst ` set rows"
proof (induction S rows out g rule: draw_tokens.induct)
  case (2 S r temperature logits rows out g)
  then show ?case by (auto split: if_splits prod.splits sum.splits simp: keys_update simp del: set_map)
qed simp

lemma draw_tokens_other:
  "draw_tokens S rows out g = (Inr out', g') \<Longrightarrow> r \<notin> fst ` set rows \<Longrightarrow> map_of out' r = map_of out r"
  by (induction S rows out g rule: draw_tokens.induct)
    (auto split: if_splits prod.splits sum.splits simp: update_conv')

lemma draw_tokens_greedy:
  "draw_tokens S rows out g = (Inr out', g') \<Longrightarrow> distinct (map fst rows) \<Longrightarrow> (r, Fin 0, x) \<in> set rows \<Longrightarrow>
     map_of out' r = Some (sm_argmax S x)"
proof (induction S rows out g rule: draw_tokens.induct)
  case (2 S r' temperature logits rows out g)
  show ?case
  proof (cases "(r, Fin 0, x) \<in> set rows")
    case True
    then show ?thesis using 2 by (auto split: if_splits prod.splits sum.splits)
  next
    case False
    then have e: "r' = r" "temperature = Fin 0" "logits = x" using 2(5) by auto
    then have "r \<notin> fst ` set rows" "draw_tokens S rows (AList.update r (sm_argmax S x) out) g = (Inr out', g')"
      using 2(3,4) by simp_all
    then show ?thesis using draw_tokens_other by (metis update_conv' fun_upd_same)
  qed
qed simp

lemma sampled_rows_ids: "map fst (sampled_rows L its) = map wi_request_id (filter wi_should_sample its)"
  by (simp add: sampled_rows_def comp_def)

section \<open>Processing the answer\<close>

text \<open>What is known of an item and its request once the round has been computed.\<close>

definition llama_item ::
    "'w torch_fns \<Rightarrow> 'g sampler \<Rightarrow> llama_shape \<Rightarrow> 'w llama_model \<Rightarrow> vec kv_caches list \<Rightarrow> sampled \<Rightarrow> nat \<Rightarrow>
       worker_item \<Rightarrow> request_state \<Rightarrow> nat list \<Rightarrow> bool" where
  "llama_item T S sh M cs smp b it rs bl \<longleftrightarrow> greedy_output T S sh M rs \<and>
     rs_num_computed_tokens rs + item_count it \<le> length bl * b \<and>
     rs_num_computed_tokens rs + item_count it \<le> length (all_token_ids rs) \<and>
     rows_hold T sh (lm_layers M) (embedded T M (all_token_ids rs)) (slot_of b bl) (rs_num_computed_tokens rs + item_count it) cs \<and>
     (\<forall>t. map_of smp (wi_request_id it) = Some t \<longrightarrow> sp_temperature (rs_sampling_params rs) = Fin 0 \<longrightarrow>
        t = sm_argmax S (reference_logits T sh M (all_token_ids rs) (length (all_token_ids rs) - 1)))"

lemma llama_item_advance:
  assumes "llama_item T S sh M cs smp b it rs bl"
  shows "llama_served T S sh M cs b bl (rs\<lparr>rs_num_computed_tokens := rs_num_computed_tokens rs + item_count it\<rparr>)"
  using assms by (simp add: llama_item_def llama_served_def greedy_output_def all_token_ids_def)

lemma llama_item_append:
  assumes i: "llama_item T S sh M cs smp b it rs bl" and t: "map_of smp (wi_request_id it) = Some t"
    and n: "rs_num_computed_tokens rs' = rs_num_computed_tokens rs + item_count it"
    and same: "rs_prompt_token_ids rs' = rs_prompt_token_ids rs" "rs_sampling_params rs' = rs_sampling_params rs"
      "rs_output_token_ids rs' = rs_output_token_ids rs @ [t]"
  shows "llama_served T S sh M cs b bl rs'"
proof -
  have toks: "all_token_ids rs' = all_token_ids rs @ [t]" using same by (simp add: all_token_ids_def)
  have "greedy_output T S sh M rs'"
    by (rule greedy_output_snoc [OF _ same]) (use i t in \<open>simp_all add: llama_item_def\<close>)
  moreover have "rows_hold T sh (lm_layers M) (embedded T M (all_token_ids rs')) (slot_of b bl) (rs_num_computed_tokens rs') cs"
  proof (rule rows_hold_cong)
    show "rows_hold T sh (lm_layers M) (embedded T M (all_token_ids rs)) (slot_of b bl) (rs_num_computed_tokens rs') cs"
      using i n by (simp add: llama_item_def)
    show "embedded T M (all_token_ids rs') p = embedded T M (all_token_ids rs) p" if "p < rs_num_computed_tokens rs'" for p
      using that i n toks by (simp add: embedded_def llama_item_def nth_append)
  qed
  ultimately show ?thesis using i n toks by (simp add: llama_served_def llama_item_def)
qed

lemma llama_round_item:
  assumes inv: "sched_inv sc" and its: "items_ok sc its" and it: "it \<in> set its" and all: "llama_all T S sh M cs0 sc"
    and cached: "llama_cached_items T sh M sc its cs"
    and d: "draw_tokens S (sampled_rows (\<lambda>it. reference_logits T sh M (tokens_of sc (wi_request_id it))) its) [] g = (Inr smp, g')"
    and rs: "map_of (sc_running sc) (wi_request_id it) = Some rs" and bl: "kv_tbl (sc_cache_manager sc) (wi_request_id it) = Some bl"
  shows "llama_item T S sh M cs smp (kv_block_size (sc_cache_manager sc)) it rs bl"
proof -
  note I = items_ok_slot [OF inv its it rs bl]
  let ?L = "\<lambda>it. reference_logits T sh M (tokens_of sc (wi_request_id it))"
  have dist: "distinct (map fst (sampled_rows ?L its))"
    unfolding sampled_rows_ids using its by (simp add: items_ok_def distinct_map_filter)
  have tok: "tokens_of sc (wi_request_id it) = all_token_ids rs" using rs by (simp add: tokens_of_def)
  from its it inv have item: "item_for (sc_cache_manager sc) rs it \<and> wi_temperature it = sp_temperature (rs_sampling_params rs)"
  proof (cases rule: items_okE)
    case (1 rs' bl')
    have "wi_temperature it = sp_temperature (rs_sampling_params rs')" by (subst 1(7)) (simp add: make_item_def)
    then show ?thesis using 1(1,8) rs by simp
  qed
  have "t = sm_argmax S (reference_logits T sh M (all_token_ids rs) (length (all_token_ids rs) - 1))"
    if t: "map_of smp (wi_request_id it) = Some t" and z: "sp_temperature (rs_sampling_params rs) = Fin 0" for t
  proof -
    have "wi_request_id it \<in> set (dict_keys smp)" using t by (rule map_of_Some_in_keys)
    then have "wi_request_id it \<in> set (map fst (sampled_rows ?L its))" using draw_tokens_keys [OF d] by simp
    then obtain it' where it': "it' \<in> set its" "wi_should_sample it'" "wi_request_id it' = wi_request_id it"
      unfolding sampled_rows_ids by auto
    then have "it' = it" using its it by (metis items_ok_def distinct_map inj_onD)
    then have smp: "wi_should_sample it" using it' by simp
    have "(wi_request_id it, Fin 0, ?L it (item_stop it - 1)) \<in> set (sampled_rows ?L its)"
      using it smp item z by (auto simp: sampled_rows_def)
    from draw_tokens_greedy [OF d dist this] t have "t = sm_argmax S (?L it (item_stop it - 1))" by simp
    moreover have "item_stop it = length (all_token_ids rs)" using I(2) item_for_full [OF conjunct1 [OF item] smp] by simp
    ultimately show ?thesis using tok by simp
  qed
  moreover have "rows_hold T sh (lm_layers M) (embedded T M (all_token_ids rs)) (slot_of (kv_block_size (sc_cache_manager sc)) bl)
      (rs_num_computed_tokens rs + item_count it) cs"
    using cached_items_rows [OF cached it] I(2,3) tok by simp
  moreover have "greedy_output T S sh M rs" using lserved.all_RD [OF all rs bl] by (simp add: llama_served_def)
  ultimately show ?thesis using I(2,4,5) by (simp add: llama_item_def)
qed

end
