(* ===== verification/LlamaSystem.thy ===== *)
theory LlamaSystem
  imports Llama_Serving EngineWorker CudaRuntime
begin

text \<open>
  An engine core together with a Llama worker, in any interleaving: the contract of \<open>engine_worker\<close>
  holds, the worker's answers being errors or tokens drawn from the reference logits.  So whatever
  requests arrive, are batched together, split into chunks, aborted or rejected, a request at
  temperature zero is given the greedy continuation of its own prompt.
\<close>

section \<open>The engine with a Llama worker\<close>

text \<open>The executions of the runner are eager: it supports no graphs, or none are asked for.\<close>

definition eager_only :: "('w, 'g) llama_runner worker \<Rightarrow> bool" where
  "eager_only wk \<longleftrightarrow> \<not> supports_cudagraph (wk_state wk) \<or> cd_mode (wk_graph_manager wk) = ''none''"

text \<open>The runner of the worker serves the model \<open>M\<close>, and its caches of \<open>n\<close> slots fit the scheduler.\<close>

definition llama_ready ::
    "'w torch_fns \<Rightarrow> 'g sampler \<Rightarrow> llama_shape \<Rightarrow> 'w llama_model \<Rightarrow> nat \<Rightarrow> scheduler \<Rightarrow> ('w, 'g) llama_runner worker \<Rightarrow> bool" where
  "llama_ready T S sh M n sc wk \<longleftrightarrow>
     (\<exists>new_slots uninitialised. wk_runner wk = llama_model_runner T S new_slots uninitialised) \<and>
     wk_config wk = sc_config sc \<and> wk_rank wk = 0 \<and> eager_only wk \<and> runner_for (sc_config sc) (wk_state wk) \<and>
     lr_shape (wk_state wk) = sh \<and> lr_model (wk_state wk) = M \<and>
     num_gpu_blocks (sc_config sc) * block_size (sc_config sc) \<le> int n \<and>
     caches_shaped n (lm_layers M) (lr_caches (wk_state wk)) \<and> llama_all T S sh M (lr_caches (wk_state wk)) sc"

text \<open>The worker reports an error, or the tokens drawn from the reference logits of the items' requests.\<close>

definition drawn_answer ::
    "'w torch_fns \<Rightarrow> 'g sampler \<Rightarrow> llama_shape \<Rightarrow> 'w llama_model \<Rightarrow> scheduler \<Rightarrow> worker_item list \<Rightarrow> sampled \<Rightarrow> bool" where
  "drawn_answer T S sh M sc its smp \<longleftrightarrow> (\<exists>g g'. draw_tokens S
     (sampled_rows (\<lambda>it. reference_logits T sh M (tokens_of sc (wi_request_id it))) its) [] g = (Inr smp, g'))"

definition llama_answer ::
    "'w torch_fns \<Rightarrow> 'g sampler \<Rightarrow> llama_shape \<Rightarrow> 'w llama_model \<Rightarrow> scheduler \<Rightarrow> ('w, 'g) llama_runner worker \<Rightarrow>
       worker_item list \<Rightarrow> worker_result \<Rightarrow> bool" where
  "llama_answer T S sh M sc wk its w \<longleftrightarrow>
     (case wr_error w of Some m \<Rightarrow> m \<noteq> []
      | None \<Rightarrow> drawn_answer T S sh M sc its (wr_sampled_token_ids w) \<and>
          llama_cached_items T sh M sc its (lr_caches (wk_state wk)))"

lemma eager_execute:
  assumes "wk_runner wk = llama_model_runner T S new_slots uninitialised" and "eager_only wk"
  shows "manager_execute (wk_graph_manager wk) (wk_runner wk) (wk_state wk) b =
    (case llama_execute_model T S (wk_state wk) b of
       (Inl e, s') \<Rightarrow> (Inl e, s') | (Inr out, s') \<Rightarrow> (Inr (out, ''eager''), s'))"
  using assms by (auto simp: manager_execute_def Let_def llama_model_runner_def eager_only_def wants_graph_def dispatch_def)

lemma llama_worker_round:
  assumes W: "llama_ready T S sh M n sc wk" and inv: "sched_inv sc" and its: "items_ok sc its" and ne: "its \<noteq> []"
  obtains w wk' where "worker_execute wk \<lparr>wb_batch_id = bid, wb_items = its\<rparr> t = (w, wk')"
    and "llama_ready T S sh M n sc wk'" and "llama_answer T S sh M sc wk' its w" and "wr_batch_id w = bid" and "wr_rank w = 0"
    and "trusted its w"
proof -
  let ?s = "wk_state wk" and ?wb = "\<lparr>wb_batch_id = bid, wb_items = its\<rparr>"
  let ?rows = "sampled_rows (\<lambda>it. reference_logits T sh M (tokens_of sc (wi_request_id it))) its"
  from W obtain new_slots uninitialised where r: "wk_runner wk = llama_model_runner T S new_slots uninitialised"
    and wk: "wk_config wk = sc_config sc" "wk_rank wk = 0" "eager_only wk"
    and fit: "runner_for (sc_config sc) ?s" and M: "lr_shape ?s = sh" "lr_model ?s = M"
    and n: "num_gpu_blocks (sc_config sc) * block_size (sc_config sc) \<le> int n"
    and shp: "caches_shaped n (lm_layers M) (lr_caches ?s)" and all: "llama_all T S sh M (lr_caches ?s) sc"
    unfolding llama_ready_def by blast
  from round_accepted [OF inv its ne] obtain gb where
    gb: "from_worker_batch ?wb (block_size (sc_config sc)) = Inr gb" by metis
  note cached = served_cached [OF all shp]
  have gb': "from_worker_batch ?wb (block_size (wk_config wk)) = Inr gb" using gb wk by simp
  note X = llama_execute_exact [OF inv its ne fit n _ gb, where T = T and S = S, unfolded M, OF cached]
  note answer = that
  have refused: thesis if ex: "llama_execute_model T S ?s gb = (Inl e, s')" and ready: "llama_ready T S sh M n sc (wk\<lparr>wk_state := s'\<rparr>)"
    for e s'
  proof (rule answer)
    let ?w = "error_result bid (wk_rank wk) e"
    show "worker_execute wk ?wb t = (?w, wk\<lparr>wk_state := s'\<rparr>)"
      using gb' ex unfolding worker_execute_def eager_execute [OF r wk(3)] by simp
    show "llama_answer T S sh M sc (wk\<lparr>wk_state := s'\<rparr>) its ?w" "trusted its ?w" "wr_batch_id ?w = bid" "wr_rank ?w = 0"
      using wk(2) by (simp_all add: llama_answer_def error_result_def trusted_def)
  qed (rule ready)
  show ?thesis
  proof (cases "known_tokens T M (concat (map wi_token_ids its))")
    case False
    with X(2) obtain e where "llama_execute_model T S ?s gb = (Inl e, ?s)" by blast
    moreover have "wk\<lparr>wk_state := ?s\<rparr> = wk" by simp
    ultimately show ?thesis using refused W by metis
  next
    case True
    obtain res g where d: "draw_tokens S ?rows [] (lr_rng ?s) = (res, g)" by fastforce
    from X(1) [OF True] obtain cs where
      ex: "llama_execute_model T S ?s gb = (res, ?s\<lparr>lr_caches := cs, lr_rng := g\<rparr>)"
      and cs: "llama_cached T sh M sc n cs" "llama_cached_items T sh M sc its cs" using d by auto
    let ?s' = "?s\<lparr>lr_caches := cs, lr_rng := g\<rparr>"
    let ?wk' = "wk\<lparr>wk_state := ?s'\<rparr>"
    have ready: "llama_ready T S sh M n sc ?wk'"
      using wk fit M n r cached_served [OF cs(1) all]
      by (auto simp: llama_ready_def eager_only_def supports_cudagraph_def runner_for_def)
    show ?thesis
    proof (cases res)
      case (Inl e)
      then show ?thesis using refused ex ready by blast
    next
      case (Inr smp)
      obtain bm where we: "worker_execute wk ?wb t = (\<lparr>wr_batch_id = bid, wr_rank = wk_rank wk,
          wr_sampled_token_ids = smp, wr_error = None, wr_metrics = Some bm\<rparr>, ?wk')"
        using gb' ex Inr unfolding worker_execute_def eager_execute [OF r wk(3)] by simp
      have "set (dict_keys smp) \<subseteq> wanted its"
        using draw_tokens_keys [OF d [unfolded Inr]] arg_cong [OF sampled_rows_ids, of set, where its1 = its]
        by (auto simp: wanted_def)
      then show ?thesis
        using answer [OF we ready] cs(2) wk(2) d Inr
        by (auto simp: llama_answer_def drawn_answer_def trusted_def)
    qed
  qed
qed

lemma llama_process:
  assumes W: "llama_ready T S sh M n (co_scheduler co) wk" and inv: "sched_inv (co_scheduler co)"
    and its: "items_ok (co_scheduler co) its" and ne: "its \<noteq> []"
    and a: "llama_answer T S sh M (co_scheduler co) wk its w" "wr_rank w = 0" "trusted its w"
    and run: "process_result (schedule_of its) w co = (res, co')"
  shows "(res = Inr () \<and> llama_all T S sh M (lr_caches (wk_state wk)) (co_scheduler co')) \<or> (\<exists>e. res = Inl e)"
proof (cases res)
  case (Inr u)
  let ?cs = "lr_caches (wk_state wk)"
  let ?co1 = "case wr_metrics w of None \<Rightarrow> co | Some bm \<Rightarrow> put_output co (EvMetrics bm)"
  have co1: "co_scheduler ?co1 = co_scheduler co" by (simp add: put_output_def split: option.split)
  have all: "llama_all T S sh M ?cs (co_scheduler ?co1)" using W by (simp add: co1 llama_ready_def)
  have br: "by_rank (schedule_of its) = [(Some 0, its)]" using ne by (simp add: schedule_of_def)
  note F = items_ok_facts [OF its refl a(3)]
  have inv1: "sched_inv (co_scheduler ?co1)" using inv by (simp add: co1)
  show ?thesis
  proof (cases "wr_error w")
    case (Some m)
    then have "m \<noteq> []" using a(1) by (simp add: llama_answer_def)
    then have "process_result (schedule_of its) w co = fail_items m its ?co1"
      using br a(2) Some by (simp add: process_result_def Let_def)
    moreover from lserved.all_R_fail_items [OF inv1 F(1) _ all] F(2) obtain co2 where
      "fail_items m its ?co1 = (Inr (), co2)" "llama_all T S sh M ?cs (co_scheduler co2)" unfolding co1 by blast
    ultimately show ?thesis using run by auto
  next
    case None
    then have d: "drawn_answer T S sh M (co_scheduler co) its (wr_sampled_token_ids w)"
      and cached: "llama_cached_items T sh M (co_scheduler co) its ?cs"
      using a(1) by (simp_all add: llama_answer_def)
    have p: "process_items (schedule_of its) w its ?co1 = (Inr (), co')"
      using run br a(2) None Inr by (simp add: process_result_def Let_def)
    let ?b = "kv_block_size (sc_cache_manager (co_scheduler co))"
    have G: "llama_item T S sh M ?cs (wr_sampled_token_ids w) ?b it rs bl"
      if "it \<in> set its" "map_of (sc_running (co_scheduler co)) (wi_request_id it) = Some rs"
        "kv_tbl (sc_cache_manager (co_scheduler co)) (wi_request_id it) = Some bl" for it rs bl
      using d llama_round_item [OF inv its that(1) all [unfolded co1] cached _ that(2,3)] unfolding drawn_answer_def by blast
    have "llama_all T S sh M ?cs (co_scheduler co')"
      by (rule lserved.all_R_process_items [OF inv1 _ F(1,4) F(5) all _ _ llama_item_advance llama_item_append p,
            where b = ?b and G = "llama_item T S sh M ?cs (wr_sampled_token_ids w) ?b"]) (use F(3) G None in \<open>simp_all add: co1\<close>)
    then show ?thesis using Inr by simp
  qed
qed simp

interpretation llama_pair: engine_worker "llama_ready T S sh M n" "\<lambda>_. True" "llama_answer T S sh M" "\<lambda>_. True"
  for T :: "'w torch_fns" and S :: "'g sampler" and sh :: llama_shape and M :: "'w llama_model" and n :: nat
proof
  fix co co' cs and wk :: "('w, 'g) llama_runner worker"
  assume W: "llama_ready T S sh M n (co_scheduler co) wk" and inv: "sched_inv (co_scheduler co)"
    and cs: "\<forall>c\<in>set cs. valid_command c" and d: "drain_loop cs co = (Inr (), co')"
    and same: "same_setup (co_scheduler co) (co_scheduler co')"
  have "llama_all T S sh M (lr_caches (wk_state wk)) (co_scheduler co')"
    by (rule lserved.all_R_drain [OF _ inv cs d]) (use W in \<open>simp_all add: llama_ready_def lserved.params_ok_def split: option.split\<close>)
  then show "llama_ready T S sh M n (co_scheduler co') wk" using W same by (simp add: llama_ready_def same_setup_def)
next
  fix sc sc' out and wk :: "('w, 'g) llama_runner worker"
  assume W: "llama_ready T S sh M n sc wk" and s: "sched_inv sc" "schedule sc = (Inr out, sc')" "same_setup sc sc'"
  have "llama_all T S sh M (lr_caches (wk_state wk)) sc'"
    by (rule lserved.all_R_schedule [OF _ s(1,2)]) (use W in \<open>simp add: llama_ready_def\<close>)
  then show "llama_ready T S sh M n sc' wk" using W s(3) by (simp add: llama_ready_def same_setup_def)
next
  fix sc its bid t and wk :: "('w, 'g) llama_runner worker"
  assume a: "llama_ready T S sh M n sc wk" "sched_inv sc" "items_ok sc its" "its \<noteq> []"
  show "\<exists>w wk'. worker_execute wk \<lparr>wb_batch_id = bid, wb_items = its\<rparr> t = (w, wk') \<and> llama_ready T S sh M n sc wk' \<and>
      llama_answer T S sh M sc wk' its w \<and> wr_batch_id w = bid \<and> wr_rank w = 0 \<and> trusted its w"
    by (rule llama_worker_round [OF a, of bid t]) blast
next
  fix co co' its w res and wk :: "('w, 'g) llama_runner worker"
  assume a: "llama_ready T S sh M n (co_scheduler co) wk" "sched_inv (co_scheduler co)"
    and "co_tokenizer co = sc_tokenizer (co_scheduler co)"
    and b: "items_ok (co_scheduler co) its" "its \<noteq> []" "llama_answer T S sh M (co_scheduler co) wk its w"
      "wr_rank w = 0" "trusted its w" "process_result (schedule_of its) w co = (res, co')"
    and same: "same_setup (co_scheduler co) (co_scheduler co')"
  from llama_process [OF a b] show "(res = Inr () \<and> llama_ready T S sh M n (co_scheduler co') wk) \<or> (\<exists>e. res = Inl e \<and> True)"
    using a(1) same by (auto simp: llama_ready_def same_setup_def)
qed

section \<open>Runs\<close>

lemma llama_runner_init_facts:
  assumes "llama_runner_init env config rng = Inr s"
  shows "lr_block_size s = block_size config" and "lr_max_blocks s = (max_model_len config + block_size config - 1) div block_size config"
    and "\<exists>n. n = nat (num_gpu_blocks config * block_size config + max_num_seqs config) \<and>
      caches_shaped n (lm_layers (lr_model s)) (lr_caches s)"
proof -
  from assms obtain c params where s: "lr_block_size s = block_size config"
    "lr_max_blocks s = (max_model_len config + block_size config - 1) div block_size config"
    "lr_model s = model_of params c (flt_real (lc_rms_norm_eps c))"
    "lr_caches s = replicate (nat (lc_num_hidden_layers c))
       (empty_caches env (nat (num_gpu_blocks config * block_size config + max_num_seqs config)))"
    by (auto simp: llama_runner_init_def Let_def split: sum.splits if_splits)
  show "lr_block_size s = block_size config"
    "lr_max_blocks s = (max_model_len config + block_size config - 1) div block_size config" by (rule s)+
  show "\<exists>n. n = nat (num_gpu_blocks config * block_size config + max_num_seqs config) \<and>
      caches_shaped n (lm_layers (lr_model s)) (lr_caches s)"
    by (simp add: s model_of_def caches_shaped_def empty_caches_def)
qed

text \<open>
  The worker of a configuration with a model path: \<open>create_model_runner\<close> builds the Llama runner; \<open>lenv\<close>
  is what its constructor finds under a path.
\<close>

definition llama_create ::
    "'d native_env \<Rightarrow> (string \<Rightarrow> 'w llama_env) \<Rightarrow> 'w torch_fns \<Rightarrow> 'g sampler \<Rightarrow> int list \<Rightarrow> vec list \<Rightarrow> 'g \<Rightarrow>
       engine_config \<Rightarrow> exn + ('w, 'g) llama_runner model_runner \<times> ('w, 'g) llama_runner" where
  "llama_create nenv lenv T S new_slots uninitialised rng config =
     (case create_model_runner nenv (\<lambda>path c. case llama_runner_init (lenv path) c rng of Inl e \<Rightarrow> Inl e
             | Inr s \<Rightarrow> Inr (llama_model_runner T S new_slots uninitialised, s)) config of
        Inl e \<Rightarrow> Inl e
      | Inr (LlamaRunner runner s) \<Rightarrow> Inr (runner, s)
      | Inr (BootstrapRunner _ _) \<Rightarrow> Inl (TypeError ''not a Llama runner''))"

lemma llama_createE:
  assumes "llama_create nenv lenv T S new_slots uninitialised rng config = Inr (runner, s)"
  obtains path where "model_path config = Some path" and "llama_runner_init (lenv path) config rng = Inr s"
    and "runner = llama_model_runner T S new_slots uninitialised"
  using assms
  by (auto simp: llama_create_def create_model_runner_def split: option.splits sum.splits created_runner.splits if_splits)

text \<open>The configuration asks for no graphs, the cache is addressable and the model's shape fits the kernels.\<close>

definition llama_setup :: "engine_config \<Rightarrow> llama_shape \<Rightarrow> bool" where
  "llama_setup config sh \<longleftrightarrow> valid_config config \<and> cudagraph_mode config = ''none'' \<and>
     num_gpu_blocks config * block_size config < 2 ^ 31 \<and> shape_ok sh"

lemma llama_run_inv:
  fixes s0 :: "('w, 'g) llama_runner system"
  assumes init: "system_init env clock (llama_create nenv lenv T S new_slots uninitialised rng) config = Inr s0"
    and cr: "llama_create nenv lenv T S new_slots uninitialised rng config = Inr (runner, st)"
    and cfg: "llama_setup config (lr_shape st)" and run: "sys_run_ok (\<lambda>_. True) es"
  obtains n where "engine_worker.inv (llama_ready T S (lr_shape st) (lr_model st) n) (\<lambda>_. True)
    (llama_answer T S (lr_shape st) (lr_model st)) (\<lambda>_. True) (fold sys_step es s0)"
proof -
  from llama_createE [OF cr] obtain path where
    i: "llama_runner_init (lenv path) config rng = Inr st" and r: "runner = llama_model_runner T S new_slots uninitialised"
    by metis
  note I = llama_runner_init_facts [OF i]
  from I(3) obtain n where n: "n = nat (num_gpu_blocks config * block_size config + max_num_seqs config)"
    "caches_shaped n (lm_layers (lr_model st)) (lr_caches st)" by blast
  have c: "valid_config config" "cudagraph_mode config = ''none''" "runner_for config st"
    using cfg I(1,2) by (simp_all add: llama_setup_def runner_for_def)
  have cap: "num_gpu_blocks config * block_size config \<le> int n"
    using n(1) c(1) by (simp add: valid_config_def)
  have "engine_worker.inv (llama_ready T S (lr_shape st) (lr_model st) n) (\<lambda>_. True)
    (llama_answer T S (lr_shape st) (lr_model st)) (\<lambda>_. True) s0"
  proof (rule llama_pair.init_inv [OF init c(1)])
    fix sc runner' and st' :: "('w, 'g) llama_runner"
    assume e: "llama_create nenv lenv T S new_slots uninitialised rng config = Inr (runner', st')"
      and sc: "sc_running sc = []" "sc_waiting sc = []" "sched_inv sc" "sc_config sc = config"
    have "runner' = runner" "st' = st" using e cr by simp_all
    then show "llama_ready T S (lr_shape st) (lr_model st) n sc \<lparr>wk_rank = 0, wk_config = config, wk_runner = runner',
        wk_state = st', wk_graph_manager = \<lparr>cd_mode = cudagraph_mode config, cd_capture_sizes = worker_capture_sizes config\<rparr>\<rparr>"
      using sc r c(2,3) cap n(2) by (auto simp: llama_ready_def eager_only_def lserved.all_R_def)
  qed
  from llama_pair.sys.fold_inv [OF this llama_pair.run_admissible [OF run]] show ?thesis by (rule that)
qed

text \<open>
  C5. Greedy serving is exact.  Start an engine core and a Llama worker from one valid configuration
  without CUDA graphs, with a model whose shape the kernels accept, and let commands arrive and the two
  processes take turns in any interleaving.  In every state before the loop ends, every token a running
  request at temperature zero has been given is the argmax of the logits the reference model computes at
  the last position of the tokens before it: batching, chunked prefill, paged caches, reuse of blocks,
  aborts and rejections of other requests have no influence.
\<close>

theorem llama_greedy_exact:
  assumes "system_init env clock (llama_create nenv lenv T S new_slots uninitialised rng) config = Inr s0"
    and "llama_create nenv lenv T S new_slots uninitialised rng config = Inr (runner, st)"
    and "llama_setup config (lr_shape st)" and "sys_run_ok (\<lambda>_. True) es"
    and "sy_core (fold sys_step es s0) = (co, ph)" and "ph \<noteq> Stopped" and "ph \<noteq> Failed"
    and "map_of (sc_running (co_scheduler co)) r = Some rs" and "sp_temperature (rs_sampling_params rs) = Fin 0"
    and "k < length (rs_output_token_ids rs)"
  shows "rs_output_token_ids rs ! k = sm_argmax S (reference_logits T (lr_shape st) (lr_model st)
    (rs_prompt_token_ids rs @ take k (rs_output_token_ids rs)) (length (rs_prompt_token_ids rs) + k - 1))"
proof -
  from llama_run_inv [OF assms(1-4)] obtain n where
    inv: "engine_worker.inv (llama_ready T S (lr_shape st) (lr_model st) n) (\<lambda>_. True)
      (llama_answer T S (lr_shape st) (lr_model st)) (\<lambda>_. True) (fold sys_step es s0)" .
  have "ph = AtHead \<or> (\<exists>out results. ph = Collecting out results)" using assms(6,7) by (cases ph) auto
  note R = llama_pair.inv_running [OF inv assms(5) this]
  from sched_inv_cases_run [OF R(2) map_of_Some_in_keys [OF assms(8)]] obtain bl where
    bl: "kv_tbl (sc_cache_manager (co_scheduler co)) r = Some bl" .
  have "llama_all T S (lr_shape st) (lr_model st) (lr_caches (wk_state (sy_worker (fold sys_step es s0)))) (co_scheduler co)"
    using R(1) by (simp add: llama_ready_def)
  from lserved.all_RD [OF this assms(8) bl] show ?thesis
    using assms(9,10) by (simp add: llama_served_def greedy_output_def)
qed


section \<open>A small run\<close>

text \<open>
  A model of one layer with one head of dimension zero and no weights worth the name; its vocabulary has
  no end-of-sequence token among the maxima.
\<close>

definition demo_fns :: "unit torch_fns" where
  "demo_fns = \<lparr>tf_linear = (\<lambda>w b x. []), tf_embedding = (\<lambda>w t. Inr []), tf_values = (\<lambda>w. []),
     tf_silu = (\<lambda>v. v), tf_attend = (\<lambda>q kvs. [])\<rparr>"

definition demo_sampler :: "unit sampler" where
  "demo_sampler = \<lparr>sm_argmax = (\<lambda>x. 7), sm_draw = (\<lambda>t x g. (Inr 7, g))\<rparr>"

definition demo_model_config :: json where
  "demo_model_config = JObj [(ascii ''num_attention_heads'', JInt 1), (ascii ''vocab_size'', JInt 8),
     (ascii ''hidden_size'', JInt 0), (ascii ''intermediate_size'', JInt 0), (ascii ''num_hidden_layers'', JInt 1)]"

definition demo_weights :: "unit weight_files" where
  "demo_weights = \<lparr>wf_available = True, wf_index = None, wf_glob = [ascii ''model.safetensors''],
     wf_load = (\<lambda>f. Inr (map (\<lambda>s. (s, ())) [''model.embed_tokens.weight'',
       ''model.layers.0.self_attn.q_proj.weight'', ''model.layers.0.self_attn.k_proj.weight'',
       ''model.layers.0.self_attn.v_proj.weight'', ''model.layers.0.self_attn.o_proj.weight'',
       ''model.layers.0.mlp.gate_proj.weight'', ''model.layers.0.mlp.up_proj.weight'', ''model.layers.0.mlp.down_proj.weight'',
       ''model.layers.0.input_layernorm.weight'', ''model.layers.0.post_attention_layernorm.weight'',
       ''model.norm.weight'', ''lm_head.weight''])),
     wf_shape_ok = (\<lambda>s w. True)\<rparr>"

definition demo_llama_env :: "unit llama_env" where
  "demo_llama_env = \<lparr>le_reader = \<lparr>read_int = (\<lambda>s. None), read_float = (\<lambda>s. None)\<rparr>,
     le_config_file = Some (Inr demo_model_config), le_weights = demo_weights, le_cuda_available = False,
     le_torch_device = (\<lambda>name. Inr name), le_load_extension = Inl (RuntimeError ''no CUDA''),
     le_initial = (\<lambda>s. ()), le_empty_row = (\<lambda>i. [])\<rparr>"

definition demo_hf :: hf_env where
  "demo_hf = \<lparr>hf_importable = True, hf_path_exists = (\<lambda>p. True),
     hf_from_pretrained = (\<lambda>p. Inr \<lparr>hf_eos = Some 1, hf_bos = None, hf_pad = None,
        hf_encode = (\<lambda>s. Inr []), hf_decode = (\<lambda>ts. Inr [])\<rparr>)\<rparr>"

definition demo_config :: engine_config where
  "demo_config = tiny_config\<lparr>model_path := Some ''model'', device := ''cpu'', attention_backend := ''torch''\<rparr>"

definition demo_native :: "unit native_env" where
  "demo_native = \<lparr>ne_configured = None, ne_root = [], ne_is_file = (\<lambda>p. False),
     ne_load = (\<lambda>p. Inl (FileNotFoundError p))\<rparr>"

text \<open>The real functions have no executable definitions; on rows of length zero they are not called.\<close>

declare sin_def [code del] and cos_def [code del] and exp_def [code del] and ln_real_def [code del]
  and powr_real_def [code del] and root_def [code del] and sqrt_def [code del]

definition demo_create ::
    "engine_config \<Rightarrow> exn + (unit, unit) llama_runner model_runner \<times> (unit, unit) llama_runner" where
  "demo_create = llama_create demo_native (\<lambda>p. demo_llama_env) demo_fns demo_sampler [] [] ()"

definition demo_runner :: "(unit, unit) llama_runner" where
  "demo_runner = (case llama_runner_init demo_llama_env demo_config () of Inr s \<Rightarrow> s)"

definition demo_system :: "(unit, unit) llama_runner system" where
  "demo_system = (case system_init demo_hf (\<lambda>_. 0) demo_create demo_config of Inr s \<Rightarrow> s)"

definition demo_events :: "sys_event list" where
  "demo_events = [Submit (add_command ''a'' [3, 4]), CoreTurn, WorkerTurn 1, CoreTurn, CoreTurn]"

lemma demo_created:
  "demo_create demo_config = Inr (llama_model_runner demo_fns demo_sampler [] [], demo_runner)"
proof -
  have "case llama_runner_init demo_llama_env demo_config () of Inl e \<Rightarrow> False | Inr s \<Rightarrow> True" by code_simp
  then have "llama_runner_init demo_llama_env demo_config () = Inr demo_runner"
    by (auto simp: demo_runner_def split: sum.splits)
  moreover have "model_path demo_config = Some ''model''" by (simp add: demo_config_def)
  ultimately show ?thesis by (simp add: demo_create_def llama_create_def create_model_runner_def)
qed

lemma demo_system_init: "system_init demo_hf (\<lambda>_. 0) demo_create demo_config = Inr demo_system"
proof -
  have "case system_init demo_hf (\<lambda>_. 0) demo_create demo_config of Inl e \<Rightarrow> False | Inr s \<Rightarrow> True" by code_simp
  then show ?thesis by (auto simp: demo_system_def split: sum.splits)
qed

lemma demo_setup: "llama_setup demo_config (lr_shape demo_runner)" "sys_run_ok (\<lambda>_. True) demo_events"
proof -
  have "ls_heads (lr_shape demo_runner) = 1 \<and> ls_kv_heads (lr_shape demo_runner) = 1 \<and> ls_head_dim (lr_shape demo_runner) = 0"
    by code_simp
  moreover have "valid_config demo_config"
    using tiny_config_valid by (simp add: valid_config_def demo_config_def)
  ultimately show "llama_setup demo_config (lr_shape demo_runner)"
    by (simp add: llama_setup_def shape_ok_def demo_config_def tiny_config_def default_engine_config_def)
  show "sys_run_ok (\<lambda>_. True) demo_events" by (simp add: sys_run_ok_def demo_events_def add_command_valid)
qed

theorem llama_greedy_exact_witness:
  "\<exists>rs. map_of (sc_running (co_scheduler (fst (sy_core (fold sys_step demo_events demo_system))))) ''a'' = Some rs \<and>
     rs_output_token_ids rs = [7] \<and>
     7 = sm_argmax demo_sampler (reference_logits demo_fns (lr_shape demo_runner) (lr_model demo_runner) [3, 4] 1)"
proof -
  obtain co ph where run: "sy_core (fold sys_step demo_events demo_system) = (co, ph)" by fastforce
  have "case sy_core (fold sys_step demo_events demo_system) of (co, ph) \<Rightarrow>
      (case ph of AtHead \<Rightarrow> True | _ \<Rightarrow> False) \<and>
      (case map_of (sc_running (co_scheduler co)) ''a'' of None \<Rightarrow> False
       | Some rs \<Rightarrow> rs_output_token_ids rs = [7] \<and> rs_prompt_token_ids rs = [3, 4] \<and>
           sp_temperature (rs_sampling_params rs) = Fin 0)" by code_simp
  then obtain rs where ph: "ph \<noteq> Stopped" "ph \<noteq> Failed"
    and rs: "map_of (sc_running (co_scheduler co)) ''a'' = Some rs" "sp_temperature (rs_sampling_params rs) = Fin 0"
    and out: "rs_output_token_ids rs = [7]" "rs_prompt_token_ids rs = [3, 4]"
    unfolding run by (auto split: option.splits core_phase.splits)
  from llama_greedy_exact [OF demo_system_init [unfolded demo_create_def] demo_created [unfolded demo_create_def]
      demo_setup run ph rs, of 0] out rs(1) run show ?thesis by simp
qed


end
