(* ===== verification/Attention_Padding.thy ===== *)
theory Attention_Padding
  imports Attention_Kernels "HOL-Library.Sublist"
begin

text \<open>
  Rows the CUDA kernels leave alone.  A captured graph runs on tensors of a fixed size whose last rows
  belong to no request; they are marked inactive.  Running the three kernels on the larger tensors
  gives the rows of the smaller ones, followed by zeros, and the same caches.
\<close>

section \<open>Rows that are not active\<close>

text \<open>\<open>md'\<close> describes the tokens and requests of \<open>md\<close> and further ones whose tokens are not active.\<close>

definition md_pads :: "attention_metadata \<Rightarrow> attention_metadata \<Rightarrow> bool" where
  "md_pads md md' \<longleftrightarrow>
     prefix (md_positions md) (md_positions md') \<and> prefix (md_slot_mapping md) (md_slot_mapping md') \<and>
     prefix (md_query_start_loc md) (md_query_start_loc md') \<and> prefix (md_seq_lens md) (md_seq_lens md') \<and>
     prefix (md_block_tables md) (md_block_tables md') \<and> prefix (md_request_indices md) (md_request_indices md') \<and>
     prefix (md_is_decode md) (md_is_decode md') \<and> prefix (md_active_mask md) (md_active_mask md') \<and>
     md_block_size md' = md_block_size md \<and> length (md_slot_mapping md) = length (md_active_mask md) \<and>
     (\<forall>i. length (md_active_mask md) \<le> i \<longrightarrow> i < length (md_active_mask md') \<longrightarrow> \<not> md_active_mask md' ! i) \<and>
     (\<forall>r. length (md_seq_lens md) \<le> r \<longrightarrow> r < length (md_seq_lens md') \<longrightarrow>
        r < length (md_is_decode md') \<and> r < length (md_query_start_loc md') \<and>
        length (md_active_mask md) \<le> md_query_start_loc md' ! r \<and> md_query_start_loc md' ! r < length (md_active_mask md'))"

lemma mem_read_prefix: "mem_read xs i = Inr v \<Longrightarrow> prefix xs ys \<Longrightarrow> mem_read ys i = Inr v"
  by (auto simp: mem_read_def prefix_def nth_append split: if_splits)

lemma mem_read_pads:
  assumes "md_pads md md'"
  shows "mem_read (md_active_mask md) i = Inr a \<Longrightarrow> mem_read (md_active_mask md') i = Inr a"
    and "mem_read (md_is_decode md) i = Inr a \<Longrightarrow> mem_read (md_is_decode md') i = Inr a"
    and "mem_read (md_request_indices md) i = Inr j \<Longrightarrow> mem_read (md_request_indices md') i = Inr j"
    and "mem_read (md_query_start_loc md) i = Inr q \<Longrightarrow> mem_read (md_query_start_loc md') i = Inr q"
    and "mem_read (md_block_tables md) i = Inr t \<Longrightarrow> mem_read (md_block_tables md') i = Inr t"
    and "mem_read (md_positions md) i = Inr p \<Longrightarrow> mem_read (md_positions md') i = Inr p"
    and "mem_read (md_seq_lens md) i = Inr l \<Longrightarrow> mem_read (md_seq_lens md') i = Inr l"
  by (erule mem_read_prefix, use assms in \<open>simp add: md_pads_def\<close>)+

lemma md_pads_block_size: "md_pads md md' \<Longrightarrow> md_block_size md' = md_block_size md"
  by (simp add: md_pads_def)

lemma append_kv_inactive:
  assumes "\<forall>x\<in>set ys. \<not> fst x"
  shows "append_kv_kernel (xs @ ys) caches = append_kv_kernel xs caches"
proof (induction xs caches rule: append_kv_kernel.induct)
  case (1 caches)
  show ?case using assms
  proof (induction ys)
    case (Cons y ys)
    then show ?case by (cases y; cases caches) simp
  qed simp
qed simp

lemma flash_prefill_cases:
  assumes run: "flash_prefill_kernel attend groups query caches md (t # ts) outputs = Inr out"
  obtains (idle) "mem_read (md_active_mask md) (int t) = Inr False"
      "flash_prefill_kernel attend groups query caches md ts outputs = Inr out"
    | (decode) request where "mem_read (md_active_mask md) (int t) = Inr True"
      "mem_read (md_request_indices md) (int t) = Inr request" "mem_read (md_is_decode md) request = Inr True"
      "flash_prefill_kernel attend groups query caches md ts outputs = Inr out"
    | (prefill) request table position new where "mem_read (md_active_mask md) (int t) = Inr True"
      "mem_read (md_request_indices md) (int t) = Inr request" "mem_read (md_is_decode md) request = Inr False"
      "mem_read (md_block_tables md) request = Inr table" "mem_read (md_positions md) (int t) = Inr position"
      "online_paged_attention attend (t3_heads query) groups caches table (position + 1) (md_block_size md)
         (t3_rows query ! t) = Inr new"
      "flash_prefill_kernel attend groups query caches md ts (outputs[t := new]) = Inr out"
proof -
  obtain a where a: "mem_read (md_active_mask md) (int t) = Inr a" using run by (auto split: sum.splits)
  show thesis
  proof (cases a)
    case False
    then show thesis using run a by (intro idle) simp_all
  next
    case True
    then obtain request where request: "mem_read (md_request_indices md) (int t) = Inr request"
      using run a by (cases "mem_read (md_request_indices md) (int t)") simp_all
    obtain d where d: "mem_read (md_is_decode md) request = Inr d"
      using run a True request by (cases "mem_read (md_is_decode md) request") simp_all
    show thesis
    proof (cases d)
      case True
      then show thesis using run a \<open>a\<close> request d by (intro decode) simp_all
    next
      case False
      then obtain table where table: "mem_read (md_block_tables md) request = Inr table"
        using run a \<open>a\<close> request d by (cases "mem_read (md_block_tables md) request") simp_all
      then obtain position where position: "mem_read (md_positions md) (int t) = Inr position"
        using run a \<open>a\<close> request d False by (cases "mem_read (md_positions md) (int t)") simp_all
      then show thesis using run a \<open>a\<close> request d False table prefill [of request table position]
        by (simp split: sum.splits)
    qed
  qed
qed

lemma flash_prefill_pads:
  assumes pads: "md_pads md md'"
  shows "flash_prefill_kernel attend groups query caches md ts outputs = Inr out \<Longrightarrow>
    \<forall>t\<in>set ts. t < length (t3_rows query) \<Longrightarrow> length outputs = length (t3_rows query) \<Longrightarrow>
    flash_prefill_kernel attend groups (query\<lparr>t3_rows := t3_rows query @ extra\<rparr>) caches md' ts (outputs @ zs) = Inr (out @ zs)"
proof (induction ts arbitrary: outputs)
  case (Cons t ts)
  note R = mem_read_pads [OF pads]
  have t: "t < length (t3_rows query)" using Cons.prems(2) by simp
  then have row: "(t3_rows query @ extra) ! t = t3_rows query ! t"
    and up: "(outputs @ zs)[t := row] = outputs[t := row] @ zs" for row
    using Cons.prems(3) by (simp_all add: nth_append list_update_append1)
  have IH: "flash_prefill_kernel attend groups query caches md ts outs = Inr out \<Longrightarrow> length outs = length (t3_rows query) \<Longrightarrow>
      flash_prefill_kernel attend groups (query\<lparr>t3_rows := t3_rows query @ extra\<rparr>) caches md' ts (outs @ zs) = Inr (out @ zs)" for outs
    using Cons.IH [of outs] Cons.prems(2) by simp
  from Cons.prems(1) show ?case
  proof (cases rule: flash_prefill_cases)
    case idle
    then show ?thesis using IH Cons.prems(3) by (simp add: R(1) [OF idle(1)])
  next
    case decode
    then show ?thesis using IH Cons.prems(3) by (simp add: R(1) [OF decode(1)] R(3) [OF decode(2)] R(2) [OF decode(3)])
  next
    case prefill
    then show ?thesis using IH Cons.prems(3)
      by (simp add: R(1) [OF prefill(1)] R(3) [OF prefill(2)] R(2) [OF prefill(3)] R(5) [OF prefill(4)]
          R(6) [OF prefill(5)] md_pads_block_size [OF pads] row up)
  qed
qed simp

lemma flash_prefill_inactive:
  assumes pads: "md_pads md md'"
  shows "\<forall>t\<in>set ts. length (md_active_mask md) \<le> t \<and> t < length (md_active_mask md') \<Longrightarrow>
    flash_prefill_kernel attend groups query caches md' ts outputs = Inr outputs"
  by (induction ts) (use pads in \<open>simp_all add: md_pads_def\<close>)

lemma flash_prefill_append:
  "flash_prefill_kernel attend groups query caches md ts outputs = Inr out \<Longrightarrow>
     flash_prefill_kernel attend groups query caches md (ts @ ts') outputs =
     flash_prefill_kernel attend groups query caches md ts' out"
  by (induction attend groups query caches md ts outputs rule: flash_prefill_kernel.induct)
    (auto split: sum.splits bool.splits)

lemma flash_prefill_length:
  "flash_prefill_kernel attend groups query caches md ts outputs = Inr out \<Longrightarrow> length out = length outputs"
  by (induction attend groups query caches md ts outputs rule: flash_prefill_kernel.induct)
    (auto split: sum.splits bool.splits)

lemma paged_decode_cases:
  assumes run: "paged_decode_kernel attend groups query caches md (r # rs) outputs = Inr out"
  obtains (prefill) "mem_read (md_is_decode md) (int r) = Inr False"
      "paged_decode_kernel attend groups query caches md rs outputs = Inr out"
    | (idle) q where "mem_read (md_is_decode md) (int r) = Inr True" "mem_read (md_query_start_loc md) (int r) = Inr q"
      "mem_read (md_active_mask md) (int q) = Inr False"
      "paged_decode_kernel attend groups query caches md rs outputs = Inr out"
    | (decode) q table len new where "mem_read (md_is_decode md) (int r) = Inr True"
      "mem_read (md_query_start_loc md) (int r) = Inr q" "mem_read (md_active_mask md) (int q) = Inr True"
      "mem_read (md_block_tables md) (int r) = Inr table" "mem_read (md_seq_lens md) (int r) = Inr len"
      "online_paged_attention attend (t3_heads query) groups caches table len (md_block_size md)
         (t3_rows query ! q) = Inr new"
      "paged_decode_kernel attend groups query caches md rs (outputs[q := new]) = Inr out"
proof -
  obtain d where d: "mem_read (md_is_decode md) (int r) = Inr d" using run by (auto split: sum.splits)
  show thesis
  proof (cases d)
    case False
    then show thesis using run d by (intro prefill) simp_all
  next
    case True
    then obtain q where q: "mem_read (md_query_start_loc md) (int r) = Inr q"
      using run d by (cases "mem_read (md_query_start_loc md) (int r)") simp_all
    obtain a where a: "mem_read (md_active_mask md) (int q) = Inr a"
      using run d True q by (cases "mem_read (md_active_mask md) (int q)") simp_all
    show thesis
    proof (cases a)
      case False
      then show thesis using run d \<open>d\<close> q a by (intro idle) simp_all
    next
      case True
      then obtain table where table: "mem_read (md_block_tables md) (int r) = Inr table"
        using run d \<open>d\<close> q a by (cases "mem_read (md_block_tables md) (int r)") simp_all
      then obtain len where len: "mem_read (md_seq_lens md) (int r) = Inr len"
        using run d \<open>d\<close> q a True by (cases "mem_read (md_seq_lens md) (int r)") simp_all
      then show thesis using run d \<open>d\<close> q a True table decode [of q table len]
        by (simp split: sum.splits)
    qed
  qed
qed

lemma paged_decode_pads:
  assumes pads: "md_pads md md'" and len: "length (md_active_mask md) = length (t3_rows query)"
  shows "paged_decode_kernel attend groups query caches md rs outputs = Inr out \<Longrightarrow> length outputs = length (t3_rows query) \<Longrightarrow>
    paged_decode_kernel attend groups (query\<lparr>t3_rows := t3_rows query @ extra\<rparr>) caches md' rs (outputs @ zs) = Inr (out @ zs)"
proof (induction rs arbitrary: outputs)
  case (Cons r rs)
  note R = mem_read_pads [OF pads]
  have act: "q < length (t3_rows query)" if "mem_read (md_active_mask md) (int q) = Inr v" for q v
    using that len by (simp add: mem_read_def split: if_splits)
  have row: "(t3_rows query @ extra) ! q = t3_rows query ! q"
    and up: "(outputs @ zs)[q := row] = outputs[q := row] @ zs" if "mem_read (md_active_mask md) (int q) = Inr v" for q v row
    using Cons.prems(2) act [OF that] by (simp_all add: nth_append list_update_append1)
  from Cons.prems(1) show ?case
  proof (cases rule: paged_decode_cases)
    case prefill
    then show ?thesis using Cons.IH Cons.prems(2) by (simp add: R(2) [OF prefill(1)])
  next
    case idle
    then show ?thesis using Cons.IH Cons.prems(2)
      by (simp add: R(2) [OF idle(1)] R(4) [OF idle(2)] R(1) [OF idle(3)])
  next
    case decode
    then show ?thesis using Cons.IH Cons.prems(2)
      by (simp add: R(2) [OF decode(1)] R(4) [OF decode(2)] R(1) [OF decode(3)] R(5) [OF decode(4)]
          R(7) [OF decode(5)] md_pads_block_size [OF pads] row [OF decode(3)] up [OF decode(3)])
  qed
qed simp

lemma paged_decode_inactive:
  assumes pads: "md_pads md md'"
  shows "\<forall>r\<in>set rs. length (md_seq_lens md) \<le> r \<and> r < length (md_seq_lens md') \<Longrightarrow>
    paged_decode_kernel attend groups query caches md' rs outputs = Inr outputs"
proof (induction rs)
  case (Cons r rs)
  have "r < length (md_is_decode md')" "r < length (md_query_start_loc md')"
    "md_query_start_loc md' ! r < length (md_active_mask md')" "\<not> md_active_mask md' ! (md_query_start_loc md' ! r)"
    using Cons.prems pads unfolding md_pads_def by auto
  then show ?case using Cons by (auto split: bool.split)
qed simp

lemma paged_decode_append:
  "paged_decode_kernel attend groups query caches md ts outputs = Inr out \<Longrightarrow>
     paged_decode_kernel attend groups query caches md (ts @ ts') outputs =
     paged_decode_kernel attend groups query caches md ts' out"
  by (induction attend groups query caches md ts outputs rule: paged_decode_kernel.induct)
    (auto split: sum.splits bool.splits)

lemma paged_decode_length:
  "paged_decode_kernel attend groups query caches md rs outputs = Inr out \<Longrightarrow> length out = length outputs"
  by (induction attend groups query caches md rs outputs rule: paged_decode_kernel.induct)
    (auto split: sum.splits bool.splits)

lemma cuda_forward_length:
  assumes "cuda_forward attend zeros query key val md caches = (Inr out, caches1)"
  shows "length out = length (t3_rows query)"
proof -
  obtain groups caches0 rs ts mid where
    "flash_prefill_kernel attend groups query caches0 md ts (map (map zeros) (t3_rows query)) = Inr mid"
    "paged_decode_kernel attend groups query caches0 md rs mid = Inr out"
    using assms by (auto simp: cuda_forward_def Let_def split: prod.splits sum.splits)
  then show ?thesis using flash_prefill_length paged_decode_length by (metis length_map)
qed

lemma cuda_forward_pads:
  assumes pads: "md_pads md md'"
    and run: "cuda_forward attend zeros query key val md caches = (Inr out, caches1)"
    and len: "length (md_active_mask md) = length (t3_rows query)" "length (t3_rows key) = length (t3_rows query)"
      "length (t3_rows val) = length (t3_rows query)"
    and len': "length (md_active_mask md') = length (t3_rows query) + length qs" "length ks = length qs" "length vs = length qs"
  shows "cuda_forward attend zeros (query\<lparr>t3_rows := t3_rows query @ qs\<rparr>) (key\<lparr>t3_rows := t3_rows key @ ks\<rparr>)
      (val\<lparr>t3_rows := t3_rows val @ vs\<rparr>) md' caches = (Inr (out @ map (map zeros) qs), caches1)"
proof -
  let ?n = "length (t3_rows query)" and ?groups = "t3_heads query div t3_heads key"
  let ?rows = "zip (md_active_mask md) (zip (md_slot_mapping md) (zip (t3_rows key) (t3_rows val)))"
    and ?query = "query\<lparr>t3_rows := t3_rows query @ qs\<rparr>" and ?zero = "map (map zeros) (t3_rows query)"
  obtain caches0 where app: "append_kv_kernel ?rows caches = (Inr (), caches0)"
    using run by (cases "append_kv_kernel ?rows caches") (auto simp: cuda_forward_def split: sum.splits)
  have chk: "check_common query (t3_heads key) = Inr ()"
    using run app by (auto simp: cuda_forward_def split: sum.splits)
  obtain mid where fl: "flash_prefill_kernel attend ?groups query caches0 md [0..<?n] ?zero = Inr mid"
    using run app chk by (auto simp: cuda_forward_def Let_def split: sum.splits)
  have pd: "paged_decode_kernel attend ?groups query caches0 md [0..<length (md_seq_lens md)] mid = Inr out" "caches1 = caches0"
    using run app chk fl by (auto simp: cuda_forward_def Let_def)
  obtain act slots where act: "md_active_mask md' = md_active_mask md @ act" and slots: "md_slot_mapping md' = md_slot_mapping md @ slots"
    and lens: "length (md_slot_mapping md) = ?n"
    using pads len(1) by (auto simp: md_pads_def prefix_def)
  have idle: "\<not> a" if a: "a \<in> set act" for a
  proof -
    obtain k where "k < length act" "a = act ! k" using a by (auto simp: in_set_conv_nth)
    then show ?thesis
      using pads unfolding md_pads_def act by (auto simp: nth_append dest: spec [of _ "length (md_active_mask md) + k"])
  qed
  have "zip (md_active_mask md') (zip (md_slot_mapping md') (zip (t3_rows key @ ks) (t3_rows val @ vs))) =
      ?rows @ zip act (zip slots (zip ks vs))"
    by (simp add: act slots len lens)
  moreover have idle_rows: "\<forall>x\<in>set (zip act (zip slots (zip ks vs))). \<not> fst x"
    using idle by (metis set_zip_leftD prod.collapse)
  ultimately have app': "append_kv_kernel (zip (md_active_mask md') (zip (md_slot_mapping md') (zip (t3_rows key @ ks) (t3_rows val @ vs))))
      caches = (Inr (), caches0)"
    using append_kv_inactive [OF idle_rows, of ?rows caches] app by simp
  have outs: "length mid = ?n"
    using flash_prefill_length [OF fl] by simp
  have fl': "flash_prefill_kernel attend ?groups ?query caches0 md' [0..<?n + length qs] (?zero @ map (map zeros) qs) =
      Inr (mid @ map (map zeros) qs)"
    using flash_prefill_append [OF flash_prefill_pads [OF pads fl, of qs "map (map zeros) qs"], of "[?n..<?n + length qs]"]
      flash_prefill_inactive [OF pads, of "[?n..<?n + length qs]"] len(1) len'(1)
    by (simp flip: upt_add_eq_append)
  obtain l where l: "length (md_seq_lens md') = length (md_seq_lens md) + l"
    using pads by (auto simp: md_pads_def prefix_def)
  have "paged_decode_kernel attend ?groups ?query caches0 md' [0..<length (md_seq_lens md')] (mid @ map (map zeros) qs) =
      Inr (out @ map (map zeros) qs)"
    using paged_decode_append [OF paged_decode_pads [OF pads len(1) pd(1) outs, of qs "map (map zeros) qs"],
        of "[length (md_seq_lens md)..<length (md_seq_lens md')]"]
      paged_decode_inactive [OF pads, of "[length (md_seq_lens md)..<length (md_seq_lens md')]"]
    unfolding l by (simp flip: upt_add_eq_append)
  moreover have "check_common ?query (t3_heads key) = Inr ()" using chk by (simp add: check_common_def split: if_splits)
  ultimately show ?thesis
    using app' fl' pd(2) by (simp add: cuda_forward_def Let_def)
qed

end
