(* ===== verification/Llama_Padding.thy ===== *)
theory Llama_Padding
  imports Attention_Padding Llama
begin

text \<open>
  The model on padded inputs: further tokens that are not active leave the caches and the logits of the
  others as they are, layer by layer.
\<close>

section \<open>Padded rows in the model\<close>

text \<open>The shapes that go with \<open>md_pads\<close>: \<open>n\<close> tokens and \<open>x\<close> further ones.\<close>

definition pads_by :: "nat \<Rightarrow> nat \<Rightarrow> attention_metadata \<Rightarrow> attention_metadata \<Rightarrow> bool" where
  "pads_by n x md md' \<longleftrightarrow> md_pads md md' \<and> length (md_active_mask md) = n \<and> length (md_active_mask md') = n + x"

lemma rotate_rows_append:
  "length rows = length pos \<Longrightarrow> length extra = length pos' \<Longrightarrow>
     map2 f (rows @ extra) (pos @ pos') = map2 f rows pos @ map2 f extra pos'"
  by simp

lemma attention_forward_pads:
  assumes pads: "pads_by (length hidden) (length extra) md md'"
    and len: "length pos = length hidden" "length pos' = length extra"
    and run: "attention_forward T sh CudaAttention att pos md hidden caches = (Inr out, caches1)"
  shows "\<exists>more. attention_forward T sh CudaAttention att (pos @ pos') md' (hidden @ extra) caches =
    (Inr (out @ more), caches1) \<and> length more = length extra \<and> length out = length hidden"
proof -
  let ?project = "\<lambda>xs heads l. map (\<lambda>x. view_heads heads (ls_head_dim sh) (linear_forward T l x)) xs"
    and ?rotate = "\<lambda>rows pos. map2 (\<lambda>row position. map (rotate_vector (ls_theta sh) (ls_head_dim sh) position) row) rows pos"
  let ?q = "\<lparr>t3_heads = ls_heads sh, t3_dim = ls_head_dim sh, t3_rows = ?rotate (?project hidden (ls_heads sh) (la_q_proj att)) pos\<rparr>"
    and ?k = "\<lparr>t3_heads = ls_kv_heads sh, t3_dim = ls_head_dim sh, t3_rows = ?rotate (?project hidden (ls_kv_heads sh) (la_k_proj att)) pos\<rparr>"
    and ?v = "\<lparr>t3_heads = ls_kv_heads sh, t3_dim = ls_head_dim sh, t3_rows = ?project hidden (ls_kv_heads sh) (la_v_proj att)\<rparr>"
  have even: "ls_head_dim sh mod 2 = 0"
    using run by (auto simp: attention_forward_def apply_rotary_embedding_def Let_def split: if_splits)
  obtain att_out where fw: "cuda_forward (tf_attend T) zeros_like ?q ?k ?v md caches = (Inr att_out, caches1)"
    and out: "out = map (\<lambda>row. linear_forward T (la_o_proj att) (concat row)) att_out"
    using run even
    by (auto simp: attention_forward_def apply_rotary_embedding_def backend_forward_def Let_def split: prod.splits sum.splits)
  show ?thesis
    using cuda_forward_length [OF fw] cuda_forward_pads [OF _ fw, of md' "?rotate (?project extra (ls_heads sh) (la_q_proj att)) pos'"
        "?rotate (?project extra (ls_kv_heads sh) (la_k_proj att)) pos'" "?project extra (ls_kv_heads sh) (la_v_proj att)"]
      pads len even out
    by (simp add: attention_forward_def apply_rotary_embedding_def backend_forward_def pads_by_def Let_def)
qed

lemma decoder_layer_forward_pads:
  assumes pads: "pads_by (length hidden) (length extra) md md'"
    and len: "length pos = length hidden" "length pos' = length extra"
    and run: "decoder_layer_forward T sh CudaAttention pos md layer hidden caches = (Inr out, caches1)"
  shows "\<exists>more. decoder_layer_forward T sh CudaAttention (pos @ pos') md' layer (hidden @ extra) caches =
    (Inr (out @ more), caches1) \<and> length more = length extra \<and> length out = length hidden"
proof -
  let ?norm = "rms_norm_forward T (dl_input_layernorm layer)"
  obtain a where a: "attention_forward T sh CudaAttention (dl_self_attn layer) pos md (map ?norm hidden) caches = (Inr a, caches1)"
    and out: "out = map (\<lambda>x. map2 (+) x (mlp_forward T (dl_mlp layer)
        (rms_norm_forward T (dl_post_attention_layernorm layer) x))) (map2 (map2 (+)) hidden a)"
    using run by (auto simp: decoder_layer_forward_def Let_def split: prod.splits sum.splits)
  obtain more where "attention_forward T sh CudaAttention (dl_self_attn layer) (pos @ pos') md'
      (map ?norm hidden @ map ?norm extra) caches = (Inr (a @ more), caches1)" "length more = length extra" "length a = length hidden"
    using attention_forward_pads [OF _ _ _ a, of "map ?norm extra" md' pos'] pads len by auto
  then show ?thesis
    by (simp add: decoder_layer_forward_def out)
qed

lemma layers_forward_pads:
  assumes pads: "pads_by n x md md'" and pos: "length pos = n" "length pos' = x"
  shows "layers_forward T sh CudaAttention pos md layers hidden caches = (Inr out, caches1) \<Longrightarrow>
    length hidden = n \<Longrightarrow> length extra = x \<Longrightarrow>
    \<exists>more. layers_forward T sh CudaAttention (pos @ pos') md' layers (hidden @ extra) caches = (Inr (out @ more), caches1) \<and>
      length more = x"
proof (induction layers arbitrary: hidden extra caches out caches1)
  case (Cons layer layers)
  obtain c cs where caches: "caches = c # cs" using Cons.prems(1) by (cases caches) auto
  obtain mid c1 cs1 where first: "decoder_layer_forward T sh CudaAttention pos md layer hidden c = (Inr mid, c1)"
    and rest: "layers_forward T sh CudaAttention pos md layers mid cs = (Inr out, cs1)" "caches1 = c1 # cs1"
    using Cons.prems(1) by (auto simp: caches split: prod.splits sum.splits)
  obtain more where more: "decoder_layer_forward T sh CudaAttention (pos @ pos') md' layer (hidden @ extra) c = (Inr (mid @ more), c1)"
    "length more = x" "length mid = n"
    using decoder_layer_forward_pads [OF _ _ _ first, of extra md' pos'] Cons.prems(2,3) pads pos by auto
  show ?case using Cons.IH [OF rest(1) more(3,2)] more(1) rest(2) by (auto simp: caches)
qed simp

lemma embed_loop_append:
  "embed_loop T w ids = Inr xs \<Longrightarrow> embed_loop T w ids' = Inr ys \<Longrightarrow> embed_loop T w (ids @ ids') = Inr (xs @ ys)"
  by (induction ids arbitrary: xs) (auto split: sum.splits)

lemma embed_loop_length: "embed_loop T w ids = Inr xs \<Longrightarrow> length xs = length ids"
  by (induction ids arbitrary: xs) (auto split: sum.splits)

lemma causal_lm_forward_pads:
  assumes pads: "pads_by (length ids) (length ids') md md'" and len: "length pos = length ids" "length pos' = length ids'"
    and run: "causal_lm_forward T sh CudaAttention model ids pos md caches = (Inr logits, caches1)"
    and emb: "embed_loop T (lm_embed_tokens model) ids' = Inr extra"
  shows "\<exists>more. causal_lm_forward T sh CudaAttention model (ids @ ids') (pos @ pos') md' caches = (Inr (logits @ more), caches1)"
proof -
  obtain hidden mid where e: "embed_loop T (lm_embed_tokens model) ids = Inr hidden"
    and l: "layers_forward T sh CudaAttention pos md (lm_layers model) hidden caches = (Inr mid, caches1)"
    and logits: "logits = map (\<lambda>x. linear_forward T (lm_lm_head model) (rms_norm_forward T (lm_norm model) x)) mid"
    using run by (auto simp: causal_lm_forward_def split: prod.splits sum.splits)
  then show ?thesis
    using layers_forward_pads [OF pads len l, of extra] embed_loop_length [OF e] embed_loop_length [OF emb]
      embed_loop_append [OF e emb]
    by (auto simp: causal_lm_forward_def)
qed

end
