(* ===== verification/LlamaGraph.thy ===== *)
theory LlamaGraph
  imports LlamaSystem Llama_Padding
begin

text \<open>
  The CUDA graph path of the Llama runner.  The tensors a graph reads hold, after \<open>_copy_decode_batch\<close>, the
  rows of the batch and padding that is marked inactive; so replaying the graph answers as the eager
  execution does.  The execution that captures the graph does not.
\<close>

section \<open>The tensors of a graph\<close>

definition padded :: "nat \<Rightarrow> 'a \<Rightarrow> 'a list \<Rightarrow> 'a list" where
  "padded n z xs = xs @ replicate (n - length xs) z"

lemma length_padded [simp]: "length xs \<le> n \<Longrightarrow> length (padded n z xs) = n"
  by (simp add: padded_def)

text \<open>The tensors of a captured graph keep their sizes.\<close>

definition graph_state_ok :: "('w, 'g) llama_runner \<Rightarrow> nat \<Rightarrow> llama_graph_state \<Rightarrow> bool" where
  "graph_state_ok s n st \<longleftrightarrow>
     length (gs_input_ids st) = n \<and> length (gs_positions st) = n \<and>
     (let md = gs_metadata st in
        length (md_positions md) = n \<and> length (md_slot_mapping md) = n \<and> md_query_start_loc md = [0..<n + 1] \<and>
        length (md_seq_lens md) = n \<and> length (md_block_tables md) = n \<and>
        list_all (\<lambda>row. length row = nat (lr_max_blocks s)) (md_block_tables md) \<and>
        md_request_indices md = map int [0..<n] \<and> md_is_decode md = replicate n True \<and>
        length (md_active_mask md) = n \<and> md_block_size md = lr_block_size s)"

lemma create_graph_state_ok:
  assumes "create_graph_state s slots sz = Inr st" and "nat sz \<le> length slots"
  shows "graph_state_ok s (nat sz) st"
  using assms by (auto simp: create_graph_state_def graph_state_ok_def Let_def list_all_iff simp del: upt_Suc split: if_splits)

text \<open>What the tensors hold once a batch is copied: the batch's rows, then rows that belong to no request.\<close>

definition graph_metadata :: "('w, 'g) llama_runner \<Rightarrow> nat \<Rightarrow> gpu_input_batch \<Rightarrow> attention_metadata" where
  "graph_metadata s n b =
     (let cnt = num_requests b; width = nat (lr_max_blocks s)
      in \<lparr>md_positions = padded n 0 (positions b),
          md_slot_mapping = slot_mapping b @ map (\<lambda>i. lr_physical_cache_slots s + int i) [cnt..<n],
          md_query_start_loc = [0..<n + 1], md_seq_lens = padded n 1 (seq_lens b),
          md_block_tables = padded n (replicate width 0) (map (padded width 0) (block_tables b)),
          md_request_indices = map int [0..<n], md_is_decode = replicate n True,
          md_active_mask = padded n False (replicate cnt True), md_block_size = lr_block_size s\<rparr>)"

definition graph_inputs :: "('w, 'g) llama_runner \<Rightarrow> nat \<Rightarrow> gpu_input_batch \<Rightarrow> llama_graph_state \<Rightarrow> llama_graph_state" where
  "graph_inputs s n b st = st\<lparr>gs_input_ids := padded n 0 (input_ids b), gs_positions := padded n 0 (positions b),
     gs_metadata := graph_metadata s n b\<rparr>"

text \<open>The batches the tensors can take.\<close>

definition decode_batch :: "('w, 'g) llama_runner \<Rightarrow> gpu_input_batch \<Rightarrow> bool" where
  "decode_batch s b \<longleftrightarrow> bd_uniform_decode (descriptor b) \<and>
     (let cnt = num_requests b in 0 < cnt \<and> length (input_ids b) = cnt \<and> length (positions b) = cnt \<and>
        length (slot_mapping b) = cnt \<and> length (seq_lens b) = cnt \<and> length (block_tables b) = cnt) \<and>
     int_tensor 64 (input_ids b) = Inr (input_ids b) \<and> int_tensor 64 (positions b) = Inr (positions b) \<and>
     int_tensor 32 (positions b) = Inr (positions b) \<and> int_tensor 32 (slot_mapping b) = Inr (slot_mapping b) \<and>
     int_tensor 32 (seq_lens b) = Inr (seq_lens b) \<and> int_matrix 32 (block_tables b) = Inr (block_tables b) \<and>
     length (block_tables b ! 0) \<le> nat (lr_max_blocks s)"

lemma prefix_copy_exact:
  assumes "int_tensor w xs = Inr xs" and "length xs = cnt" and "cnt \<le> length dst"
  shows "prefix_copy w cnt xs dst = Inr (xs @ drop cnt dst)"
  using assms by (simp add: prefix_copy_def min_def)

lemma int_matrix_lengths:
  "int_matrix w rows = Inr rows' \<Longrightarrow> row \<in> set rows \<Longrightarrow> length row = length (rows ! 0)"
  by (auto simp: int_matrix_def list_all_iff split: if_splits)

lemma table_copy_exact:
  assumes m: "int_matrix 32 tables = Inr tables" and len: "length tables = cnt" "0 < cnt" "cnt \<le> n"
    and w: "length (tables ! 0) \<le> width"
  shows "table_copy cnt (length (tables ! 0)) tables (replicate n (replicate width 0)) =
    Inr (padded n (replicate width 0) (map (padded width 0) tables))"
proof -
  define W where "W = length (tables ! 0)"
  have rows: "length (tables ! i) = W" if "i < cnt" for i
    unfolding W_def by (rule int_matrix_lengths [OF m]) (simp add: that len(1))
  have "map2 (\<lambda>row old. row @ drop W old) tables (replicate cnt (replicate width 0)) = map (padded width 0) tables"
    using len(1) rows by (intro nth_equalityI) (simp_all add: padded_def)
  then show ?thesis
    using len m w by (simp add: table_copy_def min_def padded_def list_all_iff flip: W_def)
qed

lemma zeroed_tables:
  assumes "list_all (\<lambda>row. length row = w) rows"
  shows "map (map (\<lambda>_. 0 :: int)) rows = replicate (length rows) (replicate w 0)"
  using assms by (intro nth_equalityI) (simp_all add: list_all_length map_replicate_const)

text \<open>Copying a batch leaves nothing of the batches before it in the tensors.\<close>

lemma copy_decode_batch_exact:
  assumes ok: "graph_state_ok s n st" and b: "decode_batch s b" and n: "num_requests b \<le> n"
  shows "copy_decode_batch s st b = (Inr (), graph_inputs s n b st)"
proof -
  let ?cnt = "num_requests b"
  obtain ps ss qs ls ts rs ds as bs where md: "gs_metadata st = \<lparr>md_positions = ps, md_slot_mapping = ss,
      md_query_start_loc = qs, md_seq_lens = ls, md_block_tables = ts, md_request_indices = rs, md_is_decode = ds,
      md_active_mask = as, md_block_size = bs\<rparr>" by (cases "gs_metadata st")
  note ok' = ok [unfolded graph_state_ok_def Let_def md attention_metadata.select_convs] and b' = b [unfolded decode_batch_def Let_def]
  have tables: "map (map (\<lambda>_. 0 :: int)) ts = replicate n (replicate (nat (lr_max_blocks s)) 0)"
    using ok' zeroed_tables [of "nat (lr_max_blocks s)" ts] by simp
  have copies: "prefix_copy w ?cnt xs (replicate n z) = Inr (padded n z xs)"
    if "int_tensor w xs = Inr xs" "length xs = ?cnt" for w xs z
    using prefix_copy_exact [OF that] n that(2) by (simp add: padded_def)
  have slots: "prefix_copy 32 ?cnt (slot_mapping b) ss =
      Inr (slot_mapping b @ drop ?cnt ss)"
    using ok' b' n by (intro prefix_copy_exact) auto
  have tab: "table_copy ?cnt (length (block_tables b ! 0)) (block_tables b) (replicate n (replicate (nat (lr_max_blocks s)) 0)) =
      Inr (padded n (replicate (nat (lr_max_blocks s)) 0) (map (padded (nat (lr_max_blocks s)) 0) (block_tables b)))"
    using b' n by (intro table_copy_exact) auto
  have zero: "py_get (block_tables b) 0 = Inr (block_tables b ! 0)" using b' by (simp add: py_get_nonneg)
  have sz: "length (gs_input_ids st) = n" using ok' by simp
  have act: "padded n False (replicate ?cnt True) = replicate ?cnt True @ replicate (n - ?cnt) False"
    "padded n False (replicate n True) = replicate n True"
    by (simp_all add: padded_def)
  have slots': "slot_mapping b @ drop ?cnt ss = slot_mapping b" if "?cnt = n" using ok' b' that by (simp add: md)
  show ?thesis
    using ok' b' n slots'
    by (simp add: copy_decode_batch_def Let_def sz tables copies slots tab zero act graph_inputs_def graph_metadata_def
        not_le md del: upt_Suc)
qed

section \<open>The tensors of a scheduled decode round\<close>

text \<open>The metadata of the rows that belong to requests.\<close>

definition decode_metadata :: "('w, 'g) llama_runner \<Rightarrow> gpu_input_batch \<Rightarrow> attention_metadata" where
  "decode_metadata s b =
     (let cnt = num_requests b
      in \<lparr>md_positions = positions b, md_slot_mapping = slot_mapping b, md_query_start_loc = [0..<cnt + 1],
          md_seq_lens = seq_lens b, md_block_tables = map (padded (nat (lr_max_blocks s)) 0) (block_tables b),
          md_request_indices = map int [0..<cnt], md_is_decode = replicate cnt True,
          md_active_mask = replicate cnt True, md_block_size = lr_block_size s\<rparr>)"

lemma prefix_padded [simp]: "prefix xs (padded n z xs)"
  by (simp add: padded_def)

lemma prefix_upt: "m \<le> n \<Longrightarrow> prefix [0..<m] [0..<n]"
  using upt_add_eq_append [of 0 m "n - m"] by (simp add: prefix_def)

lemma graph_metadata_pads:
  assumes b: "decode_batch s b" and n: "num_requests b \<le> n"
  shows "pads_by (num_requests b) (n - num_requests b) (decode_metadata s b) (graph_metadata s n b)"
proof -
  have "prefix (map int [0..<num_requests b]) (map int [0..<n])" "prefix [0..<num_requests b + 1] [0..<n + 1]"
    using n by (simp_all add: prefix_upt map_mono_prefix del: upt_Suc)
  moreover have "replicate n True = replicate (num_requests b) True @ replicate (n - num_requests b) True"
    using n by (simp flip: replicate_add)
  then have "prefix (replicate (num_requests b) True) (replicate n True)" unfolding prefix_def ..
  ultimately show ?thesis
    using b n by (simp add: pads_by_def md_pads_def graph_metadata_def decode_metadata_def decode_batch_def Let_def
        nth_append padded_def nth_upt del: upt_Suc)
qed

lemma offsets_ones:
  assumes "\<forall>x\<in>set xs. f x = 1"
  shows "offsets f xs = [0..<length xs + 1]"
proof -
  have "sum_list (map f (take k xs)) = k" if "k \<le> length xs" for k
  proof -
    have "map f (take k xs) = replicate k 1" using assms that by (intro nth_equalityI) simp_all
    then show ?thesis by (simp add: sum_list_replicate)
  qed
  then have "map (\<lambda>k. sum_list (map f (take k xs))) [0..<Suc (length xs)] = map (\<lambda>k. k) [0..<Suc (length xs)]"
    by (intro map_cong) (auto simp del: upt_Suc)
  then show ?thesis by (simp add: offsets_def del: upt_Suc)
qed

lemma uniform_items:
  assumes gb: "from_worker_batch wb bsize = Inr gb" and u: "bd_uniform_decode (descriptor gb)"
  shows "\<forall>it\<in>set (wb_items wb). decode_item it \<and> length (wi_token_ids it) = 1 \<and> length (item_positions it) = 1 \<and>
      length (wi_slot_mapping it) = 1"
    and "num_requests gb = length (wb_items wb)"
proof -
  from gb have f: "gb = padded_form bsize (wb_batch_id wb) (wb_items wb)" "\<forall>it\<in>set (wb_items wb). item_valid bsize it"
    by (auto elim: from_worker_batchE)
  have d: "\<forall>it\<in>set (wb_items wb). decode_item it"
    using u by (auto simp: f(1) descriptor_def padded_form_def Let_def flat_form_def list_all_iff)
  with f(2) show "\<forall>it\<in>set (wb_items wb). decode_item it \<and> length (wi_token_ids it) = 1 \<and> length (item_positions it) = 1 \<and>
      length (wi_slot_mapping it) = 1"
    by (auto simp: decode_item_def item_valid_def item_positions_def)
  show "num_requests gb = length (wb_items wb)" by (simp add: f(1) num_requests_def padded_form_def Let_def flat_form_def)
qed

lemma length_concat_ones: "\<forall>x\<in>set xs. length (f x) = 1 \<Longrightarrow> length (concat (map f xs)) = length xs"
  by (induction xs) simp_all

lemma concat_ones: "\<forall>k\<in>set ks. f k = [g k] \<Longrightarrow> concat (map f ks) = map g ks"
  by (induction ks) simp_all

lemma decode_metadata_for:
  assumes gb: "from_worker_batch wb (int b) = Inr gb" and u: "bd_uniform_decode (descriptor gb)"
    and bs: "lr_block_size s = int b"
  shows "md_for b (wb_items wb) (decode_metadata s gb)"
proof -
  from gb have f: "gb = padded_form (int b) (wb_batch_id wb) (wb_items wb)" by (auto elim: from_worker_batchE)
  note F = f padded_form_def Let_def flat_form_def
  note U = uniform_items [OF gb u]
  have "md_positions (decode_metadata s gb) = concat (map item_positions (wb_items wb))"
    "md_slot_mapping (decode_metadata s gb) = concat (map wi_slot_mapping (wb_items wb))"
    "md_seq_lens (decode_metadata s gb) = map wi_seq_len (wb_items wb)"
    by (simp_all add: decode_metadata_def F)
  moreover have "md_query_start_loc (decode_metadata s gb) = offsets (length \<circ> wi_token_ids) (wb_items wb)"
    using offsets_ones [of "wb_items wb" "length \<circ> wi_token_ids"] U by (simp add: decode_metadata_def Let_def del: upt_Suc)
  moreover have "md_active_mask (decode_metadata s gb) = replicate (length (concat (map wi_token_ids (wb_items wb)))) True"
    using length_concat_ones [of "wb_items wb" wi_token_ids] U by (simp add: decode_metadata_def Let_def)
  moreover have "md_request_indices (decode_metadata s gb) =
      concat (map (\<lambda>k. replicate (length (wi_token_ids (wb_items wb ! k))) (int k)) [0..<length (wb_items wb)])"
    using concat_ones [of "[0..<length (wb_items wb)]" "\<lambda>k. replicate (length (wi_token_ids (wb_items wb ! k))) (int k)" int] U
    by (simp add: decode_metadata_def Let_def)
  moreover have decode_all: "map decode_item (wb_items wb) = replicate (length (wb_items wb)) True"
    using U(1) by (intro nth_equalityI) simp_all
  have "md_is_decode (decode_metadata s gb) = map decode_item (wb_items wb)"
    using decode_all U(2) by (simp add: decode_metadata_def Let_def)
  moreover have "\<exists>pad. md_block_tables (decode_metadata s gb) ! k =
      take (nat (required_blocks (int b) (wb_items wb ! k))) (wi_block_table (wb_items wb ! k)) @ pad"
    if "k < length (wb_items wb)" for k
  proof -
    have len: "length (block_tables gb) = length (wb_items wb)" by (simp add: F pad_tables_def)
    have "\<exists>pad. block_tables gb ! k = take (nat (required_blocks (int b) (wb_items wb ! k))) (wi_block_table (wb_items wb ! k)) @ pad"
      using that by (simp add: F pad_tables_def)
    then show ?thesis using that len by (auto simp: decode_metadata_def Let_def padded_def)
  qed
  moreover have "md_block_size (decode_metadata s gb) = int b" "length (md_block_tables (decode_metadata s gb)) = length (wb_items wb)"
    using bs by (simp_all add: decode_metadata_def F pad_tables_def)
  ultimately show ?thesis unfolding md_for_def by blast
qed

lemma int_tensor_widen: "int_tensor 32 xs = Inr ys \<Longrightarrow> int_tensor 64 xs = Inr xs"
  by (force simp: int_tensor_def list_all_iff split: if_splits)

lemma metadata_tensors:
  assumes "metadata_from_batch gb bs (Some w) = Inr md"
  shows "int_tensor 32 (positions gb) = Inr (positions gb)" and "int_tensor 32 (slot_mapping gb) = Inr (slot_mapping gb)"
    and "int_tensor 32 (seq_lens gb) = Inr (seq_lens gb)"
    and "\<exists>k. int_matrix 32 (map (\<lambda>t. t @ replicate (k t) (- 1)) (block_tables gb)) =
      Inr (map (\<lambda>t. t @ replicate (k t) (- 1)) (block_tables gb))"
    and "w \<noteq> 0 \<Longrightarrow> block_tables gb \<noteq> [] \<Longrightarrow> int (length (block_tables gb ! 0)) \<le> w"
proof -
  obtain width ps ss ls ts where r: "table_width gb (Some w) = Inr width" "int_tensor 32 (positions gb) = Inr ps"
    "int_tensor 32 (slot_mapping gb) = Inr ss" "int_tensor 32 (seq_lens gb) = Inr ls"
    "int_matrix 32 (map (\<lambda>t. t @ replicate (nat (width - int (length t))) (- 1)) (block_tables gb)) = Inr ts"
    using assms by (auto simp: metadata_from_batch_def Let_def split: sum.splits)
  show "int_tensor 32 (positions gb) = Inr (positions gb)" "int_tensor 32 (slot_mapping gb) = Inr (slot_mapping gb)"
    "int_tensor 32 (seq_lens gb) = Inr (seq_lens gb)"
    "\<exists>k. int_matrix 32 (map (\<lambda>t. t @ replicate (k t) (- 1)) (block_tables gb)) =
      Inr (map (\<lambda>t. t @ replicate (k t) (- 1)) (block_tables gb))"
    using r(2-4) int_tensor_same r(5) int_matrix_same [OF r(5)] by (metis, metis, metis, metis)
  show "int (length (block_tables gb ! 0)) \<le> w" if "w \<noteq> 0" "block_tables gb \<noteq> []"
    using r(1) that by (auto simp: table_width_def py_get_nonneg Let_def split: if_splits sum.splits)
qed

lemma int_matrix_prefixes:
  assumes "int_matrix 32 (map (\<lambda>t. t @ replicate (k t) (- 1)) ts) = Inr m" and "\<forall>t\<in>set ts. length t = width"
  shows "int_matrix 32 ts = Inr ts"
proof (rule int_matrix_fits [where w = width], intro ballI conjI)
  fix t assume t: "t \<in> set ts"
  then show "length t = width" using assms(2) by blast
  obtain xs where "int_tensor 32 (concat (map (\<lambda>t. t @ replicate (k t) (- 1)) ts)) = Inr xs"
    using assms(1) by (auto simp: int_matrix_def split: if_splits sum.splits)
  then have "list_all (\<lambda>x. - (2 ^ 31) \<le> x \<and> x < 2 ^ 31) (concat (map (\<lambda>t. t @ replicate (k t) (- 1)) ts))"
    unfolding int_tensor_def by (simp split: if_splits)
  then show "list_all (\<lambda>x. - (2 ^ 31) \<le> x \<and> x < 2 ^ 31) t" using t by (auto simp: list_all_iff)
qed

lemma pad_tables_width:
  assumes "W = Max (set (map length ts))"
  shows "\<forall>row\<in>set (pad_tables W ts). length row = W"
proof -
  have "length t \<le> W" if "t \<in> set ts" for t
    unfolding assms using that by (intro Max_ge) auto
  then show ?thesis by (auto simp: pad_tables_def)
qed

lemma scheduled_decode_batch:
  assumes inv: "sched_inv sc" and its: "items_ok sc its" and ne: "its \<noteq> []" and fit: "runner_for (sc_config sc) s"
    and gb: "from_worker_batch \<lparr>wb_batch_id = bid, wb_items = its\<rparr> (block_size (sc_config sc)) = Inr gb"
    and u: "bd_uniform_decode (descriptor gb)" and known: "known_tokens T model (concat (map wi_token_ids its))"
  shows "decode_batch s gb" and "num_requests gb = length its"
proof -
  let ?c = "sc_config sc" and ?wb = "\<lparr>wb_batch_id = bid, wb_items = its\<rparr>"
  let ?w = "(max_model_len ?c + block_size ?c - 1) div block_size ?c"
  have pos: "0 < block_size ?c" "0 < max_model_len ?c"
    using sched_inv_butD(1) [OF inv] by (simp_all add: valid_config_def)
  have cap: "num_gpu_blocks ?c * block_size ?c < 2 ^ 31" using fit by (simp add: runner_for_def)
  from scheduled_metadata [OF inv its ne cap gb] obtain md where
    md: "metadata_from_batch gb (block_size ?c) (Some ?w) = Inr md" ..
  note M = metadata_tensors [OF md]
  from gb have f: "gb = padded_form (block_size ?c) bid its" by (auto elim: from_worker_batchE)
  note F = f padded_form_def Let_def flat_form_def
  note U = uniform_items [OF gb u, simplified]
  show cnt: "num_requests gb = length its" by (rule U(2))
  have w: "0 < ?w" using pos pos_imp_zdiv_pos_iff [of "block_size ?c" "max_model_len ?c + block_size ?c - 1"] by simp
  have len: "length (input_ids gb) = length its" "length (positions gb) = length its" "length (slot_mapping gb) = length its"
    using U(1) by (simp_all add: F length_concat_ones)
  have len2: "length (seq_lens gb) = length its" "length (block_tables gb) = length its"
    by (simp_all add: F pad_tables_def)
  define rows where "rows = map (\<lambda>i. take (nat (required_blocks (block_size ?c) i)) (wi_block_table i)) its"
  define W where "W = Max (set (map length rows))"
  have "block_tables gb = pad_tables W rows" by (simp add: F W_def rows_def image_image)
  then have W: "\<forall>row\<in>set (block_tables gb). length row = W" using pad_tables_width [OF W_def] by simp
  from M(4) obtain k where k: "int_matrix 32 (map (\<lambda>t. t @ replicate (k t) (- 1)) (block_tables gb)) =
      Inr (map (\<lambda>t. t @ replicate (k t) (- 1)) (block_tables gb))" ..
  have ids: "int_tensor 64 (input_ids gb) = Inr (input_ids gb)"
    using known by (simp add: int_tensor_def list_all_iff known_tokens_def F)
  have "block_tables gb \<noteq> []" using len2(2) ne by auto
  then have "int (length (block_tables gb ! 0)) \<le> ?w" using w by (intro M(5)) simp_all
  then have tw: "length (block_tables gb ! 0) \<le> nat (lr_max_blocks s)" using fit by (simp add: runner_for_def)
  show "decode_batch s gb"
    unfolding decode_batch_def Let_def cnt
    using u len len2 ids M(1-3) int_tensor_widen [OF M(1)] int_matrix_prefixes [OF k W] tw ne by simp
qed

section \<open>Replaying a captured graph\<close>

lemma embed_loop_replicate: "tf_embedding T w t = Inr e \<Longrightarrow> embed_loop T w (replicate k t) = Inr (replicate k e)"
  by (induction k) simp_all

text \<open>
  A scheduled decode round on the tensors of a graph: the logits are those of the reference model, followed
  by rows nobody reads, and the caches are as after the eager execution.
\<close>

lemma run_graph_state_exact:
  assumes inv: "sched_inv sc" and its: "items_ok sc its" and ne: "its \<noteq> []" and fit: "runner_for (sc_config sc) s"
    and n: "num_gpu_blocks (sc_config sc) * block_size (sc_config sc) \<le> int n"
    and cached: "llama_cached T (lr_shape s) (lr_model s) sc n (lr_caches s)"
    and gb: "from_worker_batch \<lparr>wb_batch_id = bid, wb_items = its\<rparr> (block_size (sc_config sc)) = Inr gb"
    and u: "bd_uniform_decode (descriptor gb)" and known: "known_tokens T (lr_model s) (0 # concat (map wi_token_ids its))"
    and cuda: "lr_backend s = CudaAttention" and m: "length its \<le> m"
  shows "\<exists>more cs. run_graph_state T s (graph_inputs s m gb st) =
      (Inr (flat_rows (\<lambda>it. reference_logits T (lr_shape s) (lr_model s) (tokens_of sc (wi_request_id it))) its @ more),
       s\<lparr>lr_caches := cs\<rparr>) \<and>
    llama_cached T (lr_shape s) (lr_model s) sc n cs \<and> llama_cached_items T (lr_shape s) (lr_model s) sc its cs"
proof -
  let ?m = "sc_cache_manager sc" and ?wb = "\<lparr>wb_batch_id = bid, wb_items = its\<rparr>" and ?md = "decode_metadata s gb"
  let ?b = "kv_block_size ?m" and ?c = "sc_config sc"
  note D = sched_inv_butD [OF inv]
  have pos: "0 < block_size ?c" "0 < num_gpu_blocks ?c" using D(1) by (simp_all add: valid_config_def)
  have b: "block_size ?c = int ?b" "int (kv_cap ?m) = num_gpu_blocks ?c" using D(3,4) pos by simp_all
  have n': "kv_cap ?m * ?b \<le> n" using n unfolding b(1) b(2) [symmetric] by (metis of_nat_le_iff of_nat_mult)
  have fits: "lr_block_size s = int ?b" "shape_ok (lr_shape s)" using fit b(1) by (simp_all add: runner_for_def)
  have ids_known: "known_tokens T (lr_model s) (concat (map wi_token_ids its))" using known by (simp add: known_tokens_def)
  note B = scheduled_decode_batch [OF inv its ne fit gb u ids_known]
  have f: "gb = padded_form (block_size ?c) bid its" using gb by (auto elim: from_worker_batchE)
  have F: "input_ids gb = concat (map wi_token_ids its)" "positions gb = concat (map item_positions its)"
    by (simp_all add: f padded_form_def Let_def flat_form_def)
  have flat: "positions gb = flat_rows (\<lambda>it. int) its"
    unfolding F flat_rows_def using seg_okD(5) items_ok_segments(1) [OF inv its n']
    by (intro arg_cong [where f = concat] map_cong) auto
  have mdf: "md_for ?b its ?md" using decode_metadata_for [of ?wb ?b gb s] gb u b(1) fits(1) by simp
  from causal_lm_exact [OF inv its n' mdf flat F(1) fits(2) ids_known [folded F(1)] cached, of CudaAttention] obtain cs where
    fw: "causal_lm_forward T (lr_shape s) CudaAttention (lr_model s) (input_ids gb) (positions gb) ?md (lr_caches s) =
      (Inr (flat_rows (\<lambda>it. reference_logits T (lr_shape s) (lr_model s) (tokens_of sc (wi_request_id it))) its), cs)"
    and cs: "llama_cached T (lr_shape s) (lr_model s) sc n cs" "llama_cached_items T (lr_shape s) (lr_model s) sc its cs"
    by blast
  let ?x = "m - length its"
  have len: "length (input_ids gb) = length its" "length (positions gb) = length its"
    using B by (simp_all add: decode_batch_def Let_def)
  from known obtain e where "tf_embedding T (lm_embed_tokens (lr_model s)) 0 = Inr e" by (auto simp: known_tokens_def)
  then have emb: "embed_loop T (lm_embed_tokens (lr_model s)) (replicate ?x 0) = Inr (replicate ?x e)"
    by (rule embed_loop_replicate)
  have "pads_by (length (input_ids gb)) (length (replicate ?x (0 :: int))) ?md (graph_metadata s m gb)"
    using graph_metadata_pads [OF B(1), of m] B(2) m len by simp
  from causal_lm_forward_pads [OF this _ _ fw emb, of "replicate ?x 0"] len obtain more where
    "causal_lm_forward T (lr_shape s) CudaAttention (lr_model s) (input_ids gb @ replicate ?x 0) (positions gb @ replicate ?x 0)
       (graph_metadata s m gb) (lr_caches s) =
     (Inr (flat_rows (\<lambda>it. reference_logits T (lr_shape s) (lr_model s) (tokens_of sc (wi_request_id it))) its @ more), cs)"
    by auto
  then show ?thesis using cs len cuda
    by (intro exI [of _ more] exI [of _ cs]) (simp add: run_graph_state_def run_model_def graph_inputs_def padded_def)
qed

lemma graph_inputs_ok:
  assumes "decode_batch s b" and "num_requests b \<le> n"
  shows "graph_state_ok s n (graph_inputs s n b st)"
proof -
  have "length (block_tables b ! i) \<le> nat (lr_max_blocks s)" if "i < num_requests b" for i
    using assms(1) int_matrix_lengths [of 32 "block_tables b" "block_tables b" "block_tables b ! i"] that
    by (simp add: decode_batch_def Let_def)
  then have "\<forall>t\<in>set (block_tables b). length t \<le> nat (lr_max_blocks s)"
    using assms(1) by (auto simp: decode_batch_def Let_def in_set_conv_nth)
  then show ?thesis
    using assms
    by (auto simp: graph_state_ok_def graph_inputs_def graph_metadata_def decode_batch_def Let_def list_all_iff
        padded_def simp del: upt_Suc)
qed

lemma llama_replay_round:
  fixes S :: "'g sampler" and s :: "('w, 'g) llama_runner"
  assumes inv: "sched_inv sc" and its: "items_ok sc its" and ne: "its \<noteq> []" and fit: "runner_for (sc_config sc) s"
    and n: "num_gpu_blocks (sc_config sc) * block_size (sc_config sc) \<le> int n"
    and cached: "llama_cached T (lr_shape s) (lr_model s) sc n (lr_caches s)"
    and gb: "from_worker_batch \<lparr>wb_batch_id = bid, wb_items = its\<rparr> (block_size (sc_config sc)) = Inr gb"
    and u: "bd_uniform_decode (descriptor gb)" and known: "known_tokens T (lr_model s) (0 # concat (map wi_token_ids its))"
    and sup: "supports_cudagraph s" and st: "map_of (lr_graph_states s) sz = Some st" "gs_graph st"
    and ok: "graph_state_ok s m st" and m: "length its \<le> m"
  defines "R \<equiv> draw_tokens S (sampled_rows (\<lambda>it. reference_logits T (lr_shape s) (lr_model s)
      (tokens_of sc (wi_request_id it))) its) [] (lr_rng s)"
  shows "\<exists>cs st'. llama_execute_cudagraph T S new_slots uninitialised s gb sz =
      (fst R, s\<lparr>lr_caches := cs, lr_graph_states := AList.update sz st' (lr_graph_states s), lr_rng := snd R\<rparr>) \<and>
    llama_cached T (lr_shape s) (lr_model s) sc n cs \<and> llama_cached_items T (lr_shape s) (lr_model s) sc its cs \<and>
    graph_state_ok s m st' \<and> gs_graph st'"
proof -
  let ?c = "sc_config sc" and ?m = "sc_cache_manager sc" and ?wb = "\<lparr>wb_batch_id = bid, wb_items = its\<rparr>"
  note D = sched_inv_butD [OF inv]
  have pos: "0 < block_size ?c" "0 < num_gpu_blocks ?c" using D(1) by (simp_all add: valid_config_def)
  have b: "block_size ?c = int (kv_block_size ?m)" "int (kv_cap ?m) = num_gpu_blocks ?c" using D(3,4) pos by simp_all
  have n': "kv_cap ?m * kv_block_size ?m \<le> n" using n unfolding b(1) b(2) [symmetric] by (metis of_nat_le_iff of_nat_mult)
  have cuda: "lr_backend s = CudaAttention"
    using sup by (simp add: supports_cudagraph_def graph_safe_def split: attention_backend.splits)
  have ids_known: "known_tokens T (lr_model s) (concat (map wi_token_ids its))" using known by (simp add: known_tokens_def)
  note B = scheduled_decode_batch [OF inv its ne fit gb u ids_known]
  let ?st = "graph_inputs s m gb st" and ?put = "\<lambda>s st. s\<lparr>lr_graph_states := AList.update sz st (lr_graph_states s)\<rparr>"
  let ?s = "?put s ?st"
  have copy: "copy_decode_batch s st gb = (Inr (), ?st)" using copy_decode_batch_exact [OF ok B(1)] B(2) m by simp
  have same: "graph_inputs ?s m gb st = ?st" by (simp add: graph_inputs_def graph_metadata_def)
  have "runner_for ?c ?s" using fit by (simp add: runner_for_def)
  from run_graph_state_exact [OF inv its ne this n _ gb u _ _ m, of T st, unfolded same] cached known cuda obtain more cs where
    run: "run_graph_state T ?s ?st = (Inr (flat_rows (\<lambda>it. reference_logits T (lr_shape s) (lr_model s)
        (tokens_of sc (wi_request_id it))) its @ more), ?s\<lparr>lr_caches := cs\<rparr>)"
    and cs: "llama_cached T (lr_shape s) (lr_model s) sc n cs" "llama_cached_items T (lr_shape s) (lr_model s) sc its cs"
    by auto
  let ?logits = "flat_rows (\<lambda>it. reference_logits T (lr_shape s) (lr_model s) (tokens_of sc (wi_request_id it))) its @ more"
  have draw: "sample_logits S gb ?logits (lr_rng s) = R"
    unfolding R_def using sample_logits_batch [of ?wb "kv_block_size ?m" gb n, where rest = more] gb b(1)
      items_ok_segments(1) [OF inv its n'] by simp
  have g: "gs_graph ?st" using st(2) by (simp add: graph_inputs_def)
  have "llama_execute_cudagraph T S new_slots uninitialised s gb sz =
      (fst R, s\<lparr>lr_caches := cs, lr_graph_states := AList.update sz (?st\<lparr>gs_logits := Some ?logits\<rparr>) (lr_graph_states s),
         lr_rng := snd R\<rparr>)"
    using sup st(1)
    by (simp add: llama_execute_cudagraph_def copy g replay_graph_def run Let_def finish_sampling_def draw update_last
        split: prod.split)
  moreover have "graph_state_ok s m (?st\<lparr>gs_logits := Some ?logits\<rparr>)"
    using graph_inputs_ok [OF B(1), of m st] B(2) m by (simp add: graph_state_ok_def)
  moreover have "gs_graph (?st\<lparr>gs_logits := Some ?logits\<rparr>)" using g by simp
  ultimately show ?thesis using cs by blast
qed

section \<open>The first execution for a capture size\<close>

lemma copy_decode_batch_graph:
  "copy_decode_batch s st b = (res, st') \<Longrightarrow> gs_graph st' = gs_graph st"
  by (auto simp: copy_decode_batch_def Let_def split: sum.splits if_splits)

lemma llama_capture_round:
  fixes S :: "'g sampler" and s :: "('w, 'g) llama_runner" and uninitialised :: "vec list"
  assumes inv: "sched_inv sc" and its: "items_ok sc its" and ne: "its \<noteq> []" and fit: "runner_for (sc_config sc) s"
    and n: "num_gpu_blocks (sc_config sc) * block_size (sc_config sc) \<le> int n"
    and cached: "llama_cached T (lr_shape s) (lr_model s) sc n (lr_caches s)"
    and gb: "from_worker_batch \<lparr>wb_batch_id = bid, wb_items = its\<rparr> (block_size (sc_config sc)) = Inr gb"
    and u: "bd_uniform_decode (descriptor gb)" and known: "known_tokens T (lr_model s) (0 # concat (map wi_token_ids its))"
    and sup: "supports_cudagraph s" and new: "map_of (lr_graph_states s) sz = None"
    and sz: "length its \<le> nat sz" "sz \<le> lr_max_num_seqs s" and slots: "nat sz \<le> length new_slots"
  defines "R \<equiv> sample_logits S gb uninitialised (lr_rng s)"
  shows "\<exists>cs st'. llama_execute_cudagraph T S new_slots uninitialised s gb sz =
      (fst R, s\<lparr>lr_caches := cs, lr_graph_states := AList.update sz st' (lr_graph_states s), lr_rng := snd R\<rparr>) \<and>
    llama_cached T (lr_shape s) (lr_model s) sc n cs \<and> llama_cached_items T (lr_shape s) (lr_model s) sc its cs \<and>
    graph_state_ok s (nat sz) st' \<and> gs_graph st'"
proof -
  let ?c = "sc_config sc"
  have cuda: "lr_backend s = CudaAttention"
    using sup by (simp add: supports_cudagraph_def graph_safe_def split: attention_backend.splits)
  have ids_known: "known_tokens T (lr_model s) (concat (map wi_token_ids its))" using known by (simp add: known_tokens_def)
  note B = scheduled_decode_batch [OF inv its ne fit gb u ids_known]
  have "0 < length its" using ne by simp
  then have "\<not> sz < 0" using sz(1) by linarith
  then have "\<exists>st. create_graph_state s new_slots sz = Inr st" using sz(2) by (simp add: create_graph_state_def Let_def)
  then obtain st where st: "create_graph_state s new_slots sz = Inr st" ..
  note ok = create_graph_state_ok [OF st slots]
  have fresh: "\<not> gs_graph st" using st by (auto simp: create_graph_state_def Let_def split: if_splits)
  let ?m = "nat sz"
  let ?st = "graph_inputs s ?m gb st" and ?put = "\<lambda>s st. s\<lparr>lr_graph_states := AList.update sz st (lr_graph_states s)\<rparr>"
  let ?s = "?put s ?st"
  have copy: "copy_decode_batch s st gb = (Inr (), ?st)" using copy_decode_batch_exact [OF ok B(1)] B(2) sz(1) by simp
  have run: "\<exists>out cs'. run_graph_state T (?s\<lparr>lr_caches := cs\<rparr>) ?st = (Inr out, ?s\<lparr>lr_caches := cs'\<rparr>) \<and>
      llama_cached T (lr_shape s) (lr_model s) sc n cs' \<and> llama_cached_items T (lr_shape s) (lr_model s) sc its cs'"
    if c: "llama_cached T (lr_shape s) (lr_model s) sc n cs" for cs
  proof -
    let ?s1 = "?s\<lparr>lr_caches := cs\<rparr>"
    have same: "graph_inputs ?s1 ?m gb st = ?st" by (simp add: graph_inputs_def graph_metadata_def)
    have "runner_for ?c ?s1" using fit by (simp add: runner_for_def)
    from run_graph_state_exact [OF inv its ne this n _ gb u _ _ sz(1), of T st, unfolded same] c known cuda
    show ?thesis by auto
  qed
  from run [OF cached] obtain o1 c1 where r1: "run_graph_state T ?s ?st = (Inr o1, ?s\<lparr>lr_caches := c1\<rparr>)"
    and l1: "llama_cached T (lr_shape s) (lr_model s) sc n c1" by auto
  from run [OF l1] obtain o2 c2 where r2: "run_graph_state T (?s\<lparr>lr_caches := c1\<rparr>) ?st = (Inr o2, ?s\<lparr>lr_caches := c2\<rparr>)"
    and l2: "llama_cached T (lr_shape s) (lr_model s) sc n c2" by auto
  from run [OF l2] obtain o3 c3 where r3: "run_graph_state T (?s\<lparr>lr_caches := c2\<rparr>) ?st = (Inr o3, ?s\<lparr>lr_caches := c3\<rparr>)"
    and l3: "llama_cached T (lr_shape s) (lr_model s) sc n c3" "llama_cached_items T (lr_shape s) (lr_model s) sc its c3" by auto
  let ?st' = "?st\<lparr>gs_logits := Some uninitialised, gs_graph := True\<rparr>"
  have cap: "capture_graph T uninitialised ?s ?st = (Inr ?st', ?s\<lparr>lr_caches := c3\<rparr>)"
    by (simp only: capture_graph_def r1 r2 r3 prod.case sum.case)
  have "llama_execute_cudagraph T S new_slots uninitialised s gb sz =
      (fst R, s\<lparr>lr_caches := c3, lr_graph_states := AList.update sz ?st' (lr_graph_states s), lr_rng := snd R\<rparr>)"
    using sup new fresh
    by (simp add: llama_execute_cudagraph_def st copy copy_decode_batch_graph [OF copy] cap Let_def finish_sampling_def
        R_def update_last split: prod.split)
  moreover have "graph_state_ok s ?m ?st'"
    using graph_inputs_ok [OF B(1), of ?m st] B(2) sz(1) by (simp add: graph_state_ok_def)
  moreover have "gs_graph ?st'" by simp
  ultimately show ?thesis using l3 by blast
qed

section \<open>Decode rounds on graphs\<close>

text \<open>
  C8. A captured graph replays the eager execution.  Take a decode round of the scheduler on a CUDA runner
  whose caches hold the computed positions, and a graph captured for some size that is at least the number
  of requests, whatever batches it has been replayed on before.  \<open>execute_cudagraph\<close> then returns the
  tokens \<open>execute_model\<close> would, drawn from the reference logits of each request's own tokens, leaves the
  generator as it would, and leaves caches that hold the computed and the scheduled positions of every
  running request, so the padding rows touch none of them.
\<close>

theorem llama_replay_exact:
  fixes S :: "'g sampler" and s :: "('w, 'g) llama_runner"
  assumes "sched_inv sc" and "schedule sc = (Inr out, sc')" and "its = schedule_items out" and "its \<noteq> []"
    and "runner_for (sc_config sc) s" and "num_gpu_blocks (sc_config sc) * block_size (sc_config sc) \<le> int n"
    and "llama_cached T (lr_shape s) (lr_model s) sc' n (lr_caches s)"
    and "from_worker_batch \<lparr>wb_batch_id = bid, wb_items = its\<rparr> (block_size (sc_config sc)) = Inr gb"
    and "bd_uniform_decode (descriptor gb)" and "known_tokens T (lr_model s) (0 # concat (map wi_token_ids its))"
    and "supports_cudagraph s" and "map_of (lr_graph_states s) sz = Some st" and "gs_graph st"
    and "graph_state_ok s m st" and "length its \<le> m"
  shows "\<exists>sampled rng cs cs' st'.
    (sampled, rng) = draw_tokens S (sampled_rows (\<lambda>it. reference_logits T (lr_shape s) (lr_model s)
       (tokens_of sc' (wi_request_id it))) its) [] (lr_rng s) \<and>
    llama_execute_model T S s gb = (sampled, s\<lparr>lr_caches := cs', lr_rng := rng\<rparr>) \<and>
    llama_execute_cudagraph T S new_slots uninitialised s gb sz =
      (sampled, s\<lparr>lr_caches := cs, lr_graph_states := AList.update sz st' (lr_graph_states s), lr_rng := rng\<rparr>) \<and>
    llama_cached T (lr_shape s) (lr_model s) sc' n cs \<and> llama_cached_items T (lr_shape s) (lr_model s) sc' its cs \<and>
    gs_graph st' \<and> graph_state_ok s m st'"
  using assms(1,2)
proof (cases rule: schedule_itemsE)
  case 1
  note its = 1(3) [folded assms(3)] and eq = 1(4) [symmetric]
  note hyps = 1(2) its assms(4) assms(5,6) [unfolded eq] assms(7) assms(8) [unfolded eq]
  have "known_tokens T (lr_model s) (concat (map wi_token_ids its))" using assms(10) by (simp add: known_tokens_def)
  note eager = llama_execute_exact(1) [OF hyps this, of S]
  from llama_replay_round [OF hyps assms(9-15), of S new_slots uninitialised] eager show ?thesis
    by (metis prod.collapse)
qed

text \<open>
  C9. The first execution for a capture size samples from memory nobody has written.  \<open>_capture_graph\<close>
  runs the model three times on a side stream and then records it, but kernels launched while a graph is
  captured do not run; \<open>execute_cudagraph\<close> replays a graph only if it existed before.  So for a decode
  round that is the first of its capture size the returned tokens are drawn from what the logits' memory
  held (\<open>uninitialised\<close>), for any model, prompt and cache; the caches and the captured state are as they
  should be, so later rounds are right.
\<close>

theorem first_capture_samples_unwritten:
  fixes S :: "'g sampler" and s :: "('w, 'g) llama_runner" and uninitialised :: "vec list"
  assumes "sched_inv sc" and "schedule sc = (Inr out, sc')" and "its = schedule_items out" and "its \<noteq> []"
    and "runner_for (sc_config sc) s" and "num_gpu_blocks (sc_config sc) * block_size (sc_config sc) \<le> int n"
    and "llama_cached T (lr_shape s) (lr_model s) sc' n (lr_caches s)"
    and "from_worker_batch \<lparr>wb_batch_id = bid, wb_items = its\<rparr> (block_size (sc_config sc)) = Inr gb"
    and "bd_uniform_decode (descriptor gb)" and "known_tokens T (lr_model s) (0 # concat (map wi_token_ids its))"
    and "supports_cudagraph s" and "map_of (lr_graph_states s) sz = None"
    and "length its \<le> nat sz" and "sz \<le> lr_max_num_seqs s" and "nat sz \<le> length new_slots"
  shows "\<exists>sampled rng cs st'. (sampled, rng) = sample_logits S gb uninitialised (lr_rng s) \<and>
    llama_execute_cudagraph T S new_slots uninitialised s gb sz =
      (sampled, s\<lparr>lr_caches := cs, lr_graph_states := AList.update sz st' (lr_graph_states s), lr_rng := rng\<rparr>) \<and>
    llama_cached T (lr_shape s) (lr_model s) sc' n cs \<and> llama_cached_items T (lr_shape s) (lr_model s) sc' its cs \<and>
    gs_graph st' \<and> graph_state_ok s (nat sz) st'"
  using assms(1,2)
proof (cases rule: schedule_itemsE)
  case 1
  note its = 1(3) [folded assms(3)] and eq = 1(4) [symmetric]
  note hyps = 1(2) its assms(4) assms(5,6) [unfolded eq] assms(7) assms(8) [unfolded eq]
  from llama_capture_round [OF hyps assms(9-15), of S uninitialised] show ?thesis by (metis prod.collapse)
qed

section \<open>A small round\<close>

text \<open>
  The second round of the small run, a decode of the token 7, on a CUDA runner in the same state.  The
  sampler answers 7 on the logits of the model and 3 on anything else.
\<close>

definition graph_sampler :: "unit sampler" where
  "graph_sampler = \<lparr>sm_argmax = (\<lambda>x. if x = [] then 7 else 3), sm_draw = (\<lambda>t x g. (Inr 7, g))\<rparr>"

definition demo_cuda_runner :: "(unit, unit) llama_runner" where
  "demo_cuda_runner = (wk_state (sy_worker (fold sys_step demo_events demo_system)))
     \<lparr>lr_device := ''cuda'', lr_backend := CudaAttention\<rparr>"

definition demo_decode_round :: "scheduler \<Rightarrow> schedule_out \<Rightarrow> scheduler \<Rightarrow> gpu_input_batch \<Rightarrow> bool" where
  "demo_decode_round sc out sc' gb \<longleftrightarrow> schedule sc = (Inr out, sc') \<and>
     map wi_token_ids (schedule_items out) = [[7]] \<and>
     from_worker_batch \<lparr>wb_batch_id = 2, wb_items = schedule_items out\<rparr> (block_size (sc_config sc)) = Inr gb \<and>
     bd_uniform_decode (descriptor gb) \<and> fst (sample_logits graph_sampler gb [[1]] ()) = Inr [(''a'', 3)] \<and>
     fst (draw_tokens graph_sampler (sampled_rows (\<lambda>it. reference_logits demo_fns (lr_shape demo_cuda_runner)
       (lr_model demo_cuda_runner) (tokens_of sc' (wi_request_id it))) (schedule_items out)) [] ()) = Inr [(''a'', 7)]"

lemma demo_evaluated:
  "let system = fold sys_step demo_events demo_system; s = wk_state (sy_worker system)
   in lr_max_num_seqs s \<ge> 1 \<and> lr_graph_states s = [] \<and> (case sy_core system of (co, ph) \<Rightarrow>
    (case ph of AtHead \<Rightarrow> True | _ \<Rightarrow> False) \<and>
    (case schedule (co_scheduler co) of
       (Inr out, sc') \<Rightarrow>
         (case from_worker_batch \<lparr>wb_batch_id = 2, wb_items = schedule_items out\<rparr> (block_size (sc_config (co_scheduler co))) of
            Inr gb \<Rightarrow> map wi_token_ids (schedule_items out) = [[7]] \<and> bd_uniform_decode (descriptor gb) \<and>
              fst (sample_logits graph_sampler gb [[1]] ()) = Inr [(''a'', 3)] \<and>
              fst (draw_tokens graph_sampler (sampled_rows (\<lambda>it p. []) (schedule_items out)) [] ()) = Inr [(''a'', 7)]
          | Inl e \<Rightarrow> False)
     | (Inl e, _) \<Rightarrow> False))"
  by code_simp

lemma demo_logits: "reference_logits demo_fns sh M ts = (\<lambda>p. [])"
  by (intro ext) (simp add: reference_logits_def linear_forward_def demo_fns_def)

lemma demo_round:
  obtains sc out sc' gb n where "demo_decode_round sc out sc' gb" and "sched_inv sc" and "schedule_items out \<noteq> []"
    and "runner_for (sc_config sc) demo_cuda_runner" and "num_gpu_blocks (sc_config sc) * block_size (sc_config sc) \<le> int n"
    and "llama_cached demo_fns (lr_shape demo_cuda_runner) (lr_model demo_cuda_runner) sc' n (lr_caches demo_cuda_runner)"
    and "known_tokens demo_fns (lr_model demo_cuda_runner) (0 # concat (map wi_token_ids (schedule_items out)))"
    and "length (schedule_items out) = 1"
proof -
  let ?sys = "fold sys_step demo_events demo_system"
  let ?wk = "sy_worker ?sys" and ?r = demo_cuda_runner
  obtain co ph where run: "sy_core ?sys = (co, ph)" by fastforce
  let ?sc = "co_scheduler co"
  from demo_evaluated obtain out sc' gb where ph: "ph = AtHead" and s: "schedule ?sc = (Inr out, sc')"
    and round: "demo_decode_round ?sc out sc' gb"
    unfolding run demo_decode_round_def demo_logits Let_def by (auto split: core_phase.splits prod.splits sum.splits)
  have toks: "map wi_token_ids (schedule_items out) = [[7]]" using round by (simp add: demo_decode_round_def)
  from llama_run_inv [OF demo_system_init [unfolded demo_create_def] demo_created [unfolded demo_create_def] demo_setup]
  obtain n where inv: "engine_worker.inv (llama_ready demo_fns demo_sampler (lr_shape demo_runner) (lr_model demo_runner) n)
      (\<lambda>_. True) (llama_answer demo_fns demo_sampler (lr_shape demo_runner) (lr_model demo_runner)) (\<lambda>_. True) ?sys" .
  have si: "sched_inv ?sc" and W: "llama_ready demo_fns demo_sampler (lr_shape demo_runner) (lr_model demo_runner) n ?sc ?wk"
    using llama_pair.inv_running [OF inv run] ph by simp_all
  from si s have "same_setup ?sc sc'" by (rule schedule_itemsE) (simp add: same_setup_def)
  from llama_pair.W_schedule [OF W si s this]
  have W': "llama_ready demo_fns demo_sampler (lr_shape demo_runner) (lr_model demo_runner) n sc' ?wk" .
  have wk: "lr_shape (wk_state ?wk) = lr_shape demo_runner" "lr_model (wk_state ?wk) = lr_model demo_runner"
    "runner_for (sc_config ?sc) (wk_state ?wk)" "num_gpu_blocks (sc_config ?sc) * block_size (sc_config ?sc) \<le> int n"
    using W unfolding llama_ready_def by blast+
  have same: "lr_shape ?r = lr_shape demo_runner" "lr_model ?r = lr_model demo_runner" "lr_caches ?r = lr_caches (wk_state ?wk)"
    using wk(1,2) by (simp_all add: demo_cuda_runner_def)
  have "runner_for (sc_config ?sc) ?r" using wk(3) by (simp add: demo_cuda_runner_def runner_for_def)
  moreover note wk(4)
  moreover have "llama_cached demo_fns (lr_shape ?r) (lr_model ?r) sc' n (lr_caches ?r)"
    unfolding same by (rule served_cached [where S = demo_sampler]) (use W' in \<open>simp_all add: llama_ready_def\<close>)
  moreover have "known_tokens demo_fns (lr_model ?r) (0 # concat (map wi_token_ids (schedule_items out)))"
    by (simp add: toks known_tokens_def demo_fns_def)
  moreover have "length (schedule_items out) = 1" using arg_cong [OF toks, of length] by simp
  ultimately show ?thesis using that [OF round si] by fastforce
qed

lemma demo_graph_runner: "supports_cudagraph demo_cuda_runner" "1 \<le> lr_max_num_seqs demo_cuda_runner" "lr_graph_states demo_cuda_runner = []"
  using demo_evaluated by (simp_all add: demo_cuda_runner_def supports_cudagraph_def graph_safe_def Let_def)

text \<open>With a captured graph the answer is 7, as that of the eager execution.\<close>

theorem llama_replay_exact_witness:
  "\<exists>sc out sc' gb st. demo_decode_round sc out sc' gb \<and>
     (let s = demo_cuda_runner\<lparr>lr_graph_states := [(1, st)]\<rparr>
      in fst (llama_execute_model demo_fns graph_sampler s gb) = Inr [(''a'', 7)] \<and>
         fst (llama_execute_cudagraph demo_fns graph_sampler [0] [[1]] s gb 1) = Inr [(''a'', 7)])"
proof -
  from demo_round obtain sc out sc' gb n where d: "demo_decode_round sc out sc' gb" "sched_inv sc" "schedule_items out \<noteq> []"
    and r: "runner_for (sc_config sc) demo_cuda_runner" "num_gpu_blocks (sc_config sc) * block_size (sc_config sc) \<le> int n"
      "llama_cached demo_fns (lr_shape demo_cuda_runner) (lr_model demo_cuda_runner) sc' n (lr_caches demo_cuda_runner)"
      "known_tokens demo_fns (lr_model demo_cuda_runner) (0 # concat (map wi_token_ids (schedule_items out)))"
    and l: "length (schedule_items out) = 1" by metis
  have "\<exists>st. create_graph_state demo_cuda_runner [0] 1 = Inr st"
    using demo_graph_runner(2) by (simp add: create_graph_state_def Let_def)
  then obtain st0 where st0: "create_graph_state demo_cuda_runner [0] 1 = Inr st0" ..
  let ?st = "st0\<lparr>gs_graph := True\<rparr>"
  let ?s = "demo_cuda_runner\<lparr>lr_graph_states := [(1, ?st)]\<rparr>"
  have ok: "graph_state_ok ?s 1 ?st" using create_graph_state_ok [OF st0] by (simp add: graph_state_ok_def)
  have sup: "supports_cudagraph ?s" using demo_graph_runner(1) by (simp add: supports_cudagraph_def)
  have rs: "runner_for (sc_config sc) ?s" using r(1) by (simp add: runner_for_def)
  note D = d(1) [unfolded demo_decode_round_def]
  have m: "map_of (lr_graph_states ?s) 1 = Some ?st" "gs_graph ?st" "length (schedule_items out) \<le> 1" using l by simp_all
  have "llama_cached demo_fns (lr_shape ?s) (lr_model ?s) sc' n (lr_caches ?s)"
    "known_tokens demo_fns (lr_model ?s) (0 # concat (map wi_token_ids (schedule_items out)))" using r(3,4) by simp_all
  from llama_replay_exact [OF d(2) conjunct1 [OF D] refl d(3) rs r(2) this(1) _ _ this(2) sup m(1,2) ok m(3),
      of 2 gb graph_sampler "[0]" "[[1]]"] D
  obtain sampled g cs cs' st' where x: "(sampled, g) = draw_tokens graph_sampler (sampled_rows (\<lambda>it. reference_logits
        demo_fns (lr_shape ?s) (lr_model ?s) (tokens_of sc' (wi_request_id it))) (schedule_items out)) [] (lr_rng ?s)"
    and "llama_execute_model demo_fns graph_sampler ?s gb = (sampled, ?s\<lparr>lr_caches := cs', lr_rng := g\<rparr>)"
    and "llama_execute_cudagraph demo_fns graph_sampler [0] [[1]] ?s gb 1 =
      (sampled, ?s\<lparr>lr_caches := cs, lr_graph_states := AList.update 1 st' (lr_graph_states ?s), lr_rng := g\<rparr>)"
    by blast
  moreover have "sampled = Inr [(''a'', 7)]"
    using arg_cong [OF x, of fst] D by simp
  ultimately show ?thesis using d(1) unfolding Let_def by (metis fst_conv)
qed

text \<open>The first time the answer is 3, sampled from unwritten memory, where the eager execution answers 7.\<close>

theorem first_capture_samples_unwritten_witness:
  "\<exists>sc out sc' gb. demo_decode_round sc out sc' gb \<and>
     fst (llama_execute_model demo_fns graph_sampler demo_cuda_runner gb) = Inr [(''a'', 7)] \<and>
     fst (llama_execute_cudagraph demo_fns graph_sampler [0] [[1]] demo_cuda_runner gb 1) = Inr [(''a'', 3)]"
proof -
  from demo_round obtain sc out sc' gb n where d: "demo_decode_round sc out sc' gb" "sched_inv sc" "schedule_items out \<noteq> []"
    and r: "runner_for (sc_config sc) demo_cuda_runner" "num_gpu_blocks (sc_config sc) * block_size (sc_config sc) \<le> int n"
      "llama_cached demo_fns (lr_shape demo_cuda_runner) (lr_model demo_cuda_runner) sc' n (lr_caches demo_cuda_runner)"
      "known_tokens demo_fns (lr_model demo_cuda_runner) (0 # concat (map wi_token_ids (schedule_items out)))"
    and l: "length (schedule_items out) = 1" by metis
  note D = d(1) [unfolded demo_decode_round_def]
  have known: "known_tokens demo_fns (lr_model demo_cuda_runner) (concat (map wi_token_ids (schedule_items out)))"
    using r(4) by (simp add: known_tokens_def)
  have sizes: "map_of (lr_graph_states demo_cuda_runner) (1 :: int) = None" "length (schedule_items out) \<le> nat 1" "nat 1 \<le> length [0 :: int]"
    using demo_graph_runner(3) l by simp_all
  from d(2) conjunct1 [OF D] have
    "fst (llama_execute_model demo_fns graph_sampler demo_cuda_runner gb) = Inr [(''a'', 7)]"
  proof (cases rule: schedule_itemsE)
    case 1
    from llama_execute_exact(1) [OF 1(2,3) d(3), of demo_cuda_runner n demo_fns 2 gb graph_sampler] 1(4) r D known
    show ?thesis by auto
  qed
  moreover from first_capture_samples_unwritten [OF d(2) conjunct1 [OF D] refl d(3) r(1,2,3) _ _ r(4) demo_graph_runner(1) sizes(1,2)
      demo_graph_runner(2) sizes(3), of 2 gb graph_sampler "[[1]]"] D
  obtain sampled g s' where x: "(sampled, g) = sample_logits graph_sampler gb [[1]] (lr_rng demo_cuda_runner)"
    and y: "llama_execute_cudagraph demo_fns graph_sampler [0] [[1]] demo_cuda_runner gb 1 = (sampled, s')" by blast
  have "sampled = Inr [(''a'', 3)]" using arg_cong [OF x, of fst] D by simp
  with y have "fst (llama_execute_cudagraph demo_fns graph_sampler [0] [[1]] demo_cuda_runner gb 1) = Inr [(''a'', 3)]" by simp
  ultimately show ?thesis using d(1) by blast
qed

end
