(* ===== verification/ApiServer.thy ===== *)
theory ApiServer
  imports LLMEngine Json
begin

text \<open>
  \<open>minivllm/entrypoints/api_server.py\<close>: the HTTP handler, as the status lines, documents and events it
  writes, and the options of the server.  A POST is modelled up to the submission of its request
  (\<open>post_begin\<close>); the outputs it then reads are those of the generation (\<open>generate_collect\<close>), and
  \<open>post_finish\<close> is the answer they give.  What \<open>json.loads\<close> returns and how \<open>int\<close> and \<open>float\<close> read a
  string are parameters; a write that fails because the client is gone is \<open>post_abandon\<close>.
\<close>

section \<open>What is sent\<close>

text \<open>
  A status line with the content type, a JSON document with its length, one event of a stream, and the
  mark of its end.
\<close>

datatype wire = Head int string | Body json | Event json | EventDone

fun is_head :: "wire \<Rightarrow> bool" where
  "is_head (Head status content) = True"
| "is_head _ = False"

definition send_json :: "int \<Rightarrow> json \<Rightarrow> wire list" where
  "send_json status body = [Head status ''application/json; charset=utf-8'', Body body]"

definition error_body :: "string \<Rightarrow> json" where
  "error_body m = JObj [(ascii ''error'', JStr (ascii m))]"

fun opt_float :: "real option \<Rightarrow> json" where
  "opt_float None = JNull"
| "opt_float (Some r) = JFloat (Fin r)"

definition request_metrics_json :: "request_metrics option \<Rightarrow> json" where
  "request_metrics_json m = (case m of None \<Rightarrow> JNull
     | Some m \<Rightarrow> JObj [(ascii ''time_to_first_token_s'', opt_float (rm_time_to_first_token_s m)),
         (ascii ''inter_token_latency_s'', opt_float (rm_inter_token_latency_s m)),
         (ascii ''end_to_end_latency_s'', opt_float (rm_end_to_end_latency_s m)),
         (ascii ''num_output_tokens'', JInt (int (rm_num_output_tokens m)))])"

fun reason_json :: "finish_reason option \<Rightarrow> json" where
  "reason_json None = JNull"
| "reason_json (Some STOP) = JStr (ascii ''stop'')"
| "reason_json (Some LENGTH) = JStr (ascii ''length'')"
| "reason_json (Some ABORT) = JStr (ascii ''abort'')"
| "reason_json (Some ERROR) = JStr (ascii ''error'')"

definition choice_json :: "pystr \<Rightarrow> finish_reason option \<Rightarrow> json" where
  "choice_json t reason = JObj [(ascii ''text'', JStr t), (ascii ''finish_reason'', reason_json reason), (ascii ''index'', JInt 0)]"

section \<open>do_GET\<close>

definition metrics_json :: "engine_metrics_snapshot \<Rightarrow> json" where
  "metrics_json m = JObj [(ascii ''total_batches'', JInt (int (total_batches m))),
     (ascii ''total_scheduled_tokens'', JInt (int (total_scheduled_tokens m))),
     (ascii ''total_prefill_tokens'', JInt (total_prefill_tokens m)),
     (ascii ''total_decode_tokens'', JInt (total_decode_tokens m)),
     (ascii ''total_worker_execute_time_s'', JFloat (Fin (total_worker_execute_time_s m))),
     (ascii ''average_tokens_per_batch'', JFloat (Fin (average_tokens_per_batch m)))]"

definition do_get :: "string \<Rightarrow> client \<Rightarrow> wire list" where
  "do_get path cl =
     (if path = ''/health'' then send_json 200 (JObj [(ascii ''status'', JStr (ascii ''ok''))])
      else if path = ''/metrics'' then send_json 200 (metrics_json (client_metrics cl))
      else send_json 404 (error_body ''not found''))"

section \<open>do_POST\<close>

text \<open>A request: its path, its \<open>Content-Length\<close> header, and what parsing that many bytes of it gives.\<close>

record http_request =
  hr_path :: string
  hr_content_length :: "pystr option"
  hr_body :: "int \<Rightarrow> exn + json"

fun stop_values :: "json \<Rightarrow> exn + json list" where
  "stop_values (JStr s) = Inr [JStr s]"
| "stop_values v = py_tuple v"

text \<open>The keyword arguments of \<open>SamplingParams\<close> are evaluated in order, then it validates itself.\<close>

definition completion_params :: "number_reader \<Rightarrow> json \<Rightarrow> exn + sampling_params" where
  "completion_params rd body =
     (case py_get_key body ''stop'' (JList []) of Inl e \<Rightarrow> Inl e
      | Inr stop_value \<Rightarrow>
     (case py_get_key body ''max_tokens'' (JInt 16) of Inl e \<Rightarrow> Inl e
      | Inr limit \<Rightarrow>
     (case py_int rd limit of Inl e \<Rightarrow> Inl e
      | Inr max_tokens \<Rightarrow>
     (case py_get_key body ''temperature'' (JFloat (Fin 0)) of Inl e \<Rightarrow> Inl e
      | Inr warmth \<Rightarrow>
     (case py_float rd warmth of Inl e \<Rightarrow> Inl e
      | Inr temperature \<Rightarrow>
     (case stop_values stop_value of Inl e \<Rightarrow> Inl e
      | Inr stops \<Rightarrow> sampling_params_post_init
          \<lparr>sp_max_tokens = max_tokens, sp_temperature = temperature, sp_stop = map to_pyobj stops\<rparr>))))))"

definition read_completion :: "number_reader \<Rightarrow> http_request \<Rightarrow> exn + json \<times> sampling_params \<times> bool" where
  "read_completion rd req =
     (case py_int rd (JStr (case hr_content_length req of None \<Rightarrow> ascii ''0'' | Some s \<Rightarrow> s)) of Inl e \<Rightarrow> Inl e
      | Inr n \<Rightarrow>
     (case hr_body req n of Inl e \<Rightarrow> Inl e
      | Inr body \<Rightarrow>
     (case py_item body ''prompt'' of Inl e \<Rightarrow> Inl e
      | Inr prompt \<Rightarrow>
     (case completion_params rd body of Inl e \<Rightarrow> Inl e
      | Inr params \<Rightarrow>
     (case py_get_key body ''stream'' (JBool False) of Inl e \<Rightarrow> Inl e
      | Inr stream \<Rightarrow> Inr (prompt, params, py_bool stream))))))"

text \<open>
  The exceptions \<open>do_POST\<close> turns into a response (a \<open>JSONDecodeError\<close> is a \<open>ValueError\<close>); any other one
  leaves the handler, and the connection is dropped.
\<close>

fun caught :: "exn \<Rightarrow> bool" where
  "caught (KeyError k) = True"
| "caught (TypeError m) = True"
| "caught (ValueError m) = True"
| "caught _ = False"

text \<open>
  What was sent and the exception that left the handler, if any; or the generation the handler reads,
  with the headers it has sent.
\<close>

datatype post_state =
    Done "wire list" "exn option"
  | Completing generation
  | Streaming generation

definition post_error :: "wire list \<Rightarrow> exn \<Rightarrow> wire list \<times> exn option" where
  "post_error sent e = (if caught e then (sent @ send_json 400 (error_body (str_exn e)), None) else (sent, Some e))"

fun complete_error :: "exn \<Rightarrow> wire list \<times> exn option" where
  "complete_error (RuntimeError m) = (send_json 500 (error_body m), None)"
| "complete_error e = post_error [] e"

definition stream_head :: "wire list" where
  "stream_head = [Head 200 ''text/event-stream; charset=utf-8'']"

text \<open>Up to the submission of the request, the first step of iterating over \<open>engine.generate\<close>.\<close>

definition post_begin ::
    "(nat \<Rightarrow> string) \<Rightarrow> number_reader \<Rightarrow> http_request \<Rightarrow> client \<Rightarrow> post_state \<times> client" where
  "post_begin uuid rd req cl =
     (if hr_path req \<noteq> ''/v1/completions'' then (Done (send_json 404 (error_body ''not found'')) None, cl)
      else case read_completion rd req of
        Inl e \<Rightarrow> (case post_error [] e of (sent, left) \<Rightarrow> (Done sent left, cl))
      | Inr (prompt, params, stream) \<Rightarrow>
          (case generate_start uuid cl (to_pyobj prompt) (Some params) None of
             (Inl e, cl1) \<Rightarrow>
               (case (if stream then post_error stream_head e else complete_error e) of
                  (sent, left) \<Rightarrow> (Done sent left, cl1))
           | (Inr g, cl1) \<Rightarrow> (if stream then Streaming g else Completing g, cl1)))"

section \<open>_complete and _stream\<close>

text \<open>The loop over the outputs; an output with an error raises.\<close>

fun collect_outputs ::
    "request_output list \<Rightarrow> pystr \<Rightarrow> finish_reason option \<Rightarrow> request_metrics option \<Rightarrow>
       exn + pystr \<times> finish_reason option \<times> request_metrics option" where
  "collect_outputs [] t reason m = Inr (t, reason, m)"
| "collect_outputs (out # outs) t reason m =
     (case ro_error out of
        Some (c # cs) \<Rightarrow> Inl (RuntimeError (c # cs))
      | _ \<Rightarrow> collect_outputs outs (t @ ro_text out) (ro_finish_reason out)
               (case ro_request_metrics out of None \<Rightarrow> m | Some m' \<Rightarrow> Some m'))"

definition completion_json :: "pystr \<Rightarrow> finish_reason option \<Rightarrow> request_metrics option \<Rightarrow> json" where
  "completion_json t reason m = JObj [(ascii ''object'', JStr (ascii ''text_completion'')),
     (ascii ''choices'', JList [choice_json t reason]), (ascii ''metrics'', request_metrics_json m)]"

definition complete_response :: "request_output list \<Rightarrow> wire list \<times> exn option" where
  "complete_response outs =
     (case collect_outputs outs [] None None of
        Inl e \<Rightarrow> complete_error e
      | Inr (t, reason, m) \<Rightarrow> (send_json 200 (completion_json t reason m), None))"

definition stream_response :: "request_output list \<Rightarrow> wire list" where
  "stream_response outs = stream_head @
     map (\<lambda>out. Event (JObj [(ascii ''choices'', JList [choice_json (ro_text out) (ro_finish_reason out)])])) outs @ [EventDone]"

text \<open>The whole answer, given the outputs the generation yields.\<close>

fun post_finish :: "post_state \<Rightarrow> request_output list \<Rightarrow> wire list \<times> exn option" where
  "post_finish (Done sent left) outs = (sent, left)"
| "post_finish (Completing g) outs = complete_response outs"
| "post_finish (Streaming g) outs = (stream_response outs, None)"

section \<open>Every answer\<close>

lemma post_error_heads:
  "post_error [] e = (sent, left) \<Longrightarrow> length (filter is_head sent) = (if left = None then 1 else 0)"
  by (auto simp: post_error_def send_json_def split: if_splits)

lemma complete_error_heads:
  "complete_error e = (sent, left) \<Longrightarrow> length (filter is_head sent) = (if left = None then 1 else 0)"
  by (cases e) (auto simp: send_json_def dest: post_error_heads)

definition last_metrics :: "request_output list \<Rightarrow> request_metrics option \<Rightarrow> request_metrics option" where
  "last_metrics = fold (\<lambda>out m. case ro_request_metrics out of None \<Rightarrow> m | Some m' \<Rightarrow> Some m')"

lemma collect_outputs_exact:
  "list_all (\<lambda>out. ro_error out \<in> {None, Some []}) outs \<Longrightarrow> collect_outputs outs t reason m =
     Inr (t @ concat (map ro_text outs), if outs = [] then reason else ro_finish_reason (last outs), last_metrics outs m)"
proof (induction outs arbitrary: t reason m)
  case (Cons out outs)
  have ok: "list_all (\<lambda>out. ro_error out \<in> {None, Some []}) outs" using Cons.prems by simp
  show ?case using Cons.prems Cons.IH [OF ok] by (auto simp: last_metrics_def)
qed (simp add: last_metrics_def)

lemma collect_outputs_error:
  "\<not> list_all (\<lambda>out. ro_error out \<in> {None, Some []}) outs \<Longrightarrow>
     \<exists>e. collect_outputs outs t reason m = Inl (RuntimeError e)"
  by (induction outs arbitrary: t reason m) (auto split: option.split list.split)

text \<open>Which exceptions reading a request can raise that nobody catches.\<close>

lemma py_int_uncaught: "py_int rd v = Inl e \<Longrightarrow> \<not> caught e \<Longrightarrow> \<exists>m. e = OverflowError m"
  by (cases "(rd, v)" rule: py_int.cases) (auto split: option.splits)

lemma py_float_uncaught: "py_float rd v = Inl e \<Longrightarrow> \<not> caught e \<Longrightarrow> \<exists>m. e = OverflowError m"
  by (cases "(rd, v)" rule: py_float.cases) (auto split: option.splits if_splits)

lemma stop_values_caught: "stop_values v = Inl e \<Longrightarrow> caught e"
  by (cases v) auto

lemma item_dict: "py_item body k = Inr v \<Longrightarrow> \<exists>d. body = JObj d"
  by (cases body) auto

lemma py_item_caught: "py_item body k = Inl e \<Longrightarrow> caught e"
  by (cases body) (auto split: option.splits)

lemma read_completion_uncaught:
  assumes run: "read_completion rd req = Inl e" and "\<not> caught e"
    and body: "\<And>n e. hr_body req n = Inl e \<Longrightarrow> caught e"
  shows "\<exists>m. e = OverflowError m"
proof -
  have params: "\<exists>m. e = OverflowError m" if p: "completion_params rd (JObj d) = Inl e" for d
  proof (cases "py_int rd (case map_of d (ascii ''max_tokens'') of None \<Rightarrow> JInt 16 | Some v \<Rightarrow> v)")
    case (Inl e')
    then show ?thesis using p assms(2) py_int_uncaught by (simp add: completion_params_def)
  next
    case n: (Inr n)
    show ?thesis
    proof (cases "py_float rd (case map_of d (ascii ''temperature'') of None \<Rightarrow> JFloat (Fin 0) | Some v \<Rightarrow> v)")
      case (Inl e')
      then show ?thesis using p n assms(2) py_float_uncaught by (simp add: completion_params_def)
    next
      case t: (Inr t)
      then show ?thesis using p n assms(2) stop_values_caught
        by (auto simp: completion_params_def sampling_params_post_init_def split: sum.splits if_splits)
    qed
  qed
  show ?thesis
  proof (cases "py_int rd (JStr (case hr_content_length req of None \<Rightarrow> ascii ''0'' | Some s \<Rightarrow> s))")
    case (Inl e')
    then show ?thesis using run assms(2) py_int_uncaught [OF Inl] unfolding read_completion_def
      by (simp del: py_int.simps)
  next
    case n: (Inr n)
    show ?thesis
    proof (cases "hr_body req n")
      case (Inl e')
      then show ?thesis using run n assms(2) body unfolding read_completion_def by simp
    next
      case b: (Inr b)
      show ?thesis
      proof (cases "py_item b ''prompt''")
        case (Inl e')
        then show ?thesis using run n b assms(2) py_item_caught unfolding read_completion_def by simp
      next
        case (Inr v)
        from item_dict [OF this] obtain d where "b = JObj d" ..
        then show ?thesis using run n b Inr params [of d]
          by (cases "completion_params rd b") (simp_all add: read_completion_def)
      qed
    qed
  qed
qed

section \<open>The answers of do_POST\<close>

definition statuses :: "wire list \<Rightarrow> int list" where
  "statuses sent = concat (map (\<lambda>w. case w of Head status content \<Rightarrow> [status] | _ \<Rightarrow> []) sent)"

lemma statuses_simps [simp]:
  "statuses [] = []" "statuses (xs @ ys) = statuses xs @ statuses ys"
  "statuses (send_json status body) = [status]" "statuses stream_head = [200]"
  by (simp_all add: statuses_def send_json_def stream_head_def)

lemma statuses_stream [simp]: "statuses (stream_response outs) = [200]"
proof -
  have "statuses (map (\<lambda>out. Event (f out)) outs @ [EventDone]) = []" for f
    by (induction outs) (simp_all add: statuses_def)
  then show ?thesis unfolding stream_response_def by simp
qed

lemma statuses_complete:
  "complete_response outs = (sent, left) \<Longrightarrow> left = None \<and>
     statuses sent = [if list_all (\<lambda>out. ro_error out \<in> {None, Some []}) outs then 200 else 500]"
  using collect_outputs_exact [of outs "[]" None None] collect_outputs_error [of outs "[]" None None]
  by (cases "list_all (\<lambda>out. ro_error out \<in> {None, Some []}) outs") (auto simp: complete_response_def)

lemma generate_start_refused:
  assumes "fst (generate_start uuid cl prompt params rid) = Inl e"
    and tok: "\<forall>p e. tok_encode (cl_tokenizer cl) p = Inl e \<longrightarrow> caught e"
  shows "if cl_closed cl then e = RuntimeError ''engine is closed'' else caught e"
proof -
  let ?ps = "case params of None \<Rightarrow> default_sampling_params | Some p \<Rightarrow> p"
  from assms(1) have "fst (client_submit uuid cl prompt ?ps rid) = Inl e"
    by (auto simp: generate_start_def split: prod.splits sum.splits)
  then show ?thesis
    by (cases rule: client_submit_cases [of cl uuid prompt ?ps rid]) (use tok in auto)
qed

text \<open>
  C37. Every POST is answered, and how.  A wrong path gives 404; a request that cannot be read
  gives 400 and nothing else, except that an \<open>OverflowError\<close> of \<open>int\<close> or \<open>float\<close> leaves the handler
  with nothing sent.  A completion the client refuses gives one error response: 500 once the engine is
  closed and 400 otherwise; but with \<open>stream\<close> the refusal comes after a status line of 200, so that a
  second status line, 400, is written into the event stream, or the exception leaves the handler.
  An accepted completion gives one status line: 200, or 500 if some output carries an error and the
  request does not stream.
\<close>

theorem post_answered:
  assumes "post_begin uuid rd req cl = (st, cl1)" and "post_finish st outs = (sent, left)"
    and "\<And>n e. hr_body req n = Inl e \<Longrightarrow> caught e"
    and "\<And>p e. tok_encode (cl_tokenizer cl) p = Inl e \<Longrightarrow> caught e"
  shows "if hr_path req \<noteq> ''/v1/completions'' then statuses sent = [404] \<and> left = None
    else case read_completion rd req of
      Inl e \<Rightarrow> statuses sent = [400] \<and> left = None \<or>
        sent = [] \<and> left = Some e \<and> (\<exists>m. e = OverflowError m)
    | Inr (prompt, params, stream) \<Rightarrow>
       (case fst (generate_start uuid cl (to_pyobj prompt) (Some params) None) of
          Inl e \<Rightarrow>
            if stream then (if cl_closed cl then statuses sent = [200] \<and> left = Some e
                            else statuses sent = [200, 400] \<and> left = None)
            else statuses sent = [if cl_closed cl then 500 else 400] \<and> left = None
        | Inr g \<Rightarrow> left = None \<and>
            statuses sent = [if stream \<or> list_all (\<lambda>out. ro_error out \<in> {None, Some []}) outs then 200 else 500])"
proof (cases "hr_path req = ''/v1/completions''")
  case False
  then show ?thesis using assms(1,2) by (auto simp: post_begin_def)
next
  case path: True
  show ?thesis
  proof (cases "read_completion rd req")
    case (Inl e)
    then show ?thesis using path assms(1,2) read_completion_uncaught [OF Inl _ assms(3)]
      by (auto simp: post_begin_def post_error_def split: if_splits)
  next
    case (Inr r)
    obtain prompt params stream where r: "r = (prompt, params, stream)" by (cases r)
    obtain s cl2 where s: "generate_start uuid cl (to_pyobj prompt) (Some params) None = (s, cl2)" by fastforce
    show ?thesis
    proof (cases s)
      case e: (Inl e)
      have "if cl_closed cl then e = RuntimeError ''engine is closed'' else caught e"
        by (rule generate_start_refused [where uuid = uuid and prompt = "to_pyobj prompt" and params = "Some params" and rid = None])
          (simp_all add: s e assms(4))
      then show ?thesis using path Inr r s e assms(1,2)
        by (cases e) (auto simp: post_begin_def post_error_def split: if_splits)
    next
      case g: (Inr g)
      then show ?thesis using path Inr r s assms(1,2) statuses_complete [of outs sent left]
        by (auto simp: post_begin_def split: if_splits)
    qed
  qed
qed

definition demo_reader :: number_reader where
  "demo_reader = \<lparr>read_int = (\<lambda>s. Some 0), read_float = (\<lambda>s. None)\<rparr>"

definition post_request :: "json \<Rightarrow> bool \<Rightarrow> http_request" where
  "post_request prompt stream = \<lparr>hr_path = ''/v1/completions'', hr_content_length = None,
     hr_body = (\<lambda>n. Inr (JObj [(ascii ''prompt'', prompt), (ascii ''stream'', JBool stream)]))\<rparr>"

lemma post_request_read:
  "read_completion demo_reader (post_request prompt stream) = Inr (prompt, default_sampling_params, stream)"
proof -
  have keys: "ascii ''prompt'' \<noteq> ascii ''stream''" "ascii ''stop'' \<notin> {ascii ''prompt'', ascii ''stream''}"
    "ascii ''max_tokens'' \<notin> {ascii ''prompt'', ascii ''stream''}"
    "ascii ''temperature'' \<notin> {ascii ''prompt'', ascii ''stream''}"
    by (simp_all add: ascii_def)
  show ?thesis using keys
    by (simp add: read_completion_def demo_reader_def post_request_def completion_params_def
      sampling_params_post_init_def default_sampling_params_def)
qed

theorem post_answered_witness:
  "case post_begin demo_uuid demo_reader (post_request (JInt 5) True) tiny_client of
     (st, cl) \<Rightarrow> statuses (fst (post_finish st [])) = [200, 400]"
proof -
  let ?req = "post_request (JInt 5) True"
  obtain st cl1 where b: "post_begin demo_uuid demo_reader ?req tiny_client = (st, cl1)" by fastforce
  obtain sent left where f: "post_finish st [] = (sent, left)" by fastforce
  have closed: "\<not> cl_closed tiny_client" and tok: "cl_tokenizer tiny_client = character_tokenizer"
    by (simp_all add: tiny_client_def client_init_def create_tokenizer_def tiny_config_def default_engine_config_def)
  have body: "hr_body ?req n = Inl e \<Longrightarrow> caught e" for n e by (simp add: post_request_def)
  have enc: "tok_encode (cl_tokenizer tiny_client) p = Inl e \<Longrightarrow> caught e" for p e
    unfolding tok character_tokenizer_def by (cases p) auto
  have "case fst (generate_start demo_uuid tiny_client (to_pyobj (JInt 5)) (Some default_sampling_params) None) of
      Inl e \<Rightarrow> True | Inr g \<Rightarrow> False" by code_simp
  then obtain e where "fst (generate_start demo_uuid tiny_client (to_pyobj (JInt 5)) (Some default_sampling_params) None) = Inl e"
    by (auto split: sum.splits)
  then show ?thesis using post_answered [OF b f body enc] closed unfolding post_request_read b
    by (auto simp: f post_request_def)
qed

section \<open>The text of a completion\<close>

text \<open>
  C36. A completion is the text that was generated.  Once a request that does not stream is
  accepted, other threads may do what they like; when the outputs routed for its id end with a
  final one and none carries an error, the generation the handler reads yields them all and ends, and the
  response is 200 with the concatenation of their texts, the finish reason of the final one and the
  last metrics; the request's id is free again and no abort command is sent.
\<close>

theorem completion_exact:
  assumes "client_init env config = Inr cl0" and "fold (client_step uuid) before cl0 = cl"
    and "post_begin uuid rd req cl = (Completing g, cl1)"
    and "FinishStream (ge_request_id g) \<notin> set ops" and "TakeOp (ge_stream g) \<notin> set ops"
    and "concat (map (routed_to (ge_request_id g)) ops) = outs @ [fin]"
    and "\<forall>out\<in>set outs. \<not> ro_finished out" and "ro_finished fin"
    and "\<forall>out\<in>set (outs @ [fin]). ro_error out = None"
  shows "\<exists>read g' cl'. generate_collect (length outs + 2) g (fold (client_step uuid) ops cl1) = (read, g', cl') \<and>
    post_finish (Completing g) read =
      (send_json 200 (completion_json (concat (map ro_text (outs @ [fin]))) (ro_finish_reason fin)
         (last_metrics (outs @ [fin]) None)), None) \<and>
    ge_ended g' \<and> ge_request_id g \<notin> set (dict_keys (cl_streams cl')) \<and>
    cl_command_queue cl' = cl_command_queue (fold (client_step uuid) ops cl1)"
proof -
  obtain prompt params where "generate_start uuid cl (to_pyobj prompt) (Some params) None = (Inr g, cl1)"
    using assms(3) by (auto simp: post_begin_def split: if_splits sum.splits prod.splits)
  from generation_runs [OF assms(1,2) this assms(4-8)] obtain g' cl' where
    "generate_collect (length outs + 2) g (fold (client_step uuid) ops cl1) = (outs @ [fin], g', cl')" "ge_ended g'"
    "ge_request_id g \<notin> set (dict_keys (cl_streams cl'))"
    "cl_command_queue cl' = cl_command_queue (fold (client_step uuid) ops cl1)" by blast
  moreover have "list_all (\<lambda>out. ro_error out \<in> {None, Some []}) (outs @ [fin])"
    using assms(9) by (auto simp: list_all_iff)
  from collect_outputs_exact [OF this] have
    "complete_response (outs @ [fin]) = (send_json 200 (completion_json (concat (map ro_text (outs @ [fin])))
       (ro_finish_reason fin) (last_metrics (outs @ [fin]) None)), None)"
    by (simp add: complete_response_def)
  ultimately show ?thesis by auto
qed

definition piece :: "string \<Rightarrow> pystr \<Rightarrow> bool \<Rightarrow> request_output" where
  "piece r t fin = \<lparr>ro_request_id = r, ro_token_ids = [], ro_text = t, ro_finished = fin,
     ro_finish_reason = (if fin then Some LENGTH else None), ro_error = None, ro_metrics = None, ro_request_metrics = None\<rparr>"

theorem completion_exact_witness:
  "case post_begin demo_uuid demo_reader (post_request (JStr (ascii ''hi'')) False) tiny_client of
     (Completing g, cl1) \<Rightarrow>
        post_finish (Completing g) (fst (generate_collect 3 g (fold (client_step demo_uuid)
          [Route (EvOutput (piece (ge_request_id g) (ascii ''a'') False)),
           Route (EvOutput (piece (ge_request_id g) (ascii ''b'') True))] cl1))) =
        (send_json 200 (completion_json (ascii ''ab'') (Some LENGTH) None), None)
   | _ \<Rightarrow> False"
proof -
  let ?req = "post_request (JStr (ascii ''hi'')) False"
  have "case generate_start demo_uuid tiny_client (to_pyobj (JStr (ascii ''hi''))) (Some default_sampling_params) None of
      (Inl e, cl1) \<Rightarrow> False | (Inr g, cl1) \<Rightarrow> True" by code_simp
  then obtain g cl1 where
    "generate_start demo_uuid tiny_client (to_pyobj (JStr (ascii ''hi''))) (Some default_sampling_params) None = (Inr g, cl1)"
    by (auto split: sum.splits prod.splits)
  then have b: "post_begin demo_uuid demo_reader ?req tiny_client = (Completing g, cl1)"
    unfolding post_begin_def post_request_read by (simp add: post_request_def)
  have none: "fold (client_step demo_uuid) [] tiny_client = tiny_client" by simp
  let ?a = "piece (ge_request_id g) (ascii ''a'') False" and ?b = "piece (ge_request_id g) (ascii ''b'') True"
  have "concat (map (routed_to (ge_request_id g)) [Route (EvOutput ?a), Route (EvOutput ?b)]) = [?a] @ [?b]"
    by (simp add: piece_def)
  moreover have "\<forall>out\<in>set [?a]. \<not> ro_finished out" "ro_finished ?b" "\<forall>out\<in>set ([?a] @ [?b]). ro_error out = None"
    by (simp_all add: piece_def)
  ultimately have "post_finish (Completing g) (fst (generate_collect (length [?a] + 2) g (fold (client_step demo_uuid)
      [Route (EvOutput ?a), Route (EvOutput ?b)] cl1))) =
    (send_json 200 (completion_json (concat (map ro_text ([?a] @ [?b]))) (ro_finish_reason ?b)
         (last_metrics ([?a] @ [?b]) None)), None)"
    using completion_exact [OF tiny_client_init none b, of "[Route (EvOutput ?a), Route (EvOutput ?b)]" "[?a]" ?b] by auto
  then show ?thesis unfolding b
    by (simp add: piece_def ascii_def last_metrics_def numeral_3_eq_3
      del: generate_collect.simps post_finish.simps client_step.simps)
qed

section \<open>A client that goes away\<close>

text \<open>
  A \<open>BrokenPipeError\<close> or \<open>ConnectionResetError\<close> of a write ends \<open>asyncio.run\<close>, which closes the
  generator at its \<open>yield\<close>.
\<close>

definition post_abandon :: "generation \<Rightarrow> client \<Rightarrow> client" where
  "post_abandon g cl = snd (generate_close g cl)"

lemma post_abandon_aborts:
  assumes "\<not> ge_finished g" and "\<not> ge_ended g" and "\<not> cl_closed cl"
  shows "cl_command_queue (post_abandon g cl) = cl_command_queue cl @
    [\<lparr>ec_type = ABORT_CMD, ec_request = None, ec_request_id = Some (ge_request_id g)\<rparr>]"
  using assms by (simp add: post_abandon_def generate_close_def generate_finally_def finish_stream_def client_abort_def)

section \<open>The server's options\<close>

record api_args =
  aa_host :: string
  aa_port :: int
  aa_data_parallel_size :: int
  aa_max_num_seqs :: int
  aa_max_num_batched_tokens :: int
  aa_max_model_len :: int
  aa_num_gpu_blocks :: int
  aa_backend :: string
  aa_model :: "string option"
  aa_tokenizer :: "string option"
  aa_device :: string
  aa_dtype :: string
  aa_attention_backend :: string
  aa_cudagraph_mode :: string

definition default_api_args :: api_args where
  "default_api_args = \<lparr>
     aa_host = ''127.0.0.1'', aa_port = 8000, aa_data_parallel_size = 1, aa_max_num_seqs = 32,
     aa_max_num_batched_tokens = 256, aa_max_model_len = 2048, aa_num_gpu_blocks = 256,
     aa_backend = ''reference'', aa_model = None, aa_tokenizer = None, aa_device = ''auto'',
     aa_dtype = ''auto'', aa_attention_backend = ''auto'', aa_cudagraph_mode = ''none''\<rparr>"

text \<open>The \<open>choices\<close> of the parser.\<close>

definition api_choices :: "api_args \<Rightarrow> bool" where
  "api_choices a \<longleftrightarrow> aa_backend a \<in> set [''reference'', ''cuda''] \<and>
     aa_dtype a \<in> set [''auto'', ''float32'', ''float16'', ''bfloat16''] \<and>
     aa_attention_backend a \<in> set [''auto'', ''torch'', ''custom''] \<and>
     aa_cudagraph_mode a \<in> set [''none'', ''full_decode_only'']"

definition server_config :: "api_args \<Rightarrow> exn + engine_config" where
  "server_config a = engine_config_post_init (default_engine_config\<lparr>
     data_parallel_size := aa_data_parallel_size a,
     max_num_seqs := aa_max_num_seqs a,
     max_num_batched_tokens := aa_max_num_batched_tokens a,
     max_model_len := aa_max_model_len a,
     num_gpu_blocks := aa_num_gpu_blocks a,
     worker_backend := aa_backend a,
     model_path := aa_model a,
     tokenizer_path := aa_tokenizer a,
     device := aa_device a,
     dtype := aa_dtype a,
     attention_backend := aa_attention_backend a,
     cudagraph_mode := aa_cudagraph_mode a\<rparr>)"

text \<open>
  Without options the server starts with the default configuration; the parser's choices are those
  \<open>EngineConfig\<close> accepts, so that only a number that is not positive or a device is refused.
\<close>

lemma server_config_default: "server_config default_api_args = Inr default_engine_config"
  by (simp add: server_config_def default_api_args_def default_engine_config_def engine_config_post_init_def
    config_positive_def)

lemma server_config_ok:
  assumes "api_choices a" and "0 < aa_data_parallel_size a" "0 < aa_max_num_seqs a"
    "0 < aa_max_num_batched_tokens a" "0 < aa_max_model_len a" "0 < aa_num_gpu_blocks a"
    and "aa_device a \<in> {''auto'', ''cpu''} \<or> startswith (aa_device a) ''cuda''"
  shows "\<exists>c. server_config a = Inr c"
proof -
  have sizes: "sort (remdups [1, 2, 4, 8, 16, 32 :: int]) = [1, 2, 4, 8, 16, 32]" by simp
  show ?thesis using assms sizes
    by (auto simp: server_config_def default_engine_config_def engine_config_post_init_def config_positive_def
      api_choices_def)
qed

end
